(* ===== verification/Prelude.thy ===== *)
theory Prelude
  imports Main "HOL-Library.Word" "HOL-Library.Multiset" "HOL-Library.AList"
begin

text \<open>
  Shared vocabulary of the development: the types that stand for Go's basic types, the
  result type in which a panic or a returned error is a value, the parts of the standard
  library (\<open>encoding/hex\<close>, \<open>fmt\<close>, slices) that the modelled code calls, and the generic
  lemmas on lists and maps that several components use.
\<close>

section \<open>Collections of facts\<close>

named_theorems res_simps "evaluation of the result type"
named_theorems store_simps "lookup laws of the in-memory stores"
named_theorems frame_simps "fields that an operation leaves alone"

section \<open>Basic types\<close>

text \<open>
  \<open>byte\<close> is Go's \<open>byte\<close>, \<open>u64\<close> its \<open>uint64\<close> (nonces, whose arithmetic wraps). \<open>big.Int\<close>
  balances are unbounded and are \<open>int\<close>; \<open>int64\<close> time stamps and \<open>int\<close> counters, on which the
  code does no arithmetic that can leave their range, are \<open>int\<close> as well. Addresses are the
  hex strings that the code uses as map keys.
\<close>

type_synonym byte = "8 word"
type_synonym bytes = "8 word list"
type_synonym u64 = "64 word"
type_synonym addr = string

lemma unat_byte_eq [simp]: "unat (a :: byte) = unat b \<longleftrightarrow> a = b"
  by (simp add: word_unat_eq_iff)

section \<open>Results\<close>

text \<open>
  A Go function can panic or return a non-nil \<open>error\<close>; both are values here.
\<close>

datatype failure = Panic string | Err string

type_synonym 'a res = "failure + 'a"

abbreviation index_panic :: failure where
  "index_panic \<equiv> Panic ''index out of range''"

abbreviation slice_panic :: failure where
  "slice_panic \<equiv> Panic ''slice bounds out of range''"

abbreviation make_panic :: failure where
  "make_panic \<equiv> Panic ''makeslice: cap out of range''"

abbreviation nil_panic :: failure where
  "nil_panic \<equiv> Panic ''nil dereference''"

abbreviation log_panic :: failure where
  "log_panic \<equiv> Panic ''log.Panic''"

definition bind_res :: "'a res \<Rightarrow> ('a \<Rightarrow> 'b res) \<Rightarrow> 'b res" where
  "bind_res r f = (case r of Inl e \<Rightarrow> Inl e | Inr x \<Rightarrow> f x)"

lemma bind_res_Inl [simp, res_simps]: "bind_res (Inl e) f = Inl e"
  by (simp add: bind_res_def)

lemma bind_res_Inr [simp, res_simps]: "bind_res (Inr x) f = f x"
  by (simp add: bind_res_def)

lemma bind_res_InrE:
  assumes "bind_res r f = Inr y"
  obtains x where "r = Inr x" and "f x = Inr y"
  using assms by (cases r) auto

lemma bind_res_eq_Inr: "bind_res r f = Inr y \<longleftrightarrow> (\<exists>x. r = Inr x \<and> f x = Inr y)"
  by (cases r) auto

text \<open>\<open>if err != nil \<rbrace> panic(err) \<lbrace>\<close>: a returned error becomes a panic.\<close>

fun panic_on_err :: "'a res \<Rightarrow> 'a res" where
  "panic_on_err (Inl (Err e)) = Inl (Panic e)"
| "panic_on_err r = r"

lemma panic_on_err_Inr [simp, res_simps]: "panic_on_err (Inr x) = Inr x"
  by simp

text \<open>A loop over a slice whose body may fail stops at the first failure.\<close>

fun fold_res :: "('a \<Rightarrow> 's \<Rightarrow> 's res) \<Rightarrow> 'a list \<Rightarrow> 's \<Rightarrow> 's res" where
  "fold_res f [] s = Inr s"
| "fold_res f (x # xs) s = bind_res (f x s) (fold_res f xs)"

lemma fold_res_append:
  "fold_res f (xs @ ys) s = bind_res (fold_res f xs s) (fold_res f ys)"
  by (induction xs arbitrary: s) (auto simp: bind_res_def split: sum.splits)

lemma fold_res_inv:
  assumes "fold_res f xs s = Inr s'" and "P s"
    and "\<And>x s s'. x \<in> set xs \<Longrightarrow> P s \<Longrightarrow> f x s = Inr s' \<Longrightarrow> P s'"
  shows "P s'"
  using assms
proof (induction xs arbitrary: s)
  case Nil
  then show ?case by simp
next
  case (Cons x xs)
  from Cons.prems(1) obtain s1 where s1: "f x s = Inr s1" and rest: "fold_res f xs s1 = Inr s'"
    by (auto elim: bind_res_InrE)
  from Cons.prems(3)[OF _ Cons.prems(2) s1] have "P s1" by simp
  from Cons.IH[OF rest this] Cons.prems(3) show ?case by (metis list.set_intros(2))
qed

lemma fold_res_total:
  assumes "P s" and "\<And>x s. x \<in> set xs \<Longrightarrow> P s \<Longrightarrow> \<exists>s'. f x s = Inr s' \<and> P s'"
  shows "\<exists>s'. fold_res f xs s = Inr s' \<and> P s'"
  using assms
proof (induction xs arbitrary: s)
  case Nil
  then show ?case by simp
next
  case (Cons x xs)
  from Cons.prems(2)[OF _ Cons.prems(1)] obtain s1 where "f x s = Inr s1" "P s1" by auto
  with Cons.IH[of s1] Cons.prems(2) show ?case by simp
qed

text \<open>A loop over an index, with an invariant that knows the index.\<close>

lemma fold_res_upt:
  assumes "P 0 s" and "\<And>k s. k < n \<Longrightarrow> P k s \<Longrightarrow> \<exists>s'. f k s = Inr s' \<and> P (Suc k) s'"
  shows "\<exists>s'. fold_res f [0..<n] s = Inr s' \<and> P n s'"
  using assms
proof (induction n)
  case (Suc n)
  then obtain s1 where s1: "fold_res f [0..<n] s = Inr s1" "P n s1" by auto
  with Suc.prems(2) [of n s1] show ?case by (auto simp: fold_res_append)
qed simp

text \<open>Two loops whose bodies agree up to a relation on the states agree up to it, failures included.\<close>

lemma bind_res_rel:
  assumes "rel_sum (=) R r r'" and "\<And>x y. R x y \<Longrightarrow> rel_sum (=) Q (f x) (g y)"
  shows "rel_sum (=) Q (bind_res r f) (bind_res r' g)"
  using assms by (cases r; cases r') auto

lemma fold_res_rel:
  assumes "R s t" and "\<And>x s t. x \<in> set xs \<Longrightarrow> R s t \<Longrightarrow> rel_sum (=) R (f x s) (g x t)"
  shows "rel_sum (=) R (fold_res f xs s) (fold_res g xs t)"
  using assms
proof (induction xs arbitrary: s t)
  case (Cons x xs)
  show ?case
    unfolding fold_res.simps
  proof (rule bind_res_rel)
    show "rel_sum (=) R (f x s) (g x t)" using Cons.prems by simp
    show "rel_sum (=) R (fold_res f xs s') (fold_res g xs t')" if "R s' t'" for s' t'
      by (rule Cons.IH) (use that Cons.prems in auto)
  qed
qed simp

section \<open>Slices\<close>

text \<open>\<open>xs[:n]\<close> and \<open>xs[n:]\<close> for an \<open>n\<close> that is at most the length; a negative \<open>n\<close> panics.\<close>

definition slice_to :: "'a list \<Rightarrow> int \<Rightarrow> 'a list res" where
  "slice_to xs n = (if 0 \<le> n \<and> n \<le> int (length xs) then Inr (take (nat n) xs) else Inl slice_panic)"

definition slice_from :: "'a list \<Rightarrow> int \<Rightarrow> 'a list res" where
  "slice_from xs n = (if 0 \<le> n \<and> n \<le> int (length xs) then Inr (drop (nat n) xs) else Inl slice_panic)"

text \<open>\<open>xs[i]\<close>, and \<open>xs[i] = f(xs[i])\<close>.\<close>

definition slice_at :: "'a list \<Rightarrow> int \<Rightarrow> 'a res" where
  "slice_at xs i = (if 0 \<le> i \<and> i < int (length xs) then Inr (xs ! nat i) else Inl index_panic)"

definition slice_upd :: "int \<Rightarrow> ('a \<Rightarrow> 'a) \<Rightarrow> 'a list \<Rightarrow> 'a list res" where
  "slice_upd i f xs = (if 0 \<le> i \<and> i < int (length xs) then Inr (xs[nat i := f (xs ! nat i)]) else Inl index_panic)"

lemma slice_in_range:
  assumes "0 \<le> i" "i < int (length xs)"
  shows "slice_at xs i = Inr (xs ! nat i)" "slice_upd i f xs = Inr (xs[nat i := f (xs ! nat i)])"
  using assms by (auto simp: slice_at_def slice_upd_def)

lemma slice_upd_length: "slice_upd i f xs = Inr ys \<Longrightarrow> length ys = length xs"
  by (auto simp: slice_upd_def split: if_splits)

section \<open>\<open>encoding/hex\<close>\<close>

definition hexdigit :: "nat \<Rightarrow> char" where
  "hexdigit n = (if n < 10 then char_of (48 + n) else char_of (87 + n))"

definition hex_encode :: "bytes \<Rightarrow> string" where
  "hex_encode bs = concat (map (\<lambda>b. [hexdigit (unat b div 16), hexdigit (unat b mod 16)]) bs)"

definition from_hex_char :: "char \<Rightarrow> nat option" where
  "from_hex_char c =
     (let n = (of_char c :: nat) in
      if 48 \<le> n \<and> n \<le> 57 then Some (n - 48)
      else if 97 \<le> n \<and> n \<le> 102 then Some (n - 87)
      else if 65 \<le> n \<and> n \<le> 70 then Some (n - 55)
      else None)"

text \<open>
  \<open>hex.DecodeString\<close> returns the bytes decoded before the first error, and whether there
  was none.
\<close>

fun hex_decode :: "string \<Rightarrow> bytes \<times> bool" where
  "hex_decode [] = ([], True)"
| "hex_decode [c] = ([], False)"
| "hex_decode (c # d # cs) =
     (case (from_hex_char c, from_hex_char d) of
        (Some a, Some b) \<Rightarrow>
          (let (bs, ok) = hex_decode cs in (word_of_nat (16 * a + b) # bs, ok))
      | _ \<Rightarrow> ([], False))"

lemma from_hex_hexdigit [simp]:
  assumes "n < 16" shows "from_hex_char (hexdigit n) = Some n"
proof -
  have "n \<in> {0..<16}" using assms by simp
  then have "n \<in> set [0..<16]" by simp
  then show ?thesis
    by (auto simp: upt_rec hexdigit_def from_hex_char_def)
qed

lemma hex_decode_encode [simp]: "hex_decode (hex_encode bs) = (bs, True)"
proof (induction bs)
  case Nil
  then show ?case by (simp add: hex_encode_def)
next
  case (Cons b bs)
  have lt: "unat b div 16 < 16"
    using unsigned_less [of b, where ?'a = nat] by simp
  have "word_of_nat (16 * (unat b div 16) + unat b mod 16) = b"
    by simp
  with Cons lt show ?case
    by (simp add: hex_encode_def)
qed

lemma hex_encode_inject [simp]: "hex_encode a = hex_encode b \<longleftrightarrow> a = b"
  by (metis hex_decode_encode prod.inject)

section \<open>\<open>fmt\<close>: decimal printing\<close>

definition decdigit :: "nat \<Rightarrow> char" where
  "decdigit n = char_of (48 + n)"

fun show_nat :: "nat \<Rightarrow> string" where
  "show_nat n = (if n < 10 then [decdigit n] else show_nat (n div 10) @ [decdigit (n mod 10)])"

declare show_nat.simps [simp del]

definition show_int :: "int \<Rightarrow> string" where
  "show_int i = (if i < 0 then ''-'' @ show_nat (nat (- i)) else show_nat (nat i))"

definition digits_val :: "string \<Rightarrow> nat" where
  "digits_val s = foldl (\<lambda>a c. 10 * a + (of_char c - 48)) 0 s"

lemma of_char_decdigit [simp]: "n < 10 \<Longrightarrow> (of_char (decdigit n) :: nat) = 48 + n"
  by (simp add: decdigit_def)

lemma digits_val_show_nat [simp]: "digits_val (show_nat n) = n"
proof (induction n rule: show_nat.induct)
  case (1 n)
  show ?case
  proof (cases "n < 10")
    case True
    then show ?thesis by (subst show_nat.simps) (simp add: digits_val_def)
  next
    case False
    with 1 have "digits_val (show_nat (n div 10)) = n div 10" by simp
    with False show ?thesis
      by (subst show_nat.simps) (simp add: digits_val_def)
  qed
qed

lemma show_nat_chars: "c \<in> set (show_nat n) \<Longrightarrow> 48 \<le> (of_char c :: nat) \<and> (of_char c :: nat) \<le> 57"
proof (induction n rule: show_nat.induct)
  case (1 n)
  show ?case
  proof (cases "n < 10")
    case True
    with "1.prems" show ?thesis by (subst (asm) show_nat.simps) auto
  next
    case False
    from "1.prems" False consider "c \<in> set (show_nat (n div 10))" | "c = decdigit (n mod 10)"
      by (subst (asm) show_nat.simps) auto
    then show ?thesis
    proof cases
      case 1
      with "1.IH" False show ?thesis by blast
    next
      case 2
      then show ?thesis by simp
    qed
  qed
qed

lemma show_nat_inject [simp]: "show_nat a = show_nat b \<longleftrightarrow> a = b"
  by (metis digits_val_show_nat)

lemma show_nat_no_minus: "show_nat a \<noteq> CHR ''-'' # s"
  using show_nat_chars [of "CHR ''-''" a] by auto

lemma show_int_inject [simp]: "show_int a = show_int b \<longleftrightarrow> a = b"
  using show_nat_no_minus [of "nat a"] show_nat_no_minus [of "nat b"]
  by (auto simp: show_int_def split: if_splits) (metis show_nat_no_minus)+

lemma show_int_chars:
  "c \<in> set (show_int i) \<Longrightarrow> c = CHR ''-'' \<or> (48 \<le> (of_char c :: nat) \<and> (of_char c :: nat) \<le> 57)"
  by (auto simp: show_int_def split: if_splits dest: show_nat_chars)

text \<open>
  A field that cannot contain the separator is determined by the text around it.
\<close>

lemma split_at_sep:
  assumes "s @ c # r = s' @ c # r'" and "c \<notin> set s" and "c \<notin> set s'"
  shows "s = s' \<and> r = r'"
  using assms
proof (induction s arbitrary: s')
  case Nil
  then show ?case by (cases s') auto
next
  case (Cons x xs)
  then show ?case by (cases s') auto
qed

section \<open>Maps and lists\<close>

lemma length_filter_lt_ex: "x \<in> set xs \<Longrightarrow> \<not> P x \<Longrightarrow> length (filter P xs) < length xs"
  by (rule length_filter_less) auto

lemma mset_filter_partition: "mset (filter P xs) + mset (filter (\<lambda>x. \<not> P x) xs) = mset xs"
  by (induction xs) auto

lemma map_of_update_other: "k \<noteq> k' \<Longrightarrow> map_of (AList.update k v al) k' = map_of al k'"
  by (simp add: update_conv')

lemma map_of_update_same [simp]: "map_of (AList.update k v al) k = Some v"
  by (simp add: update_conv')

end
