(* ===== verification/Nibbles.thy ===== *)
theory Nibbles
  imports Prelude
begin

text \<open>
  \<open>trie/trie_nibbles.go\<close>: keys of the trie as sequences of nibbles, one nibble per byte, their
  conversion from and to bytes, and the length of the common prefix of two keys.
\<close>

section \<open>Definitions\<close>

definition IsNibble :: "byte \<Rightarrow> bool" where
  "IsNibble n \<longleftrightarrow> unat n < 16"

definition FromNibbleByte :: "byte \<Rightarrow> byte res" where
  "FromNibbleByte n = (if \<not> IsNibble n then Inl (Err ''non-nibble byte'') else Inr n)"

fun FromNibbleBytes :: "bytes \<Rightarrow> bytes res" where
  "FromNibbleBytes [] = Inr []"
| "FromNibbleBytes (n # ns) =
     (case FromNibbleByte n of
        Inl _ \<Rightarrow> Inl (Err ''contains non-nibble byte'')
      | Inr nib \<Rightarrow> bind_res (FromNibbleBytes ns) (\<lambda>r. Inr (nib # r)))"

definition FromByte :: "byte \<Rightarrow> bytes" where
  "FromByte b = [drop_bit 4 b, b mod 16]"

definition FromBytes :: "bytes \<Rightarrow> bytes" where
  "FromBytes bs = concat (map FromByte bs)"

definition FromString :: "string \<Rightarrow> bytes" where
  "FromString s = FromBytes (map of_char s)"

definition ToPrefixed :: "bytes \<Rightarrow> bool \<Rightarrow> bytes" where
  "ToPrefixed ns isLeafNode =
     (let prefixBytes = (if length ns mod 2 > 0 then [1] else [0, 0]);
          prefixed = prefixBytes @ ns
      in if isLeafNode then prefixed[0 := prefixed ! 0 + 2] else prefixed)"

text \<open>The loop reads \<open>ns[i+1]\<close>, which is out of range at the end of an odd slice.\<close>

fun ToBytes :: "bytes \<Rightarrow> bytes res" where
  "ToBytes [] = Inr []"
| "ToBytes [n] = Inl index_panic"
| "ToBytes (n1 # n2 # ns) = bind_res (ToBytes ns) (\<lambda>buf. Inr ((push_bit 4 n1 + n2) # buf))"

fun PrefixMatchedLen :: "bytes \<Rightarrow> bytes \<Rightarrow> nat" where
  "PrefixMatchedLen (n1 # node1) (n2 # node2) =
     (if n1 = n2 then Suc (PrefixMatchedLen node1 node2) else 0)"
| "PrefixMatchedLen _ _ = 0"

section \<open>Nibbles of bytes\<close>

definition nibbles :: "bytes \<Rightarrow> bool" where
  "nibbles ns \<longleftrightarrow> list_all IsNibble ns"

lemma nibbles_simps [simp]:
  "nibbles []" "nibbles (n # ns) \<longleftrightarrow> IsNibble n \<and> nibbles ns"
  "nibbles (xs @ ys) \<longleftrightarrow> nibbles xs \<and> nibbles ys"
  by (auto simp: nibbles_def)

lemma nibbles_take [simp]: "nibbles ns \<Longrightarrow> nibbles (take k ns)"
  by (auto simp: nibbles_def list_all_iff dest: in_set_takeD)

lemma nibbles_drop [simp]: "nibbles ns \<Longrightarrow> nibbles (drop k ns)"
  by (auto simp: nibbles_def list_all_iff dest: in_set_dropD)

lemma nibbles_nth: "nibbles ns \<Longrightarrow> k < length ns \<Longrightarrow> unat (ns ! k) < 16"
  by (auto simp: nibbles_def list_all_iff IsNibble_def)

lemma unat_byte_lt [simp]: "unat (b :: byte) < 256"
  using unsigned_less [of b, where ?'a = nat] by simp

lemma FromByte_nibbles: "nibbles (FromByte b)"
  by (simp add: FromByte_def IsNibble_def drop_bit_eq_div unat_div unat_mod less_mult_imp_div_less)

lemma FromBytes_simps [simp]:
  "FromBytes [] = []" "FromBytes (b # bs) = FromByte b @ FromBytes bs"
  by (simp_all add: FromBytes_def)

lemma FromBytes_nibbles [simp]: "nibbles (FromBytes bs)"
  by (induction bs) (auto simp: FromByte_nibbles)

lemma length_FromBytes [simp]: "length (FromBytes bs) = 2 * length bs"
  by (induction bs) (auto simp: FromByte_def)

lemma FromByte_join: "push_bit 4 (drop_bit 4 b) + b mod 16 = (b :: byte)"
proof -
  have "push_bit 4 (drop_bit 4 b) + take_bit 4 b = b"
    by (simp add: bits_ident)
  moreover have "take_bit 4 b = b mod 16"
    by (simp add: take_bit_eq_mod)
  ultimately show ?thesis by simp
qed

lemma ToBytes_FromBytes: "ToBytes (FromBytes bs) = Inr bs"
  by (induction bs) (simp_all add: FromByte_def FromByte_join)

lemma FromBytes_inject [simp]: "FromBytes a = FromBytes b \<longleftrightarrow> a = b"
  by (metis ToBytes_FromBytes sum.inject(2))

lemma FromNibbleBytes_ok: "FromNibbleBytes ns = (if nibbles ns then Inr ns
    else Inl (Err ''contains non-nibble byte''))"
  by (induction ns) (auto simp: FromNibbleByte_def)

section \<open>The common prefix\<close>

lemma PrefixMatchedLen_le [simp]:
  "PrefixMatchedLen a b \<le> length a" "PrefixMatchedLen a b \<le> length b"
  by (induction a b rule: PrefixMatchedLen.induct) auto

lemma PrefixMatchedLen_take: "take (PrefixMatchedLen a b) a = take (PrefixMatchedLen a b) b"
  by (induction a b rule: PrefixMatchedLen.induct) auto

lemma PrefixMatchedLen_differ:
  "PrefixMatchedLen a b < length a \<Longrightarrow> PrefixMatchedLen a b < length b \<Longrightarrow>
   a ! PrefixMatchedLen a b \<noteq> b ! PrefixMatchedLen a b"
  by (induction a b rule: PrefixMatchedLen.induct) (auto split: if_splits)

lemma PrefixMatchedLen_maximal:
  "take k a = take k b \<Longrightarrow> k \<le> length a \<Longrightarrow> k \<le> length b \<Longrightarrow> k \<le> PrefixMatchedLen a b"
proof (induction a b arbitrary: k rule: PrefixMatchedLen.induct)
  case (1 n1 node1 n2 node2)
  then show ?case by (cases k) auto
qed auto

lemma PrefixMatchedLen_all [simp]: "PrefixMatchedLen a (a @ b) = length a"
  by (induction a) auto

lemma PrefixMatchedLen_full:
  "PrefixMatchedLen a b = length a \<longleftrightarrow> (\<exists>r. b = a @ r)"
proof
  assume "PrefixMatchedLen a b = length a"
  with PrefixMatchedLen_take [of a b] have "a = take (length a) b" by simp
  then have "b = a @ drop (length a) b" by (metis append_take_drop_id)
  then show "\<exists>r. b = a @ r" ..
next
  assume "\<exists>r. b = a @ r"
  then show "PrefixMatchedLen a b = length a" by auto
qed

lemma PrefixMatchedLen_sym: "PrefixMatchedLen a b = PrefixMatchedLen b a"
  by (induction a b rule: PrefixMatchedLen.induct) auto

lemma PrefixMatchedLen_split:
  obtains p ra rb where "a = p @ ra" "b = p @ rb" "PrefixMatchedLen a b = length p"
    "ra = [] \<or> rb = [] \<or> hd ra \<noteq> hd rb"
proof
  let ?m = "PrefixMatchedLen a b"
  show "a = take ?m a @ drop ?m a" by simp
  show "b = take ?m a @ drop ?m b"
    using PrefixMatchedLen_take [of a b] by simp
  show "?m = length (take ?m a)" by simp
  show "drop ?m a = [] \<or> drop ?m b = [] \<or> hd (drop ?m a) \<noteq> hd (drop ?m b)"
    using PrefixMatchedLen_differ [of a b] by (auto simp: hd_drop_conv_nth not_le)
qed

section \<open>Properties\<close>

text \<open>
  \<open>PrefixMatchedLen\<close> is the length of the longest common prefix: the two keys agree on that
  many nibbles, and no longer prefix is common.
\<close>

theorem PrefixMatchedLen_longest:
  "take (PrefixMatchedLen a b) a = take (PrefixMatchedLen a b) b
   \<and> PrefixMatchedLen a b = Max {k. k \<le> length a \<and> k \<le> length b \<and> take k a = take k b}"
proof
  show "take (PrefixMatchedLen a b) a = take (PrefixMatchedLen a b) b"
    by (rule PrefixMatchedLen_take)
  let ?S = "{k. k \<le> length a \<and> k \<le> length b \<and> take k a = take k b}"
  have "finite ?S" by simp
  moreover have "PrefixMatchedLen a b \<in> ?S" using PrefixMatchedLen_take [of a b] by simp
  moreover have "\<And>k. k \<in> ?S \<Longrightarrow> k \<le> PrefixMatchedLen a b"
    by (auto intro: PrefixMatchedLen_maximal)
  ultimately show "PrefixMatchedLen a b = Max ?S"
    by (metis (no_types, lifting) Max_eqI)
qed

end
