(* ===== verification/PatriciaTrie.thy ===== *)
theory PatriciaTrie
  imports Nibbles
begin

text \<open>
  \<open>trie/trie.go\<close>, \<open>trie_node.go\<close>, \<open>trie_branch.go\<close>, \<open>trie_leaf.go\<close>, \<open>trie_extension.go\<close>: the
  in-memory Merkle Patricia trie. A \<open>*Node\<close> is one of three variants, told apart by \<open>Flag\<close>;
  the fields a variant does not use stay at their zero value, so the datatype keeps only the
  used ones. A \<open>[]byte\<close> value is an \<open>option\<close>, since \<open>HasValue\<close> tells \<open>nil\<close> from a value. The
  loops of \<open>Get\<close> and \<open>Put\<close> walk down a pointer and write through it; the model recurses and
  rebuilds the path.
\<close>

section \<open>Nodes\<close>

datatype node =
    Leaf bytes "bytes option"
  | Extension bytes node
  | Branch "bytes option" "int list" "node list"

definition NewBranchNode :: node where
  "NewBranchNode = Branch None (replicate 16 (- 1)) []"

definition NewExtensionNode :: "bytes \<Rightarrow> node \<Rightarrow> node" where
  "NewExtensionNode ns nxt = Extension ns nxt"

definition NewLeafNodeFromNibbles :: "bytes \<Rightarrow> bytes option \<Rightarrow> node" where
  "NewLeafNodeFromNibbles ns value = Leaf ns value"

definition NewLeafNodeFromNibbleBytes :: "bytes \<Rightarrow> bytes option \<Rightarrow> node res" where
  "NewLeafNodeFromNibbleBytes ns value =
     (case FromNibbleBytes ns of
        Inl _ \<Rightarrow> Inl (Err ''could not leaf node from nibbles'')
      | Inr ns' \<Rightarrow> Inr (NewLeafNodeFromNibbles ns' value))"

definition NewLeafNodeFromBytes :: "bytes \<Rightarrow> bytes option \<Rightarrow> node" where
  "NewLeafNodeFromBytes key value = NewLeafNodeFromNibbles (FromBytes key) value"

section \<open>Branch nodes\<close>

text \<open>
  \<open>SetBranch\<close> on a nibble that is already set writes \<open>b.Branches[int(nibble)]\<close>, not the slot
  that \<open>Index\<close> names. Otherwise it inserts before the children of the larger nibbles.
\<close>

fun SetBranch :: "node \<Rightarrow> byte \<Rightarrow> node \<Rightarrow> node res" where
  "SetBranch (Branch v idx bs) nibble nd =
     (let i = unat nibble in
      if \<not> i < length idx then Inl index_panic
      else if idx ! i \<noteq> - 1 then
        (if i < length bs then Inr (Branch v idx (bs[i := nd])) else Inl index_panic)
      else
        (let count = length (filter (\<lambda>j. idx ! j \<noteq> - 1) [i + 1..<length idx]);
             idx' = map (\<lambda>j. if i < j \<and> idx ! j \<noteq> - 1 then idx ! j + 1 else idx ! j) [0..<length idx];
             front = length bs - count
         in if length bs < count then Inl make_panic
            else Inr (Branch v (idx'[i := int front]) (take front bs @ nd # drop front bs))))"
| "SetBranch _ nibble nd = Inl (Err ''only branch node can call SetBranch'')"

fun RemoveBranch :: "node \<Rightarrow> byte \<Rightarrow> node res" where
  "RemoveBranch (Branch v idx bs) nibble =
     (let i = unat nibble in
      if \<not> i < length idx then Inl index_panic
      else if \<not> (0 \<le> idx ! i \<and> idx ! i < int (length bs)) then Inl slice_panic
      else
        (let s = nat (idx ! i);
             bs' = take s bs @ drop (s + 1) bs;
             idx1 = idx[i := - 1];
             idx2 = map (\<lambda>j. if i < j \<and> idx1 ! j \<noteq> - 1 then idx1 ! j - 1 else idx1 ! j) [0..<length idx1]
         in Inr (Branch v idx2 bs')))"
| "RemoveBranch _ nibble = Inl (Err ''only branch node can call RemoveBranch'')"

fun SetValue :: "node \<Rightarrow> bytes option \<Rightarrow> node res" where
  "SetValue (Branch v idx bs) value = Inr (Branch value idx bs)"
| "SetValue _ value = Inl (Err ''only branch node can call SetValue'')"

fun RemoveValue :: "node \<Rightarrow> node res" where
  "RemoveValue (Branch v idx bs) = Inr (Branch None idx bs)"
| "RemoveValue _ = Inl (Err ''only branch node can call RemoveValue'')"

fun HasValue :: "node \<Rightarrow> bool res" where
  "HasValue (Branch v idx bs) = Inr (v \<noteq> None)"
| "HasValue _ = Inl (Err ''only branch node can call HasValue'')"

section \<open>Get\<close>

text \<open>
  \<open>node.Branches[node.Index[b]]\<close>: the child at a nibble, \<open>None\<close> for an index of -1, a panic for
  an index outside the slice.
\<close>

definition child_at :: "int list \<Rightarrow> node list \<Rightarrow> byte \<Rightarrow> nat option res" where
  "child_at idx bs b =
     (if \<not> unat b < length idx then Inl index_panic
      else let j = idx ! unat b in
        if j = - 1 then Inr None
        else if 0 \<le> j \<and> j < int (length bs) then Inr (Some (nat j))
        else Inl index_panic)"

lemma child_at_bound: "child_at idx bs b = Inr (Some j) \<Longrightarrow> j < length bs"
  by (auto simp: child_at_def Let_def split: if_splits)

lemma size_child_lt [termination_simp]:
  "child_at idx bs b = Inr (Some j) \<Longrightarrow> size (bs ! j) < Suc (size_list size bs)"
proof -
  assume "child_at idx bs b = Inr (Some j)"
  then have "bs ! j \<in> set bs" by (simp add: child_at_bound)
  from size_list_estimation' [OF this order_refl, where f = size] show ?thesis by simp
qed

fun nodeGet :: "node \<Rightarrow> bytes \<Rightarrow> (bytes option \<times> bool) res" where
  "nodeGet (Leaf ks v) nibs =
     (let matched = PrefixMatchedLen ks nibs in
      if matched \<noteq> length ks \<or> matched \<noteq> length nibs then Inr (None, False) else Inr (v, True))"
| "nodeGet (Branch v idx bs) [] = Inr (v, v \<noteq> None)"
| "nodeGet (Branch v idx bs) (b # remaining) =
     (case child_at idx bs b of
        Inl e \<Rightarrow> Inl e
      | Inr None \<Rightarrow> Inr (None, False)
      | Inr (Some j) \<Rightarrow> nodeGet (bs ! j) remaining)"
| "nodeGet (Extension ks nxt) nibs =
     (let matched = PrefixMatchedLen ks nibs in
      if matched < length ks then Inr (None, False) else nodeGet nxt (drop matched nibs))"

type_synonym trie = "node option"

definition NewTrie :: trie where
  "NewTrie = None"

definition IsEmptyNode :: "trie \<Rightarrow> bool" where
  "IsEmptyNode n \<longleftrightarrow> n = None"

definition Get :: "trie \<Rightarrow> bytes \<Rightarrow> (bytes option \<times> bool) res" where
  "Get t key = (case t of None \<Rightarrow> Inr (None, False) | Some n \<Rightarrow> nodeGet n (FromBytes key))"

section \<open>Put\<close>

text \<open>The leaf case: the leaf and the new pair share a branch under their common prefix.\<close>

definition splitLeaf :: "bytes \<Rightarrow> bytes option \<Rightarrow> bytes \<Rightarrow> bytes option \<Rightarrow> node res" where
  "splitLeaf ks v nibs value =
     (let matched = PrefixMatchedLen ks nibs in
      if matched = length nibs \<and> matched = length ks then Inr (NewLeafNodeFromNibbles ks value)
      else
        bind_res (if matched = length ks then panic_on_err (SetValue NewBranchNode v)
                  else Inr NewBranchNode) (\<lambda>br1.
        bind_res (if matched = length nibs then panic_on_err (SetValue br1 value) else Inr br1) (\<lambda>br2.
        bind_res (if matched < length ks
                  then panic_on_err (SetBranch br2 (ks ! matched)
                         (NewLeafNodeFromNibbles (drop (matched + 1) ks) v))
                  else Inr br2) (\<lambda>br3.
        bind_res (if matched < length nibs
                  then panic_on_err (SetBranch br3 (nibs ! matched)
                         (NewLeafNodeFromNibbles (drop (matched + 1) nibs) value))
                  else Inr br3) (\<lambda>br4.
        Inr (if matched > 0 then NewExtensionNode (take matched ks) br4 else br4))))))"

text \<open>
  The extension case when the key leaves the extension half way. The code reads
  \<open>nibbles[matched]\<close> without a test that the key goes on: a key that ends inside the extension
  panics.
\<close>

definition splitExtension :: "bytes \<Rightarrow> node \<Rightarrow> bytes \<Rightarrow> bytes option \<Rightarrow> node res" where
  "splitExtension ks nxt nibs value =
     (let matched = PrefixMatchedLen ks nibs;
          extNibbles = take matched ks;
          extRemainingnibbles = drop (matched + 1) ks
      in if \<not> matched < length nibs then Inl index_panic
      else
        bind_res (if extRemainingnibbles = []
                  then panic_on_err (SetBranch NewBranchNode (ks ! matched) nxt)
                  else panic_on_err (SetBranch NewBranchNode (ks ! matched)
                         (NewExtensionNode extRemainingnibbles nxt))) (\<lambda>br1.
        bind_res (panic_on_err (SetBranch br1 (nibs ! matched)
                         (NewLeafNodeFromNibbles (drop (matched + 1) nibs) value))) (\<lambda>br2.
        Inr (if extNibbles = [] then br2 else NewExtensionNode extNibbles br2))))"

fun nodePut :: "node \<Rightarrow> bytes \<Rightarrow> bytes option \<Rightarrow> node res" where
  "nodePut (Leaf ks v) nibs value = splitLeaf ks v nibs value"
| "nodePut (Branch v idx bs) [] value = panic_on_err (SetValue (Branch v idx bs) value)"
| "nodePut (Branch v idx bs) (b # remaining) value =
     (case child_at idx bs b of
        Inl e \<Rightarrow> Inl e
      | Inr None \<Rightarrow>
          Inr (Branch v (idx[unat b := int (length bs)]) (bs @ [NewLeafNodeFromNibbles remaining value]))
      | Inr (Some j) \<Rightarrow>
          bind_res (nodePut (bs ! j) remaining value) (\<lambda>n. Inr (Branch v idx (bs[j := n]))))"
| "nodePut (Extension ks nxt) nibs value =
     (let matched = PrefixMatchedLen ks nibs in
      if matched < length ks then splitExtension ks nxt nibs value
      else bind_res (nodePut nxt (drop matched nibs) value) (\<lambda>n. Inr (Extension ks n)))"

definition Put :: "trie \<Rightarrow> bytes \<Rightarrow> bytes option \<Rightarrow> trie res" where
  "Put t key value =
     (case t of
        None \<Rightarrow> Inr (Some (NewLeafNodeFromNibbles (FromBytes key) value))
      | Some n \<Rightarrow> bind_res (nodePut n (FromBytes key) value) (\<lambda>n'. Inr (Some n')))"

end
