(* ===== verification/TriePut.thy ===== *)
theory TriePut
  imports PatriciaTrie
begin

text \<open>
  The abstract view of the trie (a map from nibble keys to values), its well-formedness
  invariant, and the refinement proof for \<open>Put\<close>: a \<open>Put\<close> that returns updates exactly one key.
\<close>

section \<open>Well-formed branches\<close>

text \<open>
  The non-negative entries of \<open>Index\<close> are a one-to-one numbering of \<open>Branches\<close>.
\<close>

definition idx_ok :: "int list \<Rightarrow> node list \<Rightarrow> bool" where
  "idx_ok idx bs \<longleftrightarrow> length idx = 16
     \<and> (\<forall>i<16. idx ! i = - 1 \<or> 0 \<le> idx ! i \<and> idx ! i < int (length bs))
     \<and> (\<forall>i<16. \<forall>j<16. idx ! i = idx ! j \<and> idx ! i \<noteq> - 1 \<longrightarrow> i = j)
     \<and> (\<forall>k<length bs. \<exists>i<16. idx ! i = int k)"

definition kid :: "int list \<Rightarrow> node list \<Rightarrow> byte \<Rightarrow> node option" where
  "kid idx bs b = (case child_at idx bs b of Inr (Some j) \<Rightarrow> Some (bs ! j) | _ \<Rightarrow> None)"

lemma child_at_ok:
  assumes "idx_ok idx bs" "IsNibble b"
  shows "child_at idx bs b =
    (if idx ! unat b = - 1 then Inr None else Inr (Some (nat (idx ! unat b))))"
proof -
  have "unat b < length idx" using assms by (simp add: idx_ok_def IsNibble_def)
  moreover have "idx ! unat b \<noteq> - 1 \<Longrightarrow> 0 \<le> idx ! unat b \<and> idx ! unat b < int (length bs)"
    using assms by (auto simp: idx_ok_def IsNibble_def)
  ultimately show ?thesis
    by (simp add: child_at_def Let_def)
qed

lemma nodeGet_branch:
  assumes "idx_ok idx bs" "IsNibble b"
  shows "nodeGet (Branch v idx bs) (b # ks) =
    (case kid idx bs b of None \<Rightarrow> Inr (None, False) | Some n \<Rightarrow> nodeGet n ks)"
  using assms by (simp add: child_at_ok kid_def)

lemma kid_Some: "kid idx bs b = Some n \<Longrightarrow> n \<in> set bs"
  by (auto simp: kid_def dest: child_at_bound split: sum.splits option.splits)

text \<open>Writing through the index of a nibble changes the child of that nibble only.\<close>

lemma idx_ok_update [simp]: "idx_ok idx (bs[j := n]) = idx_ok idx bs"
  by (simp add: idx_ok_def)

lemma kid_update:
  assumes "idx_ok idx bs" "IsNibble b" "IsNibble c" "child_at idx bs b = Inr (Some j)"
  shows "kid idx (bs[j := n]) c = (if c = b then Some n else kid idx bs c)"
proof -
  have eq: "idx ! unat c = idx ! unat b \<Longrightarrow> idx ! unat c \<noteq> - 1 \<Longrightarrow> c = b"
    using assms(1-3) by (simp add: idx_ok_def IsNibble_def) (metis unat_byte_eq)
  from assms(1,2,4) have j: "j = nat (idx ! unat b)" "idx ! unat b \<noteq> - 1"
    by (auto simp: child_at_ok split: if_splits)
  from assms(1,2) j have nonneg: "0 \<le> idx ! unat b" "j < length bs"
    using child_at_bound [OF assms(4)] by (auto simp: idx_ok_def IsNibble_def)
  have c0: "idx ! unat c \<noteq> - 1 \<Longrightarrow> 0 \<le> idx ! unat c"
    using assms(1,3) by (auto simp: idx_ok_def IsNibble_def)
  show ?thesis
  proof (cases "c = b")
    case True
    with assms(1-3) j nonneg show ?thesis by (simp add: kid_def child_at_ok)
  next
    case False
    then have "idx ! unat c \<noteq> - 1 \<Longrightarrow> nat (idx ! unat b) \<noteq> nat (idx ! unat c)"
      using eq c0 nonneg(1) nat_eq_iff2 by fastforce
    with False assms(1-3) j show ?thesis by (simp add: kid_def child_at_ok)
  qed
qed

text \<open>\<open>Put\<close> appends the first child of a nibble and records its position.\<close>

lemma idx_ok_append:
  assumes "idx_ok idx bs" "IsNibble b" "idx ! unat b = - 1"
  shows "idx_ok (idx[unat b := int (length bs)]) (bs @ [n])"
proof -
  let ?idx = "idx[unat b := int (length bs)]"
  have len: "length idx = 16" and ub: "unat b < 16"
    using assms by (auto simp: idx_ok_def IsNibble_def)
  have rng: "\<forall>i<16. idx ! i = - 1 \<or> 0 \<le> idx ! i \<and> idx ! i < int (length bs)"
    and inj: "\<forall>i<16. \<forall>j<16. idx ! i = idx ! j \<and> idx ! i \<noteq> - 1 \<longrightarrow> i = j"
    and sur: "\<forall>k<length bs. \<exists>i<16. idx ! i = int k"
    using assms(1) by (auto simp: idx_ok_def)
  have nth: "?idx ! i = (if i = unat b then int (length bs) else idx ! i)" if "i < 16" for i
    using that len by (simp add: nth_list_update)
  have 1: "\<forall>i<16. ?idx ! i = - 1 \<or> 0 \<le> ?idx ! i \<and> ?idx ! i < int (length (bs @ [n]))"
  proof (intro allI impI)
    fix i :: nat assume "i < 16"
    with rng have "idx ! i = - 1 \<or> 0 \<le> idx ! i \<and> idx ! i < int (length bs)" by blast
    with \<open>i < 16\<close> show "?idx ! i = - 1 \<or> 0 \<le> ?idx ! i \<and> ?idx ! i < int (length (bs @ [n]))"
      by (simp only: nth) auto
  qed
  have 2: "\<forall>i<16. \<forall>j<16. ?idx ! i = ?idx ! j \<and> ?idx ! i \<noteq> - 1 \<longrightarrow> i = j"
  proof (intro allI impI)
    fix i j :: nat assume lt: "i < 16" "j < 16" and eq: "?idx ! i = ?idx ! j \<and> ?idx ! i \<noteq> - 1"
    from rng lt have "idx ! i \<noteq> int (length bs)" "idx ! j \<noteq> int (length bs)" by force+
    with eq lt show "i = j"
      using inj by (simp only: nth) (metis (full_types))
  qed
  have 3: "\<exists>i<16. ?idx ! i = int k" if "k < length (bs @ [n])" for k
  proof (cases "k = length bs")
    case True
    then show ?thesis using ub by (intro exI [of _ "unat b"]) (simp add: nth)
  next
    case False
    with that have "k < length bs" by simp
    with sur obtain i where "i < 16" "idx ! i = int k" by blast
    moreover then have "i \<noteq> unat b" using assms(3) by auto
    ultimately show ?thesis by (auto simp: nth)
  qed
  from len 1 2 3 show ?thesis by (simp add: idx_ok_def)
qed

lemma kid_append:
  assumes "idx_ok idx bs" "IsNibble b" "IsNibble c" "idx ! unat b = - 1"
  shows "kid (idx[unat b := int (length bs)]) (bs @ [n]) c = (if c = b then Some n else kid idx bs c)"
proof -
  note ok = idx_ok_append [OF assms(1,2,4), of n]
  have len: "length idx = 16" using assms(1) by (simp add: idx_ok_def)
  have lt: "unat b < 16" "unat c < 16" using assms by (auto simp: IsNibble_def)
  have rng: "idx ! unat c = - 1 \<or> 0 \<le> idx ! unat c \<and> idx ! unat c < int (length bs)"
    using assms(1) lt by (simp add: idx_ok_def)
  show ?thesis
  proof (cases "c = b")
    case True
    with assms(2) ok len lt show ?thesis
      by (simp add: kid_def child_at_ok)
  next
    case False
    then have ne: "unat c \<noteq> unat b" by simp
    with len have "idx[unat b := int (length bs)] ! unat c = idx ! unat c" by simp
    with False assms(1,3) ok rng show ?thesis
      by (auto simp: kid_def child_at_ok nth_append)
  qed
qed

section \<open>Branches with one and two children\<close>

definition branch1 :: "bytes option \<Rightarrow> byte \<Rightarrow> node \<Rightarrow> node" where
  "branch1 v a x = Branch v ((replicate 16 (- 1))[unat a := 0]) [x]"

definition branch2 :: "bytes option \<Rightarrow> byte \<Rightarrow> node \<Rightarrow> byte \<Rightarrow> node \<Rightarrow> node" where
  "branch2 v a x b y =
     (if unat b < unat a
      then Branch v ((replicate 16 (- 1))[unat a := 1, unat b := 0]) [y, x]
      else Branch v ((replicate 16 (- 1))[unat a := 0, unat b := 1]) [x, y])"

lemma length_filter_eq_upt:
  "length (filter (\<lambda>j. j = k) [m..<n]) = (if m \<le> k \<and> k < n then 1 else 0)"
  by (induction n) (auto simp: less_Suc_eq)

lemma SetBranch_first:
  assumes "IsNibble a"
  shows "SetBranch (Branch v (replicate 16 (- 1)) []) a x = Inr (branch1 v a x)"
proof -
  let ?r = "replicate 16 (- 1 :: int)"
  have "map (\<lambda>j. if unat a < j \<and> ?r ! j \<noteq> - 1 then ?r ! j + 1 else ?r ! j) [0..<16] = ?r"
    by (rule nth_equalityI) auto
  moreover have "filter (\<lambda>j. ?r ! j \<noteq> - 1) [unat a + 1..<16] = []"
    by (auto simp: filter_empty_conv)
  ultimately show ?thesis
    using assms by (simp add: branch1_def IsNibble_def Let_def del: replicate.simps upt.simps)
qed

lemma SetBranch_second:
  assumes "IsNibble a" "IsNibble b" "a \<noteq> b"
  shows "SetBranch (branch1 v a x) b y = Inr (branch2 v a x b y)"
proof -
  let ?idx = "(replicate 16 (- 1 :: int))[unat a := 0]"
  have lt: "unat a < 16" "unat b < 16" and ne: "unat a \<noteq> unat b"
    using assms by (auto simp: IsNibble_def)
  have set_iff: "?idx ! j \<noteq> - 1 \<longleftrightarrow> j = unat a" if "j < 16" for j
    using that lt by (auto simp: nth_list_update)
  have "filter (\<lambda>j. ?idx ! j \<noteq> - 1) [unat b + 1..<16] = filter (\<lambda>j. j = unat a) [unat b + 1..<16]"
    by (rule filter_cong) (use set_iff in auto)
  then have count: "length (filter (\<lambda>j. ?idx ! j \<noteq> - 1) [unat b + 1..<16])
      = (if unat b < unat a then 1 else 0)"
    using lt by (simp add: length_filter_eq_upt)
  have bumped: "map (\<lambda>j. if unat b < j \<and> ?idx ! j \<noteq> - 1 then ?idx ! j + 1 else ?idx ! j) [0..<16]
      = (if unat b < unat a then (replicate 16 (- 1))[unat a := 1] else ?idx)"
    using lt by (intro nth_equalityI) (auto simp: nth_list_update)
  have "?idx ! unat b = - 1" using lt ne by (simp add: nth_list_update)
  then show ?thesis
    using lt ne count bumped
    by (simp add: branch1_def branch2_def Let_def del: replicate.simps upt.simps)
qed

lemma branch1_cases: "branch1 v a x = Branch v ((replicate 16 (- 1))[unat a := 0]) [x]"
  by (simp add: branch1_def)

lemma idx_ok_branch1:
  assumes "IsNibble a" shows "idx_ok ((replicate 16 (- 1))[unat a := 0]) [x]"
  using idx_ok_append [of "replicate 16 (- 1)" "[]" a x] assms
  by (simp add: idx_ok_def IsNibble_def del: replicate.simps)

lemma kid_none: "IsNibble c \<Longrightarrow> kid (replicate 16 (- 1)) [] c = None"
  by (simp add: kid_def child_at_def IsNibble_def Let_def)

lemma kid_branch1:
  assumes "IsNibble a" "IsNibble c"
  shows "kid ((replicate 16 (- 1))[unat a := 0]) [x] c = (if c = a then Some x else None)"
  using kid_append [of "replicate 16 (- 1)" "[]" a c x] assms
  by (simp add: idx_ok_def IsNibble_def kid_none del: replicate.simps)

lemma branch2_shape:
  assumes "IsNibble a" "IsNibble b" "a \<noteq> b"
  obtains idx bs where "branch2 v a x b y = Branch v idx bs" "idx_ok idx bs" "set bs = {x, y}"
    "length bs = 2"
    "\<And>c. IsNibble c \<Longrightarrow> kid idx bs c = (if c = a then Some x else if c = b then Some y else None)"
proof (cases "unat b < unat a")
  case True
  let ?r = "replicate 16 (- 1 :: int)"
  have ne: "unat a \<noteq> unat b" and lt: "unat a < 16" "unat b < 16"
    using assms by (auto simp: IsNibble_def)
  have swap: "?r[unat a := 1, unat b := 0] = (?r[unat b := 0])[unat a := int (length [y])]"
    using ne by (simp add: list_update_swap)
  have free: "?r[unat b := 0] ! unat a = - 1" using ne lt by simp
  show ?thesis
  proof (rule that)
    show "branch2 v a x b y = Branch v ((?r[unat b := 0])[unat a := int (length [y])]) ([y] @ [x])"
      using True swap by (simp add: branch2_def)
    show "idx_ok ((?r[unat b := 0])[unat a := int (length [y])]) ([y] @ [x])"
      by (rule idx_ok_append [OF idx_ok_branch1 [OF assms(2)] assms(1) free])
    show "set ([y] @ [x]) = {x, y}" by auto
    show "length ([y] @ [x]) = 2" by simp
    show "kid ((?r[unat b := 0])[unat a := int (length [y])]) ([y] @ [x]) c =
        (if c = a then Some x else if c = b then Some y else None)" if "IsNibble c" for c
      using that assms
      by (subst kid_append [OF idx_ok_branch1 [OF assms(2)] assms(1) that free])
        (simp add: kid_branch1 del: replicate.simps)
  qed
next
  case False
  let ?r = "replicate 16 (- 1 :: int)"
  have ne: "unat a \<noteq> unat b" and lt: "unat a < 16" "unat b < 16"
    using assms by (auto simp: IsNibble_def)
  have free: "?r[unat a := 0] ! unat b = - 1" using ne lt by simp
  show ?thesis
  proof (rule that)
    show "branch2 v a x b y = Branch v ((?r[unat a := 0])[unat b := int (length [x])]) ([x] @ [y])"
      using False by (simp add: branch2_def)
    show "idx_ok ((?r[unat a := 0])[unat b := int (length [x])]) ([x] @ [y])"
      by (rule idx_ok_append [OF idx_ok_branch1 [OF assms(1)] assms(2) free])
    show "set ([x] @ [y]) = {x, y}" by auto
    show "length ([x] @ [y]) = 2" by simp
    show "kid ((?r[unat a := 0])[unat b := int (length [x])]) ([x] @ [y]) c =
        (if c = a then Some x else if c = b then Some y else None)" if "IsNibble c" for c
      using that assms
      by (subst kid_append [OF idx_ok_branch1 [OF assms(1)] assms(2) that free])
        (simp add: kid_branch1 del: replicate.simps)
  qed
qed

section \<open>Looking keys up in the node shapes that \<open>Put\<close> builds\<close>

abbreviation absent :: "(bytes option \<times> bool) res" where
  "absent \<equiv> Inr (None, False)"

lemma nodeGet_leaf: "nodeGet (Leaf ks v) q = (if q = ks then Inr (v, True) else absent)"
proof -
  obtain p ra rb where "ks = p @ ra" "q = p @ rb" "PrefixMatchedLen ks q = length p"
    "ra = [] \<or> rb = [] \<or> hd ra \<noteq> hd rb"
    by (rule PrefixMatchedLen_split [of ks q])
  then show ?thesis by (cases ra; cases rb) (auto simp: Let_def)
qed

lemma nodeGet_extension:
  "nodeGet (Extension ks n) q =
    (if take (length ks) q = ks then nodeGet n (drop (length ks) q) else absent)"
proof (cases "take (length ks) q = ks")
  case True
  then have "PrefixMatchedLen ks q = length ks"
    by (metis PrefixMatchedLen_all append_take_drop_id)
  with True show ?thesis by simp
next
  case False
  then have "PrefixMatchedLen ks q \<noteq> length ks"
    using PrefixMatchedLen_take [of ks q] by auto
  then have "PrefixMatchedLen ks q < length ks"
    using PrefixMatchedLen_le(1) [of ks q] by linarith
  with False show ?thesis by simp
qed

declare nodeGet.simps [simp del]
lemmas nodeGet_nil = nodeGet.simps(2)

text \<open>\<open>pre p n\<close> is \<open>n\<close> behind an extension, if there are nibbles to share.\<close>

definition pre :: "bytes \<Rightarrow> node \<Rightarrow> node" where
  "pre p n = (if p = [] then n else Extension p n)"

lemma nodeGet_pre:
  "nodeGet (pre p n) q =
    (if take (length p) q = p then nodeGet n (drop (length p) q) else absent)"
  by (simp add: pre_def nodeGet_extension)

lemma nodeGet_pre_append [simp]: "nodeGet (pre p n) (p @ r) = nodeGet n r"
  by (simp add: nodeGet_pre)

lemma nodeGet_branch1:
  assumes "IsNibble a" "nibbles q"
  shows "nodeGet (branch1 v a x) q =
    (case q of [] \<Rightarrow> Inr (v, v \<noteq> None) | c # r \<Rightarrow> if c = a then nodeGet x r else absent)"
  using assms
  by (cases q) (simp_all add: branch1_def nodeGet_branch nodeGet_nil idx_ok_branch1
      kid_branch1 del: replicate.simps)

lemma nodeGet_branch2:
  assumes "IsNibble a" "IsNibble b" "a \<noteq> b" "nibbles q"
  shows "nodeGet (branch2 v a x b y) q =
    (case q of [] \<Rightarrow> Inr (v, v \<noteq> None)
     | c # r \<Rightarrow> if c = a then nodeGet x r else if c = b then nodeGet y r else absent)"
proof -
  obtain idx bs where "branch2 v a x b y = Branch v idx bs" "idx_ok idx bs"
    "\<And>c. IsNibble c \<Longrightarrow> kid idx bs c = (if c = a then Some x else if c = b then Some y else None)"
    using branch2_shape [OF assms(1-3)] by metis
  with assms(4) show ?thesis
    by (cases q) (simp_all add: nodeGet_branch nodeGet_nil)
qed

section \<open>The nodes that a split builds\<close>

lemma splitLeaf_eq:
  assumes "nibbles ra" "nibbles rb" "ra = [] \<or> rb = [] \<or> hd ra \<noteq> hd rb"
    and len: "PrefixMatchedLen (p @ ra) (p @ rb) = length p"
  shows "splitLeaf (p @ ra) v (p @ rb) w =
    (case (ra, rb) of
       ([], []) \<Rightarrow> Inr (Leaf p w)
     | ([], b # rb') \<Rightarrow> Inr (pre p (branch1 v b (Leaf rb' w)))
     | (a # ra', []) \<Rightarrow> Inr (pre p (branch1 w a (Leaf ra' v)))
     | (a # ra', b # rb') \<Rightarrow> Inr (pre p (branch2 None a (Leaf ra' v) b (Leaf rb' w))))"
  using assms
  by (cases ra; cases rb)
    (auto simp: splitLeaf_def Let_def len NewBranchNode_def NewLeafNodeFromNibbles_def
      NewExtensionNode_def SetBranch_first SetBranch_second pre_def
      simp del: replicate.simps SetBranch.simps)

lemma splitExtension_eq:
  assumes "nibbles (a # ra)" "nibbles (b # rb)" "a \<noteq> b"
    and len: "PrefixMatchedLen (p @ a # ra) (p @ b # rb) = length p"
  shows "splitExtension (p @ a # ra) nxt (p @ b # rb) w =
    Inr (pre p (branch2 None a (pre ra nxt) b (Leaf rb w)))"
  using assms
  by (auto simp: splitExtension_def Let_def len NewBranchNode_def NewLeafNodeFromNibbles_def
      NewExtensionNode_def SetBranch_first SetBranch_second pre_def
      simp del: replicate.simps SetBranch.simps)

section \<open>\<open>Put\<close> refines map update\<close>

fun trie_ok :: "node \<Rightarrow> bool" where
  "trie_ok (Leaf ks v) \<longleftrightarrow> nibbles ks \<and> v \<noteq> None"
| "trie_ok (Extension ks n) \<longleftrightarrow> nibbles ks \<and> ks \<noteq> [] \<and> trie_ok n"
| "trie_ok (Branch v idx bs) \<longleftrightarrow> idx_ok idx bs \<and> (\<forall>b \<in> set bs. trie_ok b)"

lemma trie_ok_pre: "trie_ok (pre p n) \<longleftrightarrow> trie_ok n \<and> nibbles p"
  by (auto simp: pre_def)

lemma trie_ok_branch1: "IsNibble a \<Longrightarrow> trie_ok (branch1 v a x) \<longleftrightarrow> trie_ok x"
  by (simp add: branch1_def idx_ok_branch1 del: replicate.simps)

lemma trie_ok_branch2:
  assumes "IsNibble a" "IsNibble b" "a \<noteq> b"
  shows "trie_ok (branch2 v a x b y) \<longleftrightarrow> trie_ok x \<and> trie_ok y"
  by (rule branch2_shape [OF assms, of v x y]) auto

lemmas split_shapes = nodeGet_leaf nodeGet_pre nodeGet_branch1 nodeGet_branch2
  trie_ok_pre trie_ok_branch1 trie_ok_branch2

definition put_post :: "node \<Rightarrow> bytes \<Rightarrow> bytes \<Rightarrow> node \<Rightarrow> bool" where
  "put_post n nibs w n' \<longleftrightarrow> trie_ok n'
     \<and> (\<forall>q. nibbles q \<longrightarrow> nodeGet n' q = (if q = nibs then Inr (Some w, True) else nodeGet n q))"

lemma take_eq_append: "take (length p) q = p \<longleftrightarrow> (\<exists>r. q = p @ r)"
  by (metis append_eq_conv_conj append_take_drop_id)

lemma nodeGet_outside:
  "\<nexists>r. q = p @ r \<Longrightarrow> nodeGet (pre p n) q = absent"
  "\<nexists>r. q = p @ r \<Longrightarrow> nodeGet (Extension (p @ s) n) q = absent"
proof -
  assume no: "\<nexists>r. q = p @ r"
  then show "nodeGet (pre p n) q = absent" by (simp add: nodeGet_pre take_eq_append)
  from no have "\<nexists>r. q = (p @ s) @ r" by simp
  then show "nodeGet (Extension (p @ s) n) q = absent"
    by (metis nodeGet_extension take_eq_append)
qed

lemma nodeGet_extension_append:
  "nodeGet (Extension (p @ s) n) (p @ r) = nodeGet (Extension s n) r"
  by (simp add: nodeGet_extension)

lemma splitLeaf_post:
  assumes "trie_ok (Leaf ks v)" "nibbles nibs"
  shows "\<exists>n'. splitLeaf ks v nibs (Some w) = Inr n' \<and> put_post (Leaf ks v) nibs w n'"
proof -
  obtain p ra rb where s: "ks = p @ ra" "nibs = p @ rb"
    and len: "PrefixMatchedLen ks nibs = length p"
    and hd: "ra = [] \<or> rb = [] \<or> hd ra \<noteq> hd rb"
    by (rule PrefixMatchedLen_split [of ks nibs])
  from assms s have nib: "nibbles p" "nibbles ra" "nibbles rb" and v: "v \<noteq> None" by auto
  note eq = splitLeaf_eq [OF nib(2,3) hd len [unfolded s], of v "Some w"]
  show ?thesis
    unfolding s eq put_post_def using nib hd v
    by (cases ra; cases rb)
      (auto simp: split_shapes take_eq_append split: list.splits)
qed

lemma splitExtension_post:
  assumes "trie_ok (Extension ks nxt)" "nibbles nibs"
    and "PrefixMatchedLen ks nibs < length ks" "PrefixMatchedLen ks nibs < length nibs"
  shows "\<exists>n'. splitExtension ks nxt nibs (Some w) = Inr n' \<and> put_post (Extension ks nxt) nibs w n'"
proof -
  obtain p ra' rb' where s': "ks = p @ ra'" "nibs = p @ rb'"
    and len: "PrefixMatchedLen ks nibs = length p"
    and hd: "ra' = [] \<or> rb' = [] \<or> hd ra' \<noteq> hd rb'"
    by (rule PrefixMatchedLen_split [of ks nibs])
  from assms(3,4) len s' obtain a ra b rb where s: "ks = p @ a # ra" "nibs = p @ b # rb" and "a \<noteq> b"
    using hd by (cases ra'; cases rb') auto
  from assms s have nib: "nibbles p" "nibbles (a # ra)" "nibbles (b # rb)" and ok: "trie_ok nxt"
    by auto
  note eq = splitExtension_eq [OF nib(2,3) \<open>a \<noteq> b\<close> len [unfolded s], of nxt "Some w"]
  have "nodeGet (pre p (branch2 None a (pre ra nxt) b (Leaf rb (Some w)))) q =
      (if q = p @ b # rb then Inr (Some w, True) else nodeGet (Extension (p @ a # ra) nxt) q)"
    if q: "nibbles q" for q
  proof (cases "\<exists>r. q = p @ r")
    case True
    then obtain r where "q = p @ r" ..
    with q nib \<open>a \<noteq> b\<close> show ?thesis
      by (cases r) (auto simp: split_shapes nodeGet_extension_append nodeGet_extension)
  next
    case False
    then show ?thesis by (auto simp: nodeGet_outside)
  qed
  with nib ok \<open>a \<noteq> b\<close> show ?thesis
    unfolding s eq put_post_def by (auto simp: split_shapes)
qed

lemma put_post_branch_new:
  assumes "trie_ok (Branch v idx bs)" "nibbles (b # r)" "child_at idx bs b = Inr None"
  shows "put_post (Branch v idx bs) (b # r) w
    (Branch v (idx[unat b := int (length bs)]) (bs @ [Leaf r (Some w)]))"
proof -
  from assms have ok: "idx_ok idx bs" "IsNibble b" and free: "idx ! unat b = - 1"
    by (auto simp: child_at_ok split: if_splits)
  note ok' = idx_ok_append [OF ok free, of "Leaf r (Some w)"]
  have none: "kid idx bs b = None" using assms(3) by (simp add: kid_def)
  have "nodeGet (Branch v (idx[unat b := int (length bs)]) (bs @ [Leaf r (Some w)])) q =
      (if q = b # r then Inr (Some w, True) else nodeGet (Branch v idx bs) q)" if "nibbles q" for q
    using that none
    by (cases q) (auto simp: nodeGet_nil nodeGet_branch [OF ok'] nodeGet_branch [OF ok(1)]
        kid_append [OF ok _ free] nodeGet_leaf)
  with assms ok' show ?thesis by (auto simp: put_post_def)
qed

lemma put_post_branch_old:
  assumes "trie_ok (Branch v idx bs)" "nibbles (b # r)" "child_at idx bs b = Inr (Some j)"
    and "put_post (bs ! j) r w n'"
  shows "put_post (Branch v idx bs) (b # r) w (Branch v idx (bs[j := n']))"
proof -
  from assms(1,2) have ok: "idx_ok idx bs" "IsNibble b" by auto
  have some: "kid idx bs b = Some (bs ! j)" using assms(3) by (simp add: kid_def)
  have "nodeGet (Branch v idx (bs[j := n'])) q =
      (if q = b # r then Inr (Some w, True) else nodeGet (Branch v idx bs) q)" if "nibbles q" for q
    using that some assms(4) ok
    by (cases q) (auto simp: nodeGet_nil nodeGet_branch kid_update [OF ok _ assms(3)] put_post_def)
  moreover have "trie_ok (Branch v idx (bs[j := n']))"
    using assms(1,4) set_update_subset_insert [of bs j n'] by (auto simp: put_post_def)
  ultimately show ?thesis by (simp add: put_post_def)
qed

lemma put_post_extension:
  assumes "trie_ok (Extension ks nxt)" "PrefixMatchedLen ks nibs = length ks"
    and "put_post nxt (drop (length ks) nibs) w n'"
  shows "put_post (Extension ks nxt) nibs w (Extension ks n')"
proof -
  obtain r where nibs: "nibs = ks @ r" using assms(2) by (auto simp: PrefixMatchedLen_full)
  have "nodeGet (Extension ks n') q =
      (if q = nibs then Inr (Some w, True) else nodeGet (Extension ks nxt) q)" if "nibbles q" for q
    using that assms(3) by (auto simp: nodeGet_extension nibs take_eq_append put_post_def)
  with assms show ?thesis by (simp add: put_post_def)
qed

lemma nodePut_post:
  "trie_ok n \<Longrightarrow> nibbles nibs \<Longrightarrow> nodePut n nibs (Some w) = Inr n' \<Longrightarrow> put_post n nibs w n'"
proof (induction n nibs "Some w" arbitrary: n' rule: nodePut.induct)
  case (1 ks v nibs)
  then show ?case using splitLeaf_post [of ks v nibs w] by auto
next
  case (2 v idx bs)
  then show ?case
    by (auto simp: put_post_def nodeGet_nil nodeGet_branch neq_Nil_conv)
next
  case (3 v idx bs b remaining)
  from "3.prems" have ok: "idx_ok idx bs" "IsNibble b" by auto
  show ?case
  proof (cases "child_at idx bs b")
    case (Inl e)
    with "3.prems" show ?thesis by simp
  next
    case (Inr c)
    show ?thesis
    proof (cases c)
      case None
      with Inr "3.prems" show ?thesis
        using put_post_branch_new [of v idx bs b remaining w]
        by (simp add: NewLeafNodeFromNibbles_def)
    next
      case (Some j)
      with Inr have at: "child_at idx bs b = Inr (Some j)" by simp
      with "3.prems" obtain m where m: "nodePut (bs ! j) remaining (Some w) = Inr m"
        and n': "n' = Branch v idx (bs[j := m])" by (auto simp: bind_res_eq_Inr)
      from "3.prems" at have "trie_ok (bs ! j)" "nibbles remaining" by (auto dest: child_at_bound)
      with "3.hyps" [OF Inr Some _ _ m] have "put_post (bs ! j) remaining w m" by blast
      with n' "3.prems" at show ?thesis by (simp add: put_post_branch_old)
    qed
  qed
next
  case (4 ks nxt nibs)
  show ?case
  proof (cases "PrefixMatchedLen ks nibs < length ks")
    case True
    with "4.prems"(3) have eq: "splitExtension ks nxt nibs (Some w) = Inr n'" by simp
    then have "PrefixMatchedLen ks nibs < length nibs"
      by (auto simp: splitExtension_def Let_def split: if_splits)
    with True eq "4.prems" show ?thesis
      using splitExtension_post [of ks nxt nibs w] by auto
  next
    case False
    then have full: "PrefixMatchedLen ks nibs = length ks"
      using PrefixMatchedLen_le(1) [of ks nibs] by linarith
    with "4.prems"(3) obtain m where m: "nodePut nxt (drop (length ks) nibs) (Some w) = Inr m"
      and n': "n' = Extension ks m" by (auto simp: bind_res_eq_Inr Let_def)
    from "4.hyps" [OF refl _ _ _ m [folded full]] "4.prems" full
    have "put_post nxt (drop (length ks) nibs) w m" by auto
    with n' "4.prems" full show ?thesis by (simp add: put_post_extension)
  qed
qed

section \<open>Keys of one length\<close>

text \<open>
  Account addresses all have the same length. A trie of such keys has no value in a branch, at
  least two children in each, and a branch under each extension; this is what \<open>Delete\<close> relies on.
\<close>

fun is_branch :: "node \<Rightarrow> bool" where
  "is_branch (Branch _ _ _) = True"
| "is_branch _ = False"

fun depth_ok :: "nat \<Rightarrow> node \<Rightarrow> bool" where
  "depth_ok d (Leaf ks v) \<longleftrightarrow> length ks = d"
| "depth_ok d (Extension ks n) \<longleftrightarrow> length ks < d \<and> is_branch n \<and> depth_ok (d - length ks) n"
| "depth_ok d (Branch v idx bs) \<longleftrightarrow> 0 < d \<and> v = None \<and> 2 \<le> length bs \<and> (\<forall>b \<in> set bs. depth_ok (d - 1) b)"

lemma depth_ok_pre:
  "depth_ok d (pre p n) \<longleftrightarrow> (if p = [] then depth_ok d n
     else length p < d \<and> is_branch n \<and> depth_ok (d - length p) n)"
  by (simp add: pre_def)

lemma is_branch_branch2 [simp]: "is_branch (branch2 v a x b y)"
  by (simp add: branch2_def)

lemma depth_ok_branch2:
  assumes "IsNibble a" "IsNibble b" "a \<noteq> b"
  shows "depth_ok d (branch2 v a x b y) \<longleftrightarrow>
    0 < d \<and> v = None \<and> depth_ok (d - 1) x \<and> depth_ok (d - 1) y"
  by (rule branch2_shape [OF assms, of v x y]) auto

lemma splitLeaf_depth:
  assumes "nibbles ks" "nibbles nibs" "length ks = length nibs"
    and "splitLeaf ks v nibs w = Inr n'"
  shows "depth_ok (length nibs) n'"
proof -
  obtain p ra rb where s: "ks = p @ ra" "nibs = p @ rb"
    and len: "PrefixMatchedLen ks nibs = length p"
    and hd: "ra = [] \<or> rb = [] \<or> hd ra \<noteq> hd rb"
    by (rule PrefixMatchedLen_split [of ks nibs])
  from assms s have nib: "nibbles ra" "nibbles rb" and "length ra = length rb" by auto
  with assms(4) splitLeaf_eq [OF nib hd len [unfolded s], of v w] hd s show ?thesis
    by (cases ra; cases rb) (auto simp: depth_ok_pre depth_ok_branch2)
qed

lemma splitExtension_depth:
  assumes "trie_ok (Extension ks nxt)" "depth_ok d (Extension ks nxt)" "nibbles nibs" "length nibs = d"
    and lt: "PrefixMatchedLen ks nibs < length ks"
  shows "\<exists>n'. splitExtension ks nxt nibs w = Inr n' \<and> depth_ok d n'"
proof -
  obtain p ra' rb' where s': "ks = p @ ra'" "nibs = p @ rb'"
    and len: "PrefixMatchedLen ks nibs = length p"
    and hd: "ra' = [] \<or> rb' = [] \<or> hd ra' \<noteq> hd rb'"
    by (rule PrefixMatchedLen_split [of ks nibs])
  from lt len s' assms(2,4) obtain a ra b rb where s: "ks = p @ a # ra" "nibs = p @ b # rb" and "a \<noteq> b"
    using hd by (cases ra'; cases rb') auto
  from assms s have nib: "nibbles p" "nibbles (a # ra)" "nibbles (b # rb)" by auto
  note eq = splitExtension_eq [OF nib(2,3) \<open>a \<noteq> b\<close> len [unfolded s], of nxt w]
  show ?thesis
    unfolding s eq using assms(2,4) nib \<open>a \<noteq> b\<close> s
    by (auto simp: depth_ok_pre depth_ok_branch2 Suc_diff_Suc)
qed

lemma nodePut_total:
  "trie_ok n \<Longrightarrow> depth_ok d n \<Longrightarrow> nibbles nibs \<Longrightarrow> length nibs = d \<Longrightarrow>
   \<exists>n'. nodePut n nibs (Some w) = Inr n' \<and> depth_ok d n' \<and> (is_branch n \<longrightarrow> is_branch n')"
proof (induction n nibs "Some w" arbitrary: d rule: nodePut.induct)
  case (1 ks v nibs)
  then show ?case
    using splitLeaf_post [of ks v nibs w] splitLeaf_depth [of ks nibs v "Some w"] by auto
next
  case (2 v idx bs)
  then show ?case by simp
next
  case (3 v idx bs b remaining)
  from "3.prems" have ok: "idx_ok idx bs" "IsNibble b" by auto
  show ?case
  proof (cases "idx ! unat b = - 1")
    case True
    with ok "3.prems" show ?thesis
      by (auto simp: child_at_ok NewLeafNodeFromNibbles_def)
  next
    case False
    let ?j = "nat (idx ! unat b)"
    from ok False have at: "child_at idx bs b = Inr (Some ?j)" by (simp add: child_at_ok)
    then have mem: "bs ! ?j \<in> set bs" by (auto dest: child_at_bound)
    with "3.prems" have "trie_ok (bs ! ?j)" "depth_ok (d - 1) (bs ! ?j)" "nibbles remaining"
      "length remaining = d - 1" by auto
    from "3.hyps" [OF at refl this] obtain m where
      m: "nodePut (bs ! ?j) remaining (Some w) = Inr m" "depth_ok (d - 1) m" by blast
    with at "3.prems" set_update_subset_insert [of bs ?j m] show ?thesis by auto
  qed
next
  case (4 ks nxt nibs)
  show ?case
  proof (cases "PrefixMatchedLen ks nibs < length ks")
    case True
    with splitExtension_depth [OF "4.prems" True, of "Some w"] show ?thesis by simp
  next
    case False
    then have full: "PrefixMatchedLen ks nibs = length ks"
      using PrefixMatchedLen_le(1) [of ks nibs] by linarith
    from "4.prems" have "trie_ok nxt" "depth_ok (d - length ks) nxt" "nibbles (drop (length ks) nibs)"
      "length (drop (length ks) nibs) = d - length ks" by auto
    from "4.hyps" [OF refl False, unfolded full, OF this] obtain m where
      "nodePut nxt (drop (length ks) nibs) (Some w) = Inr m" "depth_ok (d - length ks) m"
      "is_branch nxt \<longrightarrow> is_branch m" by blast
    with full "4.prems" show ?thesis by (auto simp: Let_def)
  qed
qed

end
