(* ===== verification/TrieDelete.thy ===== *)
theory TrieDelete
  imports TriePut
begin

text \<open>
  \<open>Node.Delete\<close> of \<open>trie/trie_node.go\<close> and \<open>Trie.Delete\<close>, \<open>NewTrieWithData\<close> of
  \<open>trie/trie.go\<close>. For keys of one length, as account addresses are, \<open>Delete\<close> refines removal
  from a map and keeps the trie compact.
\<close>

section \<open>Definitions\<close>

text \<open>\<open>for node.Index[nibble] == -1 \<rbrace> nibble++ \<lbrace>\<close>, which panics when all entries are -1.\<close>

fun firstSet :: "int list \<Rightarrow> nat res" where
  "firstSet [] = Inl index_panic"
| "firstSet (x # xs) = (if x = - 1 then bind_res (firstSet xs) (\<lambda>k. Inr (Suc k)) else Inr 0)"

text \<open>A branch that has one child left becomes a leaf or an extension.\<close>

fun collapseInto :: "byte \<Rightarrow> node \<Rightarrow> node" where
  "collapseInto nibble (Leaf ks v) = Leaf (nibble # ks) v"
| "collapseInto nibble (Extension ks nxt) = Extension (nibble # ks) nxt"
| "collapseInto nibble (Branch v idx bs) = Extension [nibble] (Branch v idx bs)"

definition collapse :: "int list \<Rightarrow> node list \<Rightarrow> node res" where
  "collapse idx bs =
     bind_res (firstSet idx) (\<lambda>nibble.
       if bs = [] then Inl index_panic else Inr (collapseInto (word_of_nat nibble) (bs ! 0)))"

definition dropIndex :: "int list \<Rightarrow> byte \<Rightarrow> int list" where
  "dropIndex idx nibble =
     (map (\<lambda>k. if idx ! k > idx ! unat nibble then idx ! k - 1 else idx ! k) [0..<length idx])
       [unat nibble := - 1]"

definition dropBranch :: "node list \<Rightarrow> nat \<Rightarrow> node list" where
  "dropBranch bs j = take j bs @ drop (j + 1) bs"

text \<open>The result of an extension whose child has changed; a \<open>nil\<close> child would be dereferenced.\<close>

fun joinExtension :: "bytes \<Rightarrow> node option \<Rightarrow> node option res" where
  "joinExtension ks None = Inl nil_panic"
| "joinExtension ks (Some (Leaf ks' v)) = Inr (Some (Leaf (ks @ ks') v))"
| "joinExtension ks (Some (Extension ks' nxt)) = Inr (Some (Extension (ks @ ks') nxt))"
| "joinExtension ks (Some (Branch v idx bs)) = Inr (Some (Extension ks (Branch v idx bs)))"

text \<open>
  In a branch with a single child, a non-empty key makes the node a leaf that keeps the branch's
  value: the child goes, whatever is below it.
\<close>

fun nodeDelete :: "node \<Rightarrow> bytes \<Rightarrow> node option res" where
  "nodeDelete (Leaf ks v) key = Inr None"
| "nodeDelete (Extension ks nxt) key =
     (if length key < length ks then Inl slice_panic
      else bind_res (nodeDelete nxt (drop (length ks) key)) (joinExtension ks))"
| "nodeDelete (Branch v idx bs) [] =
     (if length bs \<noteq> 1 then Inr (Some (Branch None idx bs))
      else bind_res (collapse idx bs) (\<lambda>n. Inr (Some n)))"
| "nodeDelete (Branch v idx bs) (nibble # rest) =
     (if length bs = 1 then Inr (Some (Leaf [] v))
      else case child_at idx bs nibble of
          Inl e \<Rightarrow> Inl e
        | Inr None \<Rightarrow> Inl index_panic
        | Inr (Some j) \<Rightarrow>
            (case bs ! j of
               Leaf ks' v' \<Rightarrow>
                 (let bs' = dropBranch bs j; idx' = dropIndex idx nibble in
                  if length bs' = 1 \<and> v = None then bind_res (collapse idx' bs') (\<lambda>n. Inr (Some n))
                  else Inr (Some (Branch v idx' bs')))
             | _ \<Rightarrow>
                 bind_res (nodeDelete (bs ! j) rest) (\<lambda>r.
                   case r of None \<Rightarrow> Inl nil_panic
                   | Some n \<Rightarrow> Inr (Some (Branch v idx (bs[j := n]))))))"

definition Delete :: "trie \<Rightarrow> bytes \<Rightarrow> trie res" where
  "Delete t address =
     bind_res (Get t address) (\<lambda>(_, ok).
       if \<not> ok then Inl (Err ''not found'')
       else case t of None \<Rightarrow> Inl nil_panic | Some n \<Rightarrow> nodeDelete n (FromBytes address))"

text \<open>\<open>NewTrieWithData\<close> stores each datum under itself with its position as the value.\<close>

definition string_bytes :: "string \<Rightarrow> bytes" where
  "string_bytes s = map of_char s"

definition NewTrieWithData :: "bytes list \<Rightarrow> trie res" where
  "NewTrieWithData datums =
     fold_res (\<lambda>(i, d) t. Put t d (Some (string_bytes (show_nat i))))
       (zip [0..<length datums] datums) NewTrie"

section \<open>Removing a child\<close>

lemma firstSet_ok:
  "\<exists>i<length idx. idx ! i \<noteq> - 1 \<Longrightarrow> \<exists>k. firstSet idx = Inr k \<and> k < length idx \<and> idx ! k \<noteq> - 1"
proof (induction idx)
  case Nil
  then show ?case by simp
next
  case (Cons x xs)
  show ?case
  proof (cases "x = - 1")
    case True
    with Cons.prems obtain i where "i < length xs" "xs ! i \<noteq> - 1"
      by (metis Suc_less_eq length_Cons nth_Cons_0 nth_Cons_Suc not0_implies_Suc)
    then have "\<exists>i<length xs. xs ! i \<noteq> - 1" by blast
    from Cons.IH [OF this] True show ?thesis by auto
  next
    case False
    then show ?thesis by simp
  qed
qed

lemma length_dropBranch: "j < length bs \<Longrightarrow> length (dropBranch bs j) = length bs - 1"
  by (simp add: dropBranch_def)

lemma nth_dropBranch:
  "j < length bs \<Longrightarrow> k < length bs - 1 \<Longrightarrow> dropBranch bs j ! k = (if k < j then bs ! k else bs ! (k + 1))"
  by (auto simp: dropBranch_def nth_append min_def)

lemma set_dropBranch: "set (dropBranch bs j) \<subseteq> set bs"
  by (auto simp: dropBranch_def dest: in_set_takeD in_set_dropD)

lemma nth_dropIndex:
  assumes "length idx = 16" "i < 16" "unat b < 16"
  shows "dropIndex idx b ! i = (if i = unat b then - 1
    else if idx ! i > idx ! unat b then idx ! i - 1 else idx ! i)"
  using assms by (auto simp: dropIndex_def nth_list_update)

lemma dropIndex_ok:
  assumes "idx_ok idx bs" "IsNibble b" "idx ! unat b \<noteq> - 1"
  shows "idx_ok (dropIndex idx b) (dropBranch bs (nat (idx ! unat b)))"
proof -
  let ?d = "dropIndex idx b" and ?j = "nat (idx ! unat b)"
  have len: "length idx = 16" and ub: "unat b < 16"
    using assms by (auto simp: idx_ok_def IsNibble_def)
  have rng: "idx ! i = - 1 \<or> 0 \<le> idx ! i \<and> idx ! i < int (length bs)" if "i < 16" for i
    using assms(1) that by (simp add: idx_ok_def)
  have inj: "i = k" if "i < 16" "k < 16" "idx ! i = idx ! k" "idx ! i \<noteq> - 1" for i k
    using assms(1) that by (simp add: idx_ok_def)
  have sur: "\<exists>i<16. idx ! i = int k" if "k < length bs" for k
    using assms(1) that by (simp add: idx_ok_def)
  note nth = nth_dropIndex [OF len _ ub]
  from rng [OF ub] assms(3) have j: "0 \<le> idx ! unat b" "?j < length bs" by auto
  have ne: "idx ! i \<noteq> idx ! unat b" if "i < 16" "i \<noteq> unat b" for i
    using inj [OF that(1) ub] that assms(3) by auto
  have 1: "?d ! i = - 1 \<or> 0 \<le> ?d ! i \<and> ?d ! i < int (length (dropBranch bs ?j))" if "i < 16" for i
    using rng [OF that] ne [OF that] j by (auto simp: nth [OF that] length_dropBranch)
  have 2: "i = k" if "i < 16" "k < 16" "?d ! i = ?d ! k" "?d ! i \<noteq> - 1" for i k
    using that ne [OF that(1)] ne [OF that(2)] rng [OF that(1)] rng [OF that(2)] inj [OF that(1,2)] j
    by (auto simp: nth split: if_splits)
  have 3: "\<exists>i<16. ?d ! i = int k" if k: "k < length (dropBranch bs ?j)" for k
  proof (cases "k < ?j")
    case True
    then obtain i where i: "i < 16" "idx ! i = int k" using sur [of k] j by auto
    with True j have "i \<noteq> unat b" "\<not> idx ! i > idx ! unat b" by auto
    with i show ?thesis by (auto simp: nth)
  next
    case False
    from k j have "k + 1 < length bs" by (simp add: length_dropBranch)
    from sur [OF this] obtain i where i: "i < 16" "idx ! i = int (k + 1)" by blast
    with False j have "i \<noteq> unat b" "idx ! i > idx ! unat b" by auto
    with i show ?thesis by (intro exI [of _ i]) (simp add: nth)
  qed
  from 1 2 3 len show ?thesis unfolding idx_ok_def by (auto simp: dropIndex_def)
qed

lemma kid_drop:
  assumes "idx_ok idx bs" "IsNibble b" "idx ! unat b \<noteq> - 1" "IsNibble c"
  shows "kid (dropIndex idx b) (dropBranch bs (nat (idx ! unat b))) c =
    (if c = b then None else kid idx bs c)"
proof -
  let ?d = "dropIndex idx b" and ?j = "nat (idx ! unat b)"
  have len: "length idx = 16" and lt: "unat b < 16" "unat c < 16"
    using assms by (auto simp: idx_ok_def IsNibble_def)
  note nth = nth_dropIndex [OF len lt(2,1)]
  have rng: "idx ! i = - 1 \<or> 0 \<le> idx ! i \<and> idx ! i < int (length bs)" if "i < 16" for i
    using assms(1) that by (simp add: idx_ok_def)
  show ?thesis
  proof (cases "c = b \<or> idx ! unat c = - 1")
    case True
    with nth rng [OF lt(1)] assms(3) have "?d ! unat c = - 1" by auto
    with True dropIndex_ok [OF assms(1-3)] assms show ?thesis by (auto simp: kid_def child_at_ok)
  next
    case False
    then have "unat c \<noteq> unat b" by simp
    then have ne: "idx ! unat c \<noteq> idx ! unat b"
      using assms(1,3) lt by (metis idx_ok_def)
    from False rng [OF lt(2)] have c: "0 \<le> idx ! unat c" "nat (idx ! unat c) < length bs" by auto
    from assms(3) rng [OF lt(1)] have b: "0 \<le> idx ! unat b" "?j < length bs" by auto
    have "dropBranch bs ?j ! nat (?d ! unat c) = bs ! nat (idx ! unat c) \<and> ?d ! unat c \<noteq> - 1"
    proof (cases "idx ! unat c > idx ! unat b")
      case True
      with b c \<open>unat c \<noteq> unat b\<close> show ?thesis
        by (auto simp: nth nth_dropBranch nat_diff_distrib' simp flip: nat_diff_distrib)
    next
      case False
      with b c ne \<open>unat c \<noteq> unat b\<close> show ?thesis by (auto simp: nth nth_dropBranch)
    qed
    with False dropIndex_ok [OF assms(1-3)] assms show ?thesis by (auto simp: kid_def child_at_ok)
  qed
qed

section \<open>Collapsing a branch\<close>

lemma collapse_ok:
  assumes "idx_ok idx bs" "length bs = 1"
  shows "\<exists>k. collapse idx bs = Inr (collapseInto k (bs ! 0)) \<and> IsNibble k
    \<and> (\<forall>c. IsNibble c \<longrightarrow> kid idx bs c = (if c = k then Some (bs ! 0) else None))"
proof -
  have len: "length idx = 16" using assms by (simp add: idx_ok_def)
  from assms obtain i where "i < 16" "idx ! i = 0" by (auto simp: idx_ok_def)
  then have "\<exists>i<length idx. idx ! i \<noteq> - 1" using len by (metis neg_equal_zero zero_neq_neg_one)
  from firstSet_ok [OF this] obtain k where
    k: "firstSet idx = Inr k" "k < 16" "idx ! k \<noteq> - 1" using len by auto
  let ?n = "word_of_nat k :: byte"
  have un: "unat ?n = k" using k(2) by (simp add: unsigned_of_nat take_bit_nat_eq_self)
  have one: "idx ! i = - 1 \<or> idx ! i = 0" if "i < 16" for i
  proof -
    have "idx ! i = - 1 \<or> 0 \<le> idx ! i \<and> idx ! i < int (length bs)"
      using assms(1) that by (simp add: idx_ok_def)
    with assms(2) show ?thesis by auto
  qed
  with k have zero: "idx ! k = 0" by blast
  have "kid idx bs c = (if c = ?n then Some (bs ! 0) else None)" if c: "IsNibble c" for c
  proof (cases "c = ?n")
    case True
    with assms(1) c zero un show ?thesis by (simp add: kid_def child_at_ok)
  next
    case False
    then have "unat c \<noteq> k" using un by (metis unat_byte_eq)
    moreover have "unat c < 16" using c by (simp add: IsNibble_def)
    ultimately have "idx ! unat c \<noteq> 0"
      using assms(1) k zero unfolding idx_ok_def by metis
    with one [OF \<open>unat c < 16\<close>] have "idx ! unat c = - 1" by blast
    with False assms(1) c show ?thesis by (simp add: kid_def child_at_ok)
  qed
  moreover have "collapse idx bs = Inr (collapseInto ?n (bs ! 0))"
    using k(1) assms(2) by (auto simp: collapse_def)
  moreover have "IsNibble ?n" using un k(2) by (simp add: IsNibble_def)
  ultimately show ?thesis by blast
qed

lemma nodeGet_collapseInto:
  "nodeGet (collapseInto k x) q =
    (case q of [] \<Rightarrow> absent | c # r \<Rightarrow> if c = k then nodeGet x r else absent)"
  by (cases x; cases q) (auto simp: nodeGet_leaf nodeGet_extension)

lemma depth_ok_collapseInto:
  "depth_ok (d - 1) x \<Longrightarrow> 0 < d \<Longrightarrow> depth_ok d (collapseInto k x)"
  by (cases x) auto

lemma trie_ok_collapseInto: "IsNibble k \<Longrightarrow> trie_ok x \<Longrightarrow> trie_ok (collapseInto k x)"
  by (cases x) auto

lemma joinExtension_ok:
  assumes "trie_ok m" "depth_ok (d - length ks) m" "nibbles ks" "length ks < d" "ks \<noteq> []"
  shows "\<exists>m'. joinExtension ks (Some m) = Inr (Some m') \<and> trie_ok m' \<and> depth_ok d m'
    \<and> (\<forall>q. nodeGet m' q = nodeGet (Extension ks m) q)"
proof -
  have absent1: "nodeGet (Extension ks n) q = absent" "nodeGet (Extension (ks @ s) n') q = absent"
    if "\<nexists>r. q = ks @ r" for q s n n'
    using nodeGet_outside(2) [OF that, of s n'] nodeGet_outside(1) [OF that, of n] assms(5)
    by (auto simp: pre_def)
  show ?thesis
  proof (cases m)
    case (Leaf ks' v)
    with assms show ?thesis by (auto simp: nodeGet_leaf nodeGet_extension take_eq_append)
  next
    case (Extension ks' n)
    have "nodeGet (Extension (ks @ ks') n) q = nodeGet (Extension ks (Extension ks' n)) q" for q
      using absent1 by (cases "\<exists>r. q = ks @ r") (auto simp: nodeGet_extension)
    with assms Extension show ?thesis by auto
  next
    case (Branch v idx bs)
    with assms show ?thesis by auto
  qed
qed

section \<open>\<open>Delete\<close> refines removal from a map\<close>

fun getRoot :: "node option \<Rightarrow> bytes \<Rightarrow> (bytes option \<times> bool) res" where
  "getRoot None q = absent"
| "getRoot (Some n) q = nodeGet n q"

fun root_ok :: "nat \<Rightarrow> node option \<Rightarrow> bool" where
  "root_ok d None = True"
| "root_ok d (Some n) \<longleftrightarrow> trie_ok n \<and> depth_ok d n"

definition delete_post :: "nat \<Rightarrow> node \<Rightarrow> bytes \<Rightarrow> node option \<Rightarrow> bool" where
  "delete_post d n key r \<longleftrightarrow> root_ok d r
     \<and> (\<forall>q. nibbles q \<longrightarrow> getRoot r q = (if q = key then absent else nodeGet n q))"

lemma delete_leaf_child:
  assumes "trie_ok (Branch v idx bs)" "depth_ok d (Branch v idx bs)" "IsNibble b"
    and "child_at idx bs b = Inr (Some j)" "bs ! j = Leaf ks' v'" "ks' = rest"
  shows "\<exists>m. nodeDelete (Branch v idx bs) (b # rest) = Inr (Some m)
    \<and> delete_post d (Branch v idx bs) (b # rest) (Some m)"
proof -
  let ?bs = "dropBranch bs j" and ?idx = "dropIndex idx b"
  from assms have ok: "idx_ok idx bs" and v: "v = None" and d: "0 < d" and len: "2 \<le> length bs" by auto
  from assms(4) ok assms(3) have j: "idx ! unat b \<noteq> - 1" "j = nat (idx ! unat b)"
    by (auto simp: child_at_ok split: if_splits)
  note ok' = dropIndex_ok [OF ok assms(3) j(1), folded j(2)]
  have kid': "kid ?idx ?bs c = (if c = b then None else kid idx bs c)" if "IsNibble c" for c
    using kid_drop [OF ok assms(3) j(1) that] j(2) by simp
  have some: "kid idx bs b = Some (Leaf rest v')" using assms(4-6) by (simp add: kid_def)
  have sub: "set ?bs \<subseteq> set bs" by (rule set_dropBranch)
  have get': "nodeGet (Branch None ?idx ?bs) q = (if q = b # rest then absent else nodeGet (Branch v idx bs) q)"
    if "nibbles q" for q
    using that some v
    by (cases q) (auto simp: nodeGet_nil nodeGet_branch [OF ok'] nodeGet_branch [OF ok] kid' nodeGet_leaf
        split: option.splits)
  show ?thesis
  proof (cases "length ?bs = 1")
    case True
    from collapse_ok [OF ok' True] obtain k where
      k: "collapse ?idx ?bs = Inr (collapseInto k (?bs ! 0))" "IsNibble k"
      and kk: "\<And>c. IsNibble c \<Longrightarrow> kid ?idx ?bs c = (if c = k then Some (?bs ! 0) else None)" by blast
    have "nodeGet (collapseInto k (?bs ! 0)) q = nodeGet (Branch None ?idx ?bs) q" if "nibbles q" for q
      using that by (cases q) (auto simp: nodeGet_collapseInto nodeGet_nil nodeGet_branch [OF ok'] kk)
    moreover have "?bs ! 0 \<in> set bs" using True sub by (metis less_one nth_mem subsetD)
    ultimately have "delete_post d (Branch v idx bs) (b # rest) (Some (collapseInto k (?bs ! 0)))"
      using assms(1,2) d k(2) get'
      by (auto simp: delete_post_def trie_ok_collapseInto depth_ok_collapseInto)
    with k True v len assms show ?thesis by (simp add: Let_def)
  next
    case False
    then have "2 \<le> length ?bs" using len j assms(4) child_at_bound [of idx bs b j]
      by (simp add: length_dropBranch)
    then have "delete_post d (Branch v idx bs) (b # rest) (Some (Branch v ?idx ?bs))"
      using assms(1,2) v ok' sub get' by (auto simp: delete_post_def)
    with False v len assms show ?thesis by (simp add: Let_def)
  qed
qed

lemma delete_inner_child:
  assumes "trie_ok (Branch v idx bs)" "depth_ok d (Branch v idx bs)" "IsNibble b"
    and at: "child_at idx bs b = Inr (Some j)" and inner: "\<nexists>ks' v'. bs ! j = Leaf ks' v'"
    and rec: "nodeDelete (bs ! j) rest = Inr (Some m)" "delete_post (d - 1) (bs ! j) rest (Some m)"
  shows "\<exists>m'. nodeDelete (Branch v idx bs) (b # rest) = Inr (Some m')
    \<and> delete_post d (Branch v idx bs) (b # rest) (Some m')"
proof -
  from assms have ok: "idx_ok idx bs" and len: "2 \<le> length bs" by auto
  have some: "kid idx bs b = Some (bs ! j)" using at by (simp add: kid_def)
  have "nodeGet (Branch v idx (bs[j := m])) q =
      (if q = b # rest then absent else nodeGet (Branch v idx bs) q)" if "nibbles q" for q
    using that rec(2) some ok assms(2,3)
    by (cases q) (auto simp: nodeGet_nil nodeGet_branch kid_update [OF ok assms(3) _ at] delete_post_def)
  then have "delete_post d (Branch v idx bs) (b # rest) (Some (Branch v idx (bs[j := m])))"
    using assms(1,2) rec(2) set_update_subset_insert [of bs j m] by (auto simp: delete_post_def)
  moreover have "nodeDelete (Branch v idx bs) (b # rest) = Inr (Some (Branch v idx (bs[j := m])))"
    using inner at len rec(1) by (auto split: node.splits)
  ultimately show ?thesis by blast
qed

lemma nodeDelete_ok:
  "trie_ok n \<Longrightarrow> depth_ok d n \<Longrightarrow> nibbles key \<Longrightarrow> length key = d \<Longrightarrow> nodeGet n key \<noteq> absent \<Longrightarrow>
   \<exists>r. nodeDelete n key = Inr r \<and> delete_post d n key r \<and> (r = None \<longrightarrow> (\<exists>ks v. n = Leaf ks v))"
proof (induction n key arbitrary: d rule: nodeDelete.induct)
  case (1 ks v key)
  then show ?case by (auto simp: delete_post_def nodeGet_leaf split: if_splits)
next
  case (2 ks nxt key)
  from "2.prems"(5) obtain r where key: "key = ks @ r" and get: "nodeGet nxt r \<noteq> absent"
    by (auto simp: nodeGet_extension take_eq_append split: if_splits)
  from "2.prems" key obtain o' where del: "nodeDelete nxt r = Inr o'"
    and post: "delete_post (d - length ks) nxt r o'" and nn: "o' = None \<longrightarrow> (\<exists>ks v. nxt = Leaf ks v)"
    using "2.IH" [of "d - length ks"] get by auto
  from nn "2.prems" obtain m where m: "o' = Some m" by (cases o') auto
  from joinExtension_ok [of m d ks] post m "2.prems" obtain m' where
    m': "joinExtension ks (Some m) = Inr (Some m')" "trie_ok m'" "depth_ok d m'"
      "\<And>q. nodeGet m' q = nodeGet (Extension ks m) q" by (auto simp: delete_post_def)
  have "getRoot (Some m') q = (if q = key then absent else nodeGet (Extension ks nxt) q)"
    if "nibbles q" for q
    using that post m key by (auto simp: m'(4) delete_post_def nodeGet_extension take_eq_append)
  with m' del m key show ?case by (auto simp: delete_post_def)
next
  case (3 v idx bs)
  then show ?case by auto
next
  case (4 v idx bs b rest)
  from "4.prems" have ok: "idx_ok idx bs" "IsNibble b" and len: "length bs \<noteq> 1" by auto
  from "4.prems"(5) ok obtain j where at: "child_at idx bs b = Inr (Some j)"
    and get: "nodeGet (bs ! j) rest \<noteq> absent"
    by (auto simp: nodeGet_branch kid_def child_at_ok split: if_splits)
  have mem: "bs ! j \<in> set bs" using at by (auto dest: child_at_bound)
  show ?case
  proof (cases "\<exists>ks' v'. bs ! j = Leaf ks' v'")
    case True
    then obtain ks' v' where leaf: "bs ! j = Leaf ks' v'" by blast
    with get have "ks' = rest" by (auto simp: nodeGet_leaf split: if_splits)
    from delete_leaf_child [OF "4.prems"(1,2) ok(2) at leaf this] show ?thesis by auto
  next
    case False
    from "4.prems" mem have hyps: "trie_ok (bs ! j)" "depth_ok (d - 1) (bs ! j)" "nibbles rest"
      "length rest = d - 1" by auto
    have "\<exists>r. nodeDelete (bs ! j) rest = Inr r \<and> delete_post (d - 1) (bs ! j) rest r
        \<and> (r = None \<longrightarrow> (\<exists>ks v. bs ! j = Leaf ks v))"
      using "4.IH" [OF len at refl] hyps get False by (cases "bs ! j") auto
    with False obtain m where "nodeDelete (bs ! j) rest = Inr (Some m)"
      "delete_post (d - 1) (bs ! j) rest (Some m)" by (metis option.exhaust)
    from delete_inner_child [OF "4.prems"(1,2) ok(2) at False this] show ?thesis by auto
  qed
qed

end
