(* ===== verification/TrieStore.thy ===== *)
theory TrieStore
  imports TrieDelete
begin

text \<open>
  The trie of \<open>trie/trie.go\<close> as a store: the contract of a keyed store as a locale, its
  interpretation on \<open>Get\<close>, \<open>Put\<close> and \<open>Delete\<close> for keys of one length (account addresses), and the
  behaviours outside that contract.
\<close>

section \<open>The contract of a keyed store\<close>

text \<open>
  An operation either stores a value or deletes a key; deleting an absent key is the error
  \<open>not found\<close>. \<open>spec_op\<close> is the same operation on a map.
\<close>

datatype ('k, 'v) store_op = Store 'k 'v | Remove 'k

fun op_key :: "('k, 'v) store_op \<Rightarrow> 'k" where
  "op_key (Store k v) = k"
| "op_key (Remove k) = k"

fun spec_op :: "('k, 'v) store_op \<Rightarrow> ('k \<rightharpoonup> 'v) \<Rightarrow> ('k \<rightharpoonup> 'v) res" where
  "spec_op (Store k v) m = Inr (m(k \<mapsto> v))"
| "spec_op (Remove k) m = (if m k = None then Inl (Err ''not found'') else Inr (m(k := None)))"

fun run_op :: "('t \<Rightarrow> 'k \<Rightarrow> 'v \<Rightarrow> 't res) \<Rightarrow> ('t \<Rightarrow> 'k \<Rightarrow> 't res) \<Rightarrow> ('k, 'v) store_op \<Rightarrow> 't \<Rightarrow> 't res" where
  "run_op ins del (Store k v) t = ins t k v"
| "run_op ins del (Remove k) t = del t k"

locale keyed_store =
  fixes inv :: "'t \<Rightarrow> bool"
    and valid :: "'k \<Rightarrow> bool"
    and look :: "'t \<Rightarrow> 'k \<Rightarrow> 'v option"
    and ins :: "'t \<Rightarrow> 'k \<Rightarrow> 'v \<Rightarrow> 't res"
    and del :: "'t \<Rightarrow> 'k \<Rightarrow> 't res"
  assumes ins_law: "inv t \<Longrightarrow> valid k \<Longrightarrow> \<exists>t'. ins t k v = Inr t' \<and> inv t' \<and> look t' = (look t)(k \<mapsto> v)"
    and del_law: "inv t \<Longrightarrow> valid k \<Longrightarrow> look t k \<noteq> None \<Longrightarrow>
      \<exists>t'. del t k = Inr t' \<and> inv t' \<and> look t' = (look t)(k := None)"
    and del_absent: "inv t \<Longrightarrow> valid k \<Longrightarrow> look t k = None \<Longrightarrow> del t k = Inl (Err ''not found'')"
begin

definition refines :: "'t res \<Rightarrow> ('k \<rightharpoonup> 'v) res \<Rightarrow> bool" where
  "refines r m \<longleftrightarrow> (case r of Inl e \<Rightarrow> m = Inl e | Inr t \<Rightarrow> inv t \<and> m = Inr (look t))"

lemma step_refines:
  assumes "inv t" "valid (op_key x)"
  shows "refines (run_op ins del x t) (spec_op x (look t))"
proof (cases x)
  case (Store k v)
  with assms ins_law [of t k v] show ?thesis by (auto simp: refines_def)
next
  case (Remove k)
  with assms show ?thesis
    using del_law [of t k] del_absent [of t k] by (cases "look t k") (auto simp: refines_def)
qed

lemma run_refines:
  "inv t \<Longrightarrow> (\<forall>x\<in>set ops. valid (op_key x)) \<Longrightarrow>
   refines (fold_res (run_op ins del) ops t) (fold_res spec_op ops (look t))"
proof (induction ops arbitrary: t)
  case Nil
  then show ?case by (simp add: refines_def)
next
  case (Cons x xs)
  from Cons.prems have s: "refines (run_op ins del x t) (spec_op x (look t))"
    by (intro step_refines) auto
  show ?case
  proof (cases "run_op ins del x t")
    case (Inl e)
    with s show ?thesis by (simp add: refines_def)
  next
    case (Inr t')
    with s Cons show ?thesis by (simp add: refines_def)
  qed
qed

lemma stores_total:
  assumes "inv t" "\<forall>x\<in>set kvs. valid (fst x)"
  shows "\<exists>t'. fold_res (\<lambda>(k, v) t. ins t k v) kvs t = Inr t' \<and> inv t'
    \<and> look t' = foldl (\<lambda>m (k, v). m(k \<mapsto> v)) (look t) kvs"
  using assms
proof (induction kvs arbitrary: t)
  case Nil
  then show ?case by simp
next
  case (Cons x kvs)
  obtain k v where x: "x = (k, v)" by (cases x)
  from Cons.prems x ins_law [of t k v] obtain t' where
    "ins t k v = Inr t'" "inv t'" "look t' = (look t)(k \<mapsto> v)" by auto
  with Cons.IH [of t'] Cons.prems x show ?case by auto
qed

end

section \<open>The trie provides the contract\<close>

definition lookup_trie :: "trie \<Rightarrow> bytes \<Rightarrow> bytes option" where
  "lookup_trie t key = (case Get t key of Inr (v, True) \<Rightarrow> v | _ \<Rightarrow> None)"

definition put_value :: "trie \<Rightarrow> bytes \<Rightarrow> bytes \<Rightarrow> trie res" where
  "put_value t key v = Put t key (Some v)"

definition trie_wf :: "trie \<Rightarrow> bool" where
  "trie_wf t \<longleftrightarrow> (case t of None \<Rightarrow> True | Some n \<Rightarrow> trie_ok n)"

lemma nodeGet_total: "trie_ok n \<Longrightarrow> nibbles q \<Longrightarrow>
  nodeGet n q = absent \<or> (\<exists>v. nodeGet n q = Inr (Some v, True))"
proof (induction n q rule: nodeGet.induct)
  case (3 v idx bs b remaining)
  then show ?case
    by (auto simp: nodeGet_branch child_at_ok kid_def split: if_splits dest: child_at_bound)
      (metis child_at_bound child_at_ok nth_mem)
qed (auto simp: nodeGet_leaf nodeGet_nil nodeGet_extension take_eq_append PrefixMatchedLen_full)

lemma Get_getRoot: "Get t key = getRoot t (FromBytes key)"
  by (cases t) (simp_all add: Get_def)

lemma Get_total:
  assumes "trie_wf t"
  shows "Get t q = absent \<and> lookup_trie t q = None
    \<or> (\<exists>v. Get t q = Inr (Some v, True) \<and> lookup_trie t q = Some v)"
proof (cases t)
  case None
  then show ?thesis by (simp add: lookup_trie_def Get_def)
next
  case (Some n)
  with assms nodeGet_total [of n "FromBytes q"] show ?thesis
    by (auto simp: trie_wf_def lookup_trie_def Get_def)
qed

lemma lookup_trie_None: "lookup_trie None = Map.empty"
  by (auto simp: lookup_trie_def Get_def)

lemma root_ok_wf: "root_ok d t \<Longrightarrow> trie_wf t"
  by (cases t) (auto simp: trie_wf_def)

lemma Put_post:
  assumes "trie_wf t" "Put t k (Some v) = Inr t'"
  shows "trie_wf t' \<and> Get t' q = (if q = k then Inr (Some v, True) else Get t q)"
proof (cases t)
  case None
  with assms show ?thesis
    by (auto simp: Put_def Get_def trie_wf_def NewLeafNodeFromNibbles_def nodeGet_leaf)
next
  case (Some n)
  with assms obtain n' where n': "nodePut n (FromBytes k) (Some v) = Inr n'" "t' = Some n'"
    by (auto simp: Put_def bind_res_eq_Inr)
  from nodePut_post [OF _ _ n'(1)] assms(1) Some have "put_post n (FromBytes k) v n'"
    by (simp add: trie_wf_def)
  with n' Some show ?thesis by (auto simp: put_post_def trie_wf_def Get_def)
qed

lemma lookup_trie_eqI:
  assumes "\<And>q. Get t' q = (if q = k then r else Get t q)"
  shows "lookup_trie t' = (lookup_trie t)(k := (case r of Inr (v, True) \<Rightarrow> v | _ \<Rightarrow> None))"
  by (rule ext) (simp add: lookup_trie_def assms)

lemma Put_fixed:
  assumes "root_ok (2 * L) t" "length k = L"
  shows "\<exists>t'. Put t k (Some v) = Inr t' \<and> root_ok (2 * L) t' \<and> lookup_trie t' = (lookup_trie t)(k \<mapsto> v)"
proof -
  have "\<exists>t'. Put t k (Some v) = Inr t' \<and> root_ok (2 * L) t'"
  proof (cases t)
    case None
    with assms show ?thesis by (simp add: Put_def NewLeafNodeFromNibbles_def)
  next
    case (Some n)
    with assms nodePut_total [of n "2 * L" "FromBytes k" v] obtain n' where
      n': "nodePut n (FromBytes k) (Some v) = Inr n'" "depth_ok (2 * L) n'" by auto
    with nodePut_post [OF _ _ n'(1)] Some assms show ?thesis by (auto simp: Put_def put_post_def)
  qed
  then obtain t' where t': "Put t k (Some v) = Inr t'" "root_ok (2 * L) t'" by blast
  have "lookup_trie t' = (lookup_trie t)(k \<mapsto> v)"
    using lookup_trie_eqI [of t' k "Inr (Some v, True)" t] Put_post [OF root_ok_wf [OF assms(1)] t'(1)]
    by simp
  with t' show ?thesis by blast
qed

lemma Delete_fixed:
  assumes "root_ok (2 * L) t" "length k = L" "lookup_trie t k \<noteq> None"
  shows "\<exists>t'. Delete t k = Inr t' \<and> root_ok (2 * L) t' \<and> lookup_trie t' = (lookup_trie t)(k := None)"
proof -
  from assms obtain v where get: "Get t k = Inr (Some v, True)"
    using Get_total [OF root_ok_wf [OF assms(1)], of k] by auto
  then obtain n where n: "t = Some n" by (cases t) (auto simp: Get_def)
  with get have "nodeGet n (FromBytes k) \<noteq> absent" by (simp add: Get_def)
  with nodeDelete_ok [of n "2 * L" "FromBytes k"] n assms obtain r where
    r: "nodeDelete n (FromBytes k) = Inr r" "delete_post (2 * L) n (FromBytes k) r" by auto
  have "lookup_trie r = (lookup_trie t)(k := None)"
    using lookup_trie_eqI [of r k absent t] r(2) n by (simp add: Get_getRoot delete_post_def)
  with r get n show ?thesis by (auto simp: Delete_def delete_post_def)
qed

lemma Delete_absent:
  assumes "root_ok (2 * L) t" "lookup_trie t k = None"
  shows "Delete t k = Inl (Err ''not found'')"
  using Get_total [OF root_ok_wf [OF assms(1)], of k] assms(2) by (auto simp: Delete_def)

interpretation trie_store: keyed_store "root_ok (2 * L)" "\<lambda>k. length k = L" lookup_trie put_value Delete
  for L
  by unfold_locales (use Put_fixed Delete_fixed Delete_absent in \<open>auto simp: put_value_def\<close>)

section \<open>Properties\<close>

text \<open>
  C35. A trie of addresses of one length is a map: from the empty trie, every sequence of \<open>Put\<close>
  and \<open>Delete\<close> calls returns exactly what the same sequence returns on a map, the error of a
  delete of an absent key included, and afterwards \<open>Get\<close> reads that map. In particular no
  such call ever panics.
\<close>

theorem trie_refines_map:
  assumes "\<forall>x\<in>set ops. length (op_key x) = L"
  shows "(case fold_res (run_op put_value Delete) ops NewTrie of
            Inl e \<Rightarrow> fold_res spec_op ops Map.empty = Inl e
          | Inr t \<Rightarrow> fold_res spec_op ops Map.empty = Inr (lookup_trie t))"
  using trie_store.run_refines [of L NewTrie ops] assms
  by (auto simp: trie_store.refines_def NewTrie_def lookup_trie_None split: sum.splits)

theorem trie_refines_map_witness:
  "fold_res spec_op [Store [1] [7], Store [2] [8], Remove [1 :: byte]] Map.empty = Inr ([[2 :: byte] \<mapsto> [8 :: byte]])
   \<and> (case fold_res (run_op put_value Delete) [Store [1] [7], Store [2] [8], Remove [1]] NewTrie of
        Inl e \<Rightarrow> False | Inr t \<Rightarrow> lookup_trie t = [[2] \<mapsto> [8]])"
  using trie_refines_map [of "[Store [1] [7], Store [2] [8], Remove [1]]" 1]
  by (simp split: sum.splits)

text \<open>
  \<open>Put\<close> changes one key: in any trie that \<open>Put\<close> has built, whatever the key lengths, a \<open>Put\<close>
  that returns makes \<open>Get\<close> return the new value at its key and leaves every other key alone. For
  keys of one length it always returns.
\<close>

theorem Put_updates_one_key:
  assumes "trie_wf t" "root_ok (2 * L) t \<and> length k = L \<or> Put t k (Some v) = Inr t'"
  shows "\<exists>t'. Put t k (Some v) = Inr t' \<and> trie_wf t'
    \<and> (\<forall>q. Get t' q = (if q = k then Inr (Some v, True) else Get t q))"
  using assms Put_fixed [of L t k v] Put_post [OF assms(1)] by metis

theorem Put_updates_one_key_witness:
  "\<exists>t'. Put (Some (Leaf [1, 2] (Some [5]))) [0x13] (Some [6]) = Inr t' \<and> trie_wf t'
    \<and> (\<forall>q. Get t' q = (if q = [0x13] then Inr (Some [6], True)
                        else Get (Some (Leaf [1, 2] (Some [5]))) q))"
  by (rule Put_updates_one_key [where L = 1]) (simp_all add: trie_wf_def IsNibble_def)

lemma foldl_positions:
  "foldl (\<lambda>m (k, v). m(k \<mapsto> v)) Map.empty (map (\<lambda>(i, d). (d, g i)) (zip [0..<length ds] ds)) q
   = (if q \<in> set ds then Some (g (Max {i. i < length ds \<and> ds ! i = q})) else None)"
proof (induction ds rule: rev_induct)
  case Nil
  then show ?case by simp
next
  case (snoc d ds)
  have set_eq: "{i. i < length (ds @ [d]) \<and> (ds @ [d]) ! i = q}
      = {i. i < length ds \<and> ds ! i = q} \<union> (if d = q then {length ds} else {})"
    by (auto simp: nth_append less_Suc_eq)
  have "zip [0..<length (ds @ [d])] (ds @ [d]) = zip [0..<length ds] ds @ [(length ds, d)]"
    by simp
  with snoc show ?case
    unfolding set_eq
    by (auto simp: in_set_conv_nth intro!: arg_cong [where f = g] Max_eqI [symmetric])
qed

text \<open>
  \<open>NewTrieWithData\<close> of data of one length returns a trie in which each datum is found under
  itself, with its last position in decimal as the value, and nothing else is found.
\<close>

theorem NewTrieWithData_finds_all:
  assumes "\<forall>d\<in>set datums. length d = L"
  shows "\<exists>t. NewTrieWithData datums = Inr t \<and> (\<forall>q. lookup_trie t q =
    (if q \<in> set datums
     then Some (string_bytes (show_nat (Max {i. i < length datums \<and> datums ! i = q}))) else None))"
proof -
  let ?kvs = "map (\<lambda>(i, d). (d, string_bytes (show_nat i))) (zip [0..<length datums] datums)"
  have valid: "\<forall>x\<in>set ?kvs. length (fst x) = L"
    using assms by (auto dest: set_zip_rightD)
  have eq: "fold_res (\<lambda>(k, v) t. put_value t k v) (map (\<lambda>(i, d). (d, string_bytes (show_nat i))) xs) t
      = fold_res (\<lambda>(i, d) t. Put t d (Some (string_bytes (show_nat i)))) xs t" for xs t
    by (induction xs arbitrary: t) (auto simp: put_value_def bind_res_def split: sum.splits)
  from trie_store.stores_total [of L NewTrie ?kvs] valid eq show ?thesis
    by (auto simp: NewTrieWithData_def NewTrie_def lookup_trie_None foldl_positions)
qed

theorem NewTrieWithData_finds_all_witness:
  "\<exists>t. NewTrieWithData [[1, 2], [1, 3]] = Inr t \<and> (\<forall>q. lookup_trie t q =
    (if q \<in> set [[1, 2], [1, 3]]
     then Some (string_bytes (show_nat (Max {i. i < length [[1, 2], [1, 3 :: byte]] \<and> [[1, 2], [1, 3]] ! i = q})))
     else None))"
  using NewTrieWithData_finds_all [of "[[1, 2], [1, 3]]" 2] by simp

text \<open>
  A key that ends inside an extension cannot be stored: \<open>Put\<close> panics with an index out of
  range when the nibbles of the key are a proper prefix of the extension at the root.
\<close>

theorem Put_inside_extension_panics:
  assumes "FromBytes k = p" "ks = p @ a # r"
  shows "Put (Some (Extension ks nxt)) k v = Inl index_panic"
proof -
  have "PrefixMatchedLen (p @ a # r) p = length p"
    by (metis PrefixMatchedLen_all PrefixMatchedLen_sym)
  with assms show ?thesis by (simp add: Put_def splitExtension_def Let_def)
qed

theorem Put_inside_extension_panics_witness:
  "Put (Some (Extension [1, 2, 3] (Leaf [] None))) [0x12] (Some []) = Inl index_panic"
  by (rule Put_inside_extension_panics [where p = "[1, 2]" and a = 3 and r = "[]"])
    (simp_all add: FromByte_def drop_bit_eq_div)

text \<open>
  With keys of different lengths \<open>Delete\<close> loses data: after storing \<open>a\<close>, \<open>ab\<close> and \<open>ac\<close>, deleting
  \<open>ab\<close> also removes \<open>ac\<close>.
\<close>

theorem Delete_loses_sibling:
  "case NewTrieWithData [string_bytes ''a'', string_bytes ''ab'', string_bytes ''ac''] of
     Inl e \<Rightarrow> False
   | Inr t \<Rightarrow> lookup_trie t (string_bytes ''ac'') = Some (string_bytes ''2'')
       \<and> (case Delete t (string_bytes ''ab'') of
             Inl e \<Rightarrow> False | Inr t' \<Rightarrow> lookup_trie t' (string_bytes ''ac'') = None)"
  by code_simp

end
