(* ===== verification/Params.thy ===== *)
theory Params
  imports Prelude
begin

text \<open>
  \<open>params/config.go\<close> and \<open>params/migration_strategy.go\<close>: the chain configuration, the shard
  tables, and the migration strategies. Strings are ASCII; \<open>strings.TrimSpace\<close> and
  \<open>strings.ToLower\<close> are modelled on ASCII characters.
\<close>

section \<open>Configuration\<close>

text \<open>The fields of \<open>ChainConfig\<close> that the modelled code reads.\<close>

record ChainConfig =
  NodeID :: string
  ShardID :: string
  Shard_num :: int
  Malicious_num :: int
  MaxBlockSize :: int
  MaxMigSize :: int
  MaxMig2Size :: int
  MaxMig1Size :: int
  MaxAnnSize :: int
  MaxCapSize :: int
  Inject_speed :: int
  ClientSendTX :: bool
  MigrationStrategy :: string
  Stop_When_Migrating :: bool
  Lock_Acc_When_Migrating :: bool
  Not_Lock_Acc_When_Migrating :: bool
  Bu_Tong_Bi_Li :: bool
  Bu_Tong_Bi_Li_2 :: bool
  Bu_Tong_Shi_Jian :: bool
  Bu_Tong_Shi_Jian_Jian_Ge :: int
  Fail :: bool
  Fail_Time :: int
  Cross_Chain :: bool
  Algorithm :: bool
  Pressure :: bool
  Not_Lock_immediately :: bool
  RelayLock :: bool
  EnableSyncProbe :: bool
  DeltaAggregateWindowMs :: int
  Block_interval :: int
  MaxInjectTxs :: int
  InjectStartTx :: int
  Max_Commit_Block :: int
  PorC :: string
  MigrateBeforeInject :: bool
  OnlyOnce :: int
  SyncProbeMaxAccounts :: int
  SyncProbeSettleMs :: int
  SyncProbePhaseBDelayMs :: int
  SyncProbeAccount :: string

text \<open>The composite literal assigned to \<open>Config\<close>; the node and shard ids come from the command line.\<close>

definition default_config :: ChainConfig where
  "default_config = \<lparr> NodeID = '''', ShardID = '''', Shard_num = 0, Malicious_num = 0,
     MaxBlockSize = 500, MaxMigSize = 300, MaxMig2Size = 150, MaxMig1Size = 150,
     MaxAnnSize = 150, MaxCapSize = 150, Inject_speed = 400, ClientSendTX = True, MigrationStrategy = ''original'',
     Stop_When_Migrating = False, Lock_Acc_When_Migrating = False,
     Not_Lock_Acc_When_Migrating = False, Bu_Tong_Bi_Li = False, Bu_Tong_Bi_Li_2 = True,
     Bu_Tong_Shi_Jian = False, Bu_Tong_Shi_Jian_Jian_Ge = 3, Fail = False, Fail_Time = 8,
     Cross_Chain = False, Algorithm = False, Pressure = False, Not_Lock_immediately = True,
     RelayLock = False, EnableSyncProbe = True, DeltaAggregateWindowMs = 0,
     Block_interval = 2, MaxInjectTxs = 20000, InjectStartTx = 0, Max_Commit_Block = 20, PorC = ''PageRank'',
     MigrateBeforeInject = False, OnlyOnce = 100, SyncProbeMaxAccounts = 3, SyncProbeSettleMs = 0,
     SyncProbePhaseBDelayMs = 0, SyncProbeAccount = '''' \<rparr>"

text \<open>The address of each node: eight shards of four nodes.\<close>

definition NodeTable :: "string \<rightharpoonup> (string \<rightharpoonup> string)" where
  "NodeTable = map_of (map (\<lambda>(shard, tens). (shard, map_of (map (\<lambda>(node, digit). (node, ''127.0.0.1:80'' @ tens @ digit))
       [(''N0'', ''0''), (''N1'', ''1''), (''N2'', ''2''), (''N3'', ''3'')])))
     [(''S0'', ''1''), (''S1'', ''2''), (''S2'', ''3''), (''S3'', ''4''), (''S4'', ''5''), (''S5'', ''6''), (''S6'', ''7''), (''S7'', ''8'')])"

text \<open>\<open>Init_addrs\<close>: every entry is commented out.\<close>

definition Init_addrs :: "string list" where
  "Init_addrs = []"

definition ShardTable :: "string \<rightharpoonup> int" where
  "ShardTable = map_of [(''S0'', 0), (''S1'', 1), (''S2'', 2), (''S3'', 3),
     (''S4'', 4), (''S5'', 5), (''S6'', 6), (''S7'', 7)]"

definition ShardTableInt2Str :: "int \<rightharpoonup> string" where
  "ShardTableInt2Str = map_of [(0, ''S0''), (1, ''S1''), (2, ''S2''), (3, ''S3''),
     (4, ''S4''), (5, ''S5''), (6, ''S6''), (7, ''S7'')]"

text \<open>A map read without the second result yields the zero value for an absent key.\<close>

definition shard_number :: "string \<Rightarrow> int" where
  "shard_number s = (case ShardTable s of None \<Rightarrow> 0 | Some n \<Rightarrow> n)"

definition shard_name :: "int \<Rightarrow> string" where
  "shard_name n = (case ShardTableInt2Str n of None \<Rightarrow> '''' | Some s \<Rightarrow> s)"

definition self_shard :: "ChainConfig \<Rightarrow> int" where
  "self_shard cfg = shard_number (ShardID cfg)"

definition ActiveShardIDs :: "ChainConfig \<Rightarrow> string list" where
  "ActiveShardIDs cfg = List.map_filter ShardTableInt2Str (map int [0..<nat (Shard_num cfg)])"

section \<open>Migration strategies\<close>

abbreviation StrategyOriginal :: string where "StrategyOriginal \<equiv> ''original''"
abbreviation StrategyMVSS :: string where "StrategyMVSS \<equiv> ''MVSS''"
abbreviation StrategyMVSSDelta :: string where "StrategyMVSSDelta \<equiv> ''MVSS-Delta''"
abbreviation StrategySOTALock :: string where "StrategySOTALock \<equiv> ''SOTA-Lock''"
abbreviation StrategyFineTunedLock :: string where "StrategyFineTunedLock \<equiv> ''Fine-tuned-Lock''"
abbreviation StrategyStopEpoch :: string where "StrategyStopEpoch \<equiv> ''stop_epoch''"

definition is_space :: "char \<Rightarrow> bool" where
  "is_space c \<longleftrightarrow> (of_char c :: nat) \<in> {9, 10, 11, 12, 13, 32}"

definition TrimSpace :: "string \<Rightarrow> string" where
  "TrimSpace s = rev (dropWhile is_space (rev (dropWhile is_space s)))"

definition to_lower_char :: "char \<Rightarrow> char" where
  "to_lower_char c =
     (let n = (of_char c :: nat) in if 65 \<le> n \<and> n \<le> 90 then char_of (n + 32) else c)"

definition ToLower :: "string \<Rightarrow> string" where
  "ToLower s = map to_lower_char s"

definition canonical_strategies :: "string list" where
  "canonical_strategies = [StrategyOriginal, StrategyMVSS, StrategyMVSSDelta, StrategySOTALock,
     StrategyFineTunedLock, StrategyStopEpoch]"

text \<open>The cases of the switch on the lower-case name, in their order.\<close>

definition strategy_aliases :: "(string \<times> string) list" where
  "strategy_aliases =
    [(''original'', StrategyOriginal), (''mvss'', StrategyMVSS),
     (''mvss+'', StrategyMVSS), (''mvss_plus'', StrategyMVSS), (''mvssplus'', StrategyMVSS),
     (''mvss-delta'', StrategyMVSSDelta), (''mvss_delta'', StrategyMVSSDelta), (''mvssdelta'', StrategyMVSSDelta),
     (''sota-lock'', StrategySOTALock), (''sota_lock'', StrategySOTALock), (''sotalock'', StrategySOTALock),
     (''lock'', StrategySOTALock), (''fine-tuned-lock'', StrategyFineTunedLock),
     (''fine_tuned_lock'', StrategyFineTunedLock), (''finetunedlock'', StrategyFineTunedLock),
     (''finetuned'', StrategyFineTunedLock), (''stop_epoch'', StrategyStopEpoch)]"

definition ParseMigrationStrategy :: "string \<Rightarrow> string res" where
  "ParseMigrationStrategy s =
     (case map_of strategy_aliases (ToLower (TrimSpace s)) of
        Some m \<Rightarrow> Inr m
      | None \<Rightarrow>
          if TrimSpace s \<in> set canonical_strategies then Inr (TrimSpace s) else Inl log_panic)"

definition set_modes :: "bool \<Rightarrow> bool \<Rightarrow> bool \<Rightarrow> ChainConfig \<Rightarrow> ChainConfig" where
  "set_modes stop lock notlock cfg = cfg\<lparr> Stop_When_Migrating := stop,
     Lock_Acc_When_Migrating := lock, Not_Lock_Acc_When_Migrating := notlock \<rparr>"

definition ApplyMigrationStrategy :: "ChainConfig \<Rightarrow> ChainConfig res" where
  "ApplyMigrationStrategy cfg0 =
     (let cfg = (if MigrationStrategy cfg0 = '''' then cfg0\<lparr> MigrationStrategy := StrategyOriginal \<rparr> else cfg0);
          m = MigrationStrategy cfg in
      if m = StrategyMVSS \<or> m = StrategyMVSSDelta then Inr (set_modes False False True cfg)
      else if m = StrategyOriginal then Inr (set_modes False False True cfg)
      else if m = StrategySOTALock then Inr (set_modes False True False cfg)
      else if m = StrategyFineTunedLock then Inr (set_modes False False False cfg)
      else if m = StrategyStopEpoch then Inr (set_modes True False False cfg)
      else Inl log_panic)"

definition IsMVSS :: "ChainConfig \<Rightarrow> bool" where
  "IsMVSS cfg \<longleftrightarrow> MigrationStrategy cfg = StrategyMVSS \<or> MigrationStrategy cfg = StrategyMVSSDelta"

definition IsMVSSDelta :: "ChainConfig \<Rightarrow> bool" where
  "IsMVSSDelta cfg \<longleftrightarrow> MigrationStrategy cfg = StrategyMVSSDelta"

definition IsSOTALock :: "ChainConfig \<Rightarrow> bool" where
  "IsSOTALock cfg \<longleftrightarrow> MigrationStrategy cfg = StrategySOTALock"

definition IsFineTunedLock :: "ChainConfig \<Rightarrow> bool" where
  "IsFineTunedLock cfg \<longleftrightarrow> MigrationStrategy cfg = StrategyFineTunedLock"

definition IsMVSSPlus :: "ChainConfig \<Rightarrow> bool" where
  "IsMVSSPlus cfg = IsMVSS cfg"

section \<open>Lemmas\<close>

lemma canonical_parse_all: "list_all (\<lambda>c. ParseMigrationStrategy c = Inr c) canonical_strategies"
  by code_simp

lemma canonical_parse: "c \<in> set canonical_strategies \<Longrightarrow> ParseMigrationStrategy c = Inr c"
  using canonical_parse_all by (simp add: list_all_iff)

lemma alias_canonical: "list_all (\<lambda>x. snd x \<in> set canonical_strategies) strategy_aliases"
  by code_simp

lemma ParseMigrationStrategy_canonical:
  "ParseMigrationStrategy s = Inr m \<Longrightarrow> m \<in> set canonical_strategies"
  unfolding ParseMigrationStrategy_def
  using alias_canonical [unfolded list_all_iff] map_of_SomeD [of strategy_aliases]
  by (simp split: option.splits if_split_asm) (metis snd_conv)

lemma canonical_cases:
  assumes "m \<in> set canonical_strategies"
  obtains "m = StrategyOriginal" | "m = StrategyMVSS" | "m = StrategyMVSSDelta"
    | "m = StrategySOTALock" | "m = StrategyFineTunedLock" | "m = StrategyStopEpoch"
proof -
  from assms have "m = StrategyOriginal \<or> m = StrategyMVSS \<or> m = StrategyMVSSDelta
      \<or> m = StrategySOTALock \<or> m = StrategyFineTunedLock \<or> m = StrategyStopEpoch"
    unfolding canonical_strategies_def by (simp only: list.set insert_iff empty_iff simp_thms)
  then show thesis by (elim disjE) (rule that, assumption)+
qed

lemma shard_lists:
  "list_all (\<lambda>k. map shard_number (List.map_filter ShardTableInt2Str (map int [0..<k])) = map int [0..<k]
     \<and> distinct (List.map_filter ShardTableInt2Str (map int [0..<k]))) [0..<9]"
  by code_simp

section \<open>Properties\<close>

text \<open>
  Whatever spelling it is given, \<open>ParseMigrationStrategy\<close> either panics or returns one of the
  six canonical names, which it parses to themselves; \<open>ApplyMigrationStrategy\<close> then succeeds and
  sets at most one of the three mode flags: \<open>Stop\<close> exactly for stop_epoch, \<open>Lock\<close> exactly for the full
  lock, \<open>Not_Lock\<close> exactly for original and the MVSS strategies.
\<close>

theorem parsed_strategy_applies:
  assumes "ParseMigrationStrategy s = Inr m" "MigrationStrategy cfg = m"
  shows "ParseMigrationStrategy m = Inr m \<and> (\<exists>cfg'. ApplyMigrationStrategy cfg = Inr cfg'
    \<and> MigrationStrategy cfg' = m
    \<and> (Stop_When_Migrating cfg' \<longleftrightarrow> m = StrategyStopEpoch)
    \<and> (Lock_Acc_When_Migrating cfg' \<longleftrightarrow> IsSOTALock cfg')
    \<and> (Not_Lock_Acc_When_Migrating cfg' \<longleftrightarrow> m = StrategyOriginal \<or> IsMVSS cfg')
    \<and> ApplyMigrationStrategy cfg' = Inr cfg')"
proof -
  from ParseMigrationStrategy_canonical [OF assms(1)] have m: "m \<in> set canonical_strategies" .
  from m assms(2) show ?thesis
    unfolding canonical_parse [OF m]
    by (cases rule: canonical_cases)
      (simp_all add: ApplyMigrationStrategy_def set_modes_def IsSOTALock_def IsMVSS_def)
qed

theorem parsed_strategy_applies_witness:
  "ParseMigrationStrategy '' MvSS+ '' = Inr ''MVSS'' \<and>
   (\<exists>cfg'. ApplyMigrationStrategy (default_config\<lparr> MigrationStrategy := ''MVSS'' \<rparr>) = Inr cfg'
     \<and> Not_Lock_Acc_When_Migrating cfg')"
proof -
  have p: "ParseMigrationStrategy '' MvSS+ '' = Inr ''MVSS''" by code_simp
  from parsed_strategy_applies [OF p, of "default_config\<lparr> MigrationStrategy := ''MVSS'' \<rparr>"] p
  show ?thesis by (auto simp: IsMVSS_def)
qed

text \<open>
  \<open>ActiveShardIDs\<close> lists the configured shards once each, in order: for up to eight shards the
  numbers of the listed ids are exactly \<open>0\<close> to \<open>Shard_num - 1\<close>.
\<close>

theorem ActiveShardIDs_enumerates:
  assumes "0 \<le> Shard_num cfg" "Shard_num cfg \<le> 8"
  shows "map shard_number (ActiveShardIDs cfg) = map int [0..<nat (Shard_num cfg)]
    \<and> distinct (ActiveShardIDs cfg)"
proof -
  have "nat (Shard_num cfg) \<in> set [0..<9]" using assms by simp
  with shard_lists show ?thesis unfolding ActiveShardIDs_def list_all_iff by blast
qed

theorem ActiveShardIDs_enumerates_witness:
  "map shard_number (ActiveShardIDs (default_config\<lparr> Shard_num := 2 \<rparr>)) = [0, 1]"
  using ActiveShardIDs_enumerates [of "default_config\<lparr> Shard_num := 2 \<rparr>"]
  by (simp add: upt_rec)

end
