(* ===== verification/Accounts.thy ===== *)
theory Accounts
  imports Params
begin

text \<open>
  \<open>account/account_state.go\<close> and the address helpers of \<open>utils/utils.go\<close>: account states, the
  shard map and the sets of migrating accounts that the process keeps as globals. The globals are
  maps after \<open>InitGlobals\<close>, which runs first; each access is under its own mutex.
\<close>

section \<open>Account states\<close>

record AccountState =
  Nonce :: u64
  Balance :: int
  Migrate :: int
  Location :: int

type_synonym flags = "addr \<rightharpoonup> bool"

record Globals =
  Account2Shard :: "addr \<rightharpoonup> int"
  AccountInOwnShard :: flags
  BalanceBeforeOut :: "addr \<rightharpoonup> int"
  Outing_Acc_Before_Announce :: flags
  Outing_Acc_After_Announce :: flags
  Lock_Acc :: flags
  Not_Lock_Acc :: flags

definition InitGlobals :: Globals where
  "InitGlobals = \<lparr> Account2Shard = Map.empty, AccountInOwnShard = Map.empty,
     BalanceBeforeOut = Map.empty, Outing_Acc_Before_Announce = Map.empty,
     Outing_Acc_After_Announce = Map.empty, Lock_Acc = Map.empty, Not_Lock_Acc = Map.empty \<rparr>"

text \<open>\<open>m[k]\<close> of a \<open>map[string]bool\<close> is false for an absent key.\<close>

definition flag :: "('k \<rightharpoonup> bool) \<Rightarrow> 'k \<Rightarrow> bool" where
  "flag m k = (case m k of None \<Rightarrow> False | Some b \<Rightarrow> b)"

lemma flag_simps [simp]:
  "flag Map.empty k = False" "flag (m(a \<mapsto> b)) k = (if k = a then b else flag m k)"
  "flag (m(a := None)) k = (k \<noteq> a \<and> flag m k)"
  by (auto simp: flag_def)

section \<open>Addresses to shards\<close>

text \<open>\<open>strconv.ParseInt(s, 16, 32)\<close>: an optional sign, then at least one hexadecimal digit.\<close>

fun hex_value :: "nat \<Rightarrow> string \<Rightarrow> nat option" where
  "hex_value acc [] = Some acc"
| "hex_value acc (c # cs) =
     (case from_hex_char c of None \<Rightarrow> None | Some d \<Rightarrow> hex_value (16 * acc + d) cs)"

definition ParseInt16 :: "string \<Rightarrow> int option" where
  "ParseInt16 s =
     (let neg = (s \<noteq> [] \<and> hd s = CHR ''-'');
          ds = (if s \<noteq> [] \<and> (hd s = CHR ''-'' \<or> hd s = CHR ''+'') then tl s else s) in
      if ds = [] then None
      else case hex_value 0 ds of
          None \<Rightarrow> None
        | Some n \<Rightarrow> (let v = (if neg then - int n else int n) in
            if - (2 ^ 31) \<le> v \<and> v < 2 ^ 31 then Some v else None))"

text \<open>Go's \<open>%\<close> truncates towards zero and panics for a zero divisor.\<close>

definition go_rem :: "int \<Rightarrow> int \<Rightarrow> int res" where
  "go_rem a b = (if b = 0 then Inl (Panic ''integer divide by zero'')
     else Inr (sgn a * (\<bar>a\<bar> mod \<bar>b\<bar>)))"

definition utils_Addr2Shard :: "ChainConfig \<Rightarrow> addr \<Rightarrow> int res" where
  "utils_Addr2Shard cfg a =
     (if length a < 5 then Inl slice_panic
      else case ParseInt16 (drop (length a - 5) a) of
          None \<Rightarrow> Inl log_panic
        | Some num \<Rightarrow> go_rem num (Shard_num cfg))"

definition Addr2Shard :: "ChainConfig \<Rightarrow> addr \<Rightarrow> Globals \<Rightarrow> (int \<times> Globals) res" where
  "Addr2Shard cfg a g =
     (case Account2Shard g a of
        Some shard \<Rightarrow> Inr (shard, g)
      | None \<Rightarrow>
          if length a < 5 then Inl slice_panic
          else case ParseInt16 (drop (length a - 5) a) of
              None \<Rightarrow> Inl log_panic
            | Some num \<Rightarrow>
                bind_res (go_rem num (Shard_num cfg)) (\<lambda>shard.
                  let g1 = g\<lparr> Account2Shard := (Account2Shard g)(a \<mapsto> shard) \<rparr> in
                  Inr (shard, if shard = self_shard cfg
                    then g1\<lparr> AccountInOwnShard := (AccountInOwnShard g1)(a \<mapsto> True) \<rparr> else g1)))"

definition utils_Min :: "int \<Rightarrow> int \<Rightarrow> int" where
  "utils_Min a b = (if a < b then a else b)"

text \<open>\<open>%x\<close> of a non-negative \<open>int\<close>, padded with zeros to 40 digits.\<close>

fun show_hex :: "nat \<Rightarrow> string" where
  "show_hex n = (if n < 16 then [hexdigit n] else show_hex (n div 16) @ [hexdigit (n mod 16)])"

declare show_hex.simps [simp del]

definition show_hex_int :: "int \<Rightarrow> string" where
  "show_hex_int j = (if j < 0 then CHR ''-'' # show_hex (nat (- j)) else show_hex (nat j))"

definition Int2hexString :: "int \<Rightarrow> addr" where
  "Int2hexString j = (let s = show_hex_int j in replicate (40 - length s) (CHR ''0'') @ s)"

section \<open>Lemmas\<close>

definition hex_digits :: "string \<Rightarrow> bool" where
  "hex_digits s \<longleftrightarrow> list_all (\<lambda>c. from_hex_char c \<noteq> None) s"

lemma hex_value_total: "hex_digits s \<Longrightarrow> \<exists>n. hex_value acc s = Some n"
  by (induction s arbitrary: acc) (auto simp: hex_digits_def)

lemma from_hex_char_lt: "from_hex_char c = Some d \<Longrightarrow> d < 16"
  by (auto simp: from_hex_char_def Let_def split: if_splits)

lemma hex_value_bound: "hex_value acc s = Some n \<Longrightarrow> n < (acc + 1) * 16 ^ length s"
proof (induction s arbitrary: acc)
  case Nil
  then show ?case by simp
next
  case (Cons c s)
  then obtain d where d: "from_hex_char c = Some d" "hex_value (16 * acc + d) s = Some n"
    by (auto split: option.splits)
  from Cons.IH [OF d(2)] have "n < (16 * acc + d + 1) * 16 ^ length s" .
  also have "\<dots> \<le> (16 * acc + 16) * 16 ^ length s"
    using from_hex_char_lt [OF d(1)] by (intro mult_right_mono) auto
  finally show ?case by (simp add: algebra_simps)
qed

lemma hex_digit_no_sign: "from_hex_char c \<noteq> None \<Longrightarrow> c \<noteq> CHR ''-'' \<and> c \<noteq> CHR ''+''"
  by (auto simp: from_hex_char_def Let_def)

lemma ParseInt16_hex:
  assumes "hex_digits s" "s \<noteq> []" "length s \<le> 5"
  shows "\<exists>n. ParseInt16 s = Some (int n)"
proof -
  obtain n where n: "hex_value 0 s = Some n" using hex_value_total [OF assms(1)] by blast
  have "(16 :: nat) ^ length s \<le> 16 ^ 5" using assms(3) by (intro power_increasing) auto
  with hex_value_bound [OF n] have "n < 1048576" by simp
  with n assms hex_digit_no_sign [of "hd s"] show ?thesis
    by (cases s) (auto simp: ParseInt16_def hex_digits_def Let_def)
qed

lemma hex_digits_drop: "hex_digits s \<Longrightarrow> hex_digits (drop k s)"
  by (auto simp: hex_digits_def list_all_iff dest: in_set_dropD)

lemma hex_digits_tail:
  "hex_digits (drop k s) \<Longrightarrow> k < length s \<Longrightarrow> length s - k \<le> 5 \<Longrightarrow> \<exists>n. ParseInt16 (drop k s) = Some (int n)"
  using ParseInt16_hex [of "drop k s"] by auto

lemma utils_Addr2Shard_range:
  assumes "hex_digits (drop (length a - 5) a)" "5 \<le> length a" "0 < Shard_num cfg"
  shows "\<exists>s. utils_Addr2Shard cfg a = Inr s \<and> 0 \<le> s \<and> s < Shard_num cfg"
proof -
  have "length a - 5 < length a" "length a - (length a - 5) \<le> 5" using assms(2) by auto
  from hex_digits_tail [OF assms(1) this] obtain n where
    "ParseInt16 (drop (length a - 5) a) = Some (int n)" by blast
  then show ?thesis using assms
    by (auto simp: utils_Addr2Shard_def go_rem_def sgn_if)
qed

lemma Addr2Shard_unknown:
  "Account2Shard g a = None \<Longrightarrow>
   Addr2Shard cfg a g = bind_res (utils_Addr2Shard cfg a) (\<lambda>shard.
     let g1 = g\<lparr> Account2Shard := (Account2Shard g)(a \<mapsto> shard) \<rparr> in
     Inr (shard, if shard = self_shard cfg
       then g1\<lparr> AccountInOwnShard := (AccountInOwnShard g1)(a \<mapsto> True) \<rparr> else g1))"
  by (auto simp: Addr2Shard_def utils_Addr2Shard_def split: option.splits)

lemma hex_digits_show_hex: "hex_digits (show_hex n)"
proof (induction n rule: show_hex.induct)
  case (1 n)
  then show ?case
    by (subst show_hex.simps) (auto simp: hex_digits_def)
qed

lemma hex_value_append: "hex_value acc (s @ t) =
  (case hex_value acc s of None \<Rightarrow> None | Some n \<Rightarrow> hex_value n t)"
  by (induction s arbitrary: acc) (auto split: option.splits)

lemma hex_value_show_hex: "hex_value 0 (show_hex n) = Some n"
proof (induction n rule: show_hex.induct)
  case (1 n)
  then show ?case
    by (subst show_hex.simps) (auto simp: hex_value_append)
qed

lemma hex_value_zeros: "hex_value 0 (replicate k (CHR ''0'') @ s) = hex_value 0 s"
  by (induction k) (auto simp: from_hex_char_def)

lemma length_show_hex: "0 < k \<Longrightarrow> n < 16 ^ k \<Longrightarrow> length (show_hex n) \<le> k"
proof (induction n arbitrary: k rule: show_hex.induct)
  case (1 n)
  show ?case
  proof (cases "n < 16")
    case True
    with "1.prems" show ?thesis by (subst show_hex.simps) simp
  next
    case False
    with "1.prems" obtain j where k: "k = Suc j" "0 < j" by (cases k; cases "k - 1") auto
    with "1.prems" have "n div 16 < 16 ^ j" by (simp add: less_mult_imp_div_less mult.commute)
    from "1.IH" [OF False k(2) this] k show ?thesis by (subst show_hex.simps) (simp add: False)
  qed
qed

section \<open>Properties\<close>

text \<open>
  \<open>account.Addr2Shard\<close> returns a valid shard for every address whose last five characters are
  hexadecimal, agrees with \<open>utils.Addr2Shard\<close> on an address seen for the first time, remembers its
  answer (a second call returns the same shard and changes nothing), never changes the shard of
  another address, and lists the address as the shard's own exactly when it maps there.
\<close>

theorem Addr2Shard_stable:
  assumes "hex_digits (drop (length a - 5) a)" "5 \<le> length a" "0 < Shard_num cfg"
    and new: "Account2Shard g a = None"
  shows "\<exists>s g'. Addr2Shard cfg a g = Inr (s, g') \<and> utils_Addr2Shard cfg a = Inr s
    \<and> 0 \<le> s \<and> s < Shard_num cfg \<and> Addr2Shard cfg a g' = Inr (s, g')
    \<and> (\<forall>b. b \<noteq> a \<longrightarrow> Account2Shard g' b = Account2Shard g b)
    \<and> AccountInOwnShard g' a = (if s = self_shard cfg then Some True else AccountInOwnShard g a)"
proof -
  obtain s where s: "utils_Addr2Shard cfg a = Inr s" "0 \<le> s" "s < Shard_num cfg"
    using utils_Addr2Shard_range [OF assms(1-3)] by blast
  then show ?thesis
    by (auto simp: Addr2Shard_unknown [OF new] Let_def) (simp_all add: Addr2Shard_def)
qed

theorem Addr2Shard_stable_witness:
  "\<exists>s g'. Addr2Shard (default_config\<lparr> Shard_num := 4 \<rparr>) ''89e8f6412b'' InitGlobals = Inr (s, g')
    \<and> Addr2Shard (default_config\<lparr> Shard_num := 4 \<rparr>) ''89e8f6412b'' g' = Inr (s, g')"
  using Addr2Shard_stable [of "''89e8f6412b''" "default_config\<lparr> Shard_num := 4 \<rparr>" InitGlobals]
  by (auto simp: InitGlobals_def hex_digits_def from_hex_char_def)

text \<open>
  \<open>Int2hexString\<close> writes a number below \<open>16 ^ 40\<close> as an address of exactly 40 hexadecimal
  digits whose value is the number, so distinct numbers give distinct addresses.
\<close>

theorem Int2hexString_roundtrip:
  assumes "0 \<le> j" "j < 16 ^ 40"
  shows "length (Int2hexString j) = 40 \<and> hex_digits (Int2hexString j)
    \<and> hex_value 0 (Int2hexString j) = Some (nat j)"
proof -
  have "nat j < 16 ^ 40" using assms by (simp add: nat_less_iff)
  then have "length (show_hex (nat j)) \<le> 40" by (intro length_show_hex) auto
  moreover have "hex_digits (replicate k (CHR ''0'') @ show_hex (nat j))" for k
    using hex_digits_show_hex [of "nat j"] by (auto simp: hex_digits_def list_all_iff from_hex_char_def)
  ultimately show ?thesis
    using assms by (simp add: Int2hexString_def show_hex_int_def Let_def hex_value_zeros hex_value_show_hex)
qed

theorem Int2hexString_roundtrip_witness:
  "length (Int2hexString 255) = 40 \<and> hex_value 0 (Int2hexString 255) = Some 255"
  using Int2hexString_roundtrip [of 255] by simp

end
