(* ===== verification/MigCtx.thy ===== *)
theory MigCtx
  imports Accounts
begin

text \<open>
  \<open>account/mvss_ctx.go\<close>: the migration context of an account, the detection of transactions that
  interleave across a migration, the predicates that gate packing, and the process-wide stores of
  pending states, deltas and aborts. A Go map that is iterated or measured is an association list
  with distinct keys; the order of \<open>range\<close>, which Go leaves open, is a parameter \<open>rng\<close>. Contexts are
  pointers in the code; every context that is stored is a fresh non-nil one with its maps made, so
  a lookup that fails is the only \<open>nil\<close>.
\<close>

section \<open>State\<close>

datatype MigFSM = FSMActive | FSMPauseOld | FSMSyncOut | FSMWaitSyncIni | FSMSyncApplied | FSMAckSent

fun fsm_iota :: "MigFSM \<Rightarrow> nat" where
  "fsm_iota FSMActive = 0"
| "fsm_iota FSMPauseOld = 1"
| "fsm_iota FSMSyncOut = 2"
| "fsm_iota FSMWaitSyncIni = 3"
| "fsm_iota FSMSyncApplied = 4"
| "fsm_iota FSMAckSent = 5"

lemma fsm_iota_inject [simp]: "fsm_iota a = fsm_iota b \<longleftrightarrow> a = b"
  by (cases a; cases b) auto

instantiation MigFSM :: linorder
begin

definition less_eq_MigFSM :: "MigFSM \<Rightarrow> MigFSM \<Rightarrow> bool" where
  "less_eq_MigFSM a b \<longleftrightarrow> fsm_iota a \<le> fsm_iota b"

definition less_MigFSM :: "MigFSM \<Rightarrow> MigFSM \<Rightarrow> bool" where
  "less_MigFSM a b \<longleftrightarrow> fsm_iota a < fsm_iota b"

instance
  by standard (auto simp: less_eq_MigFSM_def less_MigFSM_def)

end

type_synonym timemap = "(int \<times> int) list"

record MigAccountCtx =
  SourceShard :: int
  TargetShard :: int
  Mig1Time :: int
  LastCN :: u64
  SyncNeeded :: bool
  MigNonce :: u64
  NextNonce :: u64
  OrderList :: timemap
  ArrivalList :: timemap
  CommittedTx :: "int \<rightharpoonup> bool"
  FirstNewTxID :: int
  PausedTxIDs :: "int \<rightharpoonup> bool"
  FSM :: MigFSM
  PendingSyncAck :: bool
  LastDeltaHash :: bytes

record MigPendingDelta =
  pd_DeltaBalance :: "int option"
  pd_DeltaNonce :: int
  pd_StartN :: u64
  pd_EndN :: u64
  pd_PrevHash :: bytes
  pd_DeltaHash :: bytes
  pd_RequestTime :: int

record MigGlobals =
  MigCtxMap :: "addr \<rightharpoonup> MigAccountCtx"
  MigPendingState :: "addr \<rightharpoonup> AccountState"
  MigPendingDeltaMap :: "addr \<rightharpoonup> MigPendingDelta"
  MigAbortReason :: "addr \<rightharpoonup> string"

definition InitMigCtx :: MigGlobals where
  "InitMigCtx = \<lparr> MigCtxMap = Map.empty, MigPendingState = Map.empty,
     MigPendingDeltaMap = Map.empty, MigAbortReason = Map.empty \<rparr>"

definition GetMigCtx :: "addr \<Rightarrow> MigGlobals \<Rightarrow> MigAccountCtx option" where
  "GetMigCtx a g = MigCtxMap g a"

definition SetMigCtx :: "addr \<Rightarrow> MigAccountCtx \<Rightarrow> MigGlobals \<Rightarrow> MigGlobals" where
  "SetMigCtx a ctx g = g\<lparr> MigCtxMap := (MigCtxMap g)(a \<mapsto> ctx) \<rparr>"

definition DeleteMigCtx :: "addr \<Rightarrow> MigGlobals \<Rightarrow> MigGlobals" where
  "DeleteMigCtx a g = g\<lparr> MigCtxMap := (MigCtxMap g)(a := None) \<rparr>"

section \<open>Order and arrival of transactions\<close>

definition IsTXNew :: "int \<Rightarrow> int \<Rightarrow> bool" where
  "IsTXNew mig1Time requestTime \<longleftrightarrow> mig1Time > 0 \<and> requestTime > mig1Time"

definition RegisterOrder :: "int \<Rightarrow> int \<Rightarrow> int \<Rightarrow> MigAccountCtx \<Rightarrow> MigAccountCtx" where
  "RegisterOrder txID clientTS arrivalTS ctx = ctx\<lparr>
     OrderList := AList.update txID clientTS (OrderList ctx),
     ArrivalList := AList.update txID arrivalTS (ArrivalList ctx) \<rparr>"

definition arrivalTime :: "MigAccountCtx \<Rightarrow> int \<Rightarrow> int" where
  "arrivalTime ctx txID = (case map_of (ArrivalList ctx) txID of None \<Rightarrow> 0 | Some t \<Rightarrow> t)"

definition isNew :: "MigAccountCtx \<Rightarrow> int \<Rightarrow> bool" where
  "isNew ctx txID = IsTXNew (Mig1Time ctx) (arrivalTime ctx txID)"

text \<open>The two nested loops that sort the items: pass \<open>i\<close> moves the least remaining one to place \<open>i\<close>.\<close>

fun sort_pass :: "int \<times> int \<Rightarrow> timemap \<Rightarrow> (int \<times> int) \<times> timemap" where
  "sort_pass x [] = (x, [])"
| "sort_pass x (y # ys) =
     (if snd x > snd y then (let (m, r) = sort_pass y ys in (m, x # r))
      else (let (m, r) = sort_pass x ys in (m, y # r)))"

lemma length_sort_pass [simp]: "length (snd (sort_pass x ys)) = length ys"
  by (induction x ys rule: sort_pass.induct) (auto simp: split_beta)

function exchange_sort :: "timemap \<Rightarrow> timemap" where
  "exchange_sort [] = []"
| "exchange_sort (x # xs) = (let (m, r) = sort_pass x xs in m # exchange_sort r)"
  by pat_completeness auto
termination
  by (relation "measure length") (auto, metis length_sort_pass lessI snd_conv)

text \<open>The first three neighbours that are old, new, old: the new one, and the items from the third on.\<close>

fun find_triple :: "(int \<Rightarrow> bool) \<Rightarrow> timemap \<Rightarrow> (int \<times> timemap) option" where
  "find_triple new (a # b # c # rest) =
     (if \<not> new (fst a) \<and> new (fst b) \<and> \<not> new (fst c) then Some (fst b, c # rest)
      else find_triple new (b # c # rest))"
| "find_triple new _ = None"

definition pause_all :: "int list \<Rightarrow> (int \<rightharpoonup> bool) \<Rightarrow> (int \<rightharpoonup> bool)" where
  "pause_all ids m = fold (\<lambda>k p. p(k \<mapsto> True)) ids m"

definition DetectInterleave :: "(timemap \<Rightarrow> timemap) \<Rightarrow> MigAccountCtx \<Rightarrow> bool \<times> MigAccountCtx" where
  "DetectInterleave rng ctx =
     (if length (OrderList ctx) < 3 then (False, ctx)
      else if FirstNewTxID ctx > 0 then (False, ctx)
      else if FSM ctx \<ge> FSMSyncOut then (False, ctx)
      else case find_triple (isNew ctx) (exchange_sort (rng (OrderList ctx))) of
          None \<Rightarrow> (False, ctx)
        | Some (mid, suffix) \<Rightarrow> (True, ctx\<lparr> FirstNewTxID := mid,
            PausedTxIDs := pause_all (filter (\<lambda>k. \<not> isNew ctx k) (map fst suffix)) (PausedTxIDs ctx),
            SyncNeeded := True, FSM := FSMPauseOld \<rparr>))"

section \<open>Gates\<close>

definition IsPaused :: "MigAccountCtx \<Rightarrow> int \<Rightarrow> bool" where
  "IsPaused ctx txID = flag (PausedTxIDs ctx) txID"

definition ShouldBlockNewOnTarget :: "MigAccountCtx \<Rightarrow> bool" where
  "ShouldBlockNewOnTarget ctx \<longleftrightarrow> FSM ctx = FSMWaitSyncIni"

definition PrefixOldAllCommitted :: "MigAccountCtx \<Rightarrow> bool" where
  "PrefixOldAllCommitted ctx =
     (if FirstNewTxID ctx \<le> 0 then False
      else case map_of (OrderList ctx) (FirstNewTxID ctx) of
          None \<Rightarrow> False
        | Some firstTS \<Rightarrow> list_all (\<lambda>(k, ts).
            isNew ctx k \<or> \<not> ts < firstTS \<or> flag (CommittedTx ctx) k) (OrderList ctx))"

definition PrefixOldReady :: "(int \<Rightarrow> bool) option \<Rightarrow> MigAccountCtx \<Rightarrow> bool" where
  "PrefixOldReady inPool ctx =
     (if FirstNewTxID ctx \<le> 0 then False
      else case map_of (OrderList ctx) (FirstNewTxID ctx) of
          None \<Rightarrow> False
        | Some firstTS \<Rightarrow> list_all (\<lambda>(k, ts).
            isNew ctx k \<or> ts \<ge> firstTS \<or> flag (CommittedTx ctx) k
            \<or> (case inPool of None \<Rightarrow> True | Some p \<Rightarrow> \<not> p k)) (OrderList ctx))"

definition MarkTxCommitted :: "addr \<Rightarrow> int \<Rightarrow> MigGlobals \<Rightarrow> MigGlobals" where
  "MarkTxCommitted a txID g =
     (case MigCtxMap g a of
        None \<Rightarrow> g
      | Some ctx \<Rightarrow> SetMigCtx a (ctx\<lparr> CommittedTx := (CommittedTx ctx)(txID \<mapsto> True) \<rparr>) g)"

definition IsSuffixOldTx :: "MigAccountCtx \<Rightarrow> int \<Rightarrow> int \<Rightarrow> int \<Rightarrow> bool" where
  "IsSuffixOldTx ctx txID clientTS arrivalTS =
     (if FirstNewTxID ctx \<le> 0 then False
      else if IsTXNew (Mig1Time ctx) arrivalTS then False
      else case map_of (OrderList ctx) (FirstNewTxID ctx) of
          None \<Rightarrow> False
        | Some firstTS \<Rightarrow> txID \<noteq> FirstNewTxID ctx \<and> clientTS \<ge> firstTS)"

definition ShouldSourcePackOutgoing :: "ChainConfig \<Rightarrow> MigAccountCtx \<Rightarrow> int \<Rightarrow> int \<Rightarrow> int \<Rightarrow> bool" where
  "ShouldSourcePackOutgoing cfg ctx txID clientTS arrivalTS =
     (if TargetShard ctx = self_shard cfg then False
      else if IsPaused ctx txID then True
      else if IsSuffixOldTx ctx txID clientTS arrivalTS then True
      else txID \<ge> 9000000000 \<and> (txID - 9000000000) mod 10 = 3)"

definition ResumeAfterSyncAck :: "MigAccountCtx \<Rightarrow> MigAccountCtx" where
  "ResumeAfterSyncAck ctx = ctx\<lparr> PausedTxIDs := Map.empty, SyncNeeded := False, FSM := FSMActive \<rparr>"

section \<open>Pending stores\<close>

definition SetMigPendingState :: "addr \<Rightarrow> AccountState \<Rightarrow> MigGlobals \<Rightarrow> MigGlobals" where
  "SetMigPendingState a st g = g\<lparr> MigPendingState := (MigPendingState g)(a \<mapsto> st) \<rparr>"

definition TakeMigPendingState :: "addr \<Rightarrow> MigGlobals \<Rightarrow> AccountState option \<times> MigGlobals" where
  "TakeMigPendingState a g =
     (case MigPendingState g a of
        None \<Rightarrow> (None, g)
      | Some st \<Rightarrow> (Some st, g\<lparr> MigPendingState := (MigPendingState g)(a := None) \<rparr>))"

definition SetMigPendingDelta :: "addr \<Rightarrow> MigPendingDelta option \<Rightarrow> MigGlobals \<Rightarrow> MigGlobals" where
  "SetMigPendingDelta a d g =
     (case d of None \<Rightarrow> g
      | Some d \<Rightarrow> g\<lparr> MigPendingDeltaMap := (MigPendingDeltaMap g)(a \<mapsto> d) \<rparr>)"

definition TakeMigPendingDelta :: "addr \<Rightarrow> MigGlobals \<Rightarrow> MigPendingDelta option \<times> MigGlobals" where
  "TakeMigPendingDelta a g =
     (case MigPendingDeltaMap g a of
        None \<Rightarrow> (None, g)
      | Some d \<Rightarrow> (Some d, g\<lparr> MigPendingDeltaMap := (MigPendingDeltaMap g)(a := None) \<rparr>))"

definition DeleteMigPendingDelta :: "addr \<Rightarrow> MigGlobals \<Rightarrow> MigGlobals" where
  "DeleteMigPendingDelta a g = g\<lparr> MigPendingDeltaMap := (MigPendingDeltaMap g)(a := None) \<rparr>"

definition MarkMigAbort :: "addr \<Rightarrow> string \<Rightarrow> MigGlobals \<Rightarrow> MigGlobals" where
  "MarkMigAbort a reason g = g\<lparr> MigAbortReason := (MigAbortReason g)(a \<mapsto> reason) \<rparr>"

definition IsMigAborted :: "addr \<Rightarrow> MigGlobals \<Rightarrow> bool \<times> string" where
  "IsMigAborted a g = (case MigAbortReason g a of None \<Rightarrow> (False, '''') | Some r \<Rightarrow> (True, r))"

definition ClearMigAbort :: "addr \<Rightarrow> MigGlobals \<Rightarrow> MigGlobals" where
  "ClearMigAbort a g = g\<lparr> MigAbortReason := (MigAbortReason g)(a := None) \<rparr>"

end
