(* ===== verification/Interleave.thy ===== *)
theory Interleave
  imports MigCtx
begin

text \<open>
  What \<open>DetectInterleave\<close> finds and misses, the gates it sets, and the one-shot stores of
  \<open>account/mvss_ctx.go\<close>.
\<close>

section \<open>Sorting\<close>

abbreviation by_time :: "timemap \<Rightarrow> bool" where
  "by_time xs \<equiv> sorted (map snd xs)"

lemma sort_pass_mset: "sort_pass x ys = (m, r) \<Longrightarrow> add_mset m (mset r) = add_mset x (mset ys)"
  by (induction x ys arbitrary: m r rule: sort_pass.induct)
    (auto simp: split_beta add_mset_commute split: if_splits; metis prod.collapse add_mset_commute)+

lemma sort_pass_least: "sort_pass x ys = (m, r) \<Longrightarrow> \<forall>y \<in> set (x # ys). snd m \<le> snd y"
proof (induction x ys arbitrary: m r rule: sort_pass.induct)
  case (1 x)
  then show ?case by simp
next
  case (2 x y ys)
  show ?case
  proof (cases "snd x > snd y")
    case True
    with 2(3) obtain r' where "sort_pass y ys = (m, r')" by (auto simp: split_beta prod_eq_iff)
    from 2(1) [OF True this] True show ?thesis by force
  next
    case False
    with 2(3) obtain r' where "sort_pass x ys = (m, r')" by (auto simp: split_beta prod_eq_iff)
    from 2(2) [OF False this] False show ?thesis by force
  qed
qed

lemma mset_exchange_sort [simp]: "mset (exchange_sort xs) = mset xs"
proof (induction xs rule: exchange_sort.induct)
  case (2 x xs)
  obtain m r where mr: "sort_pass x xs = (m, r)" by (cases "sort_pass x xs")
  from 2 [OF mr [symmetric]] sort_pass_mset [OF mr] mr show ?case by simp
qed simp

lemma sorted_exchange_sort: "by_time (exchange_sort xs)"
proof (induction xs rule: exchange_sort.induct)
  case (2 x xs)
  obtain m r where mr: "sort_pass x xs = (m, r)" by (cases "sort_pass x xs")
  from sort_pass_mset [OF mr] have "set r \<subseteq> set (x # xs)"
    by (metis list.set_intros(2) mset.simps(2) set_mset_mset subsetI)
  moreover have "set (exchange_sort r) = set r" by (metis mset_exchange_sort set_mset_mset)
  ultimately show ?case
    using 2 [OF mr [symmetric]] sort_pass_least [OF mr] mr by auto
qed simp

text \<open>With distinct time stamps there is one sorted order, so the order of \<open>range\<close> does not matter.\<close>

lemma exchange_sort_unique:
  assumes "mset xs = mset ys" "distinct (map snd xs)"
  shows "exchange_sort xs = exchange_sort ys"
proof -
  have m: "mset (exchange_sort xs) = mset (exchange_sort ys)" using assms by simp
  have "mset (map snd (exchange_sort xs)) = mset (map snd xs)" by simp
  with assms(2) have d: "distinct (map snd (exchange_sort xs))" by (metis mset_eq_imp_distinct_iff)
  have "mset (map snd (exchange_sort xs)) = mset (map snd (exchange_sort ys))" using m by simp
  then have s: "map snd (exchange_sort xs) = map snd (exchange_sort ys)"
    using sorted_exchange_sort [of xs] sorted_exchange_sort [of ys]
    by (metis properties_for_sort)
  have "inj_on snd (set (exchange_sort xs) \<union> set (exchange_sort ys))"
    using d m by (metis distinct_map set_mset_mset sup.idem)
  with s show ?thesis by (rule map_inj_on)
qed

section \<open>The old, new, old pattern\<close>

lemma find_triple_Some:
  "find_triple new xs = Some (mid, suf) \<Longrightarrow>
   \<exists>p a b. xs = p @ a # b # suf \<and> fst b = mid \<and> \<not> new (fst a) \<and> new mid
     \<and> suf \<noteq> [] \<and> \<not> new (fst (hd suf))"
proof (induction new xs rule: find_triple.induct)
  case (1 new a b c rest)
  show ?case
  proof (cases "\<not> new (fst a) \<and> new (fst b) \<and> \<not> new (fst c)")
    case True
    with "1.prems" show ?thesis by (intro exI [of _ "[]"]) auto
  next
    case False
    with 1 obtain p a' b' where "b # c # rest = p @ a' # b' # suf" "fst b' = mid"
      "\<not> new (fst a') \<and> new mid \<and> suf \<noteq> [] \<and> \<not> new (fst (hd suf))" by auto
    then show ?thesis by (intro exI [of _ "a # p"]) auto
  qed
qed auto

lemma find_triple_complete:
  "\<not> new (fst a) \<Longrightarrow> new (fst b) \<Longrightarrow> \<not> new (fst c) \<Longrightarrow> find_triple new (p @ a # b # c # s) \<noteq> None"
proof (induction p)
  case (Cons x p)
  then show ?case by (cases p; cases "tl p") auto
qed simp

lemma adjacent_split:
  assumes "by_time xs" "distinct (map snd xs)" "a \<in> set xs" "b \<in> set xs" "snd a < snd b"
    and "\<forall>x\<in>set xs. \<not> (snd a < snd x \<and> snd x < snd b)"
  shows "\<exists>p r. xs = p @ a # b # r"
proof -
  obtain p q where xs: "xs = p @ a # q" using assms(3) by (auto dest: split_list)
  with assms have "b \<in> set q" by (auto simp: sorted_append)
  then obtain h r where q: "q = h # r" by (cases q) auto
  have "h = b"
  proof (rule ccontr)
    assume "h \<noteq> b"
    with \<open>b \<in> set q\<close> q have "b \<in> set r" by simp
    with assms(1,2) xs q have "snd h \<le> snd b" "snd h \<noteq> snd b" "snd a \<le> snd h" "snd a \<noteq> snd h"
        by (auto simp: sorted_append)
    with assms(6) xs q show False by auto
  qed
  with xs q show ?thesis by blast
qed

lemma pause_all_flag [simp]: "flag (pause_all ids m) k \<longleftrightarrow> k \<in> set ids \<or> flag m k"
  unfolding pause_all_def by (induction ids arbitrary: m) auto

lemma isNew_update [simp]:
  "isNew (ctx\<lparr> FirstNewTxID := a, PausedTxIDs := b, SyncNeeded := c, FSM := d \<rparr>) = isNew ctx"
  by (simp add: fun_eq_iff isNew_def arrivalTime_def)

section \<open>Properties of the detection\<close>

text \<open>
  C32. A positive answer of \<open>DetectInterleave\<close> is an interleaving: there are registered transactions
  old, new, old in logical order with the new one recorded; the context waits for the sync in state
  PauseOld; exactly old transactions that do not precede the new one in logical order have been
  paused, every old transaction strictly after it among them; the result does not depend on any
  other field, and a second call changes nothing.
\<close>

theorem DetectInterleave_sound:
  assumes perm: "mset (rng (OrderList ctx)) = mset (OrderList ctx)"
    and det: "DetectInterleave rng ctx = (True, ctx')"
  shows "\<exists>a tm. (a, tm) \<in> set (OrderList ctx) \<and> isNew ctx a \<and> FirstNewTxID ctx' = a
     \<and> (\<exists>(k, t) \<in> set (OrderList ctx). \<not> isNew ctx k \<and> t \<le> tm)
     \<and> SyncNeeded ctx' \<and> FSM ctx' = FSMPauseOld
     \<and> (\<exists>(k, t) \<in> set (OrderList ctx). \<not> isNew ctx k \<and> tm \<le> t \<and> IsPaused ctx' k)
     \<and> (\<forall>(k, t) \<in> set (OrderList ctx). \<not> isNew ctx k \<and> tm < t \<longrightarrow> IsPaused ctx' k)
     \<and> (\<forall>k. IsPaused ctx' k \<longrightarrow> IsPaused ctx k
           \<or> (\<exists>t. (k, t) \<in> set (OrderList ctx) \<and> \<not> isNew ctx k \<and> tm \<le> t))
     \<and> (0 < a \<longrightarrow> (\<forall>rng'. DetectInterleave rng' ctx' = (False, ctx')))"
proof -
  let ?xs = "exchange_sort (rng (OrderList ctx))"
  have set_xs: "set ?xs = set (OrderList ctx)" by (metis mset_exchange_sort perm set_mset_mset)
  from det obtain mid suf where t: "find_triple (isNew ctx) ?xs = Some (mid, suf)"
    and ctx': "ctx' = ctx\<lparr> FirstNewTxID := mid,
      PausedTxIDs := pause_all (filter (\<lambda>k. \<not> isNew ctx k) (map fst suf)) (PausedTxIDs ctx),
      SyncNeeded := True, FSM := FSMPauseOld \<rparr>"
    by (auto simp: DetectInterleave_def split: if_splits option.splits)
  from find_triple_Some [OF t] obtain p a b where xs: "?xs = p @ a # b # suf" and b: "fst b = mid"
    and new: "\<not> isNew ctx (fst a)" "isNew ctx mid" "suf \<noteq> []" "\<not> isNew ctx (fst (hd suf))" by blast
  have sorted: "by_time (p @ a # b # suf)" using sorted_exchange_sort [of "rng (OrderList ctx)"] xs by simp
  have mem: "set (OrderList ctx) = set p \<union> {a, b} \<union> set suf" using set_xs xs by auto
  have paused: "IsPaused ctx' k \<longleftrightarrow> (k \<in> fst ` set suf \<and> \<not> isNew ctx k) \<or> IsPaused ctx k" for k
    by (auto simp: ctx' IsPaused_def)
  have suf: "\<forall>x\<in>set suf. snd b \<le> snd x" "snd a \<le> snd b" and pre: "\<forall>x\<in>set p. snd x \<le> snd b"
    using sorted by (auto simp: sorted_append)
  have "\<forall>(k, t) \<in> set (OrderList ctx). \<not> isNew ctx k \<and> snd b < t \<longrightarrow> IsPaused ctx' k"
    using suf pre by (force simp: mem paused)
  moreover have "\<exists>(k, t) \<in> set (OrderList ctx). \<not> isNew ctx k \<and> snd b \<le> t \<and> IsPaused ctx' k"
    using new suf by (intro bexI [of _ "hd suf"]) (auto simp: mem paused split_beta)
  moreover have "\<exists>(k, t) \<in> set (OrderList ctx). \<not> isNew ctx k \<and> t \<le> snd b"
    using new suf by (intro bexI [of _ a]) (auto simp: mem split_beta)
  moreover have "\<forall>k. IsPaused ctx' k \<longrightarrow> IsPaused ctx k
      \<or> (\<exists>t. (k, t) \<in> set (OrderList ctx) \<and> \<not> isNew ctx k \<and> snd b \<le> t)"
    using suf(1) by (force simp: mem paused)
  moreover have "(mid, snd b) \<in> set (OrderList ctx)" using b by (auto simp: mem)
  ultimately show ?thesis
    using new(2) by (intro exI [of _ mid] exI [of _ "snd b"])
      (auto simp: ctx' DetectInterleave_def)
qed

definition ctx0 :: MigAccountCtx where
  "ctx0 = \<lparr> SourceShard = 0, TargetShard = 1, Mig1Time = 10, LastCN = 0, SyncNeeded = False,
     MigNonce = 0, NextNonce = 0, OrderList = [], ArrivalList = [], CommittedTx = Map.empty,
     FirstNewTxID = 0, PausedTxIDs = Map.empty, FSM = FSMActive, PendingSyncAck = False,
     LastDeltaHash = [] \<rparr>"

text \<open>Transactions \<open>(id, logical time, arrival)\<close> registered in this order.\<close>

definition ctx_of :: "(int \<times> int \<times> int) list \<Rightarrow> MigAccountCtx" where
  "ctx_of ts = fold (\<lambda>(k, c, a). RegisterOrder k c a) ts ctx0"

theorem DetectInterleave_sound_witness:
  "fst (DetectInterleave rev (ctx_of [(1, 1, 5), (2, 2, 15), (3, 3, 6)]))
   \<and> IsPaused (snd (DetectInterleave rev (ctx_of [(1, 1, 5), (2, 2, 15), (3, 3, 6)]))) 3"
proof -
  let ?c = "ctx_of [(1, 1, 5), (2, 2, 15), (3, 3, 6)]"
  have d: "fst (DetectInterleave rev ?c)" by code_simp
  then have e: "DetectInterleave rev ?c = (True, snd (DetectInterleave rev ?c))"
    by (metis prod.collapse)
  have "FirstNewTxID (snd (DetectInterleave rev ?c)) = 2" by code_simp
  moreover have "OrderList ?c = [(1, 1), (2, 2), (3, 3)]" by code_simp
  ultimately have "IsPaused (snd (DetectInterleave rev ?c)) 3"
    using DetectInterleave_sound [OF _ e] by auto
  with d show ?thesis ..
qed

text \<open>
  C33. With distinct logical times the answer of \<open>DetectInterleave\<close> does not depend on the order in
  which \<open>range\<close> visits the map, and it is positive whenever a new transaction lies between two old
  ones with no other transaction of the account in between.
\<close>

theorem DetectInterleave_complete:
  assumes "mset (rng (OrderList ctx)) = mset (OrderList ctx)"
    and "mset (rng' (OrderList ctx)) = mset (OrderList ctx)"
    and "distinct (map snd (OrderList ctx))"
  shows "DetectInterleave rng ctx = DetectInterleave rng' ctx
    \<and> (\<forall>a b c. {a, b, c} \<subseteq> set (OrderList ctx) \<and> snd a < snd b \<and> snd b < snd c
        \<and> (\<forall>x\<in>set (OrderList ctx). snd a < snd x \<and> snd x < snd c \<longrightarrow> x = b)
        \<and> \<not> isNew ctx (fst a) \<and> isNew ctx (fst b) \<and> \<not> isNew ctx (fst c)
        \<and> FirstNewTxID ctx \<le> 0 \<and> FSM ctx < FSMSyncOut
        \<longrightarrow> fst (DetectInterleave rng ctx))"
proof (intro conjI allI impI)
  have eq: "exchange_sort (rng (OrderList ctx)) = exchange_sort (rng' (OrderList ctx))"
    using assms by (intro exchange_sort_unique) (auto, metis mset_eq_imp_distinct_iff mset_map)
  then show "DetectInterleave rng ctx = DetectInterleave rng' ctx"
    by (simp add: DetectInterleave_def)
  fix a b c
  assume "{a, b, c} \<subseteq> set (OrderList ctx) \<and> snd a < snd b \<and> snd b < snd c
        \<and> (\<forall>x\<in>set (OrderList ctx). snd a < snd x \<and> snd x < snd c \<longrightarrow> x = b)
        \<and> \<not> isNew ctx (fst a) \<and> isNew ctx (fst b) \<and> \<not> isNew ctx (fst c)
        \<and> FirstNewTxID ctx \<le> 0 \<and> FSM ctx < FSMSyncOut"
  then have sub: "{a, b, c} \<subseteq> set (OrderList ctx)" and lt: "snd a < snd b" "snd b < snd c"
    and gap: "\<forall>x\<in>set (OrderList ctx). snd a < snd x \<and> snd x < snd c \<longrightarrow> x = b"
    and pat: "\<not> isNew ctx (fst a)" "isNew ctx (fst b)" "\<not> isNew ctx (fst c)"
    and guards: "\<not> FirstNewTxID ctx > 0" "\<not> FSM ctx \<ge> FSMSyncOut" by auto
  let ?xs = "exchange_sort (rng (OrderList ctx))"
  have set_xs: "set ?xs = set (OrderList ctx)" by (metis assms(1) mset_exchange_sort set_mset_mset)
  have dist: "distinct (map snd ?xs)"
    using assms(1,3) by (metis mset_eq_imp_distinct_iff mset_exchange_sort mset_map)
  have "\<exists>p r. ?xs = p @ a # b # r"
    using sub lt gap set_xs dist by (intro adjacent_split sorted_exchange_sort) auto
  then obtain p r where xs: "?xs = p @ a # b # r" by blast
  have "\<exists>p r. ?xs = p @ b # c # r"
    using sub lt gap set_xs dist by (intro adjacent_split sorted_exchange_sort) auto
  then obtain p' r' where xs': "?xs = p' @ b # c # r'" by blast
  have "distinct ?xs" using dist by (simp add: distinct_map)
  then have "distinct (p @ a # b # r)" "distinct (p' @ b # c # r')"
    unfolding xs [symmetric] xs' [symmetric] by simp_all
  then have "b \<notin> set (p @ [a])" "b \<notin> set p'" by auto
  moreover have "(p @ [a]) @ b # r = p' @ b # c # r'" using xs xs' by simp
  ultimately have "r = c # r'" using split_at_sep by metis
  with xs have "find_triple (isNew ctx) ?xs \<noteq> None" using pat by (simp add: find_triple_complete)
  moreover have "\<not> length (OrderList ctx) < 3"
  proof -
    have "a \<noteq> b" "b \<noteq> c" "a \<noteq> c" using lt by auto
    then have "card {a, b, c} = 3" by simp
    then show ?thesis using sub by (metis card_length card_mono finite_set le_trans not_less)
  qed
  ultimately show "fst (DetectInterleave rng ctx)"
    using guards by (auto simp: DetectInterleave_def)
qed

theorem DetectInterleave_complete_witness:
  "DetectInterleave rev (ctx_of [(1, 1, 5), (2, 2, 15), (3, 3, 6)])
   = DetectInterleave id (ctx_of [(1, 1, 5), (2, 2, 15), (3, 3, 6)])
   \<and> fst (DetectInterleave id (ctx_of [(1, 1, 5), (2, 2, 15), (3, 3, 6)]))"
proof -
  have "OrderList (ctx_of [(1, 1, 5), (2, 2, 15), (3, 3, 6)]) = [(1, 1), (2, 2), (3, 3)]" by code_simp
  then have "DetectInterleave rev (ctx_of [(1, 1, 5), (2, 2, 15), (3, 3, 6)])
   = DetectInterleave id (ctx_of [(1, 1, 5), (2, 2, 15), (3, 3, 6)])"
    by (intro DetectInterleave_complete [THEN conjunct1]) auto
  moreover have "fst (DetectInterleave id (ctx_of [(1, 1, 5), (2, 2, 15), (3, 3, 6)]))" by code_simp
  ultimately show ?thesis ..
qed

text \<open>
  \<open>DetectInterleave\<close> only recognises one new transaction between two old ones. With two new
  transactions in a row between two old ones the logical order is violated just as well, and
  nothing is detected, whatever the order of \<open>range\<close>.
\<close>

theorem DetectInterleave_misses_two_new:
  assumes "OrderList ctx = [(1, 1), (2, 2), (3, 3), (4, 4)]"
    and "\<not> isNew ctx 1" "isNew ctx 2" "isNew ctx 3" "\<not> isNew ctx 4"
    and perm: "mset (rng (OrderList ctx)) = mset (OrderList ctx)"
  shows "DetectInterleave rng ctx = (False, ctx)"
proof -
  have "exchange_sort (OrderList ctx) = exchange_sort (rng (OrderList ctx))"
    by (rule exchange_sort_unique [OF perm [symmetric]]) (simp add: assms(1))
  then have "exchange_sort (rng (OrderList ctx)) = exchange_sort [(1, 1), (2, 2), (3, 3), (4, 4)]"
    using assms(1) by simp
  also have "\<dots> = [(1, 1), (2, 2), (3, 3), (4, 4)]" by code_simp
  finally show ?thesis using assms(2-5) by (simp add: DetectInterleave_def)
qed

theorem DetectInterleave_misses_two_new_witness:
  "DetectInterleave rev (ctx_of [(1, 1, 5), (2, 2, 15), (3, 3, 16), (4, 4, 6)])
   = (False, ctx_of [(1, 1, 5), (2, 2, 15), (3, 3, 16), (4, 4, 6)])"
proof -
  define c where "c = ctx_of [(1, 1, 5), (2, 2, 15), (3, 3, 16), (4, 4, 6)]"
  have o: "OrderList c = [(1, 1), (2, 2), (3, 3), (4, 4)]"
    by (simp add: c_def ctx_of_def RegisterOrder_def ctx0_def)
  have n: "\<not> isNew c 1" "isNew c 2" "isNew c 3" "\<not> isNew c 4"
    by (simp_all add: c_def ctx_of_def RegisterOrder_def ctx0_def isNew_def arrivalTime_def IsTXNew_def)
  have "mset (rev (OrderList c)) = mset (OrderList c)" by simp
  from DetectInterleave_misses_two_new [of c rev, OF o n this] show ?thesis unfolding c_def .
qed

section \<open>Gates\<close>

text \<open>Committing a prefix transaction never closes the gate, and the last one opens it.\<close>

lemma MarkTxCommitted_ctx:
  "MigCtxMap g a = Some ctx \<Longrightarrow>
   MigCtxMap (MarkTxCommitted a k g) a = Some (ctx\<lparr> CommittedTx := (CommittedTx ctx)(k \<mapsto> True) \<rparr>)"
  by (simp add: MarkTxCommitted_def SetMigCtx_def)

lemma isNew_committed [simp]: "isNew (ctx\<lparr> CommittedTx := m \<rparr>) = isNew ctx"
  by (simp add: fun_eq_iff isNew_def arrivalTime_def)

definition mark_all :: "int list \<Rightarrow> MigAccountCtx \<Rightarrow> MigAccountCtx" where
  "mark_all ks ctx = fold (\<lambda>k c. c\<lparr> CommittedTx := (CommittedTx c)(k \<mapsto> True) \<rparr>) ks ctx"

lemma mark_all_fields [simp]:
  "FirstNewTxID (mark_all ks ctx) = FirstNewTxID ctx" "OrderList (mark_all ks ctx) = OrderList ctx"
  "isNew (mark_all ks ctx) = isNew ctx"
  "flag (CommittedTx (mark_all ks ctx)) k \<longleftrightarrow> k \<in> set ks \<or> flag (CommittedTx ctx) k"
  unfolding mark_all_def by (induction ks arbitrary: ctx) auto

lemma fold_MarkTxCommitted:
  "MigCtxMap g a = Some ctx \<Longrightarrow>
   MigCtxMap (fold (MarkTxCommitted a) ks g) a = Some (mark_all ks ctx)"
  by (induction ks arbitrary: g ctx) (auto simp: mark_all_def MarkTxCommitted_ctx)

definition prefix_olds :: "MigAccountCtx \<Rightarrow> int list" where
  "prefix_olds ctx = map fst (filter (\<lambda>(k, ts). \<not> isNew ctx k
     \<and> (case map_of (OrderList ctx) (FirstNewTxID ctx) of None \<Rightarrow> False | Some f \<Rightarrow> ts < f)) (OrderList ctx))"



section \<open>One-shot stores\<close>

text \<open>
  The contract of a store whose values are taken at most once, and what it gives a client: after
  any sequence of puts, taking a key yields its last value once and then nothing.
\<close>

locale take_once =
  fixes put :: "'k \<Rightarrow> 'v \<Rightarrow> 's \<Rightarrow> 's"
    and take_out :: "'k \<Rightarrow> 's \<Rightarrow> 'v option \<times> 's"
    and content :: "'s \<Rightarrow> 'k \<Rightarrow> 'v option"
  assumes put_law: "content (put k v s) = (content s)(k \<mapsto> v)"
    and take_value: "fst (take_out k s) = content s k"
    and take_rest: "content (snd (take_out k s)) = (content s)(k := None)"
begin

lemma puts_content:
  "content (fold (\<lambda>(k, v). put k v) kvs s) k =
    (case map_of (rev kvs) k of None \<Rightarrow> content s k | Some v \<Rightarrow> Some v)"
proof (induction kvs arbitrary: s)
  case (Cons x kvs)
  then show ?case
    by (auto simp: put_law split_beta map_add_def split: option.splits)
qed simp

lemma taken_once:
  assumes "take_out k (fold (\<lambda>(k, v). put k v) kvs s) = (r, s')"
  shows "r = (case map_of (rev kvs) k of None \<Rightarrow> content s k | Some v \<Rightarrow> Some v)
    \<and> fst (take_out k s') = None
    \<and> (\<forall>k'. k' \<noteq> k \<longrightarrow> fst (take_out k' s') = fst (take_out k' (fold (\<lambda>(k, v). put k v) kvs s)))"
proof -
  let ?s = "fold (\<lambda>(k, v). put k v) kvs s"
  have "r = content ?s k" using take_value [of k ?s] assms by simp
  moreover have "content s' = (content ?s)(k := None)" using take_rest [of k ?s] assms by simp
  ultimately show ?thesis by (simp add: puts_content take_value)
qed

end

interpretation pending_state: take_once SetMigPendingState TakeMigPendingState MigPendingState
  by unfold_locales
    (auto simp: SetMigPendingState_def TakeMigPendingState_def fun_upd_idem split: option.splits)

interpretation pending_delta: take_once "\<lambda>a d. SetMigPendingDelta a (Some d)" TakeMigPendingDelta
    MigPendingDeltaMap
  by unfold_locales
    (auto simp: SetMigPendingDelta_def TakeMigPendingDelta_def fun_upd_idem split: option.splits)

text \<open>
  A pending state is applied at most once: after any sequence of \<open>SetMigPendingState\<close> calls,
  \<open>TakeMigPendingState\<close> returns the last state set for the address, a second take returns nothing,
  and the states of other addresses stay; the same holds of pending deltas.
\<close>

theorem pending_taken_once:
  "(case TakeMigPendingState a (fold (\<lambda>(k, v). SetMigPendingState k v) sts g) of (r, g') \<Rightarrow>
      r = (case map_of (rev sts) a of None \<Rightarrow> MigPendingState g a | Some v \<Rightarrow> Some v)
      \<and> fst (TakeMigPendingState a g') = None
      \<and> (a' \<noteq> a \<longrightarrow> fst (TakeMigPendingState a' g') =
           fst (TakeMigPendingState a' (fold (\<lambda>(k, v). SetMigPendingState k v) sts g))))
   \<and> (case TakeMigPendingDelta a (fold (\<lambda>(k, v). SetMigPendingDelta k (Some v)) ds g) of (r, g') \<Rightarrow>
      r = (case map_of (rev ds) a of None \<Rightarrow> MigPendingDeltaMap g a | Some v \<Rightarrow> Some v)
      \<and> fst (TakeMigPendingDelta a g') = None)"
  using pending_state.taken_once pending_delta.taken_once by (auto split: prod.splits)

theorem pending_taken_once_witness:
  "fst (TakeMigPendingState ''a'' (snd (TakeMigPendingState ''a''
     (SetMigPendingState ''a'' \<lparr> Nonce = 1, Balance = 2, Migrate = 0, Location = 1 \<rparr> InitMigCtx)))) = None"
  using pending_taken_once [where a = "''a''" and a' = "''b''" and g = InitMigCtx and ds = "[]"
    and sts = "[(''a'', \<lparr> Nonce = 1, Balance = 2, Migrate = 0, Location = 1 \<rparr>)]"]
  by (auto split: prod.splits)

end
