(* ===== verification/CoreTypes.thy ===== *)
theory CoreTypes
  imports Interleave
begin

text \<open>
  The data of \<open>core/\<close>: transactions, the four migration transactions, the Stage 3 messages, blocks
  and proofs, with their time stamps, redirect tags and delta hashes. \<open>crypto/sha256\<close> is a parameter
  \<open>sha\<close> of the definitions that hash. Messages are values: the code copies them over the network.
\<close>

section \<open>Data\<close>

record Transaction =
  Sender :: bytes
  Recipient :: bytes
  TxHash :: bytes
  TxId :: int
  Success :: bool
  IsRelay :: bool
  SenLock :: bool
  RecLock :: bool
  TxValue :: int
  RequestTime :: int
  ClientTimestamp :: int
  Second_RequestTime :: int
  TXmig1_Time :: int
  TXmig2_Time :: int
  CommitTime :: int
  LockTime :: int
  UnlockTime :: int
  LockTime2 :: int
  UnlockTime2 :: int
  HalfLock :: bool
  Rec_Suppose_on_chain :: int
  Sen_Suppose_on_chain :: int
  Relay_Lock :: bool
  TxNonce :: u64
  Tag :: bytes

text \<open>The zero value of the struct, which composite literals with missing fields start from.\<close>

definition zero_tx :: Transaction where
  "zero_tx = \<lparr> Sender = [], Recipient = [], TxHash = [], TxId = 0, Success = False,
     IsRelay = False, SenLock = False, RecLock = False, TxValue = 0, RequestTime = 0,
     ClientTimestamp = 0, Second_RequestTime = 0, TXmig1_Time = 0, TXmig2_Time = 0,
     CommitTime = 0, LockTime = 0, UnlockTime = 0, LockTime2 = 0, UnlockTime2 = 0,
     HalfLock = False, Rec_Suppose_on_chain = 0, Sen_Suppose_on_chain = 0, Relay_Lock = False,
     TxNonce = 0, Tag = [] \<rparr>"

type_synonym ProofDB = "(bytes \<times> bytes) list"

definition ProofDB_Put :: "bytes \<Rightarrow> bytes \<Rightarrow> ProofDB \<Rightarrow> ProofDB" where
  "ProofDB_Put key v pdb = pdb @ [(key, v)]"

record TXmig1 =
  mig1_Address :: addr
  mig1_FromshardID :: int
  mig1_ToshardID :: int
  mig1_Request_Time :: int
  mig1_CommitTime :: int
  mig1_ID :: int
  mig1_Sync :: bool
  mig1_OrderList :: timemap
  mig1_LastCN :: u64

record TXmig2 =
  mig2_Txmig1 :: "TXmig1 option"
  mig2_MPmig1 :: ProofDB
  mig2_State :: "AccountState option"
  mig2_MPstate :: ProofDB
  mig2_H :: int
  mig2_Address :: addr
  mig2_Value :: "int option"

record TXann =
  ann_Txmig2 :: TXmig2
  ann_MPmig2 :: ProofDB
  ann_State :: "AccountState option"
  ann_MPstate :: ProofDB
  ann_H :: int
  ann_Address :: addr
  ann_ToshardID :: int

record TXns =
  ns_Txann :: TXann
  ns_MPann :: ProofDB
  ns_State :: "AccountState option"
  ns_MPstate :: ProofDB
  ns_H :: int
  ns_Address :: addr
  ns_Change :: int

record TXrelay =
  rl_Txcs :: Transaction
  rl_MPcs :: ProofDB
  rl_State :: "AccountState option"
  rl_MPstate :: ProofDB
  rl_H :: int

record TXsync =
  sync_Address :: addr
  sync_FromShard :: string
  sync_StateOld :: "AccountState option"
  sync_StateNew :: "AccountState option"
  sync_StartN :: u64
  sync_EndN :: u64
  sync_RequestTime :: int

record TXsyncDelta =
  sd_Address :: addr
  sd_FromShard :: string
  sd_DeltaBalance :: "int option"
  sd_DeltaNonce :: int
  sd_StartN :: u64
  sd_EndN :: u64
  sd_PrevHash :: bytes
  sd_DeltaHash :: bytes
  sd_RequestTime :: int
  sd_Ack :: bool

record BlockHeader =
  ParentHash :: bytes
  StateRoot :: bytes
  TxRoot :: bytes
  MigHash :: bytes
  Number :: int
  Time :: u64

record Block =
  Header :: BlockHeader
  Transactions :: "Transaction list"
  TXmig1s :: "TXmig1 list"
  TXmig2s :: "TXmig2 list"
  Anns :: "TXann list"
  NSs :: "TXns list"
  BlockHash :: bytes

definition NewBlock :: "BlockHeader \<Rightarrow> Transaction list \<Rightarrow> TXmig1 list \<Rightarrow> TXmig2 list
    \<Rightarrow> TXann list \<Rightarrow> TXns list \<Rightarrow> Block" where
  "NewBlock h txs m1 m2 as ns = \<lparr> Header = h, Transactions = txs, TXmig1s = m1, TXmig2s = m2,
     Anns = as, NSs = ns, BlockHash = [] \<rparr>"

section \<open>Transactions\<close>

definition OrderTimestamp :: "Transaction \<Rightarrow> int" where
  "OrderTimestamp tx = (if ClientTimestamp tx > 0 then ClientTimestamp tx else RequestTime tx)"

definition from_addr :: "Transaction \<Rightarrow> addr" where
  "from_addr tx = hex_encode (Sender tx)"

definition to_addr :: "Transaction \<Rightarrow> addr" where
  "to_addr tx = hex_encode (Recipient tx)"

text \<open>The copy does not carry \<open>ClientTimestamp\<close>, \<open>Nonce\<close> and \<open>RedirectTag\<close>.\<close>

definition copy_tx :: "Transaction \<Rightarrow> Transaction" where
  "copy_tx tx = \<lparr> Sender = Sender tx, Recipient = Recipient tx, TxHash = TxHash tx, TxId = TxId tx,
     Success = Success tx, IsRelay = IsRelay tx, SenLock = SenLock tx, RecLock = RecLock tx,
     TxValue = TxValue tx, RequestTime = RequestTime tx, ClientTimestamp = 0,
     Second_RequestTime = Second_RequestTime tx, TXmig1_Time = TXmig1_Time tx,
     TXmig2_Time = TXmig2_Time tx, CommitTime = CommitTime tx, LockTime = LockTime tx,
     UnlockTime = UnlockTime tx, LockTime2 = LockTime2 tx, UnlockTime2 = UnlockTime2 tx,
     HalfLock = HalfLock tx, Rec_Suppose_on_chain = Rec_Suppose_on_chain tx,
     Sen_Suppose_on_chain = Sen_Suppose_on_chain tx, Relay_Lock = Relay_Lock tx,
     TxNonce = 0, Tag = [] \<rparr>"

definition TxPoolDeepCopy :: "Transaction list \<Rightarrow> Transaction list \<Rightarrow> Transaction list" where
  "TxPoolDeepCopy dst src = dst @ map copy_tx src"

section \<open>Stage 3 tags and hashes\<close>

definition IsSyncProbeTxID :: "int \<Rightarrow> bool" where
  "IsSyncProbeTxID k =
     (if k < 9000000000 then False
      else (let offset = k - 9000000000 in 0 \<le> offset \<and> offset < 100000))"

definition ascii :: "string \<Rightarrow> bytes" where
  "ascii s = map of_char s"

definition tag_text :: "addr \<Rightarrow> int \<Rightarrow> u64 \<Rightarrow> string" where
  "tag_text a mig1Time migNonce =
     ''mvss:'' @ a @ '':'' @ show_int mig1Time @ '':'' @ show_nat (unat migNonce)"

definition RedirectTag :: "(bytes \<Rightarrow> bytes) \<Rightarrow> addr \<Rightarrow> int \<Rightarrow> u64 \<Rightarrow> bytes" where
  "RedirectTag sha a mig1Time migNonce = sha (ascii (tag_text a mig1Time migNonce))"

definition ValidRedirectTag :: "(bytes \<Rightarrow> bytes) \<Rightarrow> bytes \<Rightarrow> addr \<Rightarrow> int \<Rightarrow> u64 \<Rightarrow> bool" where
  "ValidRedirectTag sha tag a mig1Time migNonce =
     (if tag = [] then False else tag = RedirectTag sha a mig1Time migNonce)"

definition show_bool :: "bool \<Rightarrow> string" where
  "show_bool b = (if b then ''true'' else ''false'')"

definition delta_text :: "TXsyncDelta \<Rightarrow> string" where
  "delta_text d = sd_Address d @ ''|'' @ sd_FromShard d @ ''|''
     @ (case sd_DeltaBalance d of None \<Rightarrow> ''0'' | Some b \<Rightarrow> show_int b) @ ''|''
     @ show_int (sd_DeltaNonce d) @ ''|'' @ show_nat (unat (sd_StartN d)) @ ''|''
     @ show_nat (unat (sd_EndN d)) @ ''|'' @ show_int (sd_RequestTime d) @ ''|''
     @ show_bool (sd_Ack d) @ ''|'' @ hex_encode (sd_PrevHash d)"

definition CalcDeltaHash :: "(bytes \<Rightarrow> bytes) \<Rightarrow> TXsyncDelta \<Rightarrow> bytes" where
  "CalcDeltaHash sha d = sha (ascii (delta_text d))"

section \<open>Lemmas\<close>

lemma unat_of_char: "unat (of_char c :: byte) = of_char c"
proof -
  have a: "(of_char c :: byte) = word_of_nat (of_char c)" by (metis of_nat_of_char)
  have "(of_char c :: nat) < 256" by simp
  then show ?thesis unfolding a by (simp add: unsigned_of_nat take_bit_nat_eq_self)
qed

lemma ascii_inject [simp]: "ascii s = ascii t \<longleftrightarrow> s = t"
proof (induction s arbitrary: t)
  case (Cons c s)
  have "(of_char c :: byte) = of_char d \<longleftrightarrow> c = d" for d by (metis of_char_eq_iff unat_of_char)
  with Cons show ?case by (cases t) (auto simp: ascii_def)
qed (auto simp: ascii_def)

lemma show_nat_free: "(of_char c :: nat) < 48 \<or> 57 < (of_char c :: nat) \<Longrightarrow> c \<notin> set (show_nat n)"
  using show_nat_chars [of c n] by auto

lemma show_int_free:
  "c \<noteq> CHR ''-'' \<Longrightarrow> (of_char c :: nat) < 48 \<or> 57 < (of_char c :: nat) \<Longrightarrow> c \<notin> set (show_int i)"
  using show_int_chars [of c i] by auto

lemma show_bool_free: "CHR ''|'' \<notin> set (show_bool b)" "show_bool a = show_bool b \<longleftrightarrow> a = b"
  by (auto simp: show_bool_def)

lemma unat_u64_inject: "unat (a :: u64) = unat b \<longleftrightarrow> a = b"
  by (simp add: word_unat_eq_iff)

lemma tag_text_inject:
  assumes "CHR '':'' \<notin> set a" "CHR '':'' \<notin> set b"
  shows "tag_text a t n = tag_text b t' n' \<longleftrightarrow> a = b \<and> t = t' \<and> n = n'"
proof
  assume "tag_text a t n = tag_text b t' n'"
  then have 1: "a @ CHR '':'' # show_int t @ CHR '':'' # show_nat (unat n)
      = b @ CHR '':'' # show_int t' @ CHR '':'' # show_nat (unat n')"
    by (simp add: tag_text_def)
  from split_at_sep [OF this assms] have ab: "a = b" and
    2: "show_int t @ CHR '':'' # show_nat (unat n) = show_int t' @ CHR '':'' # show_nat (unat n')"
    by auto
  from split_at_sep [OF 2] show_int_free [of "CHR '':''"] ab
  show "a = b \<and> t = t' \<and> n = n'" by (simp add: unat_u64_inject)
qed simp

text \<open>A field without the separator is read back from the text.\<close>

lemma field_split:
  assumes "CHR ''|'' \<notin> set s" "CHR ''|'' \<notin> set s'"
  shows "s @ CHR ''|'' # r = s' @ CHR ''|'' # r' \<longleftrightarrow> s = s' \<and> r = r'"
  using split_at_sep [OF _ assms] by blast

lemma show_balance:
  "(case b of None \<Rightarrow> ''0'' | Some b \<Rightarrow> show_int b) = show_int (case b of None \<Rightarrow> 0 | Some b \<Rightarrow> b)"
proof -
  have "(of_char (CHR ''0'') :: nat) = 48" by simp
  then have "char_of (48 :: nat) = CHR ''0''" by (metis char_of_char)
  then have "show_int 0 = ''0''" by (simp add: show_int_def show_nat.simps [of 0] decdigit_def)
  then show ?thesis by (simp split: option.splits)
qed

definition delta0 :: TXsyncDelta where
  "delta0 = \<lparr> sd_Address = ''ab'', sd_FromShard = ''S0'', sd_DeltaBalance = None, sd_DeltaNonce = 0,
     sd_StartN = 0, sd_EndN = 0, sd_PrevHash = [], sd_DeltaHash = [], sd_RequestTime = 0, sd_Ack = False \<rparr>"

section \<open>Properties\<close>

text \<open>
  A redirect tag is valid for exactly one migration: if SHA-256 does not collide on the two tag
  texts and yields a non-empty digest, the tag issued for an address, a migration time and a
  migration nonce validates against a context if and only if all three agree; an empty tag never
  validates. Addresses are hexadecimal, so they hold no colon.
\<close>

theorem RedirectTag_binds:
  assumes "CHR '':'' \<notin> set a" "CHR '':'' \<notin> set b"
    and "sha (ascii (tag_text a t n)) = sha (ascii (tag_text b t' n'))
      \<Longrightarrow> ascii (tag_text a t n) = ascii (tag_text b t' n')"
    and "sha (ascii (tag_text a t n)) \<noteq> []"
  shows "ValidRedirectTag sha (RedirectTag sha a t n) b t' n' \<longleftrightarrow> a = b \<and> t = t' \<and> n = n'"
  using assms tag_text_inject [OF assms(1,2), of t n t' n']
  by (auto simp: ValidRedirectTag_def RedirectTag_def)

theorem RedirectTag_binds_witness:
  "\<not> ValidRedirectTag (\<lambda>x. 1 # x) (RedirectTag (\<lambda>x. 1 # x) ''ab'' 7 2) ''ab'' 7 3"
  using RedirectTag_binds [of "''ab''" "''ab''" "\<lambda>x. 1 # x" 7 2 7 3] by simp

text \<open>
  The delta hash commits to the whole message: if SHA-256 does not collide on the two payloads,
  two deltas with equal hashes agree in address, source shard, balance (an absent balance counts
  as zero), nonce step, version range, request time, direction and previous hash.
\<close>

theorem CalcDeltaHash_binds:
  assumes "CHR ''|'' \<notin> set (sd_Address d) \<union> set (sd_FromShard d) \<union> set (sd_Address e) \<union> set (sd_FromShard e)"
    and "sha (ascii (delta_text d)) = sha (ascii (delta_text e)) \<Longrightarrow> ascii (delta_text d) = ascii (delta_text e)"
    and hash: "CalcDeltaHash sha d = CalcDeltaHash sha e"
  shows "sd_Address d = sd_Address e \<and> sd_FromShard d = sd_FromShard e
    \<and> (case sd_DeltaBalance d of None \<Rightarrow> 0 | Some b \<Rightarrow> b) = (case sd_DeltaBalance e of None \<Rightarrow> 0 | Some b \<Rightarrow> b)
    \<and> sd_DeltaNonce d = sd_DeltaNonce e \<and> sd_StartN d = sd_StartN e \<and> sd_EndN d = sd_EndN e
    \<and> sd_RequestTime d = sd_RequestTime e \<and> sd_Ack d = sd_Ack e \<and> sd_PrevHash d = sd_PrevHash e"
proof -
  have free: "CHR ''|'' \<notin> set (show_nat n)" "CHR ''|'' \<notin> set (show_int i)" for n i
    by (rule show_nat_free, simp) (rule show_int_free, simp_all)
  from assms(2) hash have "delta_text d = delta_text e" by (simp add: CalcDeltaHash_def)
  then show ?thesis
    using assms(1) free
    by (simp add: delta_text_def show_balance field_split show_bool_free unat_u64_inject)
qed

theorem CalcDeltaHash_binds_witness:
  "CalcDeltaHash id (delta0\<lparr> sd_DeltaBalance := Some 1, sd_DeltaNonce := 11 \<rparr>)
   \<noteq> CalcDeltaHash id (delta0\<lparr> sd_DeltaBalance := Some 11, sd_DeltaNonce := 1 \<rparr>)"
  using CalcDeltaHash_binds [of "delta0\<lparr> sd_DeltaBalance := Some 1, sd_DeltaNonce := 11 \<rparr>"
      "delta0\<lparr> sd_DeltaBalance := Some 11, sd_DeltaNonce := 1 \<rparr>" id]
  by (auto simp: delta0_def)

end
