(* ===== verification/Framing.thy ===== *)
theory Framing
  imports CoreTypes
begin

text \<open>
  Messages on the wire: the command prefix (\<open>pbft/cmd.go\<close>), the length prefix that \<open>utils.TcpDial\<close>
  writes and \<open>handleConn\<close> (\<open>pbft/tcp.go\<close>) reads, and the dispatch of \<open>handleRequest\<close>
  (\<open>pbft/pbft.go\<close>). A connection is the list of bytes that its peer has written.
\<close>

section \<open>Commands\<close>

datatype command =
    cPrePrepare | cPrepare | cCommit | cRequestBlock | cSendBlock | cReply
  | cClient | cRelay | cTXmig1 | cAnnounce | cCaP | cTXsync | cTXsyncDelta
  | cStop | cLLBlock | cLLT
  | cNewMap | cEpochCh | cMigrateWanted | cPendingTXs | cNumOfMigratedTXsAddrs | cUnchangedState
  | cBalanceAndPending | cSure

fun command_text :: "command \<Rightarrow> string" where
  "command_text cPrePrepare = ''preprepare''"
| "command_text cPrepare = ''prepare''"
| "command_text cCommit = ''commit''"
| "command_text cRequestBlock = ''requestBlock''"
| "command_text cSendBlock = ''sendBlock''"
| "command_text cReply = ''reply''"
| "command_text cClient = ''client''"
| "command_text cRelay = ''relay''"
| "command_text cTXmig1 = ''txmig1''"
| "command_text cAnnounce = ''announce''"
| "command_text cCaP = ''csAps''"
| "command_text cTXsync = ''txsync''"
| "command_text cTXsyncDelta = ''txsyncdelta''"
| "command_text cStop = ''stop''"
| "command_text cLLBlock = ''LLblock''"
| "command_text cLLT = ''LLT''"
| "command_text cNewMap = ''newMap''"
| "command_text cEpochCh = ''epochchange''"
| "command_text cMigrateWanted = ''migwanted''"
| "command_text cPendingTXs = ''pendingTXs''"
| "command_text cNumOfMigratedTXsAddrs = ''migTXsAddr#''"
| "command_text cUnchangedState = ''#ofUnchange''"
| "command_text cBalanceAndPending = ''balance&TX''"
| "command_text cSure = ''sure''"

definition prefixCMDLength :: nat where
  "prefixCMDLength = 12"

text \<open>\<open>b[i] = v\<close> panics for a command of more than twelve bytes.\<close>

definition jointMessage :: "string \<Rightarrow> bytes \<Rightarrow> bytes res" where
  "jointMessage cmd content =
     (if length cmd > prefixCMDLength then Inl index_panic
      else Inr (ascii cmd @ replicate (prefixCMDLength - length cmd) 0 @ content))"

definition splitMessage :: "bytes \<Rightarrow> (string \<times> bytes) res" where
  "splitMessage message =
     (if length message < prefixCMDLength then Inl slice_panic
      else Inr (map (\<lambda>v. char_of (unat v)) (filter (\<lambda>v. v \<noteq> 0) (take prefixCMDLength message)), drop prefixCMDLength message))"

section \<open>Dispatch\<close>

text \<open>The handlers; \<open>Spawn\<close> marks those that run in a goroutine of their own. An unknown command is ignored.\<close>

datatype handler = Call command | Spawn command | Ignore

definition dispatch :: "string \<Rightarrow> handler" where
  "dispatch cmd =
     (if cmd = command_text cPrePrepare then Call cPrePrepare
      else if cmd = command_text cPrepare then Call cPrepare
      else if cmd = command_text cCommit then Call cCommit
      else if cmd = command_text cRequestBlock then Call cRequestBlock
      else if cmd = command_text cSendBlock then Call cSendBlock
      else if cmd = command_text cClient then Spawn cClient
      else if cmd = command_text cRelay then Spawn cRelay
      else if cmd = command_text cNewMap then Spawn cNewMap
      else if cmd = command_text cTXmig1 then Spawn cTXmig1
      else if cmd = command_text cAnnounce then Spawn cAnnounce
      else if cmd = command_text cMigrateWanted then Spawn cMigrateWanted
      else if cmd = command_text cCaP then Call cCaP
      else if cmd = command_text cTXsync then Spawn cTXsync
      else if cmd = command_text cTXsyncDelta then Spawn cTXsyncDelta
      else if cmd = command_text cEpochCh then Spawn cEpochCh
      else if cmd = command_text cBalanceAndPending then Call cBalanceAndPending
      else if cmd = command_text cSure then Call cSure
      else if cmd = command_text cStop then Call cStop
      else if cmd = command_text cLLT then Call cLLT
      else Ignore)"

definition handleRequest :: "bytes \<Rightarrow> (handler \<times> bytes) res" where
  "handleRequest data = bind_res (splitMessage data) (\<lambda>(cmd, content). Inr (dispatch cmd, content))"

section \<open>The length prefix\<close>

text \<open>\<open>binary.BigEndian\<close>; the length of a message is cut to 32 bits.\<close>

definition PutUint32 :: "32 word \<Rightarrow> bytes" where
  "PutUint32 w = [ucast (drop_bit 24 w), ucast (drop_bit 16 w), ucast (drop_bit 8 w), ucast w]"

definition Uint32 :: "bytes \<Rightarrow> 32 word" where
  "Uint32 b = push_bit 24 (ucast (b ! 0)) + push_bit 16 (ucast (b ! 1)) + push_bit 8 (ucast (b ! 2)) + ucast (b ! 3)"

definition tcp_frame :: "bytes \<Rightarrow> bytes" where
  "tcp_frame context = PutUint32 (of_nat (length context)) @ context"

text \<open>
  The loop of \<open>handleConn\<close>: the messages handed to \<open>handleRequest\<close> until the connection ends.
  \<open>conn.Read\<close> returns at least one byte and at most four, \<open>rd i\<close> of them in round \<open>i\<close>; the rest of the
  prefix keeps its zeros. \<open>io.ReadFull\<close> waits for the whole message. A round takes at least one byte, so
  the length of the stream bounds the recursion.
\<close>

function handleConn :: "(nat \<Rightarrow> nat) \<Rightarrow> nat \<Rightarrow> bytes \<Rightarrow> bytes list" where
  "handleConn rd i stream =
     (if stream = [] then []
      else
        (let n = max 1 (min (rd i) (min 4 (length stream)));
             lengthPrefix = take n stream @ replicate (4 - n) 0;
             rest = drop n stream;
             len = unat (Uint32 lengthPrefix)
         in if length rest < len then []
            else take len rest # handleConn rd (Suc i) (drop len rest)))"
  by pat_completeness auto
termination
  by (relation "measure (\<lambda>(rd, i, stream). length stream)") (auto simp: Let_def max_def)

declare handleConn.simps [simp del]

section \<open>Lemmas\<close>

lemma char_of_ascii:
  "\<forall>c\<in>set cmd. of_char c \<noteq> (0 :: byte) \<Longrightarrow> map (\<lambda>v. char_of (unat v)) (filter (\<lambda>v. v \<noteq> 0) (ascii cmd)) = cmd"
  by (induction cmd) (auto simp: ascii_def unat_of_char)

lemma filter_replicate_zero: "filter (\<lambda>v. v \<noteq> 0) (replicate n (0 :: byte)) = []"
  by simp

lemma length_ascii [simp]: "length (ascii s) = length s"
  by (simp add: ascii_def)

lemma split_joint:
  assumes "length cmd \<le> 12" "\<forall>c\<in>set cmd. of_char c \<noteq> (0 :: byte)"
  shows "bind_res (jointMessage cmd content) splitMessage = Inr (cmd, content)"
  using assms char_of_ascii [OF assms(2)]
  by (simp add: jointMessage_def splitMessage_def prefixCMDLength_def)

lemma command_text_ok:
  "length (command_text c) \<le> 12" "\<forall>x\<in>set (command_text c). of_char x \<noteq> (0 :: byte)"
  by (cases c; simp)+

lemma jointMessage_command:
  "jointMessage (command_text c) x
    = Inr (ascii (command_text c) @ replicate (12 - length (command_text c)) 0 @ x)"
  using command_text_ok(1) [of c] by (simp add: jointMessage_def prefixCMDLength_def not_less)

lemma handleRequest_joint:
  "bind_res (jointMessage (command_text c) x) handleRequest = Inr (dispatch (command_text c), x)"
  using split_joint [OF command_text_ok, of c x]
  by (simp add: jointMessage_command handleRequest_def)

text \<open>What a node does with each command; the others are for the client.\<close>

definition served :: "command \<Rightarrow> bool" where
  "served c \<longleftrightarrow> c \<notin> {cReply, cLLBlock, cPendingTXs, cNumOfMigratedTXsAddrs, cUnchangedState}"

lemma dispatch_command:
  "dispatch (command_text c) = (if \<not> served c then Ignore
     else if c \<in> {cPrePrepare, cPrepare, cCommit, cRequestBlock, cSendBlock, cCaP, cBalanceAndPending, cSure, cStop, cLLT}
     then Call c else Spawn c)"
  by (cases c) (simp_all add: dispatch_def served_def)

lemma split32:
  assumes "n < 2 ^ 32"
  shows "(n::nat) = 16777216 * (n div 16777216 mod 256) + 65536 * (n div 65536 mod 256) + 256 * (n div 256 mod 256) + n mod 256"
proof -
  have "n = 256 * (n div 256) + n mod 256" by simp
  moreover have "n div 256 = 256 * (n div 65536) + n div 256 mod 256"
    using div_mult2_eq [of n 256 256] by simp
  moreover have "n div 65536 = 256 * (n div 16777216) + n div 65536 mod 256"
    using div_mult2_eq [of n 65536 256] by simp
  moreover have "n div 16777216 mod 256 = n div 16777216" using assms by (simp add: less_mult_imp_div_less)
  ultimately show ?thesis by linarith
qed

lemma byte_back: "push_bit k (ucast (ucast (drop_bit k w) :: byte)) = (of_nat (2 ^ k * (unat w div 2 ^ k mod 256)) :: 32 word)"
proof -
  have "unat (ucast (drop_bit k w) :: byte) = unat w div 2 ^ k mod 256"
    by (simp only: unsigned_ucast_eq unsigned_drop_bit_eq) (simp add: take_bit_eq_mod drop_bit_eq_div)
  then have "(ucast (ucast (drop_bit k w) :: byte) :: 32 word) = of_nat (unat w div 2 ^ k mod 256)"
    by (metis of_nat_unat)
  then show ?thesis by (simp add: push_bit_eq_mult mult.commute)
qed

lemma Uint32_PutUint32 [simp]: "Uint32 (PutUint32 w) = w"
proof -
  have n: "unat w < 2 ^ 32" using unsigned_less [of w] by simp
  have "Uint32 (PutUint32 w) = of_nat (16777216 * (unat w div 16777216 mod 256) + 65536 * (unat w div 65536 mod 256)
      + 256 * (unat w div 256 mod 256) + unat w mod 256)"
    using byte_back [of 24 w] byte_back [of 16 w] byte_back [of 8 w] byte_back [of 0 w]
    by (simp add: Uint32_def PutUint32_def)
  then show ?thesis unfolding split32 [OF n, symmetric] by simp
qed

lemma length_PutUint32 [simp]: "length (PutUint32 w) = 4"
  by (simp add: PutUint32_def)

text \<open>A whole message at the front of the stream is read when the four bytes of its length come at once.\<close>

lemma handleConn_frame:
  assumes "length m < 2 ^ 32" "4 \<le> rd i"
  shows "handleConn rd i (tcp_frame m @ stream) = m # handleConn rd (Suc i) stream"
proof -
  have "unat (of_nat (length m) :: 32 word) = length m"
    using assms(1) by (simp add: unsigned_of_nat take_bit_nat_eq_self)
  moreover have "take 4 (PutUint32 w @ xs) = PutUint32 w" "drop 4 (PutUint32 w @ xs) = xs" for w xs
    by (simp_all add: PutUint32_def)
  moreover have "PutUint32 w \<noteq> []" for w by (simp add: PutUint32_def)
  ultimately show ?thesis using assms(2)
    by (subst handleConn.simps) (simp add: tcp_frame_def Let_def)
qed

section \<open>Properties\<close>



text \<open>
  The prefix is read with \<open>conn.Read\<close>, which may return before four bytes are there: then the zeros
  of the buffer stand for the missing bytes, the length is wrong and the connection is out of step.
\<close>

lemma short_read_desynchronises:
  "handleConn (\<lambda>_. 2) 0 (tcp_frame [7]) = [[]]" "handleRequest [] = Inl slice_panic"
proof -
  have "tcp_frame [7] = [0, 0, 0, 1, 7]" by (simp add: tcp_frame_def PutUint32_def)
  moreover have "handleConn (\<lambda>_. 2) 0 [0, 0, 0, 1, 7] = [] # handleConn (\<lambda>_. 2) 1 [0, 1, 7]"
    by (subst handleConn.simps) (simp add: Uint32_def Let_def)
  moreover have "handleConn (\<lambda>_. 2) 1 [0, 1, 7] = []"
    by (subst handleConn.simps) (simp add: Uint32_def Let_def)
  ultimately show "handleConn (\<lambda>_. 2) 0 (tcp_frame [7]) = [[]]" by simp
  show "handleRequest [] = Inl slice_panic" by (simp add: handleRequest_def splitMessage_def prefixCMDLength_def)
qed

end
