(* ===== verification/MigPools.thy ===== *)
theory MigPools
  imports CoreTypes
begin

text \<open>
  The four FIFO pools of migration transactions, \<open>core/txmig1pool.go\<close>, \<open>txmig2pool.go\<close>,
  \<open>txannpool.go\<close>, \<open>txnspool.go\<close>, and the part of \<open>GenerateBlock\<close> (\<open>chain/blockchain.go\<close>) that
  drains them in turn under a shared quota. Each operation runs under the pool's lock.
\<close>

section \<open>Pools\<close>

record TXmig1_pool =
  mig1_Queue :: "TXmig1 list"

record TXmig2_pool =
  mig2_Queue :: "TXmig2 list"

record TXann_pool =
  ann_Queue :: "TXann list"

record TXns_pool =
  ns_Queue :: "TXns list"

text \<open>\<open>outs = Queue[:cnt]; Queue = Queue[cnt:]\<close> with \<open>cnt\<close> the quota or the length, whichever is less.\<close>

definition take_quota :: "int \<Rightarrow> 'a list \<Rightarrow> ('a list \<times> 'a list \<times> int) res" where
  "take_quota quota q =
     (let cnt = (if int (length q) < quota then int (length q) else quota) in
      bind_res (slice_to q cnt) (\<lambda>outs.
      bind_res (slice_from q cnt) (\<lambda>rest. Inr (outs, rest, quota - cnt))))"

definition NewTXmig1Pool :: TXmig1_pool where
  "NewTXmig1Pool = \<lparr> mig1_Queue = [] \<rparr>"

definition AddTXmig1 :: "TXmig1 \<Rightarrow> TXmig1_pool \<Rightarrow> TXmig1_pool" where
  "AddTXmig1 x pool = pool\<lparr> mig1_Queue := mig1_Queue pool @ [x] \<rparr>"

definition AddTXmig1s :: "TXmig1 list \<Rightarrow> TXmig1_pool \<Rightarrow> TXmig1_pool" where
  "AddTXmig1s xs pool = fold AddTXmig1 xs pool"

text \<open>Without \<open>Bu_Tong_Bi_Li_2\<close> the named result \<open>left\<close> keeps its zero value.\<close>

definition FetchTXmig1s2Pack :: "ChainConfig \<Rightarrow> TXmig1_pool \<Rightarrow> (TXmig1 list \<times> TXmig1_pool \<times> int) res" where
  "FetchTXmig1s2Pack cfg pool =
     (if \<not> Bu_Tong_Bi_Li_2 cfg then Inr (mig1_Queue pool, pool\<lparr> mig1_Queue := [] \<rparr>, 0)
      else bind_res (take_quota (MaxMigSize cfg) (mig1_Queue pool)) (\<lambda>(outs, rest, left).
        Inr (outs, pool\<lparr> mig1_Queue := rest \<rparr>, left)))"

definition FetchTXmig1s2Pack2 :: "ChainConfig \<Rightarrow> TXmig1_pool \<Rightarrow> (TXmig1 list \<times> TXmig1_pool) res" where
  "FetchTXmig1s2Pack2 cfg pool =
     bind_res (take_quota (MaxMig1Size cfg) (mig1_Queue pool)) (\<lambda>(outs, rest, left).
       Inr (outs, pool\<lparr> mig1_Queue := rest \<rparr>))"

text \<open>\<open>NewInjectOutAccs2Shard\<close> moves the global \<open>OutAccs\<close> into the pool; \<open>clock i\<close> is the time read for
  the \<open>i\<close>-th of them.\<close>

definition NewInjectOutAccs2Shard :: "(nat \<Rightarrow> int) \<Rightarrow> TXmig1 list \<Rightarrow> TXmig1_pool \<Rightarrow> TXmig1_pool \<times> TXmig1 list" where
  "NewInjectOutAccs2Shard clock outAccs pool =
     (fold (\<lambda>(i, m) p. AddTXmig1 (m\<lparr> mig1_Request_Time := clock i \<rparr>) p)
        (zip [0..<length outAccs] outAccs) pool, [])"

definition NewTXmig2Pool :: TXmig2_pool where
  "NewTXmig2Pool = \<lparr> mig2_Queue = [] \<rparr>"

definition AddTXmig2 :: "TXmig2 \<Rightarrow> TXmig2_pool \<Rightarrow> TXmig2_pool" where
  "AddTXmig2 x pool = pool\<lparr> mig2_Queue := mig2_Queue pool @ [x] \<rparr>"

definition AddTXmig2s :: "TXmig2 list \<Rightarrow> TXmig2_pool \<Rightarrow> TXmig2_pool" where
  "AddTXmig2s xs pool = fold AddTXmig2 xs pool"

definition FetchTXmig2s2Pack :: "int \<Rightarrow> TXmig2_pool \<Rightarrow> (TXmig2 list \<times> TXmig2_pool \<times> int) res" where
  "FetchTXmig2s2Pack quota pool =
     bind_res (take_quota quota (mig2_Queue pool)) (\<lambda>(outs, rest, left).
       Inr (outs, pool\<lparr> mig2_Queue := rest \<rparr>, left))"

definition FetchTXmig2s2Pack2 :: "ChainConfig \<Rightarrow> TXmig2_pool \<Rightarrow> (TXmig2 list \<times> TXmig2_pool) res" where
  "FetchTXmig2s2Pack2 cfg pool =
     bind_res (take_quota (MaxMig2Size cfg) (mig2_Queue pool)) (\<lambda>(outs, rest, left).
       Inr (outs, pool\<lparr> mig2_Queue := rest \<rparr>))"

definition NewTXannPool :: TXann_pool where
  "NewTXannPool = \<lparr> ann_Queue = [] \<rparr>"

definition AddTXann :: "TXann \<Rightarrow> TXann_pool \<Rightarrow> TXann_pool" where
  "AddTXann x pool = pool\<lparr> ann_Queue := ann_Queue pool @ [x] \<rparr>"

definition AddTXanns :: "TXann list \<Rightarrow> TXann_pool \<Rightarrow> TXann_pool" where
  "AddTXanns xs pool = fold AddTXann xs pool"

definition FetchTXanns2Pack :: "int \<Rightarrow> TXann_pool \<Rightarrow> (TXann list \<times> TXann_pool \<times> int) res" where
  "FetchTXanns2Pack quota pool =
     bind_res (take_quota quota (ann_Queue pool)) (\<lambda>(outs, rest, left).
       Inr (outs, pool\<lparr> ann_Queue := rest \<rparr>, left))"

definition FetchTXanns2Pack2 :: "ChainConfig \<Rightarrow> TXann_pool \<Rightarrow> (TXann list \<times> TXann_pool) res" where
  "FetchTXanns2Pack2 cfg pool =
     bind_res (take_quota (MaxAnnSize cfg) (ann_Queue pool)) (\<lambda>(outs, rest, left).
       Inr (outs, pool\<lparr> ann_Queue := rest \<rparr>))"

definition NewTXnsPool :: TXns_pool where
  "NewTXnsPool = \<lparr> ns_Queue = [] \<rparr>"

definition AddTXns :: "TXns \<Rightarrow> TXns_pool \<Rightarrow> TXns_pool" where
  "AddTXns x pool = pool\<lparr> ns_Queue := ns_Queue pool @ [x] \<rparr>"

definition AddTXnss :: "TXns list \<Rightarrow> TXns_pool \<Rightarrow> TXns_pool" where
  "AddTXnss xs pool = fold AddTXns xs pool"

definition FetchTXnss2Pack :: "int \<Rightarrow> TXns_pool \<Rightarrow> (TXns list \<times> TXns_pool \<times> int) res" where
  "FetchTXnss2Pack quota pool =
     bind_res (take_quota quota (ns_Queue pool)) (\<lambda>(outs, rest, left).
       Inr (outs, pool\<lparr> ns_Queue := rest \<rparr>, left))"

definition FetchTXnss2Pack2 :: "ChainConfig \<Rightarrow> TXns_pool \<Rightarrow> (TXns list \<times> TXns_pool) res" where
  "FetchTXnss2Pack2 cfg pool =
     bind_res (take_quota (MaxCapSize cfg) (ns_Queue pool)) (\<lambda>(outs, rest, left).
       Inr (outs, pool\<lparr> ns_Queue := rest \<rparr>))"

section \<open>Draining the pools into a block\<close>

record MigPools =
  mp_mig1 :: TXmig1_pool
  mp_mig2 :: TXmig2_pool
  mp_ann :: TXann_pool
  mp_ns :: TXns_pool

type_synonym mig_batch = "TXmig1 list \<times> TXmig2 list \<times> TXann list \<times> TXns list"

text \<open>The two modes of \<open>GenerateBlock\<close>: fixed limits per kind, or one quota handed down.\<close>

definition batch_mode :: "ChainConfig \<Rightarrow> bool" where
  "batch_mode cfg \<longleftrightarrow> Algorithm cfg \<or> Pressure cfg"

definition fetch_mig2s :: "ChainConfig \<Rightarrow> int \<Rightarrow> int \<Rightarrow> TXmig2_pool \<Rightarrow> (TXmig2 list \<times> TXmig2_pool \<times> int) res" where
  "fetch_mig2s cfg blk quota pool =
     (if \<not> Bu_Tong_Shi_Jian cfg then
        (if batch_mode cfg then
           bind_res (FetchTXmig2s2Pack2 cfg pool) (\<lambda>(outs, p). Inr (outs, p, quota))
         else FetchTXmig2s2Pack quota pool)
      else if blk = Bu_Tong_Shi_Jian_Jian_Ge cfg then
        bind_res (FetchTXmig2s2Pack 10000000 pool) (\<lambda>(outs, p, _). Inr (outs, p, quota))
      else Inr ([], pool, quota))"

definition gather_migrations :: "ChainConfig \<Rightarrow> int \<Rightarrow> MigPools \<Rightarrow> (mig_batch \<times> MigPools) res" where
  "gather_migrations cfg blk mp =
     (if Stop_When_Migrating cfg then Inr (([], [], [], []), mp)
      else
        bind_res (if batch_mode cfg then
            bind_res (FetchTXmig1s2Pack2 cfg (mp_mig1 mp)) (\<lambda>(outs, p). Inr (outs, p, MaxMigSize cfg))
          else FetchTXmig1s2Pack cfg (mp_mig1 mp)) (\<lambda>(mig1s, p1, quota1).
        bind_res (fetch_mig2s cfg blk quota1 (mp_mig2 mp)) (\<lambda>(mig2s, p2, quota2).
        bind_res (if batch_mode cfg then
            bind_res (FetchTXanns2Pack2 cfg (mp_ann mp)) (\<lambda>(outs, p). Inr (outs, p, quota2))
          else FetchTXanns2Pack quota2 (mp_ann mp)) (\<lambda>(anns, p3, quota3).
        bind_res (if batch_mode cfg then
            bind_res (FetchTXnss2Pack2 cfg (mp_ns mp)) (\<lambda>(outs, p). Inr (outs, p, quota3))
          else FetchTXnss2Pack quota3 (mp_ns mp)) (\<lambda>(nss, p4, quota4).
        Inr ((mig1s, mig2s, anns, nss),
          \<lparr> mp_mig1 = p1, mp_mig2 = p2, mp_ann = p3, mp_ns = p4 \<rparr>))))))"

section \<open>The contract of a FIFO pool\<close>

datatype 'a pool_op = Add 'a | Fetch int

locale fifo_pool =
  fixes content :: "'s \<Rightarrow> 'a list"
    and add :: "'a \<Rightarrow> 's \<Rightarrow> 's"
    and fetch :: "int \<Rightarrow> 's \<Rightarrow> ('a list \<times> 's \<times> int) res"
  assumes add_law: "content (add x s) = content s @ [x]"
    and fetch_law: "0 \<le> q \<Longrightarrow> \<exists>xs s'. fetch q s = Inr (xs, s', q - int (length xs))
      \<and> content s = xs @ content s' \<and> int (length xs) \<le> q
      \<and> (content s' = [] \<or> int (length xs) = q)"
    and fetch_neg: "q < 0 \<Longrightarrow> fetch q s = Inl slice_panic"
begin

definition step :: "'a pool_op \<Rightarrow> 'a list \<times> 's \<Rightarrow> ('a list \<times> 's) res" where
  "step x st = (case (x, st) of
      (Add a, (out, s)) \<Rightarrow> Inr (out, add a s)
    | (Fetch q, (out, s)) \<Rightarrow> bind_res (fetch q s) (\<lambda>(xs, s', _). Inr (out @ xs, s')))"

fun added :: "'a pool_op list \<Rightarrow> 'a list" where
  "added [] = []"
| "added (Add a # ops) = a # added ops"
| "added (Fetch q # ops) = added ops"

lemma fifo_run:
  "\<forall>q. Fetch q \<in> set ops \<longrightarrow> 0 \<le> q \<Longrightarrow>
   \<exists>out' s'. fold_res step ops (out, s) = Inr (out', s')
     \<and> out' @ content s' = out @ content s @ added ops"
proof (induction ops arbitrary: out s)
  case Nil
  then show ?case by simp
next
  case (Cons x ops)
  show ?case
  proof (cases x)
    case (Add a)
    from Cons.IH [of out "add a s"] Cons.prems Add show ?thesis
      by (auto simp: step_def add_law)
  next
    case (Fetch q)
    with Cons.prems have "0 \<le> q" by simp
    from fetch_law [OF this, of s] obtain xs s1 where
      s1: "fetch q s = Inr (xs, s1, q - int (length xs))" "content s = xs @ content s1" by blast
    from Cons.IH [of "out @ xs" s1] Cons.prems Fetch s1 show ?thesis
      by (auto simp: step_def)
  qed
qed

end

lemma take_quota_law:
  "0 \<le> q \<Longrightarrow> \<exists>outs rest. take_quota q xs = Inr (outs, rest, q - int (length outs)) \<and> xs = outs @ rest
    \<and> int (length outs) \<le> q \<and> (rest = [] \<or> int (length outs) = q)"
  by (auto simp: take_quota_def slice_to_def slice_from_def Let_def min_def)

lemma take_quota_neg: "q < 0 \<Longrightarrow> take_quota q xs = Inl slice_panic"
  by (simp add: take_quota_def slice_to_def Let_def)

lemma take_quota_0: "take_quota 0 xs = Inr ([], xs, 0)"
  by (simp add: take_quota_def slice_to_def slice_from_def Let_def)

interpretation mig1_fifo: fifo_pool mig1_Queue AddTXmig1
  "\<lambda>q. FetchTXmig1s2Pack (default_config\<lparr> MaxMigSize := q \<rparr>)"
proof unfold_locales
  fix q and s :: TXmig1_pool
  show "0 \<le> q \<Longrightarrow> \<exists>xs s'. FetchTXmig1s2Pack (default_config\<lparr> MaxMigSize := q \<rparr>) s = Inr (xs, s', q - int (length xs))
      \<and> mig1_Queue s = xs @ mig1_Queue s' \<and> int (length xs) \<le> q
      \<and> (mig1_Queue s' = [] \<or> int (length xs) = q)"
    using take_quota_law [of q "mig1_Queue s"] by (auto simp: FetchTXmig1s2Pack_def default_config_def)
qed (auto simp: AddTXmig1_def FetchTXmig1s2Pack_def default_config_def take_quota_neg)

interpretation mig2_fifo: fifo_pool mig2_Queue AddTXmig2 FetchTXmig2s2Pack
proof unfold_locales
  fix q and s :: TXmig2_pool
  show "0 \<le> q \<Longrightarrow> \<exists>xs s'. FetchTXmig2s2Pack q s = Inr (xs, s', q - int (length xs))
      \<and> mig2_Queue s = xs @ mig2_Queue s' \<and> int (length xs) \<le> q
      \<and> (mig2_Queue s' = [] \<or> int (length xs) = q)"
    using take_quota_law [of q "mig2_Queue s"] by (auto simp: FetchTXmig2s2Pack_def)
qed (auto simp: AddTXmig2_def FetchTXmig2s2Pack_def take_quota_neg)

interpretation ann_fifo: fifo_pool ann_Queue AddTXann FetchTXanns2Pack
proof unfold_locales
  fix q and s :: TXann_pool
  show "0 \<le> q \<Longrightarrow> \<exists>xs s'. FetchTXanns2Pack q s = Inr (xs, s', q - int (length xs))
      \<and> ann_Queue s = xs @ ann_Queue s' \<and> int (length xs) \<le> q
      \<and> (ann_Queue s' = [] \<or> int (length xs) = q)"
    using take_quota_law [of q "ann_Queue s"] by (auto simp: FetchTXanns2Pack_def)
qed (auto simp: AddTXann_def FetchTXanns2Pack_def take_quota_neg)

interpretation ns_fifo: fifo_pool ns_Queue AddTXns FetchTXnss2Pack
proof unfold_locales
  fix q and s :: TXns_pool
  show "0 \<le> q \<Longrightarrow> \<exists>xs s'. FetchTXnss2Pack q s = Inr (xs, s', q - int (length xs))
      \<and> ns_Queue s = xs @ ns_Queue s' \<and> int (length xs) \<le> q
      \<and> (ns_Queue s' = [] \<or> int (length xs) = q)"
    using take_quota_law [of q "ns_Queue s"] by (auto simp: FetchTXnss2Pack_def)
qed (auto simp: AddTXns_def FetchTXnss2Pack_def take_quota_neg)

section \<open>Properties\<close>

text \<open>
  The announcement pool is a lossless FIFO queue: for every sequence of additions and fetches
  with non-negative quotas no operation fails, and what has been fetched, in order, followed by what
  is still queued is exactly what was queued and added, in order.
\<close>

theorem ann_pool_fifo:
  assumes "\<forall>q. Fetch q \<in> set ops \<longrightarrow> 0 \<le> q"
  shows "\<exists>out pool'. fold_res ann_fifo.step ops ([], pool) = Inr (out, pool')
    \<and> out @ ann_Queue pool' = ann_Queue pool @ ann_fifo.added ops"
  using ann_fifo.fifo_run [of ops "[]" pool] assms by simp

theorem ann_pool_fifo_witness:
  "\<exists>out pool'. fold_res ann_fifo.step [Fetch 3] ([], NewTXannPool) = Inr (out, pool')
    \<and> out @ ann_Queue pool' = []"
  using ann_pool_fifo [of "[Fetch 3]" NewTXannPool] by (simp add: NewTXannPool_def)

text \<open>
  In the quota mode of \<open>GenerateBlock\<close> with a non-negative \<open>MaxMigSize\<close>, gathering the migration
  transactions never fails; the four kinds together never exceed \<open>MaxMigSize\<close>; what is packed is a
  prefix of each queue and the rest stays; and a later kind is left waiting only when the quota is
  used up.
\<close>

theorem gather_quota:
  assumes "\<not> batch_mode cfg" "\<not> Stop_When_Migrating cfg" "Bu_Tong_Bi_Li_2 cfg"
    and "\<not> Bu_Tong_Shi_Jian cfg" "0 \<le> MaxMigSize cfg"
  shows "\<exists>m1 m2 as ns mp'. gather_migrations cfg blk mp = Inr ((m1, m2, as, ns), mp')
    \<and> int (length m1 + length m2 + length as + length ns) \<le> MaxMigSize cfg
    \<and> mig1_Queue (mp_mig1 mp) = m1 @ mig1_Queue (mp_mig1 mp')
    \<and> mig2_Queue (mp_mig2 mp) = m2 @ mig2_Queue (mp_mig2 mp')
    \<and> ann_Queue (mp_ann mp) = as @ ann_Queue (mp_ann mp')
    \<and> ns_Queue (mp_ns mp) = ns @ ns_Queue (mp_ns mp')
    \<and> (mig1_Queue (mp_mig1 mp') \<noteq> [] \<or> mig2_Queue (mp_mig2 mp') \<noteq> []
       \<or> ann_Queue (mp_ann mp') \<noteq> [] \<or> ns_Queue (mp_ns mp') \<noteq> []
       \<longrightarrow> int (length m1 + length m2 + length as + length ns) = MaxMigSize cfg)"
proof -
  from take_quota_law [OF assms(5), of "mig1_Queue (mp_mig1 mp)"] obtain m1 r1 where
    1: "take_quota (MaxMigSize cfg) (mig1_Queue (mp_mig1 mp)) = Inr (m1, r1, MaxMigSize cfg - int (length m1))"
      "mig1_Queue (mp_mig1 mp) = m1 @ r1" "int (length m1) \<le> MaxMigSize cfg"
      "r1 = [] \<or> int (length m1) = MaxMigSize cfg" by blast
  let ?q1 = "MaxMigSize cfg - int (length m1)"
  from 1(3) mig2_fifo.fetch_law [of ?q1 "mp_mig2 mp"] obtain m2 p2 where
    2: "FetchTXmig2s2Pack ?q1 (mp_mig2 mp) = Inr (m2, p2, ?q1 - int (length m2))"
      "mig2_Queue (mp_mig2 mp) = m2 @ mig2_Queue p2" "int (length m2) \<le> ?q1"
      "mig2_Queue p2 = [] \<or> int (length m2) = ?q1" by auto
  let ?q2 = "?q1 - int (length m2)"
  from 2(3) ann_fifo.fetch_law [of ?q2 "mp_ann mp"] obtain as p3 where
    3: "FetchTXanns2Pack ?q2 (mp_ann mp) = Inr (as, p3, ?q2 - int (length as))"
      "ann_Queue (mp_ann mp) = as @ ann_Queue p3" "int (length as) \<le> ?q2"
      "ann_Queue p3 = [] \<or> int (length as) = ?q2" by auto
  let ?q3 = "?q2 - int (length as)"
  from 3(3) ns_fifo.fetch_law [of ?q3 "mp_ns mp"] obtain ns p4 where
    4: "FetchTXnss2Pack ?q3 (mp_ns mp) = Inr (ns, p4, ?q3 - int (length ns))"
      "ns_Queue (mp_ns mp) = ns @ ns_Queue p4" "int (length ns) \<le> ?q3"
      "ns_Queue p4 = [] \<or> int (length ns) = ?q3" by auto
  have "gather_migrations cfg blk mp = Inr ((m1, m2, as, ns),
      \<lparr> mp_mig1 = (mp_mig1 mp)\<lparr> mig1_Queue := r1 \<rparr>, mp_mig2 = p2, mp_ann = p3, mp_ns = p4 \<rparr>)"
    using assms(1-4) 1(1) 2(1) 3(1) 4(1)
    by (simp add: gather_migrations_def fetch_mig2s_def FetchTXmig1s2Pack_def)
  with 1 2 3 4 show ?thesis by auto
qed

theorem gather_quota_witness:
  "\<exists>m1 m2 as ns mp'. gather_migrations default_config 1
     \<lparr> mp_mig1 = NewTXmig1Pool, mp_mig2 = NewTXmig2Pool, mp_ann = NewTXannPool, mp_ns = NewTXnsPool \<rparr>
     = Inr ((m1, m2, as, ns), mp') \<and> int (length m1 + length m2 + length as + length ns) \<le> 300"
  using gather_quota [of default_config 1 "\<lparr> mp_mig1 = NewTXmig1Pool, mp_mig2 = NewTXmig2Pool,
      mp_ann = NewTXannPool, mp_ns = NewTXnsPool \<rparr>"]
  by (auto simp: default_config_def batch_mode_def)

text \<open>
  With \<open>Bu_Tong_Bi_Li_2\<close> off, the quota that \<open>FetchTXmig1s2Pack\<close> hands on is zero: outside the
  batch mode no block ever carries a TXmig2, a TXann or a TXns, so no migration completes, although
  the comments in \<open>GenerateBlock\<close> say that all of them are packed.
\<close>

theorem gather_without_quota_starves:
  assumes "\<not> batch_mode cfg" "\<not> Stop_When_Migrating cfg" "\<not> Bu_Tong_Bi_Li_2 cfg" "\<not> Bu_Tong_Shi_Jian cfg"
  shows "\<exists>mp'. gather_migrations cfg blk mp = Inr ((mig1_Queue (mp_mig1 mp), [], [], []), mp')
    \<and> mig2_Queue (mp_mig2 mp') = mig2_Queue (mp_mig2 mp)
    \<and> ann_Queue (mp_ann mp') = ann_Queue (mp_ann mp) \<and> ns_Queue (mp_ns mp') = ns_Queue (mp_ns mp)"
  using assms
  by (simp add: gather_migrations_def fetch_mig2s_def FetchTXmig1s2Pack_def FetchTXmig2s2Pack_def
      FetchTXanns2Pack_def FetchTXnss2Pack_def take_quota_0)

theorem gather_without_quota_starves_witness:
  "\<exists>mp'. gather_migrations (default_config\<lparr> Bu_Tong_Bi_Li_2 := False \<rparr>) 1
     \<lparr> mp_mig1 = NewTXmig1Pool, mp_mig2 = NewTXmig2Pool, mp_ann = NewTXannPool, mp_ns = NewTXnsPool \<rparr>
     = Inr (([], [], [], []), mp')"
  using gather_without_quota_starves [of "default_config\<lparr> Bu_Tong_Bi_Li_2 := False \<rparr>" 1
      "\<lparr> mp_mig1 = NewTXmig1Pool, mp_mig2 = NewTXmig2Pool, mp_ann = NewTXannPool, mp_ns = NewTXnsPool \<rparr>"]
  by (auto simp: default_config_def batch_mode_def NewTXmig1Pool_def)

end
