(* ===== verification/TxPool.thy ===== *)
theory TxPool
  imports MigPools
begin

text \<open>
  \<open>core/txpool.go\<close>: the transaction pool and the selection of a block's transactions. A pool of
  locked transactions is a Go map of slices; an absent key reads as the empty slice, so it is a
  function from addresses to lists. \<open>clock i\<close> is the time that the \<open>i\<close>-th iteration of a loop reads;
  each iteration reads it at most once. Transactions are values: the code changes the lock fields
  of a transaction through its pointer just before it moves the pointer to another pool.
\<close>

section \<open>The pool\<close>

type_synonym tx_map = "addr \<Rightarrow> Transaction list"

record Tx_pool =
  Queue :: "Transaction list"
  Outing_Before_Announce_TX_Pools :: tx_map
  Outing_After_Announce_TX_Pools :: tx_map
  Locking_TX_Pools :: tx_map
  Not_Locking_TX_Pools :: tx_map
  Coming_TX_Pools :: tx_map

definition NewTxPool :: Tx_pool where
  "NewTxPool = \<lparr> Queue = [], Outing_Before_Announce_TX_Pools = (\<lambda>_. []),
     Outing_After_Announce_TX_Pools = (\<lambda>_. []), Locking_TX_Pools = (\<lambda>_. []),
     Not_Locking_TX_Pools = (\<lambda>_. []), Coming_TX_Pools = (\<lambda>_. []) \<rparr>"

definition AddTx :: "Transaction \<Rightarrow> Tx_pool \<Rightarrow> Tx_pool" where
  "AddTx tx pool = pool\<lparr> Queue := Queue pool @ [tx] \<rparr>"

definition AddTxs :: "Transaction list \<Rightarrow> Tx_pool \<Rightarrow> Tx_pool" where
  "AddTxs txs pool = pool\<lparr> Queue := Queue pool @ txs \<rparr>"

definition ContainsTxID :: "int \<Rightarrow> Tx_pool \<Rightarrow> bool" where
  "ContainsTxID k pool \<longleftrightarrow> list_ex (\<lambda>tx. TxId tx = k) (Queue pool)"

definition append_at :: "addr \<Rightarrow> Transaction \<Rightarrow> tx_map \<Rightarrow> tx_map" where
  "append_at a tx m = m(a := m a @ [tx])"

section \<open>Gates of \<open>FetchTxs2Pack\<close>\<close>

text \<open>Senders of other shards: only outgoing transactions of an account that migrates away pass.\<close>

definition ownership_gate :: "ChainConfig \<Rightarrow> Globals \<Rightarrow> MigGlobals \<Rightarrow> Transaction \<Rightarrow> bool" where
  "ownership_gate cfg g mg v =
     (let senderOwn = flag (AccountInOwnShard g) (from_addr v);
          recvOwn = flag (AccountInOwnShard g) (to_addr v) in
      if \<not> senderOwn \<and> \<not> IsRelay v \<and> \<not> Relay_Lock v
         \<and> (if \<not> IsMVSS cfg then True
            else case GetMigCtx (from_addr v) mg of
                None \<Rightarrow> True
              | Some ctx \<Rightarrow> \<not> ShouldSourcePackOutgoing cfg ctx (TxId v) (OrderTimestamp v) (RequestTime v))
      then False
      else if \<not> recvOwn \<and> (IsRelay v \<or> Relay_Lock v) then False
      else True)"

text \<open>Stage 3: on the target no new transaction before the sync is applied; on the source no paused one.\<close>

definition stage3_gate :: "ChainConfig \<Rightarrow> MigGlobals \<Rightarrow> Transaction \<Rightarrow> bool" where
  "stage3_gate cfg mg v =
     (if \<not> IsMVSS cfg then True
      else case GetMigCtx (from_addr v) mg of
          None \<Rightarrow> True
        | Some ctx \<Rightarrow>
            if TargetShard ctx = self_shard cfg \<and> ShouldBlockNewOnTarget ctx
               \<and> IsTXNew (Mig1Time ctx) (RequestTime v) then False
            else \<not> (TargetShard ctx \<noteq> self_shard cfg \<and> IsPaused ctx (TxId v)))"

definition mvssTargetMayPackNew :: "ChainConfig \<Rightarrow> MigGlobals \<Rightarrow> addr \<Rightarrow> Transaction \<Rightarrow> bool" where
  "mvssTargetMayPackNew cfg mg a v =
     (if \<not> IsMVSS cfg then False
      else case GetMigCtx a mg of
          None \<Rightarrow> False
        | Some ctx \<Rightarrow> TargetShard ctx = self_shard cfg \<and> \<not> ShouldBlockNewOnTarget ctx
            \<and> IsTXNew (Mig1Time ctx) (RequestTime v))"

definition mvss_lock_gate :: "ChainConfig \<Rightarrow> Globals \<Rightarrow> MigGlobals \<Rightarrow> Transaction \<Rightarrow> bool" where
  "mvss_lock_gate cfg g mg v =
     (if flag (Not_Lock_Acc g) (from_addr v) then
        (if IsTXNew (TXmig1_Time v) (RequestTime v) \<and> \<not> mvssTargetMayPackNew cfg mg (from_addr v) v
         then False
         else case GetMigCtx (from_addr v) mg of None \<Rightarrow> True | Some ctx \<Rightarrow> \<not> IsPaused ctx (TxId v))
      else if flag (Not_Lock_Acc g) (to_addr v) then
        (let reqT = (if Second_RequestTime v \<le> 0 then RequestTime v else Second_RequestTime v) in
         \<not> (IsTXNew (TXmig1_Time v) reqT \<and> \<not> mvssTargetMayPackNew cfg mg (to_addr v) v))
      else True)"

section \<open>Locking\<close>

definition stamp_lock :: "int \<Rightarrow> Transaction \<Rightarrow> Transaction" where
  "stamp_lock now v = (if LockTime v > 0 then v\<lparr> LockTime2 := now \<rparr> else v\<lparr> LockTime := now \<rparr>)"

definition lock_sender :: "ChainConfig \<Rightarrow> int \<Rightarrow> int \<Rightarrow> Transaction \<Rightarrow> Transaction" where
  "lock_sender cfg now blk v =
     (let v1 = (stamp_lock now v)\<lparr> SenLock := True \<rparr> in
      if Not_Lock_immediately cfg \<and> Sen_Suppose_on_chain v1 = 0
      then v1\<lparr> Sen_Suppose_on_chain := blk \<rparr> else v1)"

definition lock_receiver :: "ChainConfig \<Rightarrow> int \<Rightarrow> int \<Rightarrow> Transaction \<Rightarrow> Transaction" where
  "lock_receiver cfg now blk v =
     (let v1 = (stamp_lock now v)\<lparr> RecLock := True \<rparr> in
      if Not_Lock_immediately cfg \<and> Rec_Suppose_on_chain v1 = 0
      then v1\<lparr> Rec_Suppose_on_chain := blk \<rparr> else v1)"

text \<open>
  The lock branches answer whether the transaction is packed. Under \<open>RelayLock\<close> a copy of a
  transaction with a locked receiver goes to the pool and the transaction itself is packed.
\<close>

definition notlock_branch :: "ChainConfig \<Rightarrow> Globals \<Rightarrow> int \<Rightarrow> int \<Rightarrow> Transaction \<Rightarrow> Tx_pool \<Rightarrow> bool \<times> Tx_pool" where
  "notlock_branch cfg g now blk v pool =
     (if flag (Not_Lock_Acc g) (from_addr v) \<and> \<not> IsRelay v \<and> \<not> Relay_Lock v \<and> TXmig1_Time v < RequestTime v
      then (False, pool\<lparr> Not_Locking_TX_Pools :=
        append_at (from_addr v) (lock_sender cfg now blk v) (Not_Locking_TX_Pools pool) \<rparr>)
      else if flag (Not_Lock_Acc g) (to_addr v) \<and> TXmig1_Time v < Second_RequestTime v then
        (if \<not> RelayLock cfg
         then (False, pool\<lparr> Not_Locking_TX_Pools :=
           append_at (to_addr v) (lock_receiver cfg now blk v) (Not_Locking_TX_Pools pool) \<rparr>)
         else (True, pool\<lparr> Not_Locking_TX_Pools :=
           append_at (to_addr v) ((lock_receiver cfg now blk v)\<lparr> Relay_Lock := True \<rparr>) (Not_Locking_TX_Pools pool) \<rparr>))
      else (True, pool))"

definition fulllock_branch :: "ChainConfig \<Rightarrow> Globals \<Rightarrow> int \<Rightarrow> int \<Rightarrow> Transaction \<Rightarrow> Tx_pool \<Rightarrow> bool \<times> Tx_pool" where
  "fulllock_branch cfg g now blk v pool =
     (if flag (Lock_Acc g) (from_addr v) \<and> \<not> IsRelay v \<and> \<not> Relay_Lock v
      then (False, pool\<lparr> Locking_TX_Pools :=
        append_at (from_addr v) (lock_sender cfg now blk v) (Locking_TX_Pools pool) \<rparr>)
      else if flag (Lock_Acc g) (to_addr v) then
        (if \<not> RelayLock cfg
         then (False, pool\<lparr> Locking_TX_Pools :=
           append_at (to_addr v) (lock_receiver cfg now blk v) (Locking_TX_Pools pool) \<rparr>)
         else (True, pool\<lparr> Locking_TX_Pools :=
           append_at (to_addr v) ((lock_receiver cfg now blk v)\<lparr> Relay_Lock := True \<rparr>) (Locking_TX_Pools pool) \<rparr>))
      else (True, pool))"

definition halflock_branch :: "ChainConfig \<Rightarrow> Globals \<Rightarrow> int \<Rightarrow> int \<Rightarrow> Transaction \<Rightarrow> Tx_pool \<Rightarrow> bool \<times> Tx_pool" where
  "halflock_branch cfg g now blk v pool =
     (if flag (Outing_Acc_Before_Announce g) (from_addr v)
      then (False, pool\<lparr> Outing_Before_Announce_TX_Pools :=
        append_at (from_addr v) (lock_sender cfg now blk v) (Outing_Before_Announce_TX_Pools pool) \<rparr>)
      else (True, pool))"

datatype verdict = Stay | Diverted | Packed

text \<open>One iteration: the gates in the order of the code, then the branch of the migration mode.\<close>

definition judge :: "ChainConfig \<Rightarrow> Globals \<Rightarrow> MigGlobals \<Rightarrow> int \<Rightarrow> int \<Rightarrow> Transaction \<Rightarrow> Tx_pool \<Rightarrow> verdict \<times> Tx_pool" where
  "judge cfg g mg now blk v pool =
     (let verdict_of = (\<lambda>(go, p). (if go then Packed else Diverted, p)) in
      if \<not> ownership_gate cfg g mg v then (Stay, pool)
      else if \<not> stage3_gate cfg mg v then (Stay, pool)
      else if IsMVSSPlus cfg \<and> Not_Lock_Acc_When_Migrating cfg then
        (if mvss_lock_gate cfg g mg v then (Packed, pool) else (Stay, pool))
      else if Not_Lock_Acc_When_Migrating cfg then verdict_of (notlock_branch cfg g now blk v pool)
      else if Lock_Acc_When_Migrating cfg then verdict_of (fulllock_branch cfg g now blk v pool)
      else if \<not> Stop_When_Migrating cfg then verdict_of (halflock_branch cfg g now blk v pool)
      else (Packed, pool))"

text \<open>A packed transaction of an account that leaves the shard counts as committed.\<close>

definition mark_packed :: "ChainConfig \<Rightarrow> Transaction \<Rightarrow> MigGlobals \<Rightarrow> MigGlobals" where
  "mark_packed cfg v mg =
     (if \<not> IsMVSS cfg then mg
      else case GetMigCtx (from_addr v) mg of
          None \<Rightarrow> mg
        | Some ctx \<Rightarrow> if TargetShard ctx \<noteq> self_shard cfg
            then MarkTxCommitted (from_addr v) (TxId v) mg else mg)"

fun pack_loop :: "ChainConfig \<Rightarrow> Globals \<Rightarrow> int \<Rightarrow> int \<Rightarrow> (int \<times> Transaction) list \<Rightarrow> int
    \<Rightarrow> Tx_pool \<Rightarrow> MigGlobals \<Rightarrow> Transaction list \<times> Transaction list \<times> Tx_pool \<times> MigGlobals" where
  "pack_loop cfg g blk cnt [] packedN pool mg = ([], [], pool, mg)"
| "pack_loop cfg g blk cnt ((now, v) # vs) packedN pool mg =
     (if packedN \<ge> cnt then
        (let (txs, rest, pool', mg') = pack_loop cfg g blk cnt vs packedN pool mg in (txs, v # rest, pool', mg'))
      else case judge cfg g mg now blk v pool of
          (Stay, pool1) \<Rightarrow>
            (let (txs, rest, pool', mg') = pack_loop cfg g blk cnt vs packedN pool1 mg in (txs, v # rest, pool', mg'))
        | (Diverted, pool1) \<Rightarrow> pack_loop cfg g blk cnt vs packedN pool1 mg
        | (Packed, pool1) \<Rightarrow>
            (let (txs, rest, pool', mg') =
               pack_loop cfg g blk cnt vs (packedN + 1) pool1 (mark_packed cfg v mg)
             in (v # txs, rest, pool', mg')))"

definition with_clock :: "(nat \<Rightarrow> int) \<Rightarrow> 'a list \<Rightarrow> (int \<times> 'a) list" where
  "with_clock clock xs = zip (map clock [0..<length xs]) xs"

text \<open>\<open>make\<close> panics for a negative capacity.\<close>

definition FetchTxs2Pack :: "ChainConfig \<Rightarrow> Globals \<Rightarrow> (nat \<Rightarrow> int) \<Rightarrow> int \<Rightarrow> int \<Rightarrow> Tx_pool \<Rightarrow> MigGlobals
    \<Rightarrow> (Transaction list \<times> int \<times> Tx_pool \<times> MigGlobals) res" where
  "FetchTxs2Pack cfg g clock left_count blk pool mg =
     (let tx_cnt = (if int (length (Queue pool)) < left_count then int (length (Queue pool)) else left_count) in
      if tx_cnt < 0 then Inl make_panic
      else (let (txs, rest, pool', mg') = pack_loop cfg g blk tx_cnt (with_clock clock (Queue pool)) 0 pool mg in
        Inr (txs, int (length rest), pool'\<lparr> Queue := rest \<rparr>, mg')))"

section \<open>Locking the queue: \<open>LockTX\<close>\<close>

definition lock_stamp_sender :: "int \<Rightarrow> Transaction \<Rightarrow> Transaction" where
  "lock_stamp_sender now tx = (stamp_lock now tx)\<lparr> SenLock := True \<rparr>"

definition lock_stamp_receiver :: "int \<Rightarrow> Transaction \<Rightarrow> Transaction" where
  "lock_stamp_receiver now tx = (stamp_lock now tx)\<lparr> RecLock := True \<rparr>"

definition own_or_relay :: "Globals \<Rightarrow> Transaction \<Rightarrow> bool" where
  "own_or_relay g tx \<longleftrightarrow> flag (AccountInOwnShard g) (from_addr tx) \<or> IsRelay tx \<or> Relay_Lock tx"

text \<open>\<open>None\<close> when the transaction stays in the queue.\<close>

definition lock_step :: "ChainConfig \<Rightarrow> Globals \<Rightarrow> int \<Rightarrow> Transaction \<Rightarrow> Tx_pool \<Rightarrow> Tx_pool option" where
  "lock_step cfg g now tx pool =
     (if Not_Lock_Acc_When_Migrating cfg \<and> \<not> IsRelay tx \<and> \<not> Relay_Lock tx
         \<and> flag (Not_Lock_Acc g) (from_addr tx) \<and> TXmig1_Time tx < RequestTime tx
      then Some (pool\<lparr> Not_Locking_TX_Pools :=
        append_at (from_addr tx) (lock_stamp_sender now tx) (Not_Locking_TX_Pools pool) \<rparr>)
      else if Not_Lock_Acc_When_Migrating cfg \<and> flag (Not_Lock_Acc g) (to_addr tx) \<and> own_or_relay g tx
         \<and> TXmig1_Time tx < Second_RequestTime tx
      then Some (pool\<lparr> Not_Locking_TX_Pools :=
        append_at (to_addr tx) (lock_stamp_receiver now tx) (Not_Locking_TX_Pools pool) \<rparr>)
      else if Lock_Acc_When_Migrating cfg \<and> \<not> IsRelay tx \<and> \<not> Relay_Lock tx \<and> flag (Lock_Acc g) (from_addr tx)
      then Some (pool\<lparr> Locking_TX_Pools :=
        append_at (from_addr tx) (lock_stamp_sender now tx) (Locking_TX_Pools pool) \<rparr>)
      else if Lock_Acc_When_Migrating cfg \<and> flag (Lock_Acc g) (to_addr tx) \<and> own_or_relay g tx
      then Some (pool\<lparr> Locking_TX_Pools :=
        append_at (to_addr tx) (lock_stamp_receiver now tx) (Locking_TX_Pools pool) \<rparr>)
      else if \<not> Not_Lock_Acc_When_Migrating cfg \<and> \<not> Lock_Acc_When_Migrating cfg
         \<and> \<not> IsRelay tx \<and> \<not> Relay_Lock tx \<and> flag (Outing_Acc_Before_Announce g) (from_addr tx)
      then Some (pool\<lparr> Outing_Before_Announce_TX_Pools :=
        append_at (from_addr tx) (stamp_lock now tx) (Outing_Before_Announce_TX_Pools pool) \<rparr>)
      else None)"

fun lock_loop :: "ChainConfig \<Rightarrow> Globals \<Rightarrow> (int \<times> Transaction) list \<Rightarrow> Tx_pool \<Rightarrow> Transaction list \<times> Tx_pool" where
  "lock_loop cfg g [] pool = ([], pool)"
| "lock_loop cfg g ((now, tx) # txs) pool =
     (case lock_step cfg g now tx pool of
        Some pool' \<Rightarrow> lock_loop cfg g txs pool'
      | None \<Rightarrow> (let (rest, pool') = lock_loop cfg g txs pool in (tx # rest, pool')))"

definition LockTX :: "ChainConfig \<Rightarrow> Globals \<Rightarrow> (nat \<Rightarrow> int) \<Rightarrow> Tx_pool \<Rightarrow> Tx_pool" where
  "LockTX cfg g clock pool =
     (let (rest, pool') = lock_loop cfg g (with_clock clock (Queue pool)) pool in pool'\<lparr> Queue := rest \<rparr>)"

section \<open>Injection\<close>

text \<open>
  The body of the injection loops: a transaction of this shard enters the queue with its arrival
  time. \<open>InjectTxs2Shard\<close> skips, unless migrations stop the chain, the senders that have already
  been announced elsewhere.
\<close>

definition inject_one :: "ChainConfig \<Rightarrow> int \<Rightarrow> int \<Rightarrow> Transaction \<Rightarrow> Tx_pool \<times> Globals \<Rightarrow> (Tx_pool \<times> Globals) res" where
  "inject_one cfg sid now tx st = (case st of (pool, g) \<Rightarrow>
     bind_res (Addr2Shard cfg (from_addr tx) g) (\<lambda>(shard, g').
       if shard = sid then Inr (AddTx (tx\<lparr> RequestTime := now \<rparr>) pool, g') else Inr (pool, g')))"

definition InjectTxs_batch :: "ChainConfig \<Rightarrow> int \<Rightarrow> (int \<times> Transaction) list \<Rightarrow> Tx_pool \<times> Globals \<Rightarrow> (Tx_pool \<times> Globals) res" where
  "InjectTxs_batch cfg sid =
     fold_res (\<lambda>(now, tx) st.
       if \<not> Stop_When_Migrating cfg \<and> flag (Outing_Acc_After_Announce (snd st)) (from_addr tx) then Inr st
       else inject_one cfg sid now tx st)"

definition NewInjectTxs2Shard :: "ChainConfig \<Rightarrow> int \<Rightarrow> (nat \<Rightarrow> int) \<Rightarrow> Transaction list
    \<Rightarrow> Tx_pool \<times> Globals \<Rightarrow> (Tx_pool \<times> Globals) res" where
  "NewInjectTxs2Shard cfg sid clock txs =
     fold_res (\<lambda>(now, tx). inject_one cfg sid now tx) (with_clock clock txs)"

end
