(* ===== verification/Packing.thy ===== *)
theory Packing
  imports TxPool "HOL-Library.Sublist"
begin

text \<open>
  What a call of \<open>FetchTxs2Pack\<close> and of \<open>LockTX\<close> does to the transactions: nothing is lost or
  duplicated, the order is kept, the block limit holds, and under MVSS every packed transaction
  has passed the Stage 3 gates.
\<close>

section \<open>Packing only marks commits\<close>

definition ctx_core :: "MigAccountCtx \<Rightarrow> MigAccountCtx" where
  "ctx_core ctx = ctx\<lparr> CommittedTx := Map.empty \<rparr>"

definition same_core :: "MigGlobals \<Rightarrow> MigGlobals \<Rightarrow> bool" where
  "same_core mg mg' \<longleftrightarrow> (\<forall>a. map_option ctx_core (MigCtxMap mg a) = map_option ctx_core (MigCtxMap mg' a))"

lemma same_core_refl [simp]: "same_core mg mg"
  by (simp add: same_core_def)

lemma same_core_trans: "same_core a b \<Longrightarrow> same_core b c \<Longrightarrow> same_core a c"
  by (simp add: same_core_def)

lemma ctx_core_fields:
  assumes "ctx_core c = ctx_core c'"
  shows "SourceShard c = SourceShard c'" "TargetShard c = TargetShard c'" "Mig1Time c = Mig1Time c'"
    "OrderList c = OrderList c'" "ArrivalList c = ArrivalList c'" "FirstNewTxID c = FirstNewTxID c'"
    "PausedTxIDs c = PausedTxIDs c'" "FSM c = FSM c'"
  using assms by (cases c; cases c'; simp add: ctx_core_def)+

lemma same_core_cases:
  assumes "same_core mg mg'"
  obtains "MigCtxMap mg a = None" "MigCtxMap mg' a = None"
    | c c' where "MigCtxMap mg a = Some c" "MigCtxMap mg' a = Some c'" "ctx_core c = ctx_core c'"
proof -
  from assms have "map_option ctx_core (MigCtxMap mg a) = map_option ctx_core (MigCtxMap mg' a)"
    by (simp add: same_core_def)
  with that show thesis by (cases "MigCtxMap mg a"; cases "MigCtxMap mg' a") auto
qed

lemma gate_fields:
  assumes "ctx_core c = ctx_core c'"
  shows "IsPaused c = IsPaused c'" "ShouldBlockNewOnTarget c = ShouldBlockNewOnTarget c'"
    "ShouldSourcePackOutgoing cfg c = ShouldSourcePackOutgoing cfg c'"
proof -
  show p: "IsPaused c = IsPaused c'"
    by (rule ext) (simp add: IsPaused_def ctx_core_fields [OF assms])
  show "ShouldBlockNewOnTarget c = ShouldBlockNewOnTarget c'"
    by (simp add: ShouldBlockNewOnTarget_def ctx_core_fields [OF assms])
  show "ShouldSourcePackOutgoing cfg c = ShouldSourcePackOutgoing cfg c'"
    by (intro ext) (simp add: ShouldSourcePackOutgoing_def IsSuffixOldTx_def p ctx_core_fields [OF assms] cong: option.case_cong)
qed

lemma gates_same_core:
  assumes "same_core mg mg'"
  shows "ownership_gate cfg g mg v = ownership_gate cfg g mg' v"
    "stage3_gate cfg mg v = stage3_gate cfg mg' v"
    "mvssTargetMayPackNew cfg mg a v = mvssTargetMayPackNew cfg mg' a v"
    "mvss_lock_gate cfg g mg v = mvss_lock_gate cfg g mg' v"
proof -
  show may: "mvssTargetMayPackNew cfg mg a v = mvssTargetMayPackNew cfg mg' a v" for a
  proof (cases rule: same_core_cases [OF assms, of a])
    case (2 c c')
    then show ?thesis
      by (simp add: mvssTargetMayPackNew_def GetMigCtx_def ctx_core_fields [OF 2(3)] gate_fields [OF 2(3)])
  qed (simp add: mvssTargetMayPackNew_def GetMigCtx_def)
  show "ownership_gate cfg g mg v = ownership_gate cfg g mg' v"
  proof (cases rule: same_core_cases [OF assms, of "from_addr v"])
    case (2 c c')
    then show ?thesis
      by (simp add: ownership_gate_def GetMigCtx_def gate_fields(3) [OF 2(3), of cfg])
  qed (simp add: ownership_gate_def GetMigCtx_def)
  show "stage3_gate cfg mg v = stage3_gate cfg mg' v"
  proof (cases rule: same_core_cases [OF assms, of "from_addr v"])
    case (2 c c')
    then show ?thesis
      by (simp add: stage3_gate_def GetMigCtx_def ctx_core_fields [OF 2(3)] gate_fields [OF 2(3)])
  qed (simp add: stage3_gate_def GetMigCtx_def)
  show "mvss_lock_gate cfg g mg v = mvss_lock_gate cfg g mg' v"
  proof (cases rule: same_core_cases [OF assms, of "from_addr v"])
    case (2 c c')
    then show ?thesis
      by (simp add: mvss_lock_gate_def may GetMigCtx_def gate_fields(1) [OF 2(3)])
  qed (simp add: mvss_lock_gate_def may GetMigCtx_def)
qed

lemma mark_packed_core: "same_core mg (mark_packed cfg v mg)"
  by (auto simp: same_core_def mark_packed_def MarkTxCommitted_def SetMigCtx_def GetMigCtx_def
      ctx_core_def split: option.splits)

section \<open>Where the transactions go\<close>

definition in_lock_pool :: "Tx_pool \<Rightarrow> Transaction \<Rightarrow> bool" where
  "in_lock_pool pool v \<longleftrightarrow> (\<exists>a \<in> {from_addr v, to_addr v}. \<exists>v'. TxId v' = TxId v
     \<and> (v' \<in> set (Not_Locking_TX_Pools pool a) \<or> v' \<in> set (Locking_TX_Pools pool a)
        \<or> v' \<in> set (Outing_Before_Announce_TX_Pools pool a)))"

definition pools_grow :: "Tx_pool \<Rightarrow> Tx_pool \<Rightarrow> bool" where
  "pools_grow p p' \<longleftrightarrow> (\<forall>a. prefix (Not_Locking_TX_Pools p a) (Not_Locking_TX_Pools p' a)
     \<and> prefix (Locking_TX_Pools p a) (Locking_TX_Pools p' a)
     \<and> prefix (Outing_Before_Announce_TX_Pools p a) (Outing_Before_Announce_TX_Pools p' a))"

lemma pools_grow_refl [simp]: "pools_grow p p"
  by (simp add: pools_grow_def)

lemma pools_grow_trans: "pools_grow a b \<Longrightarrow> pools_grow b c \<Longrightarrow> pools_grow a c"
  by (meson pools_grow_def prefix_order.trans)

lemma in_lock_pool_grow: "pools_grow p p' \<Longrightarrow> in_lock_pool p v \<Longrightarrow> in_lock_pool p' v"
  unfolding in_lock_pool_def pools_grow_def by (meson set_mono_prefix subsetD)

lemma lock_ids [simp]:
  "TxId (stamp_lock now v) = TxId v" "TxId (lock_sender cfg now blk v) = TxId v"
  "TxId (lock_receiver cfg now blk v) = TxId v" "TxId (lock_stamp_sender now v) = TxId v"
  "TxId (lock_stamp_receiver now v) = TxId v"
  by (auto simp: stamp_lock_def lock_sender_def lock_receiver_def lock_stamp_sender_def
      lock_stamp_receiver_def Let_def)

lemma in_lock_poolI:
  "a \<in> {from_addr v, to_addr v} \<Longrightarrow> TxId v' = TxId v \<Longrightarrow>
   v' \<in> set (Not_Locking_TX_Pools pool a) \<union> set (Locking_TX_Pools pool a)
     \<union> set (Outing_Before_Announce_TX_Pools pool a) \<Longrightarrow> in_lock_pool pool v"
  unfolding in_lock_pool_def by blast

lemma append_at_simps [simp]: "prefix (m a) (append_at b x m a)" "x \<in> set (append_at b x m b)"
  by (auto simp: append_at_def)

lemma branch_moves:
  "notlock_branch cfg g now blk v pool = (go, p') \<Longrightarrow> pools_grow pool p' \<and> (\<not> go \<longrightarrow> in_lock_pool p' v)"
  "fulllock_branch cfg g now blk v pool = (go, p') \<Longrightarrow> pools_grow pool p' \<and> (\<not> go \<longrightarrow> in_lock_pool p' v)"
  "halflock_branch cfg g now blk v pool = (go, p') \<Longrightarrow> pools_grow pool p' \<and> (\<not> go \<longrightarrow> in_lock_pool p' v)"
  unfolding notlock_branch_def fulllock_branch_def halflock_branch_def
  by (auto simp: pools_grow_def split: if_split_asm
      intro: in_lock_poolI [where a = "from_addr v" and v' = "lock_sender cfg now blk v"]
        in_lock_poolI [where a = "to_addr v" and v' = "lock_receiver cfg now blk v"])

lemma judge_moves:
  assumes "judge cfg g mg now blk v pool = (d, p')"
  shows "pools_grow pool p'" and "d = Diverted \<Longrightarrow> in_lock_pool p' v"
    and "IsMVSS cfg \<Longrightarrow> Not_Lock_Acc_When_Migrating cfg \<Longrightarrow> p' = pool \<and> d \<noteq> Diverted"
    and "d = Packed \<Longrightarrow> ownership_gate cfg g mg v \<and> stage3_gate cfg mg v"
    and "d = Packed \<Longrightarrow> IsMVSS cfg \<Longrightarrow> Not_Lock_Acc_When_Migrating cfg \<Longrightarrow> mvss_lock_gate cfg g mg v"
proof -
  obtain g1 p1 where n: "notlock_branch cfg g now blk v pool = (g1, p1)" by force
  obtain g2 p2 where f: "fulllock_branch cfg g now blk v pool = (g2, p2)" by force
  obtain g3 p3 where h: "halflock_branch cfg g now blk v pool = (g3, p3)" by force
  note moves = branch_moves(1) [OF n] branch_moves(2) [OF f] branch_moves(3) [OF h]
  note j = assms [unfolded judge_def Let_def IsMVSSPlus_def n f h prod.case]
  show "pools_grow pool p'" using j moves by (auto split: if_splits)
  show "in_lock_pool p' v" if "d = Diverted" using j moves that by (auto split: if_splits)
  show "p' = pool \<and> d \<noteq> Diverted" if "IsMVSS cfg" "Not_Lock_Acc_When_Migrating cfg"
    using j that by (auto split: if_splits)
  show "ownership_gate cfg g mg v \<and> stage3_gate cfg mg v" if "d = Packed"
    using j that by (auto split: if_splits)
  show "mvss_lock_gate cfg g mg v" if "d = Packed" "IsMVSS cfg" "Not_Lock_Acc_When_Migrating cfg"
    using j that by (auto split: if_splits)
qed

text \<open>The outcome of the loop over a list of transactions.\<close>

definition pack_post :: "ChainConfig \<Rightarrow> Globals \<Rightarrow> MigGlobals \<Rightarrow> Tx_pool \<Rightarrow> Transaction list
    \<Rightarrow> Transaction list \<times> Transaction list \<times> Tx_pool \<times> MigGlobals \<Rightarrow> Transaction list \<Rightarrow> bool" where
  "pack_post cfg g mg pool vs r D \<longleftrightarrow> (case r of (txs, rest, pool', mg') \<Rightarrow>
     subseq txs vs \<and> subseq rest vs \<and> subseq D vs \<and> mset vs = mset txs + mset rest + mset D
     \<and> pools_grow pool pool' \<and> (\<forall>v\<in>set D. in_lock_pool pool' v)
     \<and> (IsMVSS cfg \<and> Not_Lock_Acc_When_Migrating cfg \<longrightarrow> D = [] \<and> pool' = pool)
     \<and> (\<forall>v\<in>set txs. ownership_gate cfg g mg v \<and> stage3_gate cfg mg v
          \<and> (IsMVSS cfg \<and> Not_Lock_Acc_When_Migrating cfg \<longrightarrow> mvss_lock_gate cfg g mg v))
     \<and> same_core mg mg')"

lemma pack_loop_post:
  "\<exists>D. pack_post cfg g mg pool (map snd vs) (pack_loop cfg g blk cnt vs n pool mg) D"
proof (induction cfg g blk cnt vs n pool mg rule: pack_loop.induct)
  case (1 cfg g blk cnt n pool mg)
  then show ?case by (auto simp: pack_post_def)
next
  case (2 cfg g blk cnt now v vs n pool mg)
  show ?case
  proof (cases "n \<ge> cnt")
    case True
    from "2.IH"(1) [OF True] True show ?thesis
      by (auto simp: pack_post_def split_beta)
  next
    case False
    obtain d p1 where j: "judge cfg g mg now blk v pool = (d, p1)" by force
    note moves = judge_moves [OF j]
    show ?thesis
    proof (cases d)
      case Stay
      from "2.IH"(2) [OF False j [symmetric, unfolded Stay]] False j Stay moves show ?thesis
        by (auto simp: pack_post_def split_beta intro: pools_grow_trans)
    next
      case Diverted
      from "2.IH"(3) [OF False j [symmetric, unfolded Diverted]] obtain D where
        D: "pack_post cfg g mg p1 (map snd vs) (pack_loop cfg g blk cnt vs n p1 mg) D" by blast
      have "pack_post cfg g mg pool (map snd ((now, v) # vs))
          (pack_loop cfg g blk cnt ((now, v) # vs) n pool mg) (v # D)"
        using D False j Diverted moves
        by (auto simp: pack_post_def split_beta intro: pools_grow_trans in_lock_pool_grow)
      then show ?thesis ..
    next
      case Packed
      let ?mg = "mark_packed cfg v mg"
      from "2.IH"(4) [OF False j [symmetric, unfolded Packed]] obtain D where
        D: "pack_post cfg g ?mg p1 (map snd vs) (pack_loop cfg g blk cnt vs (n + 1) p1 ?mg) D" by blast
      have core: "same_core mg ?mg" by (rule mark_packed_core)
      have "pack_post cfg g mg pool (map snd ((now, v) # vs))
          (pack_loop cfg g blk cnt ((now, v) # vs) n pool mg) D"
        using D False j Packed moves gates_same_core [OF core, of cfg]
        by (auto simp: pack_post_def split_beta intro: pools_grow_trans same_core_trans [OF core])
      then show ?thesis ..
    qed
  qed
qed

lemma pack_loop_bound:
  "int (length (fst (pack_loop cfg g blk cnt vs n pool mg))) \<le> max 0 (cnt - n)"
proof (induction cfg g blk cnt vs n pool mg rule: pack_loop.induct)
  case (1 cfg g blk cnt n pool mg)
  then show ?case by simp
next
  case (2 cfg g blk cnt now v vs n pool mg)
  obtain d p1 where j: "judge cfg g mg now blk v pool = (d, p1)" by force
  show ?case
  proof (cases "n \<ge> cnt")
    case True
    with "2.IH"(1) [OF True] show ?thesis by (simp add: split_beta)
  next
    case False
    with "2.IH"(2-4) [OF False j [symmetric]] j show ?thesis by (cases d) (auto simp: split_beta)
  qed
qed

lemma map_snd_with_clock [simp]: "map snd (with_clock clock xs) = xs"
  by (simp add: with_clock_def)

lemma FetchTxs2Pack_total:
  assumes "0 \<le> left_count"
  shows "\<exists>txs n pool' mg'. FetchTxs2Pack cfg g clock left_count blk pool mg = Inr (txs, n, pool', mg')"
  using assms by (auto simp: FetchTxs2Pack_def Let_def split: prod.splits)

section \<open>Properties\<close>

text \<open>
  C12. \<open>FetchTxs2Pack\<close> with a non-negative limit always returns. It packs at most the limit, in queue
  order; the queue keeps its order; and the old queue is exactly the packed, the remaining and the
  diverted transactions, each once, where a diverted one waits in the lock pool of its sender or
  receiver. Under an MVSS strategy nothing is diverted: a transaction is packed or stays queued.
\<close>

theorem FetchTxs2Pack_conserves:
  assumes "0 \<le> left_count"
  shows "\<exists>txs n pool' mg' D. FetchTxs2Pack cfg g clock left_count blk pool mg = Inr (txs, n, pool', mg')
    \<and> int (length txs) \<le> left_count \<and> n = int (length (Queue pool'))
    \<and> subseq txs (Queue pool) \<and> subseq (Queue pool') (Queue pool)
    \<and> mset (Queue pool) = mset txs + mset (Queue pool') + mset D
    \<and> (\<forall>v\<in>set D. in_lock_pool pool' v)
    \<and> (IsMVSS cfg \<and> Not_Lock_Acc_When_Migrating cfg \<longrightarrow> D = [])"
proof -
  let ?cnt = "if int (length (Queue pool)) < left_count then int (length (Queue pool)) else left_count"
  let ?r = "pack_loop cfg g blk ?cnt (with_clock clock (Queue pool)) 0 pool mg"
  obtain txs rest p' mg' where r: "?r = (txs, rest, p', mg')" by (cases ?r) auto
  obtain D where D: "pack_post cfg g mg pool (Queue pool) (txs, rest, p', mg') D"
    using pack_loop_post [of cfg g mg pool "with_clock clock (Queue pool)" blk ?cnt 0] r by auto
  have "int (length txs) \<le> left_count"
    using pack_loop_bound [of cfg g blk ?cnt "with_clock clock (Queue pool)" 0 pool mg] r assms
    by (auto split: if_splits)
  moreover have "in_lock_pool (p'\<lparr> Queue := rest \<rparr>) v = in_lock_pool p' v" for v
    by (simp add: in_lock_pool_def)
  moreover have "FetchTxs2Pack cfg g clock left_count blk pool mg
      = Inr (txs, int (length rest), p'\<lparr> Queue := rest \<rparr>, mg')"
    using r assms by (simp add: FetchTxs2Pack_def Let_def)
  ultimately show ?thesis using D by (auto simp: pack_post_def)
qed

definition tx_of :: "int \<Rightarrow> byte \<Rightarrow> byte \<Rightarrow> int \<Rightarrow> Transaction" where
  "tx_of k a b t = zero_tx\<lparr> TxId := k, Sender := [a], Recipient := [b], RequestTime := t \<rparr>"

theorem FetchTxs2Pack_conserves_witness:
  "\<exists>txs n pool' mg' D. FetchTxs2Pack default_config InitGlobals (\<lambda>_. 0) 1 1
     (AddTx (tx_of 1 5 6 3) NewTxPool) InitMigCtx = Inr (txs, n, pool', mg')
   \<and> mset [tx_of 1 5 6 3] = mset txs + mset (Queue pool') + mset D"
  using FetchTxs2Pack_conserves [of 1 default_config InitGlobals "\<lambda>_. 0" 1
      "AddTx (tx_of 1 5 6 3) NewTxPool" InitMigCtx]
  by (auto simp: AddTx_def NewTxPool_def)

text \<open>
  C13. Stage 3 gating under MVSS: whatever the queue, a packed transaction of a migrating sender is
  never one that the source has paused, never one that arrived after the migration while the target
  still waits for the synchronised state, and a transaction whose sender is not of this shard is
  packed only as a relay or because its context lets the source send it on.
\<close>

theorem packed_respect_stage3:
  assumes "IsMVSS cfg" "FetchTxs2Pack cfg g clock left_count blk pool mg = Inr (txs, n, pool', mg')"
    and "v \<in> set txs"
  shows "(\<forall>ctx. GetMigCtx (from_addr v) mg = Some ctx \<longrightarrow>
      (TargetShard ctx \<noteq> self_shard cfg \<longrightarrow> \<not> IsPaused ctx (TxId v))
      \<and> (TargetShard ctx = self_shard cfg \<and> FSM ctx = FSMWaitSyncIni
          \<longrightarrow> \<not> IsTXNew (Mig1Time ctx) (RequestTime v)))
    \<and> (flag (AccountInOwnShard g) (from_addr v) \<or> IsRelay v \<or> Relay_Lock v
       \<or> (\<exists>ctx. GetMigCtx (from_addr v) mg = Some ctx
            \<and> ShouldSourcePackOutgoing cfg ctx (TxId v) (OrderTimestamp v) (RequestTime v)))"
proof -
  let ?cnt = "if int (length (Queue pool)) < left_count then int (length (Queue pool)) else left_count"
  obtain rest p' where r: "pack_loop cfg g blk ?cnt (with_clock clock (Queue pool)) 0 pool mg
      = (txs, rest, p', mg')"
    using assms(2) by (auto simp: FetchTxs2Pack_def Let_def split: if_splits prod.splits)
  with pack_loop_post [of cfg g mg pool "with_clock clock (Queue pool)" blk ?cnt 0] assms(3)
  have "ownership_gate cfg g mg v" "stage3_gate cfg mg v" by (auto simp: pack_post_def)
  with assms(1) show ?thesis
    by (auto simp: ownership_gate_def stage3_gate_def ShouldBlockNewOnTarget_def Let_def
        split: option.splits if_splits)
qed

definition mvss_config :: ChainConfig where
  "mvss_config = default_config\<lparr> MigrationStrategy := ''MVSS'', Not_Lock_Acc_When_Migrating := True,
     ShardID := ''S0'', Shard_num := 2 \<rparr>"

definition own_globals :: "addr list \<Rightarrow> Globals" where
  "own_globals as = InitGlobals\<lparr> AccountInOwnShard := map_of (map (\<lambda>a. (a, True)) as) \<rparr>"

theorem packed_respect_stage3_witness:
  "\<exists>txs n pool' mg'. FetchTxs2Pack mvss_config (own_globals [''05'']) (\<lambda>_. 0) 5 1
     (AddTx (tx_of 1 5 6 3) NewTxPool) InitMigCtx = Inr (txs, n, pool', mg')
   \<and> (\<forall>v\<in>set txs. flag (AccountInOwnShard (own_globals [''05''])) (from_addr v) \<or> IsRelay v \<or> Relay_Lock v)"
proof -
  let ?f = "FetchTxs2Pack mvss_config (own_globals [''05'']) (\<lambda>_. 0) 5 1
     (AddTx (tx_of 1 5 6 3) NewTxPool) InitMigCtx"
  obtain txs n pool' mg' where f: "?f = Inr (txs, n, pool', mg')"
    using FetchTxs2Pack_total [of 5] by fastforce
  have "IsMVSS mvss_config" by (simp add: mvss_config_def IsMVSS_def)
  from packed_respect_stage3 [OF this f] f show ?thesis
    by (auto simp: GetMigCtx_def InitMigCtx_def)
qed

section \<open>Commit marks\<close>

lemma commit_marks_step:
  assumes "GetMigCtx a mg = Some ctx"
  shows "\<exists>ctx'. GetMigCtx a (mark_packed cfg v mg) = Some ctx' \<and> ctx_core ctx' = ctx_core ctx
    \<and> (\<forall>k. flag (CommittedTx ctx') k \<longleftrightarrow> flag (CommittedTx ctx) k
         \<or> (IsMVSS cfg \<and> TargetShard ctx \<noteq> self_shard cfg \<and> from_addr v = a \<and> TxId v = k))"
  using assms
  by (auto simp: mark_packed_def GetMigCtx_def MarkTxCommitted_def SetMigCtx_def ctx_core_def
      split: option.splits)

lemma pack_loop_marks:
  "GetMigCtx a mg = Some ctx \<Longrightarrow> pack_loop cfg g blk cnt vs n pool mg = (txs, rest, pool', mg') \<Longrightarrow>
   \<exists>ctx'. GetMigCtx a mg' = Some ctx' \<and> ctx_core ctx' = ctx_core ctx
    \<and> (\<forall>k. flag (CommittedTx ctx') k \<longleftrightarrow> flag (CommittedTx ctx) k
         \<or> (IsMVSS cfg \<and> TargetShard ctx \<noteq> self_shard cfg \<and> (\<exists>v\<in>set txs. from_addr v = a \<and> TxId v = k)))"
proof (induction cfg g blk cnt vs n pool mg arbitrary: ctx txs rest pool' mg' rule: pack_loop.induct)
  case (1 cfg g blk cnt n pool mg)
  then show ?case by auto
next
  case (2 cfg g blk cnt now v vs n pool mg)
  obtain d p1 where j: "judge cfg g mg now blk v pool = (d, p1)" by force
  show ?case
  proof (cases "n \<ge> cnt")
    case True
    with "2.prems" obtain rest' where "pack_loop cfg g blk cnt vs n pool mg = (txs, rest', pool', mg')"
      by (auto split: prod.splits)
    from "2.IH"(1) [OF True "2.prems"(1) this] show ?thesis .
  next
    case False
    show ?thesis
    proof (cases d)
      case Stay
      with "2.prems" False j obtain rest' where "pack_loop cfg g blk cnt vs n p1 mg = (txs, rest', pool', mg')"
        by (auto split: prod.splits)
      from "2.IH"(2) [OF False j [symmetric] Stay "2.prems"(1) this] show ?thesis .
    next
      case Diverted
      with "2.prems" False j have "pack_loop cfg g blk cnt vs n p1 mg = (txs, rest, pool', mg')" by simp
      from "2.IH"(3) [OF False j [symmetric] Diverted "2.prems"(1) this] show ?thesis .
    next
      case Packed
      with "2.prems" False j obtain txs' where
        r: "pack_loop cfg g blk cnt vs (n + 1) p1 (mark_packed cfg v mg) = (txs', rest, pool', mg')"
        and txs: "txs = v # txs'" by (auto split: prod.splits)
      from commit_marks_step [OF "2.prems"(1), of cfg v] obtain c1 where
        c1: "GetMigCtx a (mark_packed cfg v mg) = Some c1" "ctx_core c1 = ctx_core ctx"
          "\<And>k. flag (CommittedTx c1) k \<longleftrightarrow> flag (CommittedTx ctx) k
             \<or> (IsMVSS cfg \<and> TargetShard ctx \<noteq> self_shard cfg \<and> from_addr v = a \<and> TxId v = k)"
        by blast
      from "2.IH"(4) [OF False j [symmetric] Packed c1(1) r] c1 txs ctx_core_fields(2) [OF c1(2)]
      show ?thesis by auto
    qed
  qed
qed

text \<open>
  Selecting a transaction counts as committing it: after \<open>FetchTxs2Pack\<close> under MVSS, the
  committed set of a context of an account that leaves this shard has grown by exactly the packed
  transactions of that account, before any consensus on the block; the contexts of accounts that
  come to this shard, and everything else in a context, are untouched.
\<close>

theorem packing_marks_commits:
  assumes "IsMVSS cfg" "GetMigCtx a mg = Some ctx"
    and "FetchTxs2Pack cfg g clock left_count blk pool mg = Inr (txs, n, pool', mg')"
  shows "\<exists>ctx'. GetMigCtx a mg' = Some ctx' \<and> ctx_core ctx' = ctx_core ctx
    \<and> (\<forall>k. flag (CommittedTx ctx') k \<longleftrightarrow> flag (CommittedTx ctx) k
         \<or> (TargetShard ctx \<noteq> self_shard cfg \<and> (\<exists>v\<in>set txs. from_addr v = a \<and> TxId v = k)))"
proof -
  let ?cnt = "if int (length (Queue pool)) < left_count then int (length (Queue pool)) else left_count"
  obtain rest p' where r: "pack_loop cfg g blk ?cnt (with_clock clock (Queue pool)) 0 pool mg
      = (txs, rest, p', mg')"
    using assms(3) by (auto simp: FetchTxs2Pack_def Let_def split: if_splits prod.splits)
  from pack_loop_marks [OF assms(2) r] assms(1) show ?thesis by simp
qed

theorem packing_marks_commits_witness:
  "\<exists>ctx'. GetMigCtx ''05'' (snd (snd (snd (projr (FetchTxs2Pack mvss_config (own_globals [''05'']) (\<lambda>_. 0) 5 1
     (AddTx (tx_of 1 5 6 3) NewTxPool) (SetMigCtx ''05'' ctx0 InitMigCtx)))))) = Some ctx'
   \<and> ctx_core ctx' = ctx_core ctx0"
proof -
  let ?f = "FetchTxs2Pack mvss_config (own_globals [''05'']) (\<lambda>_. 0) 5 1
     (AddTx (tx_of 1 5 6 3) NewTxPool) (SetMigCtx ''05'' ctx0 InitMigCtx)"
  obtain txs n pool' mg' where f: "?f = Inr (txs, n, pool', mg')"
    using FetchTxs2Pack_total [of 5] by fastforce
  have "IsMVSS mvss_config" by (simp add: mvss_config_def IsMVSS_def)
  moreover have "GetMigCtx ''05'' (SetMigCtx ''05'' ctx0 InitMigCtx) = Some ctx0"
    by (simp add: GetMigCtx_def SetMigCtx_def)
  ultimately obtain ctx' where "GetMigCtx ''05'' mg' = Some ctx'" "ctx_core ctx' = ctx_core ctx0"
    using packing_marks_commits [OF _ _ f] by blast
  with f show ?thesis by simp
qed

section \<open>\<open>LockTX\<close>\<close>

lemma lock_step_moves:
  "lock_step cfg g now tx pool = Some p' \<Longrightarrow> pools_grow pool p' \<and> in_lock_pool p' tx"
  unfolding lock_step_def
  by (auto simp: pools_grow_def split: if_split_asm
      intro: in_lock_poolI [where a = "from_addr tx" and v' = "lock_stamp_sender now tx"]
        in_lock_poolI [where a = "to_addr tx" and v' = "lock_stamp_receiver now tx"]
        in_lock_poolI [where a = "from_addr tx" and v' = "stamp_lock now tx"])

definition must_lock :: "ChainConfig \<Rightarrow> Globals \<Rightarrow> Transaction \<Rightarrow> bool" where
  "must_lock cfg g tx \<longleftrightarrow> \<not> IsRelay tx \<and> \<not> Relay_Lock tx
     \<and> (if Lock_Acc_When_Migrating cfg then flag (Lock_Acc g) (from_addr tx)
        else \<not> Not_Lock_Acc_When_Migrating cfg \<and> flag (Outing_Acc_Before_Announce g) (from_addr tx))"

lemma lock_step_must: "must_lock cfg g tx \<Longrightarrow> lock_step cfg g now tx pool \<noteq> None"
  by (auto simp: must_lock_def lock_step_def)

lemma lock_loop_post:
  "lock_loop cfg g vs pool = (rest, pool') \<Longrightarrow>
   \<exists>D. subseq rest (map snd vs) \<and> subseq D (map snd vs) \<and> mset (map snd vs) = mset rest + mset D
     \<and> pools_grow pool pool' \<and> (\<forall>v\<in>set D. in_lock_pool pool' v) \<and> (\<forall>v\<in>set rest. \<not> must_lock cfg g v)"
proof (induction vs arbitrary: pool rest)
  case Nil
  then show ?case by auto
next
  case (Cons x vs)
  obtain now tx where x: "x = (now, tx)" by force
  show ?case
  proof (cases "lock_step cfg g now tx pool")
    case None
    with Cons.prems x obtain rest' where r: "lock_loop cfg g vs pool = (rest', pool')" "rest = tx # rest'"
      by (auto split: prod.splits)
    from Cons.IH [OF r(1)] r(2) x lock_step_must [of cfg g tx now pool] None show ?thesis
      by (auto 4 3)
  next
    case (Some p1)
    with Cons.prems x have r: "lock_loop cfg g vs p1 = (rest, pool')" by simp
    from Cons.IH [OF r] obtain D where
      D: "subseq rest (map snd vs)" "subseq D (map snd vs)" "mset (map snd vs) = mset rest + mset D"
        "pools_grow p1 pool'" "\<forall>v\<in>set D. in_lock_pool pool' v" "\<forall>v\<in>set rest. \<not> must_lock cfg g v" by blast
    with lock_step_moves [OF Some] x have "in_lock_pool pool' tx" "pools_grow pool pool'"
      by (auto intro: pools_grow_trans in_lock_pool_grow)
    with D x show ?thesis by (intro exI [of _ "tx # D"]) auto
  qed
qed

text \<open>
  \<open>LockTX\<close> moves transactions and loses none: the old queue is the new queue and the locked
  transactions, each once; the queue keeps its order; each locked transaction waits in the pool of
  its sender or receiver; and in the full-lock and half-lock modes no original transaction of a locked
  sender is left in the queue.
\<close>

theorem LockTX_conserves:
  "\<exists>D. subseq (Queue (LockTX cfg g clock pool)) (Queue pool)
    \<and> mset (Queue pool) = mset (Queue (LockTX cfg g clock pool)) + mset D
    \<and> (\<forall>v\<in>set D. in_lock_pool (LockTX cfg g clock pool) v)
    \<and> (\<forall>v\<in>set (Queue (LockTX cfg g clock pool)). \<not> must_lock cfg g v)"
proof -
  obtain rest p' where r: "lock_loop cfg g (with_clock clock (Queue pool)) pool = (rest, p')" by force
  have "in_lock_pool (p'\<lparr> Queue := rest \<rparr>) v = in_lock_pool p' v" for v
    by (simp add: in_lock_pool_def)
  with lock_loop_post [OF r] r show ?thesis by (auto simp: LockTX_def)
qed

theorem LockTX_conserves_witness:
  "let cfg = default_config\<lparr> Lock_Acc_When_Migrating := True \<rparr>;
       pool' = LockTX cfg (InitGlobals\<lparr> Lock_Acc := (\<lambda>_. Some True) \<rparr>) (\<lambda>_. 9) (AddTx (tx_of 1 5 6 3) NewTxPool)
   in Queue pool' = [] \<and> in_lock_pool pool' (tx_of 1 5 6 3)"
proof -
  let ?cfg = "default_config\<lparr> Lock_Acc_When_Migrating := True \<rparr>" and ?tx = "tx_of 1 5 6 3"
  let ?g = "InitGlobals\<lparr> Lock_Acc := (\<lambda>_. Some True) \<rparr>"
  let ?pool = "LockTX ?cfg ?g (\<lambda>_. 9) (AddTx ?tx NewTxPool)"
  have "must_lock ?cfg ?g ?tx" by (simp add: must_lock_def tx_of_def zero_tx_def flag_def)
  moreover have "Queue (AddTx ?tx NewTxPool) = [?tx]" by (simp add: AddTx_def NewTxPool_def)
  ultimately obtain D where D: "subseq (Queue ?pool) [?tx]" "mset [?tx] = mset (Queue ?pool) + mset D"
    "\<forall>v\<in>set D. in_lock_pool ?pool v" "?tx \<notin> set (Queue ?pool)"
    using LockTX_conserves [of ?cfg ?g "\<lambda>_. 9" "AddTx ?tx NewTxPool"] by metis
  from D(1,4) have "Queue ?pool = []" by (cases "Queue ?pool") (auto split: if_splits)
  moreover from this D(2) have "?tx \<in> set D" by (metis empty_neutral(1) list.set_intros(1) mset.simps(1) set_mset_mset)
  ultimately show ?thesis using D(3) by (simp add: Let_def)
qed

end
