(* ===== verification/Chain.thy ===== *)
theory Chain
  imports Packing
begin

text \<open>
  \<open>chain/blockchain.go\<close>: the execution of a block on the state tree, block generation and
  acceptance, and the direct writes of Stage 3. The go-ethereum trie and its database are not part
  of the repository: the state tree is the map from address bytes to account states that it
  stores, and \<open>root\<close>, a parameter, is its hash. \<open>gob\<close> encodes a state and reads it back, so the tree
  holds decoded states. The tree of \<open>CurrentBlock.Header.StateRoot\<close> is the field \<open>StateTree\<close>.
\<close>

section \<open>State\<close>

type_synonym state_tree = "bytes \<rightharpoonup> AccountState"
type_synonym balances = "addr \<rightharpoonup> int"

record Node =
  Acc :: Globals
  Mig :: MigGlobals
  CurrentBlock :: Block
  StateTree :: state_tree
  Pool :: Tx_pool
  Pools :: MigPools

definition addr_bytes :: "addr \<Rightarrow> bytes" where
  "addr_bytes a = fst (hex_decode a)"

text \<open>\<open>enc := st.Get(a); if enc == nil \<rbrace> log.Panic() \<lbrace>\<close>\<close>

definition get_state :: "bytes \<Rightarrow> state_tree \<Rightarrow> AccountState res" where
  "get_state a st = (case st a of None \<Rightarrow> Inl log_panic | Some s \<Rightarrow> Inr s)"

section \<open>Execution of a block: \<open>getUpdatedTreeOfState\<close>\<close>

text \<open>The incoming accounts.\<close>

definition mvss_mig2_state :: "ChainConfig \<Rightarrow> TXmig2 \<Rightarrow> AccountState \<Rightarrow> MigGlobals \<Rightarrow> AccountState \<times> MigGlobals" where
  "mvss_mig2_state cfg v s mg =
     (let cn = (\<lambda>s. case mig2_Txmig1 v of None \<Rightarrow> s | Some m1 \<Rightarrow> s\<lparr> Nonce := mig1_LastCN m1 \<rparr>) in
      if \<not> IsMVSS cfg then (s, mg)
      else if IsMVSSDelta cfg then (cn s, mg)
      else case TakeMigPendingState (mig2_Address v) mg of
          (None, mg') \<Rightarrow> (cn s, mg')
        | (Some p, mg') \<Rightarrow> (cn (s\<lparr> Nonce := Nonce p, Balance := Balance p \<rparr>), mg'))"

definition exec_mig2 :: "ChainConfig \<Rightarrow> TXmig2 \<Rightarrow> state_tree \<times> MigGlobals \<Rightarrow> (state_tree \<times> MigGlobals) res" where
  "exec_mig2 cfg v st = (case st of (tree, mg) \<Rightarrow>
     bind_res (get_state (addr_bytes (mig2_Address v)) tree) (\<lambda>s.
       case mig2_Value v of
         None \<Rightarrow> Inl nil_panic
       | Some value \<Rightarrow>
           (let s1 = s\<lparr> Balance := value, Migrate := - 1, Location := self_shard cfg \<rparr>;
                (s2, mg') = mvss_mig2_state cfg v s1 mg
            in Inr (tree(addr_bytes (mig2_Address v) \<mapsto> s2), mg'))))"

text \<open>Whether the sender part of a transaction runs: relays only when redirected to this shard.\<close>

definition runSender :: "ChainConfig \<Rightarrow> MigGlobals \<Rightarrow> Transaction \<Rightarrow> bool" where
  "runSender cfg mg tx =
     (if IsMVSS cfg \<and> Tag tx \<noteq> []
         \<and> (case GetMigCtx (from_addr tx) mg of None \<Rightarrow> False | Some ctx \<Rightarrow> TargetShard ctx = self_shard cfg)
      then True else \<not> IsRelay tx \<and> \<not> Relay_Lock tx)"

definition set_PendingSyncAck :: "ChainConfig \<Rightarrow> Transaction \<Rightarrow> MigGlobals \<Rightarrow> MigGlobals" where
  "set_PendingSyncAck cfg tx mg =
     (case GetMigCtx (from_addr tx) mg of
        None \<Rightarrow> mg
      | Some ctx \<Rightarrow>
          if TargetShard ctx = self_shard cfg \<and> IsTXNew (Mig1Time ctx) (RequestTime tx)
          then SetMigCtx (from_addr tx) (ctx\<lparr> PendingSyncAck := True \<rparr>) mg else mg)"

text \<open>\<open>None\<close> in the result means that the transaction is skipped.\<close>

definition exec_sender :: "ChainConfig \<Rightarrow> Transaction \<Rightarrow> state_tree \<times> MigGlobals \<Rightarrow> (state_tree \<times> MigGlobals) option res" where
  "exec_sender cfg tx st = (case st of (tree, mg) \<Rightarrow>
     if \<not> runSender cfg mg tx then Inr (Some (tree, mg))
     else bind_res (get_state (Sender tx) tree) (\<lambda>s.
       if IsMVSS cfg then
         (if TxNonce tx \<noteq> Nonce s then Inr None
          else Inr (Some (tree(Sender tx \<mapsto> s\<lparr> Nonce := Nonce s + 1, Balance := Balance s - TxValue tx \<rparr>),
                 set_PendingSyncAck cfg tx mg)))
       else Inr (Some (tree(Sender tx \<mapsto> s\<lparr> Balance := Balance s - TxValue tx \<rparr>), mg))))"

text \<open>The receiver part; the flag tells whether \<open>HalfLock\<close> is set on the transaction.\<close>

definition exec_receiver :: "ChainConfig \<Rightarrow> bool \<Rightarrow> Transaction \<Rightarrow> state_tree \<Rightarrow> (state_tree \<times> bool) res" where
  "exec_receiver cfg commit tx tree =
     bind_res (get_state (Recipient tx) tree) (\<lambda>s.
       if Location s \<noteq> self_shard cfg then Inr (tree, False)
       else if Migrate s \<noteq> - 1 \<and> Lock_Acc_When_Migrating cfg then Inr (tree, False)
       else Inr (tree(Recipient tx \<mapsto> s\<lparr> Balance := Balance s + TxValue tx \<rparr>), commit \<and> Migrate s \<noteq> - 1))"

record exec_state =
  ex_tree :: state_tree
  ex_mig :: MigGlobals
  ex_done :: "Transaction list"
  ex_out :: balances

definition exec_tx :: "ChainConfig \<Rightarrow> bool \<Rightarrow> Transaction \<Rightarrow> exec_state \<Rightarrow> exec_state res" where
  "exec_tx cfg commit tx es =
     bind_res (exec_sender cfg tx (ex_tree es, ex_mig es)) (\<lambda>r.
       case r of
         None \<Rightarrow> Inr (es\<lparr> ex_done := ex_done es @ [tx] \<rparr>)
       | Some (tree, mg) \<Rightarrow>
           bind_res (exec_receiver cfg commit tx tree) (\<lambda>(tree', half).
             Inr (es\<lparr> ex_tree := tree', ex_mig := mg,
               ex_done := ex_done es @ [if half then tx\<lparr> HalfLock := True \<rparr> else tx] \<rparr>)))"

definition exec_mig1 :: "TXmig1 \<Rightarrow> exec_state \<Rightarrow> exec_state res" where
  "exec_mig1 v es =
     bind_res (get_state (addr_bytes (mig1_Address v)) (ex_tree es)) (\<lambda>s.
       Inr (es\<lparr> ex_tree := (ex_tree es)(addr_bytes (mig1_Address v) \<mapsto> s\<lparr> Migrate := mig1_ToshardID v \<rparr>),
         ex_out := (ex_out es)(mig1_Address v \<mapsto> Balance s) \<rparr>))"

definition exec_ann :: "TXann \<Rightarrow> exec_state \<Rightarrow> exec_state res" where
  "exec_ann v es =
     bind_res (get_state (addr_bytes (ann_Address v)) (ex_tree es)) (\<lambda>s.
       Inr (es\<lparr> ex_tree := (ex_tree es)(addr_bytes (ann_Address v) \<mapsto>
         s\<lparr> Migrate := - 1, Location := ann_ToshardID v \<rparr>) \<rparr>))"

definition exec_ns :: "TXns \<Rightarrow> exec_state \<Rightarrow> exec_state res" where
  "exec_ns v es =
     bind_res (get_state (addr_bytes (ns_Address v)) (ex_tree es)) (\<lambda>s.
       Inr (es\<lparr> ex_tree := (ex_tree es)(addr_bytes (ns_Address v) \<mapsto>
         s\<lparr> Balance := Balance s + ns_Change v \<rparr>) \<rparr>))"

definition getUpdatedTreeOfState :: "ChainConfig \<Rightarrow> bool \<Rightarrow> state_tree \<Rightarrow> MigGlobals \<Rightarrow> Transaction list
    \<Rightarrow> TXmig1 list \<Rightarrow> TXmig2 list \<Rightarrow> TXann list \<Rightarrow> TXns list \<Rightarrow> exec_state res" where
  "getUpdatedTreeOfState cfg commit tree mg txs mig1s mig2s anns nss =
     bind_res (if Stop_When_Migrating cfg then Inr (tree, mg) else fold_res (exec_mig2 cfg) mig2s (tree, mg))
       (\<lambda>(tree1, mg1).
     bind_res (fold_res (exec_tx cfg commit) txs
         \<lparr> ex_tree = tree1, ex_mig = mg1, ex_done = [], ex_out = Map.empty \<rparr>) (\<lambda>es.
     if Stop_When_Migrating cfg then Inr es
     else bind_res (fold_res exec_mig1 mig1s es) (\<lambda>es1.
       bind_res (fold_res exec_ann anns es1) (\<lambda>es2.
       fold_res exec_ns nss es2))))"

section \<open>Direct writes of Stage 3\<close>

definition GetAccountNonce :: "addr \<Rightarrow> Node \<Rightarrow> u64 option" where
  "GetAccountNonce a n =
     (case hex_decode a of (b, ok) \<Rightarrow>
        if \<not> ok then None else map_option Nonce (StateTree n b))"

definition GetAccountState :: "addr \<Rightarrow> Node \<Rightarrow> AccountState option" where
  "GetAccountState a n =
     (case hex_decode a of (b, ok) \<Rightarrow> if \<not> ok then None else StateTree n b)"

text \<open>A committed tree becomes the tree of the current block, whose header gets its root.\<close>

definition commit_tree :: "(state_tree \<Rightarrow> bytes) \<Rightarrow> state_tree \<Rightarrow> Node \<Rightarrow> Node" where
  "commit_tree root tree n = n\<lparr> StateTree := tree,
     CurrentBlock := (CurrentBlock n)\<lparr> Header := (Header (CurrentBlock n))\<lparr> StateRoot := root tree \<rparr> \<rparr> \<rparr>"

definition ApplyMVSSAccountDelta :: "(state_tree \<Rightarrow> bytes) \<Rightarrow> addr \<Rightarrow> int option \<Rightarrow> int \<Rightarrow> Node \<Rightarrow> bool \<times> Node" where
  "ApplyMVSSAccountDelta root a deltaBalance deltaNonce n =
     (let db = (case deltaBalance of None \<Rightarrow> 0 | Some b \<Rightarrow> b) in
      if deltaNonce < 0 then (False, n)
      else case hex_decode a of (b, ok) \<Rightarrow>
        if \<not> ok then (False, n)
        else case StateTree n b of
            None \<Rightarrow> (False, n)
          | Some s \<Rightarrow>
              if Balance s + db < 0 then (False, n)
              else (True, commit_tree root ((StateTree n)(b \<mapsto>
                s\<lparr> Balance := Balance s + db, Nonce := Nonce s + of_int deltaNonce \<rparr>)) n))"

definition ApplyMVSSAccountState :: "(state_tree \<Rightarrow> bytes) \<Rightarrow> addr \<Rightarrow> AccountState option \<Rightarrow> Node \<Rightarrow> Node res" where
  "ApplyMVSSAccountState root a st n =
     (case st of
        None \<Rightarrow> Inr n
      | Some s \<Rightarrow> (case hex_decode a of (b, ok) \<Rightarrow>
          if \<not> ok then Inl log_panic else Inr (commit_tree root ((StateTree n)(b \<mapsto> s)) n)))"

section \<open>Blocks\<close>

text \<open>Hash functions of the code that is outside: the state root, the two transaction roots and the header hash.\<close>

record hashes =
  root :: "state_tree \<Rightarrow> bytes"
  tx_root :: "Transaction list \<Rightarrow> bytes"
  mig_root :: "mig_batch \<Rightarrow> bytes"
  header_hash :: "BlockHeader \<Rightarrow> bytes"

definition special_addr :: addr where
  "special_addr = ''489338d5e8d42e8c923d1f47361d979503d4ad68''"

text \<open>The transactions of the new block; the experiments with one account restrict them.\<close>

definition fetch_block_txs :: "ChainConfig \<Rightarrow> (nat \<Rightarrow> int) \<Rightarrow> int \<Rightarrow> mig_batch \<Rightarrow> Node
    \<Rightarrow> (Transaction list \<times> int \<times> Tx_pool \<times> MigGlobals) res" where
  "fetch_block_txs cfg clock blk batch n =
     (let number = Number (Header (CurrentBlock n)) + 1;
          fetch = (\<lambda>left. FetchTxs2Pack cfg (Acc n) clock left number (Pool n) (Mig n));
          none = Inr ([], 0, Pool n, Mig n)
      in if Cross_Chain cfg \<and> blk \<noteq> 1 then
           (if ShardID cfg = ''S0'' \<and> (Fail cfg \<or> (\<not> Fail cfg \<and> \<not> Lock_Acc_When_Migrating cfg))
            then fetch (MaxBlockSize cfg)
            else if Lock_Acc_When_Migrating cfg \<and> ShardID cfg = ''S1'' \<and> \<not> Fail cfg then
              (if flag (AccountInOwnShard (Acc n)) special_addr then fetch (MaxBlockSize cfg) else none)
            else none)
         else if (\<not> Bu_Tong_Bi_Li cfg \<and> \<not> Bu_Tong_Shi_Jian cfg \<and> \<not> Fail cfg \<and> \<not> Cross_Chain cfg) \<or> blk \<noteq> 1
         then (case batch of (m1, m2, as, ns) \<Rightarrow>
           fetch (MaxBlockSize cfg - int (length m1) - int (length m2) - int (length as) - int (length ns)))
         else none)"

definition GenerateBlock :: "hashes \<Rightarrow> ChainConfig \<Rightarrow> (nat \<Rightarrow> int) \<Rightarrow> u64 \<Rightarrow> int \<Rightarrow> Node \<Rightarrow> (Block \<times> Node) res" where
  "GenerateBlock H cfg clock now blk n =
     bind_res (gather_migrations cfg blk (Pools n)) (\<lambda>(batch, pools').
     bind_res (fetch_block_txs cfg clock blk batch n) (\<lambda>(txs, queueLen, pool', mg').
       case batch of (m1, m2, as, ns) \<Rightarrow>
       bind_res (getUpdatedTreeOfState cfg False (StateTree n) mg' txs m1 m2 as ns) (\<lambda>es.
         let header = \<lparr> ParentHash = BlockHash (CurrentBlock n), StateRoot = root H (ex_tree es),
               TxRoot = tx_root H txs, MigHash = mig_root H batch,
               Number = Number (Header (CurrentBlock n)) + 1, Time = now \<rparr>;
             block = (NewBlock header txs m1 m2 as ns)\<lparr> BlockHash := header_hash H header \<rparr>
         in Inr (block, n\<lparr> Pool := pool', Pools := pools', Mig := ex_mig es \<rparr>))))"

definition map_incoming :: "ChainConfig \<Rightarrow> TXmig2 list \<Rightarrow> Globals \<Rightarrow> Globals" where
  "map_incoming cfg mig2s g = fold (\<lambda>v g. g\<lparr>
     Account2Shard := (Account2Shard g)(mig2_Address v \<mapsto> self_shard cfg),
     AccountInOwnShard := (AccountInOwnShard g)(mig2_Address v \<mapsto> True) \<rparr>) mig2s g"

definition unmap_announced :: "ChainConfig \<Rightarrow> TXann list \<Rightarrow> Globals \<Rightarrow> Globals" where
  "unmap_announced cfg anns g = fold (\<lambda>v g.
     (let g1 = g\<lparr> Account2Shard := (Account2Shard g)(ann_Address v \<mapsto> ann_ToshardID v),
                   AccountInOwnShard := (AccountInOwnShard g)(ann_Address v := None) \<rparr> in
      if Lock_Acc_When_Migrating cfg then g1\<lparr> Lock_Acc := (Lock_Acc g1)(ann_Address v := None) \<rparr> else g1)) anns g"

text \<open>The writes to the account sets after execution; the leader \<open>N0\<close> does them elsewhere.\<close>

definition lock_leaving :: "ChainConfig \<Rightarrow> Block \<Rightarrow> Globals \<Rightarrow> Globals" where
  "lock_leaving cfg b g =
     (let follower = (NodeID cfg \<noteq> ''N0'');
          g1 = (if \<not> Stop_When_Migrating cfg \<and> follower then unmap_announced cfg (Anns b) g else g);
          g2 = (if Lock_Acc_When_Migrating cfg \<and> follower
                then fold (\<lambda>v g. g\<lparr> Lock_Acc := (Lock_Acc g)(mig1_Address v \<mapsto> True) \<rparr>) (TXmig1s b) g1 else g1);
          g3 = (if Not_Lock_Acc_When_Migrating cfg \<and> follower
                then fold (\<lambda>v g. g\<lparr> Not_Lock_Acc := (Not_Lock_Acc g)(mig1_Address v \<mapsto> True) \<rparr>) (TXmig1s b) g2 else g2)
      in if Fail cfg \<and> Fail_Time cfg + 1 = Number (Header b) \<and> Lock_Acc_When_Migrating cfg
         then g3\<lparr> Lock_Acc := (Lock_Acc g3)(special_addr \<mapsto> False) \<rparr> else g3)"

text \<open>The state root is checked against the header; a mismatch panics.\<close>

definition AddBlock :: "hashes \<Rightarrow> ChainConfig \<Rightarrow> Block \<Rightarrow> Node \<Rightarrow> (balances \<times> Node) res" where
  "AddBlock H cfg b n =
     (let g1 = (if \<not> Stop_When_Migrating cfg then map_incoming cfg (TXmig2s b) (Acc n) else Acc n) in
      bind_res (getUpdatedTreeOfState cfg True (StateTree n) (Mig n) (Transactions b) (TXmig1s b)
          (TXmig2s b) (Anns b) (NSs b)) (\<lambda>es.
        if StateRoot (Header b) \<noteq> root H (ex_tree es) then Inl log_panic
        else Inr (ex_out es, n\<lparr> Acc := lock_leaving cfg b g1, Mig := ex_mig es,
          StateTree := ex_tree es, CurrentBlock := b\<lparr> Transactions := ex_done es \<rparr> \<rparr>)))"

section \<open>Genesis\<close>

definition genesis_account :: "ChainConfig \<Rightarrow> int \<Rightarrow> addr \<Rightarrow> state_tree \<Rightarrow> state_tree res" where
  "genesis_account cfg init a tree =
     bind_res (utils_Addr2Shard cfg a) (\<lambda>s.
       Inr (tree(addr_bytes a \<mapsto> \<lparr> Nonce = 0, Balance = init, Migrate = - 1, Location = s \<rparr>)))"

definition genesisStateTree :: "ChainConfig \<Rightarrow> int \<Rightarrow> addr list \<Rightarrow> state_tree res" where
  "genesisStateTree cfg init addrs = fold_res (genesis_account cfg init) addrs Map.empty"

end
