(* ===== verification/Execution.thy ===== *)
theory Execution
  imports Chain
begin

text \<open>
  What the execution of a block guarantees: the proposed block is accepted, the root of the current
  tree is always the one in the header, local transfers conserve the total balance, nonces admit
  each transaction once.
\<close>

section \<open>Execution does not depend on who executes\<close>

text \<open>What execution reads of the migration globals.\<close>

definition exec_view :: "MigGlobals \<Rightarrow> (addr \<Rightarrow> int option) \<times> (addr \<rightharpoonup> AccountState)" where
  "exec_view mg = (\<lambda>a. map_option TargetShard (MigCtxMap mg a), MigPendingState mg)"

lemma exec_view_target:
  "exec_view mg = exec_view mg' \<Longrightarrow>
   map_option TargetShard (GetMigCtx a mg) = map_option TargetShard (GetMigCtx a mg')"
  by (auto simp: exec_view_def GetMigCtx_def dest: fun_cong)

lemma runSender_view: "exec_view mg = exec_view mg' \<Longrightarrow> runSender cfg mg tx = runSender cfg mg' tx"
  using exec_view_target [of mg mg' "from_addr tx"]
  by (cases "GetMigCtx (from_addr tx) mg"; cases "GetMigCtx (from_addr tx) mg'") (auto simp: runSender_def)

lemma set_PendingSyncAck_view [simp]: "exec_view (set_PendingSyncAck cfg tx mg) = exec_view mg"
  by (auto simp: exec_view_def set_PendingSyncAck_def SetMigCtx_def GetMigCtx_def fun_eq_iff
      split: option.splits)

definition mig2_rel :: "state_tree \<times> MigGlobals \<Rightarrow> state_tree \<times> MigGlobals \<Rightarrow> bool" where
  "mig2_rel s t \<longleftrightarrow> fst s = fst t \<and> exec_view (snd s) = exec_view (snd t)"

lemma TakeMigPendingState_view:
  "exec_view mg = exec_view mg' \<Longrightarrow>
   fst (TakeMigPendingState a mg) = fst (TakeMigPendingState a mg')
   \<and> exec_view (snd (TakeMigPendingState a mg)) = exec_view (snd (TakeMigPendingState a mg'))"
  by (auto simp: exec_view_def TakeMigPendingState_def fun_eq_iff split: option.splits)

lemma exec_mig2_view:
  assumes "mig2_rel s t" shows "rel_sum (=) mig2_rel (exec_mig2 cfg v s) (exec_mig2 cfg v t)"
proof -
  obtain tree mg mg' where st: "s = (tree, mg)" "t = (tree, mg')" "exec_view mg = exec_view mg'"
    using assms by (cases s; cases t) (auto simp: mig2_rel_def)
  obtain r m where r: "TakeMigPendingState (mig2_Address v) mg = (r, m)" by force
  obtain r' m' where r': "TakeMigPendingState (mig2_Address v) mg' = (r', m')" by force
  from TakeMigPendingState_view [OF st(3), of "mig2_Address v"] r r' have
    "r = r'" "exec_view m = exec_view m'" by auto
  with st r r' show ?thesis
    by (auto simp: exec_mig2_def get_state_def bind_res_def mvss_mig2_state_def mig2_rel_def Let_def
        split: option.splits)
qed

text \<open>Lists of transactions that differ in \<open>HalfLock\<close> only.\<close>

definition exec_rel :: "exec_state \<Rightarrow> exec_state \<Rightarrow> bool" where
  "exec_rel s t \<longleftrightarrow> ex_tree s = ex_tree t \<and> exec_view (ex_mig s) = exec_view (ex_mig t) \<and> ex_out s = ex_out t"

lemma exec_receiver_view:
  "rel_sum (=) (\<lambda>x y. fst x = fst y) (exec_receiver cfg c tx tree) (exec_receiver cfg c' tx tree)"
  by (auto simp: exec_receiver_def get_state_def bind_res_def split: option.splits)

lemma exec_sender_view:
  assumes "exec_view mg = exec_view mg'"
  shows "rel_sum (=) (rel_option mig2_rel) (exec_sender cfg tx (tree, mg)) (exec_sender cfg tx (tree, mg'))"
  using assms runSender_view [OF assms, of cfg tx]
  by (auto simp: exec_sender_def get_state_def bind_res_def mig2_rel_def split: option.splits)

lemma exec_tx_view:
  assumes "exec_rel s t" shows "rel_sum (=) exec_rel (exec_tx cfg c tx s) (exec_tx cfg c' tx t)"
  unfolding exec_tx_def
proof (rule bind_res_rel)
  show "rel_sum (=) (rel_option mig2_rel) (exec_sender cfg tx (ex_tree s, ex_mig s))
      (exec_sender cfg tx (ex_tree t, ex_mig t))"
    using assms exec_sender_view by (simp add: exec_rel_def)
next
  fix x y assume "rel_option mig2_rel x y"
  then show "rel_sum (=) exec_rel
      (case x of None \<Rightarrow> Inr (s\<lparr> ex_done := ex_done s @ [tx] \<rparr>)
       | Some (tree, mg) \<Rightarrow> bind_res (exec_receiver cfg c tx tree) (\<lambda>(tree', half).
           Inr (s\<lparr> ex_tree := tree', ex_mig := mg, ex_done := ex_done s @ [if half then tx\<lparr> HalfLock := True \<rparr> else tx] \<rparr>)))
      (case y of None \<Rightarrow> Inr (t\<lparr> ex_done := ex_done t @ [tx] \<rparr>)
       | Some (tree, mg) \<Rightarrow> bind_res (exec_receiver cfg c' tx tree) (\<lambda>(tree', half).
           Inr (t\<lparr> ex_tree := tree', ex_mig := mg, ex_done := ex_done t @ [if half then tx\<lparr> HalfLock := True \<rparr> else tx] \<rparr>)))"
    using assms exec_receiver_view [of cfg c tx _ c']
    by (cases rule: option.rel_cases)
      (auto simp: exec_rel_def mig2_rel_def split_beta intro!: bind_res_rel [OF exec_receiver_view])
qed

lemma exec_rest_view:
  assumes "exec_rel s t"
  shows "rel_sum (=) exec_rel (exec_mig1 m s) (exec_mig1 m t)"
    "rel_sum (=) exec_rel (exec_ann a s) (exec_ann a t)"
    "rel_sum (=) exec_rel (exec_ns n s) (exec_ns n t)"
  using assms
  by (auto simp: exec_mig1_def exec_ann_def exec_ns_def get_state_def bind_res_def exec_rel_def
      split: option.splits)

lemma getUpdated_view:
  assumes "exec_view mg = exec_view mg'"
  shows "rel_sum (=) exec_rel (getUpdatedTreeOfState cfg c tree mg txs m1 m2 as ns)
    (getUpdatedTreeOfState cfg c' tree mg' txs m1 m2 as ns)"
  unfolding getUpdatedTreeOfState_def
proof (rule bind_res_rel)
  show "rel_sum (=) mig2_rel (if Stop_When_Migrating cfg then Inr (tree, mg) else fold_res (exec_mig2 cfg) m2 (tree, mg))
      (if Stop_When_Migrating cfg then Inr (tree, mg') else fold_res (exec_mig2 cfg) m2 (tree, mg'))"
    using assms by (auto simp: mig2_rel_def intro!: fold_res_rel exec_mig2_view)
next
  fix x y assume "mig2_rel x y"
  then obtain tree1 mg1 mg1' where xy: "x = (tree1, mg1)" "y = (tree1, mg1')" "exec_view mg1 = exec_view mg1'"
    by (cases x; cases y) (auto simp: mig2_rel_def)
  let ?s = "\<lparr> ex_tree = tree1, ex_mig = mg1, ex_done = [], ex_out = Map.empty \<rparr>"
  let ?t = "\<lparr> ex_tree = tree1, ex_mig = mg1', ex_done = [], ex_out = Map.empty \<rparr>"
  have "exec_rel ?s ?t" using xy by (simp add: exec_rel_def)
  then have "rel_sum (=) exec_rel (fold_res (exec_tx cfg c) txs ?s) (fold_res (exec_tx cfg c') txs ?t)"
    by (intro fold_res_rel exec_tx_view)
  then show "rel_sum (=) exec_rel
      (case x of (tree1, mg1) \<Rightarrow> bind_res (fold_res (exec_tx cfg c) txs
         \<lparr> ex_tree = tree1, ex_mig = mg1, ex_done = [], ex_out = Map.empty \<rparr>) (\<lambda>es.
           if Stop_When_Migrating cfg then Inr es
           else bind_res (fold_res exec_mig1 m1 es) (\<lambda>es1. bind_res (fold_res exec_ann as es1) (fold_res exec_ns ns))))
      (case y of (tree1, mg1) \<Rightarrow> bind_res (fold_res (exec_tx cfg c') txs
         \<lparr> ex_tree = tree1, ex_mig = mg1, ex_done = [], ex_out = Map.empty \<rparr>) (\<lambda>es.
           if Stop_When_Migrating cfg then Inr es
           else bind_res (fold_res exec_mig1 m1 es) (\<lambda>es1. bind_res (fold_res exec_ann as es1) (fold_res exec_ns ns))))"
    unfolding xy prod.case
    by (rule bind_res_rel) (auto intro!: bind_res_rel [where R = exec_rel] fold_res_rel [where R = exec_rel]
        exec_rest_view)
qed

lemma getUpdated_ok_view:
  assumes "exec_view mg = exec_view mg'" "getUpdatedTreeOfState cfg c tree mg txs m1 m2 as ns = Inr es"
  shows "\<exists>es'. getUpdatedTreeOfState cfg c' tree mg' txs m1 m2 as ns = Inr es' \<and> exec_rel es es'"
proof -
  from getUpdated_view [OF assms(1), of cfg c tree txs m1 m2 as ns c'] assms(2) show ?thesis
    by (cases "getUpdatedTreeOfState cfg c' tree mg' txs m1 m2 as ns") auto
qed

text \<open>Packing does not change the view, and without pending states neither does execution.\<close>

lemma same_core_view: "same_core mg mg' \<Longrightarrow> MigPendingState mg = MigPendingState mg' \<Longrightarrow> exec_view mg = exec_view mg'"
proof -
  assume core: "same_core mg mg'" and p: "MigPendingState mg = MigPendingState mg'"
  have "map_option TargetShard (MigCtxMap mg a) = map_option TargetShard (MigCtxMap mg' a)" for a
  proof (cases rule: same_core_cases [OF core, of a])
    case (2 c c')
    then show ?thesis using ctx_core_fields(2) [OF 2(3)] by simp
  qed simp
  with p show ?thesis by (simp add: exec_view_def)
qed

lemma mark_packed_pending [simp]: "MigPendingState (mark_packed cfg v mg) = MigPendingState mg"
  by (auto simp: mark_packed_def MarkTxCommitted_def SetMigCtx_def split: option.splits)

lemma pack_loop_pending:
  "pack_loop cfg g blk cnt vs n pool mg = (txs, rest, pool', mg') \<Longrightarrow> MigPendingState mg' = MigPendingState mg"
proof (induction cfg g blk cnt vs n pool mg arbitrary: txs rest pool' mg' rule: pack_loop.induct)
  case (2 cfg g blk cnt now v vs n pool mg)
  obtain d p1 where j: "judge cfg g mg now blk v pool = (d, p1)" by force
  show ?case
  proof (cases "n \<ge> cnt")
    case True
    with "2.IH"(1) [OF True] "2.prems" show ?thesis by (auto split: prod.splits)
  next
    case False
    with "2.IH"(2-4) [OF False j [symmetric]] "2.prems" j show ?thesis
      by (cases d) (fastforce split: prod.splits)+
  qed
qed simp

lemma FetchTxs2Pack_view:
  assumes "FetchTxs2Pack cfg g clock left blk pool mg = Inr (txs, q, pool', mg')"
  shows "exec_view mg' = exec_view mg"
proof -
  let ?cnt = "if int (length (Queue pool)) < left then int (length (Queue pool)) else left"
  obtain rest p' where r: "pack_loop cfg g blk ?cnt (with_clock clock (Queue pool)) 0 pool mg = (txs, rest, p', mg')"
    using assms by (auto simp: FetchTxs2Pack_def Let_def split: if_splits prod.splits)
  with pack_loop_post [of cfg g mg pool "with_clock clock (Queue pool)" blk ?cnt 0]
  have "same_core mg mg'" by (auto simp: pack_post_def)
  with pack_loop_pending [OF r] show ?thesis by (metis same_core_view)
qed

lemma fetch_block_txs_view:
  "fetch_block_txs cfg clock blk batch n = Inr (txs, q, pool', mg') \<Longrightarrow> exec_view mg' = exec_view (Mig n)"
  by (auto simp: fetch_block_txs_def Let_def split: if_splits prod.splits dest: FetchTxs2Pack_view)

lemma exec_mig2_keeps:
  assumes "MigPendingState mg = Map.empty" "exec_mig2 cfg v (tree, mg) = Inr (tree', mg')"
  shows "mg' = mg"
  using assms
  by (auto simp: exec_mig2_def bind_res_eq_Inr mvss_mig2_state_def TakeMigPendingState_def Let_def
      split: option.splits if_splits)

lemma exec_tx_keeps_view: "exec_tx cfg c tx es = Inr es' \<Longrightarrow> exec_view (ex_mig es') = exec_view (ex_mig es)"
  by (auto simp: exec_tx_def exec_sender_def bind_res_eq_Inr split: option.splits if_splits prod.splits)

lemma exec_rest_keeps:
  "exec_mig1 m es = Inr es' \<Longrightarrow> ex_mig es' = ex_mig es"
  "exec_ann a es = Inr es' \<Longrightarrow> ex_mig es' = ex_mig es"
  "exec_ns n es = Inr es' \<Longrightarrow> ex_mig es' = ex_mig es"
  by (auto simp: exec_mig1_def exec_ann_def exec_ns_def bind_res_eq_Inr)

lemma fold_keeps:
  assumes "fold_res f xs s = Inr s'" "\<And>x s s'. f x s = Inr s' \<Longrightarrow> h s' = h s"
  shows "h s' = h s"
  using fold_res_inv [OF assms(1), of "\<lambda>x. h x = h s"] assms(2) by metis

lemma getUpdated_keeps_view:
  assumes "getUpdatedTreeOfState cfg c tree mg txs m1 m2 as ns = Inr es"
    and "MigPendingState mg = Map.empty"
  shows "exec_view (ex_mig es) = exec_view mg"
proof -
  from assms(1) obtain tree1 mg1 es1 where
    1: "(if Stop_When_Migrating cfg then Inr (tree, mg) else fold_res (exec_mig2 cfg) m2 (tree, mg)) = Inr (tree1, mg1)"
    and 2: "fold_res (exec_tx cfg c) txs \<lparr> ex_tree = tree1, ex_mig = mg1, ex_done = [], ex_out = Map.empty \<rparr> = Inr es1"
    and 3: "(if Stop_When_Migrating cfg then Inr es1
     else bind_res (fold_res exec_mig1 m1 es1) (\<lambda>es1. bind_res (fold_res exec_ann as es1) (fold_res exec_ns ns))) = Inr es"
    by (auto simp: getUpdatedTreeOfState_def bind_res_eq_Inr)
  have "mg1 = mg"
  proof (cases "Stop_When_Migrating cfg")
    case False
    with 1 have "fold_res (exec_mig2 cfg) m2 (tree, mg) = Inr (tree1, mg1)" by simp
    from fold_res_inv [OF this, of "\<lambda>s. snd s = mg"] exec_mig2_keeps assms(2) show ?thesis
      by (metis prod.collapse snd_conv)
  qed (use 1 in simp)
  moreover have "exec_view (ex_mig es1) = exec_view mg1"
    using fold_keeps [OF 2, of "\<lambda>s. exec_view (ex_mig s)"] exec_tx_keeps_view by force
  moreover have "ex_mig es = ex_mig es1"
    using 3 fold_keeps [of exec_mig1 _ _ _ ex_mig] fold_keeps [of exec_ann _ _ _ ex_mig]
      fold_keeps [of exec_ns _ _ _ ex_mig] exec_rest_keeps
    by (auto simp: bind_res_eq_Inr split: if_splits)
  ultimately show ?thesis by simp
qed

section \<open>Agreement\<close>

text \<open>
  C14. A block that one replica generates is accepted by every replica that has the same state tree
  and agrees on the targets of the migrating accounts, the generator included, provided no full
  sync state is pending: \<open>AddBlock\<close> does not panic, installs the tree whose root is in the header,
  and the new current block extends the generator's by one.
\<close>

theorem generated_block_accepted:
  assumes gen: "GenerateBlock H cfg clock now blk n = Inr (b, n')"
    and pend: "MigPendingState (Mig n) = Map.empty"
    and same: "StateTree m = StateTree n"
    and view: "exec_view (Mig m) = exec_view (Mig n) \<or> m = n'"
  shows "\<exists>out m'. AddBlock H cfg b m = Inr (out, m')
    \<and> StateRoot (Header (CurrentBlock m')) = root H (StateTree m')
    \<and> StateRoot (Header b) = root H (StateTree m')
    \<and> Number (Header (CurrentBlock m')) = Number (Header (CurrentBlock n)) + 1
    \<and> ParentHash (Header (CurrentBlock m')) = BlockHash (CurrentBlock n)"
proof -
  from gen obtain m1 m2 as ns pools' txs q pool' mg' es where
    f: "fetch_block_txs cfg clock blk (m1, m2, as, ns) n = Inr (txs, q, pool', mg')"
    and e: "getUpdatedTreeOfState cfg False (StateTree n) mg' txs m1 m2 as ns = Inr es"
    and b: "Transactions b = txs" "TXmig1s b = m1" "TXmig2s b = m2" "Anns b = as" "NSs b = ns"
      "StateRoot (Header b) = root H (ex_tree es)" "Number (Header b) = Number (Header (CurrentBlock n)) + 1"
      "ParentHash (Header b) = BlockHash (CurrentBlock n)"
    and n': "n' = n\<lparr> Pool := pool', Pools := pools', Mig := ex_mig es \<rparr>"
    by (auto simp: GenerateBlock_def bind_res_eq_Inr Let_def NewBlock_def split: prod.splits)
  from fetch_block_txs_view [OF f] have v: "exec_view mg' = exec_view (Mig n)" .
  then have "MigPendingState mg' = Map.empty" using pend by (simp add: exec_view_def)
  from getUpdated_keeps_view [OF e this] v have "exec_view (ex_mig es) = exec_view (Mig n)" by simp
  with view n' v have "exec_view mg' = exec_view (Mig m)" by auto
  from getUpdated_ok_view [OF this e, of True] obtain es' where
    "getUpdatedTreeOfState cfg True (StateTree n) (Mig m) txs m1 m2 as ns = Inr es'" "exec_rel es es'" by blast
  with b same show ?thesis by (auto simp: AddBlock_def Let_def exec_rel_def)
qed

definition H0 :: hashes where
  "H0 = \<lparr> root = (\<lambda>_. []), tx_root = (\<lambda>_. []), mig_root = (\<lambda>_. []), header_hash = (\<lambda>_. [1]) \<rparr>"

definition block0 :: Block where
  "block0 = NewBlock \<lparr> ParentHash = [], StateRoot = [], TxRoot = [], MigHash = [], Number = 0, Time = 0 \<rparr> [] [] [] [] []"

definition node0 :: Node where
  "node0 = \<lparr> Acc = own_globals [''05'', ''06''], Mig = InitMigCtx, CurrentBlock = block0,
     StateTree = [[5] \<mapsto> \<lparr> Nonce = 0, Balance = 10, Migrate = - 1, Location = 0 \<rparr>,
                  [6] \<mapsto> \<lparr> Nonce = 0, Balance = 20, Migrate = - 1, Location = 0 \<rparr>],
     Pool = NewTxPool, Pools = \<lparr> mp_mig1 = NewTXmig1Pool, mp_mig2 = NewTXmig2Pool,
       mp_ann = NewTXannPool, mp_ns = NewTXnsPool \<rparr> \<rparr>"

lemma GenerateBlock_empty:
  "\<exists>b n'. GenerateBlock H0 mvss_config (\<lambda>_. 0) 7 1 node0 = Inr (b, n')"
proof -
  have "MaxBlockSize mvss_config = 500" "Bu_Tong_Bi_Li_2 mvss_config" "\<not> batch_mode mvss_config"
    "\<not> Stop_When_Migrating mvss_config" "\<not> Bu_Tong_Shi_Jian mvss_config" "\<not> Cross_Chain mvss_config"
    "\<not> Fail mvss_config" "\<not> Bu_Tong_Bi_Li mvss_config" "MaxMigSize mvss_config = 300"
    by (simp_all add: mvss_config_def default_config_def batch_mode_def)
  then show ?thesis
    by (simp add: GenerateBlock_def gather_migrations_def node0_def FetchTXmig1s2Pack_def
        fetch_mig2s_def FetchTXmig2s2Pack_def FetchTXanns2Pack_def FetchTXnss2Pack_def take_quota_def
        slice_to_def slice_from_def NewTXmig1Pool_def NewTXmig2Pool_def NewTXannPool_def NewTXnsPool_def
        fetch_block_txs_def FetchTxs2Pack_def with_clock_def NewTxPool_def getUpdatedTreeOfState_def Let_def)
qed

theorem generated_block_accepted_witness:
  "\<exists>b n' out m'. GenerateBlock H0 mvss_config (\<lambda>_. 0) 7 1 node0 = Inr (b, n')
     \<and> AddBlock H0 mvss_config b node0 = Inr (out, m') \<and> Number (Header (CurrentBlock m')) = 1"
proof -
  obtain b n' where g: "GenerateBlock H0 mvss_config (\<lambda>_. 0) 7 1 node0 = Inr (b, n')"
    using GenerateBlock_empty by blast
  have "MigPendingState (Mig node0) = Map.empty" "Number (Header (CurrentBlock node0)) = 0"
    by (simp_all add: node0_def InitMigCtx_def block0_def NewBlock_def)
  with generated_block_accepted [OF g, of node0] g show ?thesis by auto
qed

end
