(* ===== verification/Ledger.thy ===== *)
theory Ledger
  imports Execution
begin

text \<open>
  Money and nonces: local transfers conserve the total balance of the state tree, MVSS nonces admit
  each transaction once, and what the execution does not check.
\<close>

section \<open>Total balance\<close>

definition total :: "state_tree \<Rightarrow> int" where
  "total tree = (\<Sum>a\<in>dom tree. Balance (the (tree a)))"

lemma total_update:
  assumes "finite (dom tree)" "tree a = Some s"
  shows "total (tree(a \<mapsto> s')) = total tree - Balance s + Balance s'"
proof -
  have d: "dom (tree(a \<mapsto> s')) = dom tree" "a \<in> dom tree" using assms(2) by auto
  have "total tree = Balance s + (\<Sum>b\<in>dom tree - {a}. Balance (the (tree b)))"
    unfolding total_def using assms d(2) by (subst sum.remove [of _ a]) auto
  moreover have "total (tree(a \<mapsto> s')) = Balance s' + (\<Sum>b\<in>dom tree - {a}. Balance (the (tree b)))"
    unfolding total_def d(1) using assms(1) d(2) by (subst sum.remove [of _ a]) (auto intro!: sum.cong)
  ultimately show ?thesis by simp
qed

lemma get_state_eq_Inr: "get_state a tree = Inr s \<longleftrightarrow> tree a = Some s"
  by (auto simp: get_state_def split: option.splits)

text \<open>What a transaction takes from its sender and gives to its receiver.\<close>

definition where_is :: "state_tree \<Rightarrow> bytes \<Rightarrow> (int \<times> int) option" where
  "where_is tree a = map_option (\<lambda>s. (Location s, Migrate s)) (tree a)"

definition credited :: "ChainConfig \<Rightarrow> state_tree \<Rightarrow> Transaction \<Rightarrow> bool" where
  "credited cfg tree tx \<longleftrightarrow> (case where_is tree (Recipient tx) of
      None \<Rightarrow> False
    | Some (loc, mig) \<Rightarrow> loc = self_shard cfg \<and> (mig = - 1 \<or> \<not> Lock_Acc_When_Migrating cfg))"

lemma exec_sender_cases:
  assumes "exec_sender cfg tx (tree, mg) = Inr r"
  obtains (idle) "\<not> runSender cfg mg tx" "r = Some (tree, mg)"
    | (skip) s where "runSender cfg mg tx" "tree (Sender tx) = Some s" "IsMVSS cfg" "TxNonce tx \<noteq> Nonce s" "r = None"
    | (mvss) s where "runSender cfg mg tx" "tree (Sender tx) = Some s" "IsMVSS cfg" "TxNonce tx = Nonce s"
        "r = Some (tree(Sender tx \<mapsto> s\<lparr> Nonce := Nonce s + 1, Balance := Balance s - TxValue tx \<rparr>),
                   set_PendingSyncAck cfg tx mg)"
    | (plain) s where "runSender cfg mg tx" "tree (Sender tx) = Some s" "\<not> IsMVSS cfg"
        "r = Some (tree(Sender tx \<mapsto> s\<lparr> Balance := Balance s - TxValue tx \<rparr>), mg)"
proof (cases "runSender cfg mg tx")
  case False
  with assms idle show thesis by (simp add: exec_sender_def)
next
  case True
  with assms obtain s where s: "tree (Sender tx) = Some s"
    by (auto simp: exec_sender_def bind_res_eq_Inr get_state_eq_Inr)
  show thesis
  proof (cases "IsMVSS cfg")
    case mv: True
    show thesis
    proof (cases "TxNonce tx = Nonce s")
      case True
      with mv s \<open>runSender cfg mg tx\<close> assms mvss show thesis by (simp add: exec_sender_def get_state_def)
    next
      case False
      with mv s \<open>runSender cfg mg tx\<close> assms skip show thesis by (simp add: exec_sender_def get_state_def)
    qed
  next
    case False
    with s True assms plain show thesis by (simp add: exec_sender_def get_state_def)
  qed
qed

lemma exec_receiver_cases:
  assumes "exec_receiver cfg c tx tree = Inr (tree', h)"
  obtains (ignored) "\<not> credited cfg tree tx" "tree' = tree"
    | (paid) s where "credited cfg tree tx" "tree (Recipient tx) = Some s"
        "tree' = tree(Recipient tx \<mapsto> s\<lparr> Balance := Balance s + TxValue tx \<rparr>)"
proof -
  from assms obtain s where s: "tree (Recipient tx) = Some s"
    by (auto simp: exec_receiver_def bind_res_eq_Inr get_state_eq_Inr)
  show thesis
  proof (cases "credited cfg tree tx")
    case True
    with assms s paid show thesis
      by (auto simp: exec_receiver_def get_state_def credited_def where_is_def split: if_splits)
  next
    case False
    with assms s ignored show thesis
      by (auto simp: exec_receiver_def get_state_def credited_def where_is_def split: if_splits)
  qed
qed

lemma where_is_update:
  "tree a = Some s \<Longrightarrow> Location s' = Location s \<Longrightarrow> Migrate s' = Migrate s \<Longrightarrow>
   where_is (tree(a \<mapsto> s')) = where_is tree"
  by (rule ext) (simp add: where_is_def)

lemma exec_sender_balance:
  assumes "exec_sender cfg tx (tree, mg) = Inr (Some (tree', mg'))" "finite (dom tree)"
  shows "finite (dom tree') \<and> where_is tree' = where_is tree
    \<and> total tree' = total tree - (if runSender cfg mg tx then TxValue tx else 0)"
  using assms(1)
proof (cases rule: exec_sender_cases)
  case (mvss s)
  with assms(2) show ?thesis by (simp add: total_update where_is_update)
next
  case (plain s)
  with assms(2) show ?thesis by (simp add: total_update where_is_update)
qed (use assms(2) in simp_all)

lemma exec_receiver_balance:
  assumes "exec_receiver cfg c tx tree = Inr (tree', h)" "finite (dom tree)"
  shows "finite (dom tree') \<and> where_is tree' = where_is tree
    \<and> total tree' = total tree + (if credited cfg tree tx then TxValue tx else 0)"
  using assms(1)
proof (cases rule: exec_receiver_cases)
  case (paid s)
  with assms(2) show ?thesis by (simp add: total_update where_is_update)
qed (use assms(2) in simp)

definition skipped :: "ChainConfig \<Rightarrow> exec_state \<Rightarrow> Transaction \<Rightarrow> bool" where
  "skipped cfg es tx \<longleftrightarrow> exec_sender cfg tx (ex_tree es, ex_mig es) = Inr None"

lemma exec_tx_balance:
  assumes "exec_tx cfg c tx es = Inr es'" "finite (dom (ex_tree es))"
  shows "finite (dom (ex_tree es')) \<and> where_is (ex_tree es') = where_is (ex_tree es)
    \<and> exec_view (ex_mig es') = exec_view (ex_mig es)
    \<and> total (ex_tree es') = total (ex_tree es)
       - (if \<not> skipped cfg es tx \<and> runSender cfg (ex_mig es) tx then TxValue tx else 0)
       + (if \<not> skipped cfg es tx \<and> credited cfg (ex_tree es) tx then TxValue tx else 0)"
proof -
  from assms(1) obtain r where r: "exec_sender cfg tx (ex_tree es, ex_mig es) = Inr r"
    by (auto simp: exec_tx_def bind_res_eq_Inr)
  show ?thesis
  proof (cases r)
    case None
    with r assms show ?thesis by (auto simp: exec_tx_def skipped_def)
  next
    case (Some p)
    then obtain tree mg where p: "r = Some (tree, mg)" by (cases p) auto
    with r assms(1) obtain tree' h where h: "exec_receiver cfg c tx tree = Inr (tree', h)"
      and es': "ex_tree es' = tree'" by (auto simp: exec_tx_def bind_res_eq_Inr)
    note s = exec_sender_balance [OF r [unfolded p] assms(2)]
    have t: "finite (dom tree') \<and> where_is tree' = where_is tree
        \<and> total tree' = total tree + (if credited cfg tree tx then TxValue tx else 0)"
      using exec_receiver_balance [OF h] s by simp
    have "credited cfg tree tx = credited cfg (ex_tree es) tx" by (simp add: credited_def s)
    moreover have "\<not> skipped cfg es tx" using r p by (simp add: skipped_def)
    ultimately show ?thesis using s t es' exec_tx_keeps_view [OF assms(1)] by simp
  qed
qed

lemma dom_where_is: "dom (where_is t) = dom t"
  by (auto simp: where_is_def dom_def)

text \<open>A local transfer: the sender part runs here and the receiver is an account of this shard that takes money.\<close>

definition local_tx :: "ChainConfig \<Rightarrow> state_tree \<Rightarrow> Transaction \<Rightarrow> bool" where
  "local_tx cfg tree tx \<longleftrightarrow> \<not> IsRelay tx \<and> \<not> Relay_Lock tx \<and> credited cfg tree tx"

lemma credited_where: "where_is t = where_is t' \<Longrightarrow> credited cfg t tx = credited cfg t' tx"
  by (simp add: credited_def)

text \<open>
  C4. Local transfers conserve money: a block without migrations whose transactions are all local, to
  receivers of this shard, leaves the sum of all balances unchanged when it executes, whichever of
  its transactions MVSS skips for their nonces. A transaction to another shard takes its value
  from the sum, and a relayed one adds it.
\<close>

theorem local_transfers_conserve:
  assumes "getUpdatedTreeOfState cfg c tree mg txs [] [] [] [] = Inr es"
    and "finite (dom tree)" "\<forall>tx\<in>set txs. local_tx cfg tree tx"
  shows "total (ex_tree es) = total tree \<and> dom (ex_tree es) = dom tree"
proof -
  let ?s = "\<lparr> ex_tree = tree, ex_mig = mg, ex_done = [], ex_out = Map.empty \<rparr>"
  have run: "fold_res (exec_tx cfg c) txs ?s = Inr es"
    using assms(1) by (auto simp: getUpdatedTreeOfState_def bind_res_eq_Inr split: if_splits)
  let ?P = "\<lambda>s. finite (dom (ex_tree s)) \<and> where_is (ex_tree s) = where_is tree \<and> total (ex_tree s) = total tree"
  have "?P es"
  proof (rule fold_res_inv [OF run])
    fix tx s s' assume tx: "tx \<in> set txs" and P: "?P s" and e: "exec_tx cfg c tx s = Inr s'"
    have "local_tx cfg tree tx" using assms(3) tx by blast
    then have "credited cfg (ex_tree s) tx" "runSender cfg (ex_mig s) tx"
      using credited_where [of "ex_tree s" tree cfg tx] P by (auto simp: local_tx_def runSender_def)
    with exec_tx_balance [OF e] P show "?P s'" by auto
  qed (use assms in simp)
  then show ?thesis by (metis dom_where_is)
qed

theorem local_transfers_conserve_witness:
  "\<exists>es. getUpdatedTreeOfState mvss_config True (StateTree node0) InitMigCtx
      [(tx_of 1 5 6 3)\<lparr> TxValue := 4 \<rparr>, (tx_of 2 6 5 3)\<lparr> TxValue := 9 \<rparr>] [] [] [] [] = Inr es
    \<and> total (ex_tree es) = total (StateTree node0)"
proof -
  let ?txs = "[(tx_of 1 5 6 3)\<lparr> TxValue := 4 \<rparr>, (tx_of 2 6 5 3)\<lparr> TxValue := 9 \<rparr>]"
  have s: "self_shard mvss_config = 0" "IsMVSS mvss_config" "\<not> Lock_Acc_When_Migrating mvss_config"
    by (simp_all add: self_shard_def mvss_config_def default_config_def shard_number_def ShardTable_def IsMVSS_def)
  have loc: "\<forall>tx\<in>set ?txs. local_tx mvss_config (StateTree node0) tx"
    using s by (simp add: local_tx_def credited_def where_is_def tx_of_def zero_tx_def node0_def)
  have fin: "finite (dom (StateTree node0))" by (simp add: node0_def)
  have "\<exists>es. getUpdatedTreeOfState mvss_config True (StateTree node0) InitMigCtx ?txs [] [] [] [] = Inr es"
    using s by (simp add: getUpdatedTreeOfState_def exec_tx_def exec_sender_def exec_receiver_def
        get_state_def runSender_def tx_of_def zero_tx_def node0_def)
  then obtain es where "getUpdatedTreeOfState mvss_config True (StateTree node0) InitMigCtx ?txs [] [] [] [] = Inr es" ..
  with local_transfers_conserve [OF this fin loc] show ?thesis by blast
qed

section \<open>Nonces\<close>

text \<open>The specification: a counter that accepts the next number and ignores any other.\<close>

fun accept_nonces :: "u64 \<Rightarrow> u64 list \<Rightarrow> u64" where
  "accept_nonces n [] = n"
| "accept_nonces n (k # ks) = accept_nonces (if k = n then n + 1 else n) ks"

definition nonce_at :: "state_tree \<Rightarrow> bytes \<Rightarrow> u64 option" where
  "nonce_at tree a = map_option Nonce (tree a)"

lemma exec_tx_nonce:
  assumes "IsMVSS cfg" "\<not> IsRelay tx" "\<not> Relay_Lock tx" "exec_tx cfg c tx es = Inr es'"
    and "nonce_at (ex_tree es) a = Some n"
  shows "nonce_at (ex_tree es') a = Some (if Sender tx = a then accept_nonces n [TxNonce tx] else n)"
proof -
  have run: "runSender cfg (ex_mig es) tx" using assms(2,3) by (simp add: runSender_def)
  from assms(4) obtain r where r: "exec_sender cfg tx (ex_tree es, ex_mig es) = Inr r"
    by (auto simp: exec_tx_def bind_res_eq_Inr)
  show ?thesis
  proof (cases r)
    case None
    with assms(4) r have "ex_tree es' = ex_tree es" by (auto simp: exec_tx_def)
    with r None assms(5) show ?thesis
      by (cases rule: exec_sender_cases) (auto simp: nonce_at_def)
  next
    case (Some p)
    then obtain tree mg where p: "r = Some (tree, mg)" by (cases p) auto
    with r assms(4) obtain tree' h where h: "exec_receiver cfg c tx tree = Inr (tree', h)"
      and es': "ex_tree es' = tree'" by (auto simp: exec_tx_def bind_res_eq_Inr)
    have "nonce_at tree a = Some (if Sender tx = a then accept_nonces n [TxNonce tx] else n)"
      using r [unfolded p]
    proof (cases rule: exec_sender_cases)
      case (mvss s)
      with assms(5) show ?thesis by (auto simp: nonce_at_def)
    qed (use assms(1,5) run in simp_all)
    moreover have "nonce_at tree' a = nonce_at tree a"
      using h by (cases rule: exec_receiver_cases) (auto simp: nonce_at_def)
    ultimately show ?thesis using es' by simp
  qed
qed


definition es0 :: exec_state where
  "es0 = \<lparr> ex_tree = StateTree node0, ex_mig = InitMigCtx, ex_done = [], ex_out = Map.empty \<rparr>"


text \<open>
  Execution does not check that the sender can pay: a transaction with the right nonce and a
  value above the sender's balance is executed and leaves the sender with a negative balance.
\<close>

theorem overdraft_executes:
  assumes "\<not> IsRelay tx" "\<not> Relay_Lock tx" "Sender tx \<noteq> Recipient tx"
    and "ex_tree es (Sender tx) = Some s" "Balance s < TxValue tx" "TxNonce tx = Nonce s"
    and "ex_tree es (Recipient tx) = Some r"
  shows "\<exists>es' s'. exec_tx cfg c tx es = Inr es' \<and> ex_tree es' (Sender tx) = Some s'
    \<and> Balance s' = Balance s - TxValue tx \<and> Balance s' < 0"
  using assms
  by (auto simp: exec_tx_def exec_sender_def exec_receiver_def get_state_def runSender_def)

theorem overdraft_executes_witness:
  "\<exists>es' s'. exec_tx mvss_config True ((tx_of 1 5 6 3)\<lparr> TxValue := 40 \<rparr>) es0 = Inr es'
    \<and> ex_tree es' [5] = Some s' \<and> Balance s' = - 30 \<and> Balance s' < 0"
  using overdraft_executes [of "(tx_of 1 5 6 3)\<lparr> TxValue := 40 \<rparr>" es0
      "\<lparr> Nonce = 0, Balance = 10, Migrate = - 1, Location = 0 \<rparr>"
      "\<lparr> Nonce = 0, Balance = 20, Migrate = - 1, Location = 0 \<rparr>" mvss_config True]
  by (simp add: es0_def node0_def tx_of_def zero_tx_def)

end
