(* ===== verification/ChainWrites.thy ===== *)
theory ChainWrites
  imports Ledger
begin

text \<open>
  The writes of Stage 3 outside blocks, the invariant that ties the current block to its tree, the
  genesis state, and the failure of block generation when migrations exceed the block.
\<close>

section \<open>The current tree and its root\<close>

definition root_ok :: "hashes \<Rightarrow> Node \<Rightarrow> bool" where
  "root_ok H n \<longleftrightarrow> StateRoot (Header (CurrentBlock n)) = root H (StateTree n)"

lemma commit_tree_simps [simp]:
  "StateTree (commit_tree r t n) = t" "StateRoot (Header (CurrentBlock (commit_tree r t n))) = r t"
  "Acc (commit_tree r t n) = Acc n" "Mig (commit_tree r t n) = Mig n" "Pool (commit_tree r t n) = Pool n"
  "Pools (commit_tree r t n) = Pools n"
  by (simp_all add: commit_tree_def)

text \<open>
  The root in the header of the current block is always the root of the current state tree:
  generating a block, adding one, and both direct writes of Stage 3 keep this, whether or not they
  succeed in changing an account.
\<close>

theorem root_invariant:
  assumes "root_ok H n"
  shows "(GenerateBlock H cfg clock now blk n = Inr (b, n1) \<longrightarrow> root_ok H n1)
    \<and> (AddBlock H cfg b' n = Inr (out, n2) \<longrightarrow> root_ok H n2)
    \<and> root_ok H (snd (ApplyMVSSAccountDelta (root H) a db dn n))
    \<and> (ApplyMVSSAccountState (root H) a st n = Inr n3 \<longrightarrow> root_ok H n3)"
proof (intro conjI impI)
  show "root_ok H n1" if "GenerateBlock H cfg clock now blk n = Inr (b, n1)"
    using that assms by (auto simp: GenerateBlock_def bind_res_eq_Inr Let_def root_ok_def split: prod.splits)
  show "root_ok H n2" if "AddBlock H cfg b' n = Inr (out, n2)"
    using that by (auto simp: AddBlock_def bind_res_eq_Inr Let_def root_ok_def split: if_splits)
  show "root_ok H (snd (ApplyMVSSAccountDelta (root H) a db dn n))"
    using assms by (auto simp: ApplyMVSSAccountDelta_def Let_def root_ok_def split: prod.splits option.splits)
  show "root_ok H n3" if "ApplyMVSSAccountState (root H) a st n = Inr n3"
    using that assms by (auto simp: ApplyMVSSAccountState_def root_ok_def split: prod.splits option.splits if_splits)
qed

theorem root_invariant_witness:
  "root_ok H0 node0 \<and> root_ok H0 (snd (ApplyMVSSAccountDelta (root H0) ''05'' (Some 3) 1 node0))"
proof -
  have ok: "root_ok H0 node0" by (simp add: root_ok_def H0_def node0_def block0_def NewBlock_def)
  with root_invariant [OF ok, where a = "''05''" and db = "Some 3" and dn = 1] show ?thesis by blast
qed

section \<open>Deltas\<close>

lemma ApplyDelta_eq:
  "ApplyMVSSAccountDelta r a db dn n =
    (case (if 0 \<le> dn \<and> snd (hex_decode a) then StateTree n (addr_bytes a) else None) of
       None \<Rightarrow> (False, n)
     | Some s \<Rightarrow> (let bal = Balance s + (case db of None \<Rightarrow> 0 | Some b \<Rightarrow> b) in
         if bal < 0 then (False, n)
         else (True, commit_tree r ((StateTree n)(addr_bytes a \<mapsto>
           s\<lparr> Balance := bal, Nonce := Nonce s + of_int dn \<rparr>)) n)))"
  by (cases "hex_decode a"; cases "StateTree n (fst (hex_decode a))")
    (simp_all add: ApplyMVSSAccountDelta_def addr_bytes_def Let_def)

text \<open>
  A delta is applied in full or not at all: \<open>ApplyMVSSAccountDelta\<close> succeeds exactly when the nonce
  step is not negative, the address decodes to an account of the tree and the new balance is not
  negative; then that account has the summed balance and the advanced nonce and every other account
  is as before, and otherwise the node is unchanged.
\<close>

theorem delta_all_or_nothing:
  "(fst (ApplyMVSSAccountDelta r a (Some db) dn n) \<longleftrightarrow> 0 \<le> dn \<and> snd (hex_decode a)
      \<and> (\<exists>s. StateTree n (addr_bytes a) = Some s \<and> 0 \<le> Balance s + db))
   \<and> (case ApplyMVSSAccountDelta r a (Some db) dn n of
        (False, n') \<Rightarrow> n' = n
      | (True, n') \<Rightarrow> map_option Balance (StateTree n' (addr_bytes a)) = map_option (\<lambda>s. Balance s + db) (StateTree n (addr_bytes a))
          \<and> map_option Nonce (StateTree n' (addr_bytes a)) = map_option (\<lambda>s. Nonce s + of_int dn) (StateTree n (addr_bytes a))
          \<and> (StateTree n')(addr_bytes a := None) = (StateTree n)(addr_bytes a := None))"
  by (cases "hex_decode a"; cases "StateTree n (fst (hex_decode a))")
    (auto simp: ApplyMVSSAccountDelta_def addr_bytes_def Let_def)

section \<open>Genesis\<close>

text \<open>
  C37. The genesis state holds exactly the configured addresses, each with the initial balance, nonce
  zero, no migration and the number of an existing shard, and building it never fails when every
  address ends in five hexadecimal digits.
\<close>

theorem genesis_accounts:
  assumes "\<forall>a\<in>set addrs. 5 \<le> length a \<and> hex_digits (drop (length a - 5) a)" "0 < Shard_num cfg"
  shows "\<exists>tree. genesisStateTree cfg init addrs = Inr tree \<and> dom tree = addr_bytes ` set addrs
    \<and> (\<forall>b s. tree b = Some s \<longrightarrow> Nonce s = 0 \<and> Balance s = init \<and> Migrate s = - 1
         \<and> 0 \<le> Location s \<and> Location s < Shard_num cfg)"
proof -
  let ?ok = "\<lambda>tree. \<forall>b s. tree b = Some s \<longrightarrow> Nonce s = 0 \<and> Balance s = init \<and> Migrate s = - 1
         \<and> 0 \<le> Location s \<and> Location s < Shard_num cfg"
  have "\<exists>tree'. fold_res (genesis_account cfg init) addrs tree = Inr tree'
      \<and> dom tree' = dom tree \<union> addr_bytes ` set addrs \<and> ?ok tree'" if "?ok tree" for tree
    using assms(1) that
  proof (induction addrs arbitrary: tree)
    case (Cons a addrs)
    from Cons.prems utils_Addr2Shard_range [of a cfg] assms(2) obtain s where
      s: "utils_Addr2Shard cfg a = Inr s" "0 \<le> s" "s < Shard_num cfg" by auto
    let ?t = "tree(addr_bytes a \<mapsto> \<lparr> Nonce = 0, Balance = init, Migrate = - 1, Location = s \<rparr>)"
    have ok: "?ok ?t" using Cons.prems(2) s by auto
    have "\<forall>a\<in>set addrs. 5 \<le> length a \<and> hex_digits (drop (length a - 5) a)"
      using Cons.prems(1) by simp
    from Cons.IH [OF this ok] obtain tree' where
      t: "fold_res (genesis_account cfg init) addrs ?t = Inr tree'"
        "dom tree' = dom ?t \<union> addr_bytes ` set addrs" "?ok tree'" by blast
    have "fold_res (genesis_account cfg init) (a # addrs) tree = Inr tree'"
      using t(1) s(1) by (simp add: genesis_account_def)
    moreover have "dom tree' = dom tree \<union> addr_bytes ` set (a # addrs)" using t(2) by auto
    ultimately show ?case using t(3) by blast
  qed auto
  from this [of Map.empty] show ?thesis by (auto simp: genesisStateTree_def)
qed

theorem genesis_accounts_witness:
  "\<exists>tree. genesisStateTree mvss_config 100 [''000f422887ea7d370ff31173fd3b46c8f66a5b1c''] = Inr tree
    \<and> dom tree = {addr_bytes ''000f422887ea7d370ff31173fd3b46c8f66a5b1c''}"
  using genesis_accounts [of "[''000f422887ea7d370ff31173fd3b46c8f66a5b1c'']" mvss_config 100]
  by (auto simp: hex_digits_def from_hex_char_def mvss_config_def)

section \<open>Overfull blocks\<close>

text \<open>
  In the batch mode block generation panics when the gathered migrations exceed the block: with
  the four pools holding at least their limits and limits whose sum is above \<open>MaxBlockSize\<close>, as the
  default limits 4 * 150 against 500 are, \<open>GenerateBlock\<close> asks \<open>FetchTxs2Pack\<close> for a negative
  number of transactions and panics.
\<close>

theorem batch_overflow_panics:
  assumes "batch_mode cfg" "\<not> Stop_When_Migrating cfg" "\<not> Bu_Tong_Shi_Jian cfg"
    and "\<not> Bu_Tong_Bi_Li cfg" "\<not> Fail cfg" "\<not> Cross_Chain cfg"
    and "MaxMig1Size cfg = int (length (mig1_Queue (mp_mig1 (Pools n))))"
      "MaxMig2Size cfg = int (length (mig2_Queue (mp_mig2 (Pools n))))"
      "MaxAnnSize cfg = int (length (ann_Queue (mp_ann (Pools n))))"
      "MaxCapSize cfg = int (length (ns_Queue (mp_ns (Pools n))))"
    and "MaxBlockSize cfg < MaxMig1Size cfg + MaxMig2Size cfg + MaxAnnSize cfg + MaxCapSize cfg"
  shows "GenerateBlock H cfg clock now blk n = Inl make_panic"
proof -
  have all: "take_quota (int (length q)) q = Inr (q, [], 0)" for q :: "'a list"
    by (simp add: take_quota_def slice_to_def slice_from_def)
  show ?thesis
    using assms
    by (simp add: GenerateBlock_def gather_migrations_def fetch_mig2s_def FetchTXmig1s2Pack2_def
        FetchTXmig2s2Pack2_def FetchTXanns2Pack2_def FetchTXnss2Pack2_def all fetch_block_txs_def
        FetchTxs2Pack_def Let_def)
qed

definition mig1_0 :: TXmig1 where
  "mig1_0 = \<lparr> mig1_Address = ''05'', mig1_FromshardID = 0, mig1_ToshardID = 1, mig1_Request_Time = 10,
     mig1_CommitTime = 0, mig1_ID = 0, mig1_Sync = False, mig1_OrderList = [], mig1_LastCN = 0 \<rparr>"

theorem batch_overflow_panics_witness:
  "GenerateBlock H0 (mvss_config\<lparr> Algorithm := True, MaxMig1Size := 1, MaxMig2Size := 0, MaxAnnSize := 0,
       MaxCapSize := 0, MaxBlockSize := 0 \<rparr>) (\<lambda>_. 0) 7 1
     (node0\<lparr> Pools := (Pools node0)\<lparr> mp_mig1 := AddTXmig1 mig1_0 NewTXmig1Pool \<rparr> \<rparr>) = Inl make_panic"
  by (rule batch_overflow_panics)
    (simp_all add: batch_mode_def mvss_config_def default_config_def node0_def AddTXmig1_def
      NewTXmig1Pool_def NewTXmig2Pool_def NewTXannPool_def NewTXnsPool_def)

end
