(* ===== verification/MvssState.thy ===== *)
theory MvssState
  imports ChainWrites
begin

text \<open>
  The state that the Stage 3 handlers of \<open>pbft/mvss_sync.go\<close> and \<open>pbft/mvss_delta.go\<close> share, the
  building of migration contexts, the redirection and validation of transactions, and the moves
  within the pool. A message that is sent is appended to \<open>Sent\<close>, with the number of its shard (an
  announcement to the client has none, \<open>CaPMsg\<close> holds the name); logging is left out. Handlers run
  one at a time under \<open>sequenceLock\<close>.
\<close>

section \<open>State\<close>

datatype message =
    SyncMsg "TXsync list" int
  | SyncDeltaMsg "TXsyncDelta list" int
  | ClientTxMsg "Transaction list" int
  | RelayMsg "TXrelay list" int
  | Mig2Msg "TXmig2 list" int
  | AnnounceMsg "TXann list" "int option"
  | CaPMsg "TXns list" "(addr \<times> Transaction list) list" string
  | ReplyMsg "Transaction list" nat nat
  | PendingTXsMsg "Transaction list"
  | MovedMsg nat
  | UnchangedMsg nat

record Pbft =
  chain :: Node
  PendingSyncInbound :: "addr \<rightharpoonup> TXsync"
  pendingTargetDelta :: "addr \<Rightarrow> TXsyncDelta list"
  outboundStateIniByTarget :: "(int \<times> TXsyncDelta list) list"
  outboundStateIniStart :: "int \<rightharpoonup> int"
  Sent :: "message list"

abbreviation mig_of :: "Pbft \<Rightarrow> MigGlobals" where
  "mig_of p \<equiv> Mig (chain p)"

definition upd_mig :: "(MigGlobals \<Rightarrow> MigGlobals) \<Rightarrow> Pbft \<Rightarrow> Pbft" where
  "upd_mig f p = p\<lparr> chain := (chain p)\<lparr> Mig := f (Mig (chain p)) \<rparr> \<rparr>"

definition upd_pool :: "(Tx_pool \<Rightarrow> Tx_pool) \<Rightarrow> Pbft \<Rightarrow> Pbft" where
  "upd_pool f p = p\<lparr> chain := (chain p)\<lparr> Pool := f (Pool (chain p)) \<rparr> \<rparr>"

text \<open>A write through the pointer of a context, if there is one.\<close>

definition upd_ctx :: "addr \<Rightarrow> (MigAccountCtx \<Rightarrow> MigAccountCtx) \<Rightarrow> Pbft \<Rightarrow> Pbft" where
  "upd_ctx a f p = (case GetMigCtx a (mig_of p) of
      None \<Rightarrow> p | Some ctx \<Rightarrow> upd_mig (SetMigCtx a (f ctx)) p)"

definition ctx_at :: "Pbft \<Rightarrow> addr \<Rightarrow> MigAccountCtx option" where
  "ctx_at p a = GetMigCtx a (mig_of p)"

definition emit :: "message \<Rightarrow> Pbft \<Rightarrow> Pbft" where
  "emit m p = p\<lparr> Sent := Sent p @ [m] \<rparr>"

definition TrySendTXsync :: "TXsync list \<Rightarrow> int \<Rightarrow> Pbft \<Rightarrow> Pbft" where
  "TrySendTXsync syncs target p =
     (if syncs = [] then p else if shard_name target = '''' then p else emit (SyncMsg syncs target) p)"

definition TrySendTXsyncDelta :: "TXsyncDelta list \<Rightarrow> int \<Rightarrow> Pbft \<Rightarrow> Pbft" where
  "TrySendTXsyncDelta deltas target p =
     (if deltas = [] then p else if shard_name target = '''' then p else emit (SyncDeltaMsg deltas target) p)"

section \<open>Building a context\<close>

text \<open>The pending old transactions of the account, in the pool's order.\<close>

definition pending_old :: "addr \<Rightarrow> int \<Rightarrow> Transaction \<Rightarrow> bool" where
  "pending_old a mig1Time tx \<longleftrightarrow> (from_addr tx = a \<or> to_addr tx = a) \<and> \<not> RequestTime tx \<le> 0
     \<and> \<not> IsTXNew mig1Time (RequestTime tx)"

text \<open>The exchange sort on \<open>OrderTimestamp\<close>; the positions identify the transactions in the queue.\<close>

fun tx_sort_pass :: "nat \<times> Transaction \<Rightarrow> (nat \<times> Transaction) list \<Rightarrow> (nat \<times> Transaction) \<times> (nat \<times> Transaction) list" where
  "tx_sort_pass x [] = (x, [])"
| "tx_sort_pass x (y # ys) =
     (if OrderTimestamp (snd x) > OrderTimestamp (snd y) then (let (m, r) = tx_sort_pass y ys in (m, x # r))
      else (let (m, r) = tx_sort_pass x ys in (m, y # r)))"

lemma length_tx_sort_pass [simp]: "length (snd (tx_sort_pass x ys)) = length ys"
  by (induction x ys rule: tx_sort_pass.induct) (auto simp: split_beta)

function tx_exchange_sort :: "(nat \<times> Transaction) list \<Rightarrow> (nat \<times> Transaction) list" where
  "tx_exchange_sort [] = []"
| "tx_exchange_sort (x # xs) = (let (m, r) = tx_sort_pass x xs in m # tx_exchange_sort r)"
  by pat_completeness auto
termination
  by (relation "measure length") (auto, metis length_tx_sort_pass lessI snd_conv)

text \<open>Each pending transaction gets the next nonce, in the queue too, and is entered in both lists.\<close>

definition assign_nonces :: "(nat \<times> Transaction) list \<Rightarrow> u64 \<times> timemap \<times> timemap \<times> Transaction list
    \<Rightarrow> u64 \<times> timemap \<times> timemap \<times> Transaction list" where
  "assign_nonces pending st = fold (\<lambda>(i, tx) (n, order, arrival, q).
     (n + 1, AList.update (TxId tx) (OrderTimestamp tx) order,
      AList.update (TxId tx) (RequestTime tx) arrival, q[i := (q ! i)\<lparr> TxNonce := n \<rparr>])) pending st"

definition syncProbeID :: "int \<Rightarrow> int \<Rightarrow> int" where
  "syncProbeID accountIdx slot = 9000000000 + accountIdx * 10 + slot"

text \<open>
  \<open>rng\<close> is the order of the last loop over the order list, which fixes \<open>accountIdx\<close>, and of the one in
  \<open>DetectInterleave\<close>.
\<close>

definition mvssProbeEarlyPauseSuffixOld :: "(timemap \<Rightarrow> timemap) \<Rightarrow> ChainConfig \<Rightarrow> int \<Rightarrow> MigAccountCtx \<Rightarrow> MigAccountCtx" where
  "mvssProbeEarlyPauseSuffixOld rng cfg mig1Time ctx =
     (if \<not> IsMVSS cfg then ctx
      else (let ids = filter IsSyncProbeTxID (map fst (rng (OrderList ctx)));
                has = (\<lambda>slot. list_ex (\<lambda>k. (k - 9000000000) mod 10 = slot) ids) in
        if ids = [] \<or> \<not> has 1 \<or> \<not> has 3 then ctx
        else if FSM ctx = FSMSyncOut then ctx
        else (let tx2 = syncProbeID ((last ids - 9000000000) div 10) 2 in
          snd (DetectInterleave rng (RegisterOrder tx2 200 (mig1Time + 1) ctx)))))"

definition mvssBuildMigCtx :: "(timemap \<Rightarrow> timemap) \<Rightarrow> ChainConfig \<Rightarrow> addr \<Rightarrow> int \<Rightarrow> int \<Rightarrow> Pbft \<Rightarrow> TXmig1 \<times> Pbft" where
  "mvssBuildMigCtx rng cfg a toShard mig1Time p =
     (let nonce0 = (case StateTree (chain p) (addr_bytes a) of None \<Rightarrow> 0 | Some s \<Rightarrow> Nonce s);
          q = Queue (Pool (chain p));
          pending = tx_exchange_sort (filter (\<lambda>(i, tx). pending_old a mig1Time tx) (zip [0..<length q] q));
          (next, order, arrival, q') = assign_nonces pending (nonce0, [], [], q);
          syncNeeded = (length pending > 0);
          ctx = \<lparr> SourceShard = self_shard cfg, TargetShard = toShard, Mig1Time = mig1Time,
            LastCN = nonce0, SyncNeeded = syncNeeded, MigNonce = nonce0, NextNonce = next,
            OrderList = order, ArrivalList = arrival, CommittedTx = Map.empty, FirstNewTxID = 0,
            PausedTxIDs = Map.empty, FSM = FSMActive, PendingSyncAck = False, LastDeltaHash = [] \<rparr>;
          ctx' = mvssProbeEarlyPauseSuffixOld rng cfg mig1Time ctx
      in (\<lparr> mig1_Address = a, mig1_FromshardID = self_shard cfg, mig1_ToshardID = toShard,
            mig1_Request_Time = mig1Time, mig1_CommitTime = 0, mig1_ID = 0, mig1_Sync = syncNeeded,
            mig1_OrderList = OrderList ctx', mig1_LastCN = nonce0 \<rparr>,
          upd_mig (SetMigCtx a ctx') (upd_pool (\<lambda>pool. pool\<lparr> Queue := q' \<rparr>) p)))"

section \<open>Transactions of migrating accounts\<close>

definition mvssShouldKeepTxOnSourceDuringAnnounce :: "ChainConfig \<Rightarrow> addr \<Rightarrow> Transaction \<Rightarrow> MigGlobals \<Rightarrow> bool" where
  "mvssShouldKeepTxOnSourceDuringAnnounce cfg a tx mg =
     (if \<not> IsMVSS cfg then False
      else case GetMigCtx a mg of
          None \<Rightarrow> False
        | Some ctx \<Rightarrow> if TargetShard ctx = self_shard cfg then False
            else ShouldSourcePackOutgoing cfg ctx (TxId tx) (OrderTimestamp tx) (RequestTime tx))"

definition mvssNormalizeTargetNewTx :: "ChainConfig \<Rightarrow> int \<Rightarrow> MigGlobals \<Rightarrow> Transaction \<Rightarrow> Transaction" where
  "mvssNormalizeTargetNewTx cfg selfShardID mg tx =
     (if \<not> IsMVSS cfg then tx
      else case GetMigCtx (from_addr tx) mg of
          None \<Rightarrow> tx
        | Some ctx \<Rightarrow>
            if TargetShard ctx \<noteq> selfShardID then tx
            else if \<not> IsTXNew (Mig1Time ctx) (RequestTime tx) \<and> Tag tx = [] then tx
            else if IsRelay tx then tx\<lparr> IsRelay := False \<rparr> else tx)"

text \<open>The result tells whether the transaction was sent on; the transaction is changed in place.\<close>

definition mvssRedirectNewTx :: "(bytes \<Rightarrow> bytes) \<Rightarrow> (timemap \<Rightarrow> timemap) \<Rightarrow> ChainConfig \<Rightarrow> int \<Rightarrow> Transaction
    \<Rightarrow> Pbft \<Rightarrow> bool \<times> Transaction \<times> Pbft" where
  "mvssRedirectNewTx sha rng cfg now tx0 p =
     (let tx = (if RequestTime tx0 \<le> 0 then tx0\<lparr> RequestTime := now \<rparr> else tx0);
          a = from_addr tx in
      case ctx_at p a of
        None \<Rightarrow> (False, tx, p)
      | Some ctx \<Rightarrow>
          if \<not> IsTXNew (Mig1Time ctx) (RequestTime tx) then (False, tx, p)
          else if self_shard cfg = TargetShard ctx then (False, tx, p)
          else
            (let ctx1 = RegisterOrder (TxId tx) (OrderTimestamp tx) (RequestTime tx)
                   (ctx\<lparr> NextNonce := NextNonce ctx + 1 \<rparr>);
                 ctx2 = snd (DetectInterleave rng ctx1);
                 tx1 = tx\<lparr> TxNonce := NextNonce ctx,
                   Tag := RedirectTag sha a (Mig1Time ctx2) (MigNonce ctx2), IsRelay := True \<rparr>;
                 p1 = upd_mig (SetMigCtx a ctx2) p in
             if shard_name (TargetShard ctx2) = '''' then (False, tx1, p1)
             else (True, tx1, emit (ClientTxMsg [tx1] (TargetShard ctx2)) p1)))"

definition mvssValidateIncomingTx :: "(bytes \<Rightarrow> bytes) \<Rightarrow> ChainConfig \<Rightarrow> MigGlobals \<Rightarrow> Transaction \<Rightarrow> bool" where
  "mvssValidateIncomingTx sha cfg mg tx =
     (if \<not> EnableSyncProbe cfg then True
      else
        (let from_ctx = (case GetMigCtx (from_addr tx) mg of
               None \<Rightarrow> None
             | Some ctx \<Rightarrow> if IsTXNew (Mig1Time ctx) (RequestTime tx) then Some ctx else None) in
         case from_ctx of
           Some ctx \<Rightarrow>
             if Tag tx = [] then True
             else if \<not> ValidRedirectTag sha (Tag tx) (from_addr tx) (Mig1Time ctx) (MigNonce ctx) then False
             else if TxNonce tx \<le> LastCN ctx then False
             else True
         | None \<Rightarrow>
             (case GetMigCtx (to_addr tx) mg of
                None \<Rightarrow> True
              | Some ctx \<Rightarrow>
                  if Tag tx = [] then True
                  else if ValidRedirectTag sha (Tag tx) (to_addr tx) (Mig1Time ctx) (MigNonce ctx) then True
                  else if ValidRedirectTag sha (Tag tx) (from_addr tx) (Mig1Time ctx) (MigNonce ctx) then True
                  else False)))"

section \<open>Moves within the pool\<close>

text \<open>The transactions that match go to the front with consecutive nonces.\<close>

fun pull_front :: "(Transaction \<Rightarrow> bool) \<Rightarrow> u64 \<Rightarrow> Transaction list \<Rightarrow> Transaction list \<times> Transaction list \<times> u64" where
  "pull_front P n [] = ([], [], n)"
| "pull_front P n (v # vs) =
     (if P v then (let (h, t, n') = pull_front P (n + 1) vs in (v\<lparr> TxNonce := n \<rparr> # h, t, n'))
      else (let (h, t, n') = pull_front P n vs in (h, v # t, n')))"

definition mvssPromoteMigNewTxsToHead :: "addr \<Rightarrow> Pbft \<Rightarrow> Pbft" where
  "mvssPromoteMigNewTxsToHead a p =
     (case ctx_at p a of
        None \<Rightarrow> p
      | Some ctx \<Rightarrow>
          (let start = (case GetAccountNonce a (chain p) of None \<Rightarrow> LastCN ctx | Some n \<Rightarrow> n);
               (head, tail, next) = pull_front
                 (\<lambda>tx. from_addr tx = a \<and> IsTXNew (Mig1Time ctx) (RequestTime tx)) start (Queue (Pool (chain p)))
           in if head = [] then p
              else upd_ctx a (\<lambda>c. c\<lparr> NextNonce := next \<rparr>)
                (upd_pool (\<lambda>pool. pool\<lparr> Queue := head @ tail \<rparr>) p)))"

definition mvssMaybePromoteAfterNewEnqueued :: "ChainConfig \<Rightarrow> addr \<Rightarrow> Pbft \<Rightarrow> Pbft" where
  "mvssMaybePromoteAfterNewEnqueued cfg a p =
     (if \<not> IsMVSS cfg \<or> a = '''' then p
      else case ctx_at p a of
          None \<Rightarrow> p
        | Some ctx \<Rightarrow>
            if TargetShard ctx \<noteq> self_shard cfg then p
            else if FSM ctx < FSMSyncApplied then p
            else mvssPromoteMigNewTxsToHead a p)"

definition mvssPromoteSuffixOldAfterAck :: "ChainConfig \<Rightarrow> addr \<Rightarrow> Pbft \<Rightarrow> Pbft" where
  "mvssPromoteSuffixOldAfterAck cfg a p =
     (case ctx_at p a of
        None \<Rightarrow> p
      | Some ctx \<Rightarrow>
          if FirstNewTxID ctx \<le> 0 \<or> \<not> snd (hex_decode a) then p
          else
            (let start = (case StateTree (chain p) (addr_bytes a) of None \<Rightarrow> LastCN ctx | Some s \<Rightarrow> Nonce s);
                 m = (\<lambda>tx. from_addr tx = a
                   \<and> ShouldSourcePackOutgoing cfg ctx (TxId tx) (OrderTimestamp tx) (RequestTime tx));
                 pool = Pool (chain p);
                 (head, tail, next) = pull_front m start (Queue pool);
                 (head2, keep, next2) = pull_front m next (Not_Locking_TX_Pools pool a);
                 pool1 = (if Not_Lock_Acc_When_Migrating cfg
                   then pool\<lparr> Not_Locking_TX_Pools := (Not_Locking_TX_Pools pool)(a := keep) \<rparr> else pool);
                 all_head = (if Not_Lock_Acc_When_Migrating cfg then head @ head2 else head)
             in if all_head = [] then upd_pool (\<lambda>_. pool1) p
                else upd_pool (\<lambda>_. pool1\<lparr> Queue := all_head @ tail \<rparr>) p))"

end
