(* ===== verification/MvssDelta.thy ===== *)
theory MvssDelta
  imports MvssState
begin

text \<open>
  \<open>pbft/mvss_delta.go\<close>: the incremental synchronisation of Stage 3. The source queues a delta per
  target and flushes it as one message; the target checks and applies it, or keeps it until the
  account has arrived; the acknowledgement returns as a delta with \<open>Ack\<close> set. The timer of the
  aggregation window is the operation \<open>mvssFlushOutboundStateIniDeltas\<close> with \<open>force\<close>, called by the
  runtime.
\<close>

section \<open>Outgoing deltas\<close>

definition deltaAggregateWindow :: "ChainConfig \<Rightarrow> int" where
  "deltaAggregateWindow cfg = (if DeltaAggregateWindowMs cfg \<le> 0 then 0 else DeltaAggregateWindowMs cfg)"

definition batch_for :: "int \<Rightarrow> Pbft \<Rightarrow> TXsyncDelta list" where
  "batch_for target p = (case map_of (outboundStateIniByTarget p) target of None \<Rightarrow> [] | Some b \<Rightarrow> b)"

definition enqueueOutboundStateIniDelta :: "int \<Rightarrow> TXsyncDelta \<Rightarrow> int \<Rightarrow> Pbft \<Rightarrow> Pbft" where
  "enqueueOutboundStateIniDelta now d target p =
     (if sd_Ack d then p
      else if list_ex (\<lambda>ex. sd_Address ex = sd_Address d \<and> sd_StartN ex = sd_StartN d \<and> sd_EndN ex = sd_EndN d)
          (batch_for target p) then p
      else (let p1 = (if batch_for target p = []
                  then p\<lparr> outboundStateIniStart := (outboundStateIniStart p)(target \<mapsto> now) \<rparr> else p) in
        p1\<lparr> outboundStateIniByTarget :=
          AList.update target (batch_for target p @ [d]) (outboundStateIniByTarget p) \<rparr>))"

definition mvssFlushOutboundStateIniDeltas :: "ChainConfig \<Rightarrow> int \<Rightarrow> int \<Rightarrow> bool \<Rightarrow> Pbft \<Rightarrow> Pbft" where
  "mvssFlushOutboundStateIniDeltas cfg now target force p =
     (if batch_for target p = [] then p
      else if \<not> force \<and> deltaAggregateWindow cfg > 0
          \<and> (case outboundStateIniStart p target of None \<Rightarrow> False
             | Some start \<Rightarrow> now - start < deltaAggregateWindow cfg) then p
      else TrySendTXsyncDelta (batch_for target p) target
        (p\<lparr> outboundStateIniByTarget := AList.delete target (outboundStateIniByTarget p),
            outboundStateIniStart := (outboundStateIniStart p)(target := None) \<rparr>))"

definition mvssFlushAllOutboundStateIniAtBlockEnd :: "(int list \<Rightarrow> int list) \<Rightarrow> ChainConfig \<Rightarrow> int \<Rightarrow> Pbft \<Rightarrow> Pbft" where
  "mvssFlushAllOutboundStateIniAtBlockEnd rngt cfg now p =
     (let targets = rngt (map fst (outboundStateIniByTarget p));
          force = (deltaAggregateWindow cfg = 0)
      in fold (\<lambda>tid. mvssFlushOutboundStateIniDeltas cfg now tid force) targets p)"

section \<open>Deltas that come before the account\<close>

definition enqueuePendingTargetDelta :: "TXsyncDelta \<Rightarrow> Pbft \<Rightarrow> Pbft" where
  "enqueuePendingTargetDelta d p =
     (if sd_Ack d then p
      else if list_ex (\<lambda>ex. sd_StartN ex = sd_StartN d \<and> sd_EndN ex = sd_EndN d) (pendingTargetDelta p (sd_Address d))
      then p
      else p\<lparr> pendingTargetDelta := (pendingTargetDelta p)(sd_Address d := pendingTargetDelta p (sd_Address d) @ [d]) \<rparr>)"

definition dequeuePendingTargetDeltas :: "addr \<Rightarrow> Pbft \<Rightarrow> TXsyncDelta list \<times> Pbft" where
  "dequeuePendingTargetDeltas a p =
     (pendingTargetDelta p a, p\<lparr> pendingTargetDelta := (pendingTargetDelta p)(a := []) \<rparr>)"

section \<open>Checking and applying\<close>

text \<open>Sign, length of the version range, hash.\<close>

definition delta_wellformed :: "(bytes \<Rightarrow> bytes) \<Rightarrow> TXsyncDelta \<Rightarrow> bool" where
  "delta_wellformed sha d \<longleftrightarrow> \<not> (sd_DeltaNonce d < 0 \<or> sd_EndN d < sd_StartN d)
     \<and> of_int (sd_DeltaNonce d) = sd_EndN d - sd_StartN d \<and> CalcDeltaHash sha d = sd_DeltaHash d"

text \<open>A retransmitted delta whose range lies below the account's nonce.\<close>

definition note_duplicate :: "TXsyncDelta \<Rightarrow> MigAccountCtx \<Rightarrow> MigAccountCtx" where
  "note_duplicate d ctx =
     (let c1 = (if FSM ctx = FSMWaitSyncIni then ctx\<lparr> FSM := FSMSyncApplied \<rparr> else ctx);
          c2 = (if LastCN c1 < sd_EndN d then c1\<lparr> LastCN := sd_EndN d \<rparr> else c1)
      in if sd_DeltaHash d \<noteq> [] then c2\<lparr> LastDeltaHash := sd_DeltaHash d \<rparr> else c2)"

definition note_applied :: "TXsyncDelta \<Rightarrow> MigAccountCtx \<Rightarrow> MigAccountCtx" where
  "note_applied d ctx = ctx\<lparr> LastDeltaHash := sd_DeltaHash d, LastCN := sd_EndN d, FSM := FSMSyncApplied \<rparr>"

text \<open>\<open>sha\<close> is SHA-256 and \<open>rt\<close> the root of a tree.\<close>

definition mvssApplyDeltaInbound :: "(bytes \<Rightarrow> bytes) \<Rightarrow> (state_tree \<Rightarrow> bytes) \<Rightarrow> TXsyncDelta \<Rightarrow> Pbft \<Rightarrow> bool \<times> Pbft" where
  "mvssApplyDeltaInbound sha rt d p =
     (let a = sd_Address d in
      if sd_DeltaBalance d = None then (False, p)
      else if fst (IsMigAborted a (mig_of p)) then (False, p)
      else case ctx_at p a of
          None \<Rightarrow> (False, p)
        | Some ctx \<Rightarrow>
            if \<not> delta_wellformed sha d then (False, p)
            else (case GetAccountNonce a (chain p) of
                None \<Rightarrow> (True, enqueuePendingTargetDelta d p)
              | Some nonce \<Rightarrow>
                  if nonce \<ge> sd_EndN d then (True, upd_ctx a (note_duplicate d) p)
                  else if nonce < sd_StartN d then (True, enqueuePendingTargetDelta d p)
                  else if nonce \<noteq> sd_StartN d then (False, p)
                  else if LastDeltaHash ctx \<noteq> [] \<and> LastDeltaHash ctx \<noteq> sd_PrevHash d then (False, p)
                  else (case ApplyMVSSAccountDelta rt a (sd_DeltaBalance d) (sd_DeltaNonce d) (chain p) of
                      (False, n) \<Rightarrow> (False, p)
                    | (True, n) \<Rightarrow> (True, mvssPromoteMigNewTxsToHead a
                        (upd_ctx a (note_applied d) (p\<lparr> chain := n \<rparr>))))))"

definition mvssAbortDelta :: "addr \<Rightarrow> string \<Rightarrow> Pbft \<Rightarrow> Pbft" where
  "mvssAbortDelta a reason p =
     upd_ctx a (\<lambda>ctx. ctx\<lparr> SyncNeeded := False, FSM := FSMActive, PausedTxIDs := Map.empty \<rparr>)
       (upd_mig (\<lambda>mg. DeleteMigPendingDelta a (MarkMigAbort a reason mg)) p)"

definition apply_or_abort :: "(bytes \<Rightarrow> bytes) \<Rightarrow> (state_tree \<Rightarrow> bytes) \<Rightarrow> TXsyncDelta \<Rightarrow> Pbft \<Rightarrow> Pbft" where
  "apply_or_abort sha rt d p = (case mvssApplyDeltaInbound sha rt d p of
      (True, p') \<Rightarrow> p'
    | (False, p') \<Rightarrow> mvssAbortDelta (sd_Address d) ''delta check failed'' p')"

definition mvssFlushPendingTargetDeltas :: "(bytes \<Rightarrow> bytes) \<Rightarrow> (state_tree \<Rightarrow> bytes) \<Rightarrow> ChainConfig \<Rightarrow> addr \<Rightarrow> Pbft \<Rightarrow> Pbft" where
  "mvssFlushPendingTargetDeltas sha rt cfg a p =
     (if \<not> IsMVSSDelta cfg then p
      else (let (list, p1) = dequeuePendingTargetDeltas a p in fold (apply_or_abort sha rt) list p1))"

section \<open>Acknowledgements\<close>

definition mvssBlockHasMigNewTx :: "Block \<Rightarrow> addr \<Rightarrow> MigAccountCtx \<Rightarrow> bool" where
  "mvssBlockHasMigNewTx b a ctx \<longleftrightarrow>
     list_ex (\<lambda>tx. from_addr tx = a \<and> IsTXNew (Mig1Time ctx) (RequestTime tx)) (Transactions b)"

text \<open>The loop stops at the first new transaction of the account.\<close>

definition first_new_value :: "Block \<Rightarrow> addr \<Rightarrow> MigAccountCtx \<Rightarrow> int" where
  "first_new_value b a ctx =
     (case filter (\<lambda>tx. from_addr tx = a \<and> IsTXNew (Mig1Time ctx) (RequestTime tx)) (Transactions b) of
        [] \<Rightarrow> 0 | tx # _ \<Rightarrow> TxValue tx)"

definition ack_delta :: "(bytes \<Rightarrow> bytes) \<Rightarrow> ChainConfig \<Rightarrow> int \<Rightarrow> addr \<Rightarrow> MigAccountCtx \<Rightarrow> AccountState \<Rightarrow> u64 \<Rightarrow> Block \<Rightarrow> TXsyncDelta" where
  "ack_delta sha cfg now a ctx st startN b =
     (let before = Balance st + first_new_value b a ctx;
          d = \<lparr> sd_Address = a, sd_FromShard = ShardID cfg, sd_DeltaBalance = Some (Balance st - before),
            sd_DeltaNonce = sint (Nonce st - startN), sd_StartN = startN, sd_EndN = Nonce st,
            sd_PrevHash = LastDeltaHash ctx, sd_DeltaHash = [], sd_RequestTime = now, sd_Ack = True \<rparr>
      in d\<lparr> sd_DeltaHash := CalcDeltaHash sha d \<rparr>)"

definition mvssSendDeltaAck :: "(bytes \<Rightarrow> bytes) \<Rightarrow> ChainConfig \<Rightarrow> int \<Rightarrow> addr \<Rightarrow> Block \<Rightarrow> Pbft \<Rightarrow> Pbft" where
  "mvssSendDeltaAck sha cfg now a b p =
     (case ctx_at p a of
        None \<Rightarrow> p
      | Some ctx \<Rightarrow>
          if FSM ctx \<noteq> FSMSyncApplied then p
          else case GetAccountState a (chain p) of
              None \<Rightarrow> p
            | Some st \<Rightarrow>
                (let endN = Nonce st;
                     startN = (if endN \<le> LastCN ctx \<and> mvssBlockHasMigNewTx b a ctx \<and> endN > 0
                       then endN - 1 else LastCN ctx) in
                 if endN \<le> startN then p
                 else (let d = ack_delta sha cfg now a ctx st startN b in
                   TrySendTXsyncDelta [d] (SourceShard ctx)
                     (upd_ctx a (\<lambda>c. c\<lparr> FSM := FSMAckSent, PendingSyncAck := False,
                        LastDeltaHash := sd_DeltaHash d, LastCN := endN \<rparr>) p))))"

definition mvssOnDeltaAck :: "(bytes \<Rightarrow> bytes) \<Rightarrow> (state_tree \<Rightarrow> bytes) \<Rightarrow> TXsyncDelta \<Rightarrow> Pbft \<Rightarrow> bool \<times> Pbft" where
  "mvssOnDeltaAck sha rt d p =
     (let a = sd_Address d in
      if \<not> sd_Ack d \<or> sd_DeltaBalance d = None then (False, p)
      else case ctx_at p a of
          None \<Rightarrow> (False, p)
        | Some ctx \<Rightarrow>
            if \<not> delta_wellformed sha d then (False, p)
            else (case ApplyMVSSAccountDelta rt a (sd_DeltaBalance d) (sd_DeltaNonce d) (chain p) of
                (False, n) \<Rightarrow> (False, p)
              | (True, n) \<Rightarrow> (True, upd_ctx a (\<lambda>c. c\<lparr> LastDeltaHash := sd_DeltaHash d, LastCN := sd_EndN d \<rparr>)
                  (p\<lparr> chain := n \<rparr>))))"

section \<open>The handler of a delta message\<close>

definition handle_one_delta :: "(bytes \<Rightarrow> bytes) \<Rightarrow> (state_tree \<Rightarrow> bytes) \<Rightarrow> ChainConfig \<Rightarrow> int \<Rightarrow> TXsyncDelta \<Rightarrow> Pbft \<Rightarrow> Pbft" where
  "handle_one_delta sha rt cfg src d p =
     (let a = sd_Address d in
      if sd_Ack d then
        (case ctx_at p a of
           None \<Rightarrow> p
         | Some ctx \<Rightarrow>
             if TargetShard ctx \<noteq> src then p
             else (case mvssOnDeltaAck sha rt d p of
                 (True, p') \<Rightarrow> mvssPromoteSuffixOldAfterAck cfg a (upd_ctx a ResumeAfterSyncAck p')
               | (False, p') \<Rightarrow> mvssAbortDelta a ''delta ack check failed'' p'))
      else (case ctx_at p a of
          Some ctx \<Rightarrow>
            if TargetShard ctx = self_shard cfg then apply_or_abort sha rt d p
            else if IsMVSSDelta cfg then enqueuePendingTargetDelta d p else p
        | None \<Rightarrow> if IsMVSSDelta cfg then enqueuePendingTargetDelta d p else p))"

definition handleTXsyncDelta :: "(bytes \<Rightarrow> bytes) \<Rightarrow> (state_tree \<Rightarrow> bytes) \<Rightarrow> ChainConfig \<Rightarrow> string \<Rightarrow> TXsyncDelta list \<Rightarrow> Pbft \<Rightarrow> Pbft" where
  "handleTXsyncDelta sha rt cfg shard deltas p =
     (case ShardTable shard of
        None \<Rightarrow> p
      | Some src \<Rightarrow> fold (handle_one_delta sha rt cfg src) deltas p)"

end
