(* ===== verification/MvssSync.thy ===== *)
theory MvssSync
  imports MvssDelta
begin

text \<open>
  \<open>pbft/mvss_sync.go\<close>: the full synchronisation of Stage 3, the work after each committed block, and
  the cleaning up of contexts.
\<close>

section \<open>Early messages\<close>

definition mvssCachePendingSyncInbound :: "TXsync \<Rightarrow> Pbft \<Rightarrow> Pbft" where
  "mvssCachePendingSyncInbound s p =
     (if sync_Address s = '''' then p
      else p\<lparr> PendingSyncInbound := (PendingSyncInbound p)(sync_Address s \<mapsto> s) \<rparr>)"

definition mvssTakePendingSyncInbound :: "addr \<Rightarrow> Pbft \<Rightarrow> TXsync option \<times> Pbft" where
  "mvssTakePendingSyncInbound a p =
     (if a = '''' then (None, p)
      else case PendingSyncInbound p a of
          None \<Rightarrow> (None, p)
        | Some s \<Rightarrow> (Some s, p\<lparr> PendingSyncInbound := (PendingSyncInbound p)(a := None) \<rparr>))"

section \<open>Applying a state\<close>

definition mvssApplySyncInbound :: "(state_tree \<Rightarrow> bytes) \<Rightarrow> ChainConfig \<Rightarrow> TXsync \<Rightarrow> Pbft \<Rightarrow> Pbft res" where
  "mvssApplySyncInbound rt cfg s p =
     (case sync_StateNew s of
        None \<Rightarrow> Inr p
      | Some st \<Rightarrow>
          bind_res (ApplyMVSSAccountState rt (sync_Address s)
              (Some (st\<lparr> Migrate := - 1, Location := self_shard cfg \<rparr>)) (chain p)) (\<lambda>n.
            Inr (mvssPromoteMigNewTxsToHead (sync_Address s)
              (upd_ctx (sync_Address s) (\<lambda>c. c\<lparr> FSM := FSMSyncApplied \<rparr>) (p\<lparr> chain := n \<rparr>)))))"

definition mvssApplySyncOnSource :: "(state_tree \<Rightarrow> bytes) \<Rightarrow> ChainConfig \<Rightarrow> TXsync \<Rightarrow> Pbft \<Rightarrow> Pbft res" where
  "mvssApplySyncOnSource rt cfg s p =
     (case sync_StateNew s of
        None \<Rightarrow> Inr p
      | Some st \<Rightarrow>
          bind_res (ApplyMVSSAccountState rt (sync_Address s) (Some (st\<lparr> Location := self_shard cfg \<rparr>)) (chain p))
            (\<lambda>n. Inr (p\<lparr> chain := n \<rparr>)))"

definition mvssTryApplyPendingSyncInbound :: "(state_tree \<Rightarrow> bytes) \<Rightarrow> ChainConfig \<Rightarrow> addr \<Rightarrow> Pbft \<Rightarrow> Pbft res" where
  "mvssTryApplyPendingSyncInbound rt cfg a p =
     (if \<not> IsMVSS cfg \<or> IsMVSSDelta cfg \<or> a = '''' then Inr p
      else case mvssTakePendingSyncInbound a p of
          (None, p') \<Rightarrow> Inr p'
        | (Some s, p') \<Rightarrow>
            (case ctx_at p' a of
               None \<Rightarrow> Inr (mvssCachePendingSyncInbound s p')
             | Some ctx \<Rightarrow>
                 if TargetShard ctx \<noteq> self_shard cfg then Inr (mvssCachePendingSyncInbound s p')
                 else mvssApplySyncInbound rt cfg s p'))"

definition handle_one_sync :: "(state_tree \<Rightarrow> bytes) \<Rightarrow> ChainConfig \<Rightarrow> int \<Rightarrow> TXsync \<Rightarrow> Pbft \<Rightarrow> Pbft res" where
  "handle_one_sync rt cfg src s p =
     (let a = sync_Address s in
      case ctx_at p a of
        None \<Rightarrow> Inr (mvssCachePendingSyncInbound s p)
      | Some ctx \<Rightarrow>
          if TargetShard ctx = src then
            bind_res (mvssApplySyncOnSource rt cfg s p) (\<lambda>p'.
              Inr (mvssPromoteSuffixOldAfterAck cfg a (upd_ctx a ResumeAfterSyncAck p')))
          else if TargetShard ctx \<noteq> self_shard cfg then Inr (mvssCachePendingSyncInbound s p)
          else mvssApplySyncInbound rt cfg s p)"

definition handleTXsync :: "(state_tree \<Rightarrow> bytes) \<Rightarrow> ChainConfig \<Rightarrow> string \<Rightarrow> TXsync list \<Rightarrow> Pbft \<Rightarrow> Pbft res" where
  "handleTXsync rt cfg shard syncs p =
     (if IsMVSSDelta cfg then Inr p
      else case ShardTable shard of
          None \<Rightarrow> Inr p
        | Some src \<Rightarrow> fold_res (handle_one_sync rt cfg src) syncs p)"

section \<open>Sending the state of an account\<close>

definition old_state :: "ChainConfig \<Rightarrow> addr \<Rightarrow> MigAccountCtx \<Rightarrow> AccountState \<Rightarrow> Globals \<Rightarrow> AccountState" where
  "old_state cfg a ctx stateNew g = \<lparr> Nonce = LastCN ctx,
     Balance = (case BalanceBeforeOut g a of None \<Rightarrow> Balance stateNew | Some b \<Rightarrow> b),
     Migrate = TargetShard ctx, Location = self_shard cfg \<rparr>"

text \<open>\<open>int64(a) - int64(b)\<close> wraps, and equals the signed value of the difference of the words.\<close>

definition state_ini_delta :: "(bytes \<Rightarrow> bytes) \<Rightarrow> ChainConfig \<Rightarrow> int \<Rightarrow> addr \<Rightarrow> MigAccountCtx \<Rightarrow> AccountState \<Rightarrow> AccountState \<Rightarrow> TXsyncDelta" where
  "state_ini_delta sha cfg now a ctx stateOld stateNew =
     (let d = \<lparr> sd_Address = a, sd_FromShard = ShardID cfg,
            sd_DeltaBalance = Some (Balance stateNew - Balance stateOld),
            sd_DeltaNonce = sint (Nonce stateNew - LastCN ctx), sd_StartN = LastCN ctx, sd_EndN = Nonce stateNew,
            sd_PrevHash = LastDeltaHash ctx, sd_DeltaHash = [], sd_RequestTime = now, sd_Ack = False \<rparr>
      in d\<lparr> sd_DeltaHash := CalcDeltaHash sha d \<rparr>)"

definition mvssSendSyncForAddr :: "(bytes \<Rightarrow> bytes) \<Rightarrow> ChainConfig \<Rightarrow> int \<Rightarrow> state_tree \<Rightarrow> addr \<Rightarrow> Pbft \<Rightarrow> Pbft" where
  "mvssSendSyncForAddr sha cfg now st a p =
     (case ctx_at p a of
        None \<Rightarrow> p
      | Some ctx \<Rightarrow>
          if FSM ctx = FSMSyncOut then p
          else case st (addr_bytes a) of
              None \<Rightarrow> p
            | Some stateNew \<Rightarrow>
                (let stateOld = old_state cfg a ctx stateNew (Acc (chain p)) in
                 if IsMVSSDelta cfg then
                   (if sint (Nonce stateNew - LastCN ctx) < 0 then mvssAbortDelta a ''negative delta nonce'' p
                    else enqueueOutboundStateIniDelta now (state_ini_delta sha cfg now a ctx stateOld stateNew)
                      (TargetShard ctx) (upd_ctx a (\<lambda>c. c\<lparr> FSM := FSMSyncOut \<rparr>) p))
                 else TrySendTXsync [\<lparr> sync_Address = a, sync_FromShard = ShardID cfg,
                     sync_StateOld = Some stateOld, sync_StateNew = Some stateNew, sync_StartN = LastCN ctx,
                     sync_EndN = Nonce stateNew, sync_RequestTime = now \<rparr>] (TargetShard ctx)
                     (upd_ctx a (\<lambda>c. c\<lparr> FSM := FSMSyncOut \<rparr>) p)))"

definition mvssSendSyncAck :: "ChainConfig \<Rightarrow> int \<Rightarrow> addr \<Rightarrow> Pbft \<Rightarrow> Pbft" where
  "mvssSendSyncAck cfg now a p =
     (case ctx_at p a of
        None \<Rightarrow> p
      | Some ctx \<Rightarrow>
          if FSM ctx \<noteq> FSMSyncApplied then p
          else case GetAccountState a (chain p) of
              None \<Rightarrow> p
            | Some st \<Rightarrow> TrySendTXsync [\<lparr> sync_Address = a, sync_FromShard = ShardID cfg, sync_StateOld = None,
                  sync_StateNew = Some st, sync_StartN = LastCN ctx, sync_EndN = Nonce st, sync_RequestTime = now \<rparr>]
                (SourceShard ctx) (upd_ctx a (\<lambda>c. c\<lparr> FSM := FSMAckSent, PendingSyncAck := False \<rparr>) p))"

section \<open>After a block\<close>

definition mvssPrefixOldReady :: "MigAccountCtx \<Rightarrow> Pbft \<Rightarrow> bool" where
  "mvssPrefixOldReady ctx p =
     (if PrefixOldAllCommitted ctx then True
      else PrefixOldReady (Some (\<lambda>k. ContainsTxID k (Pool (chain p)))) ctx)"

text \<open>Mark the block's transactions of migrating senders and look for an interleaving.\<close>

definition commit_mark :: "(timemap \<Rightarrow> timemap) \<Rightarrow> Transaction \<Rightarrow> Pbft \<Rightarrow> Pbft" where
  "commit_mark rng tx p =
     (case ctx_at p (from_addr tx) of
        None \<Rightarrow> p
      | Some _ \<Rightarrow> upd_ctx (from_addr tx) (\<lambda>c. snd (DetectInterleave rng c))
          (upd_mig (MarkTxCommitted (from_addr tx) (TxId tx)) p))"

definition after_block_step :: "(bytes \<Rightarrow> bytes) \<Rightarrow> ChainConfig \<Rightarrow> int \<Rightarrow> state_tree \<Rightarrow> Block \<Rightarrow> addr \<Rightarrow> Pbft \<Rightarrow> Pbft" where
  "after_block_step sha cfg now st b a p =
     (case ctx_at p a of
        None \<Rightarrow> p
      | Some ctx \<Rightarrow>
          if fst (IsMigAborted a (mig_of p)) then p
          else if TargetShard ctx = self_shard cfg then
            (if FSM ctx = FSMSyncApplied \<and> PendingSyncAck ctx then
               (if IsMVSSDelta cfg then mvssSendDeltaAck sha cfg now a b p else mvssSendSyncAck cfg now a p)
             else p)
          else if SyncNeeded ctx \<and> FSM ctx = FSMPauseOld \<and> mvssPrefixOldReady ctx p
          then mvssSendSyncForAddr sha cfg now st a p
          else p)"

text \<open>\<open>st\<close> is the state tree of the block; \<open>addrs\<close> lists the keys of the context map in the order of \<open>range\<close>.\<close>

definition mvssOnBlockCommitted :: "(bytes \<Rightarrow> bytes) \<Rightarrow> (state_tree \<Rightarrow> bytes) \<Rightarrow> (timemap \<Rightarrow> timemap)
    \<Rightarrow> (int list \<Rightarrow> int list) \<Rightarrow> ChainConfig \<Rightarrow> int \<Rightarrow> state_tree \<Rightarrow> addr list \<Rightarrow> Block \<Rightarrow> Pbft \<Rightarrow> Pbft" where
  "mvssOnBlockCommitted sha rt rng rngt cfg now st addrs b p =
     (if \<not> IsMVSS cfg then p
      else
        (let p1 = (if IsMVSSDelta cfg then
               fold (\<lambda>m2. mvssFlushPendingTargetDeltas sha rt cfg (mig2_Address m2))
                 (filter (\<lambda>m2. mig2_Address m2 \<noteq> '''') (TXmig2s b)) p else p);
             p2 = fold (commit_mark rng) (Transactions b) p1;
             p3 = fold (after_block_step sha cfg now st b) addrs p2
         in if IsMVSSDelta cfg then mvssFlushAllOutboundStateIniAtBlockEnd rngt cfg now p3 else p3))"

text \<open>After the announcement the context goes, unless Stage 3 is still running.\<close>

definition mvssOnAnnounceDone :: "ChainConfig \<Rightarrow> addr \<Rightarrow> MigGlobals \<Rightarrow> MigGlobals" where
  "mvssOnAnnounceDone cfg a mg =
     (let busy = (case GetMigCtx a mg of
            None \<Rightarrow> False
          | Some ctx \<Rightarrow> IsMVSS cfg \<and> FSM ctx \<in> set [FSMPauseOld, FSMSyncOut, FSMWaitSyncIni, FSMSyncApplied])
      in if busy then mg else ClearMigAbort a (DeleteMigPendingDelta a (DeleteMigCtx a mg)))"

end
