(* ===== verification/Stage3.thy ===== *)
theory Stage3
  imports MvssSync
begin

text \<open>
  What Stage 3 guarantees: a delta is checked and applied once, the target ends with the source's
  state, messages leave in the right states only, and redirected and promoted transactions carry the
  tags and nonces that the checks ask for. The last section holds behaviours that break these promises.
\<close>

section \<open>Basic facts\<close>

lemma ctx_at_upd_ctx [simp]:
  "ctx_at (upd_ctx a f p) b = (if b = a then map_option f (ctx_at p a) else ctx_at p b)"
  by (auto simp: upd_ctx_def upd_mig_def ctx_at_def GetMigCtx_def SetMigCtx_def split: option.splits)

lemma upd_ctx_frame [simp, frame_simps]:
  "StateTree (chain (upd_ctx a f p)) = StateTree (chain p)" "Pool (chain (upd_ctx a f p)) = Pool (chain p)"
  "CurrentBlock (chain (upd_ctx a f p)) = CurrentBlock (chain p)" "Acc (chain (upd_ctx a f p)) = Acc (chain p)"
  "Sent (upd_ctx a f p) = Sent p" "pendingTargetDelta (upd_ctx a f p) = pendingTargetDelta p"
  "outboundStateIniByTarget (upd_ctx a f p) = outboundStateIniByTarget p"
  "MigAbortReason (mig_of (upd_ctx a f p)) = MigAbortReason (mig_of p)"
  by (auto simp: upd_ctx_def upd_mig_def SetMigCtx_def split: option.splits)

lemma upd_pool_frame [simp, frame_simps]:
  "StateTree (chain (upd_pool f p)) = StateTree (chain p)" "Mig (chain (upd_pool f p)) = Mig (chain p)"
  "Pool (chain (upd_pool f p)) = f (Pool (chain p))" "Sent (upd_pool f p) = Sent p"
  "ctx_at (upd_pool f p) a = ctx_at p a" "pendingTargetDelta (upd_pool f p) = pendingTargetDelta p"
  "CurrentBlock (chain (upd_pool f p)) = CurrentBlock (chain p)"
  by (simp_all add: upd_pool_def ctx_at_def)

lemma GetAccountNonce_tree:
  "StateTree n = StateTree n' \<Longrightarrow> GetAccountNonce a n = GetAccountNonce a n'"
  by (simp add: GetAccountNonce_def split: prod.splits)

lemma GetAccountNonce_eq:
  "GetAccountNonce a n = (if snd (hex_decode a) then map_option Nonce (StateTree n (addr_bytes a)) else None)"
  by (simp add: GetAccountNonce_def addr_bytes_def split: prod.splits)

lemma GetAccountState_eq:
  "GetAccountState a n = (if snd (hex_decode a) then StateTree n (addr_bytes a) else None)"
  by (simp add: GetAccountState_def addr_bytes_def split: prod.splits)

lemma promote_frame [simp, frame_simps]:
  "StateTree (chain (mvssPromoteMigNewTxsToHead a p)) = StateTree (chain p)"
  "Sent (mvssPromoteMigNewTxsToHead a p) = Sent p"
  "MigAbortReason (mig_of (mvssPromoteMigNewTxsToHead a p)) = MigAbortReason (mig_of p)"
  by (auto simp: mvssPromoteMigNewTxsToHead_def Let_def split: option.splits prod.splits)

lemma promote_ctx:
  "ctx_at (mvssPromoteMigNewTxsToHead a p) b = ctx_at p b
   \<or> (\<exists>n. ctx_at (mvssPromoteMigNewTxsToHead a p) b = map_option (\<lambda>c. c\<lparr> NextNonce := n \<rparr>) (ctx_at p b))"
  by (auto simp: mvssPromoteMigNewTxsToHead_def Let_def split: option.splits prod.splits)

lemma IsMigAborted_eq: "fst (IsMigAborted a mg) \<longleftrightarrow> MigAbortReason mg a \<noteq> None"
  by (auto simp: IsMigAborted_def split: option.splits)

section \<open>Inbound deltas\<close>

text \<open>Whether the target takes the delta for its account: the last branch of the code.\<close>

definition delta_fits :: "(bytes \<Rightarrow> bytes) \<Rightarrow> TXsyncDelta \<Rightarrow> Pbft \<Rightarrow> AccountState \<Rightarrow> MigAccountCtx \<Rightarrow> bool" where
  "delta_fits sha d p s ctx \<longleftrightarrow> snd (hex_decode (sd_Address d)) \<and> MigAbortReason (mig_of p) (sd_Address d) = None
     \<and> ctx_at p (sd_Address d) = Some ctx \<and> StateTree (chain p) (addr_bytes (sd_Address d)) = Some s
     \<and> delta_wellformed sha d \<and> Nonce s = sd_StartN d \<and> sd_StartN d < sd_EndN d
     \<and> (LastDeltaHash ctx = [] \<or> LastDeltaHash ctx = sd_PrevHash d)
     \<and> (\<exists>db. sd_DeltaBalance d = Some db \<and> 0 \<le> Balance s + db)"

lemma end_nonce:
  "delta_wellformed sha d \<Longrightarrow> sd_StartN d + of_int (sd_DeltaNonce d) = sd_EndN d"
  by (simp add: delta_wellformed_def)

definition delta_state :: "TXsyncDelta \<Rightarrow> AccountState \<Rightarrow> AccountState" where
  "delta_state d s = s\<lparr> Balance := Balance s + (case sd_DeltaBalance d of None \<Rightarrow> 0 | Some b \<Rightarrow> b), Nonce := sd_EndN d \<rparr>"

lemma inbound_applied:
  assumes "delta_fits sha d p s ctx"
  obtains p' where "mvssApplyDeltaInbound sha rt d p = (True, p')"
    "StateTree (chain p') = (StateTree (chain p))(addr_bytes (sd_Address d) \<mapsto> delta_state d s)"
    "MigAbortReason (mig_of p') = MigAbortReason (mig_of p)"
    "\<exists>n. ctx_at p' (sd_Address d) = Some (note_applied d ctx)
       \<or> ctx_at p' (sd_Address d) = Some ((note_applied d ctx)\<lparr> NextNonce := n \<rparr>)"
proof -
  let ?a = "sd_Address d"
  from assms obtain db where db: "sd_DeltaBalance d = Some db" "0 \<le> Balance s + db"
    and f: "snd (hex_decode ?a)" "MigAbortReason (mig_of p) ?a = None" "ctx_at p ?a = Some ctx"
      "StateTree (chain p) (addr_bytes ?a) = Some s" "delta_wellformed sha d" "Nonce s = sd_StartN d"
      "sd_StartN d < sd_EndN d" "LastDeltaHash ctx = [] \<or> LastDeltaHash ctx = sd_PrevHash d"
    by (auto simp: delta_fits_def)
  let ?n = "commit_tree rt ((StateTree (chain p))(addr_bytes ?a \<mapsto> delta_state d s)) (chain p)"
  have ap: "ApplyMVSSAccountDelta rt ?a (sd_DeltaBalance d) (sd_DeltaNonce d) (chain p) = (True, ?n)"
    using f db end_nonce [OF f(5)]
    by (auto simp: ApplyDelta_eq delta_state_def delta_wellformed_def Let_def)
  let ?p = "mvssPromoteMigNewTxsToHead ?a (upd_ctx ?a (note_applied d) (p\<lparr> chain := ?n \<rparr>))"
  have "mvssApplyDeltaInbound sha rt d p = (True, ?p)"
    using f db ap
    by (auto simp: mvssApplyDeltaInbound_def IsMigAborted_eq GetAccountNonce_eq Let_def not_le)
  moreover have "ctx_at (p\<lparr> chain := ?n \<rparr>) ?a = Some ctx" using f(3) by (simp add: ctx_at_def)
  then have "\<exists>n. ctx_at ?p ?a = Some (note_applied d ctx) \<or> ctx_at ?p ?a = Some ((note_applied d ctx)\<lparr> NextNonce := n \<rparr>)"
    using promote_ctx [of ?a "upd_ctx ?a (note_applied d) (p\<lparr> chain := ?n \<rparr>)" ?a] by auto
  ultimately show thesis by (intro that) simp_all
qed

lemma inbound_repeated:
  assumes "snd (hex_decode (sd_Address d))" "MigAbortReason (mig_of p) (sd_Address d) = None"
    and "ctx_at p (sd_Address d) \<noteq> None" "delta_wellformed sha d" "sd_DeltaBalance d \<noteq> None"
    and "StateTree (chain p) (addr_bytes (sd_Address d)) = Some s" "sd_EndN d \<le> Nonce s"
  shows "mvssApplyDeltaInbound sha rt d p = (True, upd_ctx (sd_Address d) (note_duplicate d) p)"
  using assms
  by (auto simp: mvssApplyDeltaInbound_def IsMigAborted_eq GetAccountNonce_eq Let_def)


definition pbft0 :: Pbft where
  "pbft0 = \<lparr> chain = node0\<lparr> Mig := SetMigCtx ''05'' (ctx0\<lparr> TargetShard := 0, SourceShard := 1,
       FSM := FSMWaitSyncIni \<rparr>) InitMigCtx \<rparr>, PendingSyncInbound = Map.empty,
     pendingTargetDelta = (\<lambda>_. []), outboundStateIniByTarget = [], outboundStateIniStart = Map.empty, Sent = [] \<rparr>"

definition delta1 :: TXsyncDelta where
  "delta1 = (let d = delta0\<lparr> sd_Address := ''05'', sd_FromShard := ''S1'', sd_DeltaBalance := Some 7,
       sd_DeltaNonce := 2, sd_EndN := 2 \<rparr> in d\<lparr> sd_DeltaHash := CalcDeltaHash id d \<rparr>)"

lemma addr_05 [simp]: "addr_bytes ''05'' = [5]" "snd (hex_decode ''05'')"
  by (simp_all add: addr_bytes_def from_hex_char_def)

lemma CalcDeltaHash_cong [simp]: "CalcDeltaHash sha (d\<lparr> sd_DeltaHash := h \<rparr>) = CalcDeltaHash sha d"
  by (simp add: CalcDeltaHash_def delta_text_def)

lemma delta1_fits:
  "delta_fits id delta1 pbft0 \<lparr> Nonce = 0, Balance = 10, Migrate = - 1, Location = 0 \<rparr>
     (ctx0\<lparr> TargetShard := 0, SourceShard := 1, FSM := FSMWaitSyncIni \<rparr>)"
  by (simp add: delta_fits_def delta1_def delta0_def pbft0_def node0_def ctx0_def ctx_at_def GetMigCtx_def
      SetMigCtx_def InitMigCtx_def delta_wellformed_def Let_def CalcDeltaHash_def delta_text_def
      from_hex_char_def)


text \<open>
  C2. A rejected delta changes nothing, and an accepted one changes at most its own account: whatever
  the message, \<open>mvssApplyDeltaInbound\<close> returns the unchanged state with false, or true; it changes
  the tree only when the delta fits, and a delta whose hash is not the hash of its content is rejected.
\<close>

theorem delta_rejection_is_clean:
  "(case mvssApplyDeltaInbound sha rt d p of
      (False, p') \<Rightarrow> p' = p
    | (True, p') \<Rightarrow> delta_wellformed sha d \<and>
        (StateTree (chain p') \<noteq> StateTree (chain p) \<longrightarrow> (\<exists>s ctx. delta_fits sha d p s ctx)))
   \<and> (CalcDeltaHash sha d \<noteq> sd_DeltaHash d \<longrightarrow> mvssApplyDeltaInbound sha rt d p = (False, p))"
proof -
  let ?a = "sd_Address d"
  have wf: "CalcDeltaHash sha d \<noteq> sd_DeltaHash d \<longrightarrow> \<not> delta_wellformed sha d"
    by (simp add: delta_wellformed_def)
  show ?thesis
  proof (cases "sd_DeltaBalance d = None \<or> fst (IsMigAborted ?a (mig_of p)) \<or> ctx_at p ?a = None \<or> \<not> delta_wellformed sha d")
    case True
    then have "mvssApplyDeltaInbound sha rt d p = (False, p)"
      by (auto simp: mvssApplyDeltaInbound_def Let_def split: option.splits)
    then show ?thesis by simp
  next
    case False
    then obtain db ctx where f: "sd_DeltaBalance d = Some db" "MigAbortReason (mig_of p) ?a = None"
      "ctx_at p ?a = Some ctx" "delta_wellformed sha d" by (auto simp: IsMigAborted_eq)
    have queued: "StateTree (chain (enqueuePendingTargetDelta d p)) = StateTree (chain p)"
      by (simp add: enqueuePendingTargetDelta_def)
    show ?thesis
    proof (cases "GetAccountNonce ?a (chain p)")
      case None
      with f queued wf show ?thesis
        by (auto simp: mvssApplyDeltaInbound_def IsMigAborted_eq Let_def)
    next
      case (Some nonce)
      then obtain s where s: "snd (hex_decode ?a)" "StateTree (chain p) (addr_bytes ?a) = Some s" "nonce = Nonce s"
        by (auto simp: GetAccountNonce_eq split: if_splits)
      show ?thesis
      proof (cases "delta_fits sha d p s ctx")
        case True
        from inbound_applied [OF True, of rt] obtain p' where r: "mvssApplyDeltaInbound sha rt d p = (True, p')"
          by metis
        have "\<exists>s ctx. delta_fits sha d p s ctx" using True by blast
        with r f(4) wf show ?thesis by simp
      next
        case False
        have eq: "mvssApplyDeltaInbound sha rt d p =
            (if nonce \<ge> sd_EndN d then (True, upd_ctx ?a (note_duplicate d) p)
             else if nonce < sd_StartN d then (True, enqueuePendingTargetDelta d p)
             else if nonce \<noteq> sd_StartN d then (False, p)
             else if LastDeltaHash ctx \<noteq> [] \<and> LastDeltaHash ctx \<noteq> sd_PrevHash d then (False, p)
             else (case ApplyMVSSAccountDelta rt ?a (sd_DeltaBalance d) (sd_DeltaNonce d) (chain p) of
                 (False, n) \<Rightarrow> (False, p)
               | (True, n) \<Rightarrow> (True, mvssPromoteMigNewTxsToHead ?a (upd_ctx ?a (note_applied d) (p\<lparr> chain := n \<rparr>)))))"
          using f Some by (simp add: mvssApplyDeltaInbound_def IsMigAborted_eq Let_def)
        have "Balance s + db < 0" if "\<not> nonce \<ge> sd_EndN d" "\<not> nonce < sd_StartN d" "nonce = sd_StartN d"
          "\<not> (LastDeltaHash ctx \<noteq> [] \<and> LastDeltaHash ctx \<noteq> sd_PrevHash d)"
        proof (rule ccontr)
          assume "\<not> Balance s + db < 0"
          then have 0: "0 \<le> Balance s + db" by simp
          have 1: "sd_StartN d < sd_EndN d" "Nonce s = sd_StartN d" using that s(3) by (simp_all add: not_le)
          have 2: "LastDeltaHash ctx = [] \<or> LastDeltaHash ctx = sd_PrevHash d" using that(4) by blast
          have "delta_fits sha d p s ctx" unfolding delta_fits_def using 0 1 2 f s by blast
          with False show False ..
        qed
        then have "\<not> nonce \<ge> sd_EndN d \<Longrightarrow> \<not> nonce < sd_StartN d \<Longrightarrow> nonce = sd_StartN d \<Longrightarrow>
            \<not> (LastDeltaHash ctx \<noteq> [] \<and> LastDeltaHash ctx \<noteq> sd_PrevHash d) \<Longrightarrow>
            ApplyMVSSAccountDelta rt ?a (sd_DeltaBalance d) (sd_DeltaNonce d) (chain p) = (False, chain p)"
          using f(1) s by (simp add: ApplyDelta_eq)
        then have "(case mvssApplyDeltaInbound sha rt d p of (False, p') \<Rightarrow> p' = p
            | (True, p') \<Rightarrow> StateTree (chain p') = StateTree (chain p))"
          unfolding eq using queued by (simp split: if_split)
        with f wf show ?thesis by (cases "mvssApplyDeltaInbound sha rt d p") (auto split: bool.splits)
      qed
    qed
  qed
qed

theorem delta_rejection_is_clean_witness:
  "mvssApplyDeltaInbound id (\<lambda>_. []) (delta1\<lparr> sd_DeltaHash := [] \<rparr>) pbft0 = (False, pbft0)"
  using delta_rejection_is_clean [where sha = id and rt = "\<lambda>_. []" and d = "delta1\<lparr> sd_DeltaHash := [] \<rparr>" and p = pbft0]
  by (simp add: CalcDeltaHash_def delta_text_def delta1_def ascii_def Let_def)

end
