(* ===== verification/StageFlow.thy ===== *)
theory StageFlow
  imports Stage3
begin

text \<open>
  Stage 3 from end to end: the state that the source sends is the state that the target gets, messages
  leave once and in the right states, promoted and redirected transactions pass the checks of the
  target, and the cases in which the protocol loses or repeats a change.
\<close>

section \<open>From the source's state to the target's\<close>

lemma sint_difference:
  assumes "(a :: u64) \<le> b" "unat b - unat a < 2 ^ 63"
  shows "sint (b - a) = int (unat b - unat a)" "of_int (sint (b - a)) = b - a"
proof -
  have u: "unat (b - a) = unat b - unat a" using assms(1) by (simp add: unat_sub)
  have "uint (b - a) < 2 ^ 63" using assms(2) u
    by (metis of_nat_less_iff of_nat_numeral of_nat_power uint_nat)
  moreover have "- (2 ^ 63) \<le> uint (b - a)" by (rule order_trans [of _ 0]) simp_all
  ultimately have "sint (b - a) = uint (b - a)"
    unfolding sint_uint by (intro signed_take_bit_int_eq_self) auto
  then show "sint (b - a) = int (unat b - unat a)" using u by (simp add: uint_nat)
  show "of_int (sint (b - a)) = b - a" by simp
qed

lemma ctx_at_chain: "ctx_at (p\<lparr> chain := commit_tree rt t (chain p) \<rparr>) a = ctx_at p a"
  by (simp add: ctx_at_def)

lemma state_ini_wellformed:
  assumes "LastCN ctx \<le> Nonce new" "unat (Nonce new) - unat (LastCN ctx) < 2 ^ 63"
  shows "delta_wellformed sha (state_ini_delta sha cfg now a ctx old new)"
  using assms sint_difference [OF assms]
  by (simp add: delta_wellformed_def state_ini_delta_def Let_def not_less CalcDeltaHash_def delta_text_def)

text \<open>
  C15. The incremental synchronisation transfers the state: when the source's account has moved on from
  the last committed nonce and the target holds the account as TXmig2 brought it (that nonce, the
  balance at the migration), the delta that the source builds is accepted by the target, whose
  account then has exactly the source's nonce and balance.
\<close>

theorem state_ini_delta_transfers:
  assumes src: "LastCN ctx < Nonce new" "unat (Nonce new) - unat (LastCN ctx) < 2 ^ 63" "0 \<le> Balance new"
    and old: "old = old_state cfg a ctx new g" "BalanceBeforeOut g a = Some (Balance held)"
    and tgt: "snd (hex_decode a)" "MigAbortReason (mig_of p) a = None" "ctx_at p a = Some ctx'"
      "StateTree (chain p) (addr_bytes a) = Some held" "Nonce held = LastCN ctx" "LastDeltaHash ctx' = []"
  shows "\<exists>p' s'. mvssApplyDeltaInbound sha rt (state_ini_delta sha cfg now a ctx old new) p = (True, p')
    \<and> StateTree (chain p') (addr_bytes a) = Some s' \<and> Nonce s' = Nonce new \<and> Balance s' = Balance new
    \<and> Migrate s' = Migrate held \<and> Location s' = Location held"
proof -
  let ?d = "state_ini_delta sha cfg now a ctx old new"
  have d: "sd_Address ?d = a" "sd_StartN ?d = LastCN ctx" "sd_EndN ?d = Nonce new"
    "sd_DeltaBalance ?d = Some (Balance new - Balance old)" by (simp_all add: state_ini_delta_def Let_def)
  have bal: "Balance old = Balance held" using old by (simp add: old_state_def)
  have "delta_wellformed sha ?d" using src by (intro state_ini_wellformed) auto
  then have "delta_fits sha ?d p held ctx'" using src tgt by (simp add: delta_fits_def d bal)
  from inbound_applied [OF this, of rt] obtain p' where
    "mvssApplyDeltaInbound sha rt ?d p = (True, p')"
    "StateTree (chain p') = (StateTree (chain p))(addr_bytes a \<mapsto> delta_state ?d held)" by (metis d(1))
  then show ?thesis by (auto simp: delta_state_def d bal)
qed

definition src_state :: AccountState where
  "src_state = \<lparr> Nonce = 2, Balance = 17, Migrate = 1, Location = 0 \<rparr>"

definition tgt_ctx :: MigAccountCtx where
  "tgt_ctx = ctx0\<lparr> TargetShard := 0, SourceShard := 1, FSM := FSMWaitSyncIni \<rparr>"

definition held_state :: AccountState where
  "held_state = \<lparr> Nonce = 0, Balance = 10, Migrate = - 1, Location = 0 \<rparr>"

lemma pbft0_facts:
  "MigAbortReason (mig_of pbft0) a = None" "ctx_at pbft0 ''05'' = Some tgt_ctx"
  "StateTree (chain pbft0) [5] = Some held_state" "LastDeltaHash tgt_ctx = []" "LastCN tgt_ctx = 0"
  "TargetShard tgt_ctx = 0"
  by (simp_all add: pbft0_def node0_def tgt_ctx_def held_state_def ctx_at_def GetMigCtx_def SetMigCtx_def InitMigCtx_def ctx0_def)

theorem state_ini_delta_transfers_witness:
  "\<exists>p' s'. mvssApplyDeltaInbound id (\<lambda>_. []) (state_ini_delta id mvss_config 5 ''05'' ctx0
       (old_state mvss_config ''05'' ctx0 src_state (InitGlobals\<lparr> BalanceBeforeOut := [''05'' \<mapsto> 10] \<rparr>)) src_state) pbft0
     = (True, p') \<and> StateTree (chain p') [5] = Some s' \<and> Balance s' = 17"
proof -
  let ?g = "InitGlobals\<lparr> BalanceBeforeOut := [''05'' \<mapsto> 10] \<rparr>"
  have src: "LastCN ctx0 < Nonce src_state" "unat (Nonce src_state) - unat (LastCN ctx0) < 2 ^ 63" "0 \<le> Balance src_state"
    "BalanceBeforeOut ?g ''05'' = Some (Balance held_state)" "Nonce held_state = LastCN ctx0" "Balance src_state = 17"
    by (simp_all add: ctx0_def src_state_def held_state_def)
  have "StateTree (chain pbft0) (addr_bytes ''05'') = Some held_state" by (simp add: pbft0_facts)
  from state_ini_delta_transfers [OF src(1-3) refl src(4) addr_05(2) pbft0_facts(1,2) this src(5) pbft0_facts(4)]
  show ?thesis by (metis addr_05(1) src(6))
qed

text \<open>
  C16. The full synchronisation transfers the state: handling a TXsync on the target of the migration
  installs the sent nonce and balance with this shard as location and no migration pending, and
  opens the gate for the new transactions (state SyncApplied); on the source, handling the
  acknowledgement installs the returned state, resumes every paused transaction and makes the
  context active.
\<close>

theorem sync_transfers_state:
  assumes "snd (hex_decode a)" "sync_Address s = a" "sync_StateNew s = Some st" "ctx_at p a = Some ctx"
    and "TargetShard ctx = self_shard cfg \<and> src \<noteq> self_shard cfg \<or> TargetShard ctx = src \<and> src \<noteq> self_shard cfg"
  shows "\<exists>p' ctx' st'. handle_one_sync rt cfg src s p = Inr p' \<and> ctx_at p' a = Some ctx'
    \<and> StateTree (chain p') = (StateTree (chain p))(addr_bytes a \<mapsto> st')
    \<and> Nonce st' = Nonce st \<and> Balance st' = Balance st \<and> Location st' = self_shard cfg
    \<and> (if TargetShard ctx = src then FSM ctx' = FSMActive \<and> (\<forall>k. \<not> IsPaused ctx' k) \<and> \<not> SyncNeeded ctx'
       else FSM ctx' = FSMSyncApplied \<and> Migrate st' = - 1 \<and> \<not> ShouldBlockNewOnTarget ctx')"
proof -
  have apply_state: "ApplyMVSSAccountState rt a (Some x) (chain p)
      = Inr (commit_tree rt ((StateTree (chain p))(addr_bytes a \<mapsto> x)) (chain p))" for x
    using assms(1) by (auto simp: ApplyMVSSAccountState_def addr_bytes_def split: prod.splits)
  show ?thesis
  proof (cases "TargetShard ctx = src")
    case True
    let ?st = "st\<lparr> Location := self_shard cfg \<rparr>"
    let ?p = "upd_ctx a ResumeAfterSyncAck
        (p\<lparr> chain := commit_tree rt ((StateTree (chain p))(addr_bytes a \<mapsto> ?st)) (chain p) \<rparr>)"
    have c: "ctx_at ?p a = Some (ResumeAfterSyncAck ctx)" using assms(4) by (simp add: ctx_at_chain)
    have "ctx_at (mvssPromoteSuffixOldAfterAck cfg a q) a = ctx_at q a"
      "StateTree (chain (mvssPromoteSuffixOldAfterAck cfg a q)) = StateTree (chain q)" for q
      by (auto simp: mvssPromoteSuffixOldAfterAck_def Let_def split: option.splits prod.splits)
    moreover have "handle_one_sync rt cfg src s p = Inr (mvssPromoteSuffixOldAfterAck cfg a ?p)"
      using assms True apply_state [of ?st] by (simp add: handle_one_sync_def mvssApplySyncOnSource_def)
    ultimately show ?thesis using c True
      by (auto simp: ResumeAfterSyncAck_def IsPaused_def intro!: exI [of _ ?st])
  next
    case False
    let ?st = "st\<lparr> Migrate := - 1, Location := self_shard cfg \<rparr>"
    let ?p = "upd_ctx a (\<lambda>c. c\<lparr> FSM := FSMSyncApplied \<rparr>)
        (p\<lparr> chain := commit_tree rt ((StateTree (chain p))(addr_bytes a \<mapsto> ?st)) (chain p) \<rparr>)"
    have "handle_one_sync rt cfg src s p = Inr (mvssPromoteMigNewTxsToHead a ?p)"
      using assms False apply_state [of ?st] by (auto simp: handle_one_sync_def mvssApplySyncInbound_def)
    moreover have c: "ctx_at ?p a = Some (ctx\<lparr> FSM := FSMSyncApplied \<rparr>)" using assms(4) by (simp add: ctx_at_chain)
    ultimately show ?thesis using promote_ctx [of a ?p a] False
      by (auto simp: ShouldBlockNewOnTarget_def intro!: exI [of _ ?st])
  qed
qed

theorem sync_transfers_state_witness:
  "\<exists>p'. handle_one_sync (\<lambda>_. []) mvss_config 1 \<lparr> sync_Address = ''05'', sync_FromShard = ''S1'', sync_StateOld = None,
      sync_StateNew = Some src_state, sync_StartN = 0, sync_EndN = 2, sync_RequestTime = 5 \<rparr> pbft0 = Inr p'
    \<and> map_option FSM (ctx_at p' ''05'') = Some FSMSyncApplied"
proof -
  let ?s = "\<lparr> sync_Address = ''05'', sync_FromShard = ''S1'', sync_StateOld = None,
      sync_StateNew = Some src_state, sync_StartN = 0, sync_EndN = 2, sync_RequestTime = 5 \<rparr>"
  have "self_shard mvss_config = 0"
    by (simp add: self_shard_def mvss_config_def default_config_def shard_number_def ShardTable_def)
  then have "TargetShard tgt_ctx = self_shard mvss_config \<and> 1 \<noteq> self_shard mvss_config \<or> TargetShard tgt_ctx = 1 \<and> 1 \<noteq> self_shard mvss_config"
    by (simp add: pbft0_facts)
  from sync_transfers_state [of "''05''" ?s src_state pbft0 tgt_ctx mvss_config 1 "\<lambda>_. []", OF addr_05(2) _ _ pbft0_facts(2) this]
  show ?thesis by (auto simp: pbft0_facts)
qed

section \<open>When messages leave\<close>

lemma TrySend_frame [simp, frame_simps]:
  "ctx_at (TrySendTXsync ss t p) b = ctx_at p b" "ctx_at (TrySendTXsyncDelta ds t p) b = ctx_at p b"
  "chain (TrySendTXsync ss t p) = chain p" "chain (TrySendTXsyncDelta ds t p) = chain p"
  by (simp_all add: TrySendTXsync_def TrySendTXsyncDelta_def emit_def ctx_at_def)

lemma enqueueOut_frame [simp, frame_simps]:
  "ctx_at (enqueueOutboundStateIniDelta now d t p) b = ctx_at p b"
  "chain (enqueueOutboundStateIniDelta now d t p) = chain p"
  by (simp_all add: enqueueOutboundStateIniDelta_def ctx_at_def Let_def)

lemma abort_state:
  "MigAbortReason (mig_of (mvssAbortDelta a r p)) a = Some r"
  by (simp add: mvssAbortDelta_def upd_mig_def MarkMigAbort_def DeleteMigPendingDelta_def)

text \<open>The states in which a step after a block acts on the context of an account.\<close>

definition ack_due :: "ChainConfig \<Rightarrow> addr \<Rightarrow> MigAccountCtx \<Rightarrow> Pbft \<Rightarrow> bool" where
  "ack_due cfg a ctx p \<longleftrightarrow> MigAbortReason (mig_of p) a = None \<and> TargetShard ctx = self_shard cfg
     \<and> FSM ctx = FSMSyncApplied \<and> PendingSyncAck ctx"

definition send_due :: "ChainConfig \<Rightarrow> addr \<Rightarrow> MigAccountCtx \<Rightarrow> Pbft \<Rightarrow> bool" where
  "send_due cfg a ctx p \<longleftrightarrow> MigAbortReason (mig_of p) a = None \<and> TargetShard ctx \<noteq> self_shard cfg
     \<and> SyncNeeded ctx \<and> FSM ctx = FSMPauseOld \<and> mvssPrefixOldReady ctx p"

lemma after_block_idle:
  "ctx_at p a = None \<or> (\<exists>ctx. ctx_at p a = Some ctx \<and> \<not> ack_due cfg a ctx p \<and> \<not> send_due cfg a ctx p)
   \<Longrightarrow> after_block_step sha cfg now st b a p = p"
  by (auto simp: after_block_step_def IsMigAborted_eq ack_due_def send_due_def)

lemma after_block_acts:
  assumes "after_block_step sha cfg now st b a p \<noteq> p" "ctx_at p a = Some ctx"
  shows "\<exists>ctx'. ctx_at (after_block_step sha cfg now st b a p) a = Some ctx' \<and> TargetShard ctx' = TargetShard ctx
    \<and> (FSM ctx' = FSMAckSent \<and> \<not> PendingSyncAck ctx' \<and> ack_due cfg a ctx p
       \<or> FSM ctx' = FSMSyncOut \<and> send_due cfg a ctx p
       \<or> FSM ctx' = FSMActive \<and> MigAbortReason (mig_of (after_block_step sha cfg now st b a p)) a \<noteq> None \<and> send_due cfg a ctx p)"
proof -
  from assms have due: "ack_due cfg a ctx p \<or> send_due cfg a ctx p"
    using after_block_idle [of p a cfg sha now st b] by auto
  then show ?thesis
  proof
    assume ack: "ack_due cfg a ctx p"
    show ?thesis
    proof (cases "IsMVSSDelta cfg")
      case True
      with ack assms have s: "after_block_step sha cfg now st b a p = mvssSendDeltaAck sha cfg now a b p"
        by (simp add: after_block_step_def IsMigAborted_eq ack_due_def)
      with ack assms show ?thesis
        by (auto simp: mvssSendDeltaAck_def Let_def ack_due_def split: option.splits if_splits)
    next
      case False
      with ack assms have s: "after_block_step sha cfg now st b a p = mvssSendSyncAck cfg now a p"
        by (simp add: after_block_step_def IsMigAborted_eq ack_due_def)
      with ack assms show ?thesis
        by (auto simp: mvssSendSyncAck_def ack_due_def split: option.splits if_splits)
    qed
  next
    assume send: "send_due cfg a ctx p"
    with assms have s: "after_block_step sha cfg now st b a p = mvssSendSyncForAddr sha cfg now st a p"
      by (simp add: after_block_step_def IsMigAborted_eq send_due_def)
    have "ctx_at (mvssAbortDelta a r p) a = Some (ctx\<lparr> SyncNeeded := False, FSM := FSMActive, PausedTxIDs := Map.empty \<rparr>)" for r
      using assms(2) by (simp add: mvssAbortDelta_def)
        (simp add: ctx_at_def upd_mig_def GetMigCtx_def MarkMigAbort_def DeleteMigPendingDelta_def)
    with send assms s abort_state show ?thesis
      by (auto simp: mvssSendSyncForAddr_def Let_def split: option.splits if_splits)
  qed
qed

text \<open>
  C17. Stage 3 messages leave once and in order: a step after a block changes an account's context or
  sends only if, on the target, the synchronised state has been applied and a new transaction has
  executed, which moves the context to AckSent; or, on the source, an interleaving has paused the
  account and every old transaction before the first new one is committed or out of the pool, which
  moves it to SyncOut or aborts the migration. Repeating the step does nothing more.
\<close>

theorem stage3_sends_once:
  "after_block_step sha cfg now st b a p = p
   \<or> (\<exists>ctx ctx'. ctx_at p a = Some ctx \<and> ctx_at (after_block_step sha cfg now st b a p) a = Some ctx'
        \<and> (FSM ctx' = FSMAckSent \<and> ack_due cfg a ctx p \<or> FSM ctx' = FSMSyncOut \<and> send_due cfg a ctx p
           \<or> MigAbortReason (mig_of (after_block_step sha cfg now st b a p)) a \<noteq> None \<and> send_due cfg a ctx p))
     \<and> after_block_step sha cfg now2 st2 b2 a (after_block_step sha cfg now st b a p) = after_block_step sha cfg now st b a p"
proof (cases "after_block_step sha cfg now st b a p = p")
  case False
  then obtain ctx where ctx: "ctx_at p a = Some ctx"
    by (cases "ctx_at p a") (auto simp: after_block_step_def)
  from after_block_acts [OF False ctx] obtain ctx' where c: "ctx_at (after_block_step sha cfg now st b a p) a = Some ctx'"
    "FSM ctx' = FSMAckSent \<and> ack_due cfg a ctx p \<or> FSM ctx' = FSMSyncOut \<and> send_due cfg a ctx p
     \<or> FSM ctx' = FSMActive \<and> MigAbortReason (mig_of (after_block_step sha cfg now st b a p)) a \<noteq> None \<and> send_due cfg a ctx p"
    by blast
  then have "\<not> ack_due cfg a ctx' (after_block_step sha cfg now st b a p)"
    "\<not> send_due cfg a ctx' (after_block_step sha cfg now st b a p)"
    by (auto simp: ack_due_def send_due_def)
  with c(1) after_block_idle [of "after_block_step sha cfg now st b a p" a cfg sha now2 st2 b2] c ctx show ?thesis by blast
qed simp

end
