(* ===== verification/Redirect.thy ===== *)
theory Redirect
  imports StageFlow
begin

text \<open>
  The target's side of \<open>TXmig2\<close> (\<open>handleMig2\<close> of \<open>pbft/pbft.go\<close>), and the transactions that Stage 3
  moves: those promoted to the front of a pool carry the nonces that the state asks for, and those
  redirected to the target carry the tag and the nonce that its check asks for.
\<close>

section \<open>handleMig2\<close>

text \<open>The context that the target keeps for an account that comes in.\<close>

definition mig1_ctx :: "ChainConfig \<Rightarrow> TXmig1 \<Rightarrow> MigAccountCtx" where
  "mig1_ctx cfg m1 = \<lparr> SourceShard = mig1_FromshardID m1, TargetShard = self_shard cfg,
     Mig1Time = mig1_Request_Time m1, LastCN = mig1_LastCN m1, SyncNeeded = mig1_Sync m1,
     MigNonce = mig1_LastCN m1, NextNonce = mig1_LastCN m1, OrderList = mig1_OrderList m1,
     ArrivalList = [], CommittedTx = Map.empty, FirstNewTxID = 0, PausedTxIDs = Map.empty,
     FSM = (if mig1_Sync m1 \<and> IsMVSS cfg \<and> EnableSyncProbe cfg then FSMWaitSyncIni else FSMActive),
     PendingSyncAck = False, LastDeltaHash = [] \<rparr>"

definition set_mig2_ctx :: "(state_tree \<Rightarrow> bytes) \<Rightarrow> ChainConfig \<Rightarrow> TXmig2 \<Rightarrow> Pbft \<Rightarrow> Pbft res" where
  "set_mig2_ctx rt cfg m2 p =
     (case mig2_Txmig1 m2 of
        None \<Rightarrow> Inr p
      | Some m1 \<Rightarrow> mvssTryApplyPendingSyncInbound rt cfg (mig1_Address m1)
          (upd_mig (SetMigCtx (mig1_Address m1) (mig1_ctx cfg m1)) p))"

definition handleMig2 :: "(state_tree \<Rightarrow> bytes) \<Rightarrow> ChainConfig \<Rightarrow> TXmig2 list \<Rightarrow> Pbft \<Rightarrow> Pbft res" where
  "handleMig2 rt cfg m2s p =
     (let pools = Pools (chain p);
          p1 = p\<lparr> chain := (chain p)\<lparr> Pools := pools\<lparr> mp_mig2 := AddTXmig2s m2s (mp_mig2 pools) \<rparr> \<rparr> \<rparr>
      in if IsMVSSPlus cfg then fold_res (set_mig2_ctx rt cfg) m2s p1 else Inr p1)"

section \<open>Promotion\<close>

lemma pull_front_eq:
  "pull_front P n q = (h, t, n') \<Longrightarrow> t = filter (\<lambda>x. \<not> P x) q \<and> n' = n + of_nat (length h)
     \<and> length h = length (filter P q) \<and> map TxId h = map TxId (filter P q)
     \<and> accept_nonces n (map TxNonce h) = n'
     \<and> (\<forall>i < length h. h ! i = (filter P q ! i)\<lparr> TxNonce := n + of_nat i \<rparr>)"
proof (induction P n q arbitrary: h t n' rule: pull_front.induct)
  case (2 P n v vs)
  show ?case
  proof (cases "P v")
    case True
    with "2.prems" obtain h' where h: "h = v\<lparr> TxNonce := n \<rparr> # h'" "pull_front P (n + 1) vs = (h', t, n')"
      by (auto split: prod.splits)
    from "2.IH"(1) [OF True h(2)] show ?thesis
      using True by (auto simp: h(1) nth_Cons less_Suc_eq_0_disj algebra_simps split: nat.splits)
  next
    case False
    with "2.prems" obtain t' where h: "t = v # t'" "pull_front P n vs = (h, t', n')"
      by (auto split: prod.splits)
    from "2.IH"(2) [OF False h(2)] False show ?thesis by (simp add: h(1))
  qed
qed simp

text \<open>
  C18. Promotion makes the account's new transactions executable: it only reorders the pool, the
  transactions of the account that came after the migration move to the front in their order, all
  others keep theirs, and their nonces continue the account's nonce on this shard, so that executing
  them in pool order accepts every one and brings the account to \<open>NextNonce\<close>.
\<close>

theorem promotion_makes_executable:
  assumes ctx: "ctx_at p a = Some ctx" and n: "GetAccountNonce a (chain p) = Some n"
    and new: "\<And>tx. new tx = (from_addr tx = a \<and> IsTXNew (Mig1Time ctx) (RequestTime tx))"
  shows "\<exists>head ctx'. Queue (Pool (chain (mvssPromoteMigNewTxsToHead a p)))
        = head @ filter (\<lambda>tx. \<not> new tx) (Queue (Pool (chain p)))
    \<and> map TxId head = map TxId (filter new (Queue (Pool (chain p))))
    \<and> (\<forall>tx \<in> set head. new tx)
    \<and> accept_nonces n (map TxNonce head) = n + of_nat (length head)
    \<and> ctx_at (mvssPromoteMigNewTxsToHead a p) a = Some ctx'
    \<and> NextNonce ctx' = (if head = [] then NextNonce ctx else n + of_nat (length head))"
proof -
  have nw: "new = (\<lambda>tx. from_addr tx = a \<and> IsTXNew (Mig1Time ctx) (RequestTime tx))"
    using new by auto
  obtain h t n' where pf: "pull_front new n (Queue (Pool (chain p))) = (h, t, n')"
    by (cases "pull_front new n (Queue (Pool (chain p)))") auto
  note h = pull_front_eq [OF pf]
  have all: "\<forall>tx \<in> set h. new tx"
  proof
    fix tx assume "tx \<in> set h"
    then obtain i where i: "i < length h" "tx = h ! i" by (auto simp: in_set_conv_nth)
    with h have tx: "tx = (filter new (Queue (Pool (chain p))) ! i)\<lparr> TxNonce := n + of_nat i \<rparr>"
      and "i < length (filter new (Queue (Pool (chain p))))" by simp_all
    from nth_mem [OF this(2)] have "new (filter new (Queue (Pool (chain p))) ! i)" by simp
    then show "new tx" unfolding tx by (simp add: new from_addr_def)
  qed
  show ?thesis
  proof (cases "h = []")
    case True
    with h have "filter new (Queue (Pool (chain p))) = []" by simp
    then have f: "filter (\<lambda>tx. \<not> new tx) (Queue (Pool (chain p))) = Queue (Pool (chain p))"
      "filter new (Queue (Pool (chain p))) = []" by (simp_all add: filter_empty_conv)
    have "mvssPromoteMigNewTxsToHead a p = p"
      using ctx n pf True by (simp add: mvssPromoteMigNewTxsToHead_def nw)
    with ctx f show ?thesis by (intro exI [of _ "[]"] exI [of _ ctx]) simp
  next
    case False
    then have "mvssPromoteMigNewTxsToHead a p = upd_ctx a (\<lambda>c. c\<lparr> NextNonce := n' \<rparr>)
        (upd_pool (\<lambda>pool. pool\<lparr> Queue := h @ t \<rparr>) p)"
      using ctx n pf by (simp add: mvssPromoteMigNewTxsToHead_def nw)
    moreover have "ctx_at (upd_ctx a (\<lambda>c. c\<lparr> NextNonce := n' \<rparr>) (upd_pool (\<lambda>pool. pool\<lparr> Queue := h @ t \<rparr>) p)) a
        = Some (ctx\<lparr> NextNonce := n' \<rparr>)" using ctx by simp
    ultimately show ?thesis using False h all
      by (intro exI [of _ h] exI [of _ "ctx\<lparr> NextNonce := n' \<rparr>"]) simp
  qed
qed

lemma hex_05: "hex_encode [5] = ''05''" "hex_encode [6] = ''06''"
  by code_simp+

definition pbft1 :: Pbft where
  "pbft1 = upd_pool (\<lambda>pool. AddTxs [tx_of 1 6 5 3, tx_of 2 5 6 12, tx_of 3 5 6 14] pool) pbft0"

lemma pbft1_facts:
  "ctx_at pbft1 ''05'' = Some tgt_ctx" "GetAccountNonce ''05'' (chain pbft1) = Some 0"
  using addr_05 by (simp_all add: pbft1_def pbft0_facts GetAccountNonce_eq held_state_def del: hex_decode.simps)

theorem promotion_makes_executable_witness:
  "\<exists>head rest. Queue (Pool (chain (mvssPromoteMigNewTxsToHead ''05'' pbft1))) = head @ rest
    \<and> accept_nonces 0 (map TxNonce head) = of_nat (length head) \<and> map TxId head = [2, 3]"
proof -
  let ?new = "\<lambda>tx. from_addr tx = ''05'' \<and> IsTXNew (Mig1Time tgt_ctx) (RequestTime tx)"
  have "map TxId (filter ?new (Queue (Pool (chain pbft1)))) = [2, 3]"
    by (simp add: pbft1_def pbft0_def node0_def NewTxPool_def AddTxs_def AddTx_def tx_of_def from_addr_def
        hex_05 IsTXNew_def tgt_ctx_def ctx0_def)
  with promotion_makes_executable [OF pbft1_facts, of ?new, OF refl] show ?thesis
    by (metis (no_types, lifting) add_0)
qed

section \<open>Redirection\<close>

lemma DetectInterleave_frame [simp, frame_simps]:
  "Mig1Time (snd (DetectInterleave rng c)) = Mig1Time c" "MigNonce (snd (DetectInterleave rng c)) = MigNonce c"
  "NextNonce (snd (DetectInterleave rng c)) = NextNonce c" "TargetShard (snd (DetectInterleave rng c)) = TargetShard c"
  "LastCN (snd (DetectInterleave rng c)) = LastCN c"
  by (auto simp: DetectInterleave_def split: option.splits prod.splits)

lemma RegisterOrder_frame [simp, frame_simps]:
  "Mig1Time (RegisterOrder k t u c) = Mig1Time c" "MigNonce (RegisterOrder k t u c) = MigNonce c"
  "NextNonce (RegisterOrder k t u c) = NextNonce c" "TargetShard (RegisterOrder k t u c) = TargetShard c"
  "LastCN (RegisterOrder k t u c) = LastCN c"
  by (simp_all add: RegisterOrder_def)

lemma Probe_frame [simp, frame_simps]:
  "Mig1Time (mvssProbeEarlyPauseSuffixOld rng cfg t c) = Mig1Time c"
  "MigNonce (mvssProbeEarlyPauseSuffixOld rng cfg t c) = MigNonce c"
  "NextNonce (mvssProbeEarlyPauseSuffixOld rng cfg t c) = NextNonce c"
  "TargetShard (mvssProbeEarlyPauseSuffixOld rng cfg t c) = TargetShard c"
  "LastCN (mvssProbeEarlyPauseSuffixOld rng cfg t c) = LastCN c"
  by (simp_all add: mvssProbeEarlyPauseSuffixOld_def Let_def)

lemma redirect_sends:
  assumes "ctx_at p (from_addr tx) = Some ctx" "IsTXNew (Mig1Time ctx) (RequestTime tx)"
    and "TargetShard ctx \<noteq> self_shard cfg" "shard_name (TargetShard ctx) \<noteq> ''''"
  shows "\<exists>p'. mvssRedirectNewTx sha rng cfg now tx p = (True, tx\<lparr> TxNonce := NextNonce ctx,
      Tag := RedirectTag sha (from_addr tx) (Mig1Time ctx) (MigNonce ctx), IsRelay := True \<rparr>, p')
    \<and> (\<exists>ctx'. ctx_at p' (from_addr tx) = Some ctx' \<and> NextNonce ctx' = NextNonce ctx + 1
      \<and> Mig1Time ctx' = Mig1Time ctx \<and> MigNonce ctx' = MigNonce ctx \<and> TargetShard ctx' = TargetShard ctx)"
proof -
  have "\<not> RequestTime tx \<le> 0" using assms(2) by (auto simp: IsTXNew_def)
  then show ?thesis using assms
    by (auto simp: mvssRedirectNewTx_def Let_def ctx_at_def emit_def upd_mig_def GetMigCtx_def SetMigCtx_def)
qed


lemma redirect_sent:
  assumes "ctx_at p (from_addr tx) = Some ctx" "IsTXNew (Mig1Time ctx) (RequestTime tx)"
    and "TargetShard ctx \<noteq> self_shard cfg" "shard_name (TargetShard ctx) \<noteq> ''''"
    and "mvssRedirectNewTx sha rng cfg now tx p = (True, tx', p')"
  shows "Sent p' = Sent p @ [ClientTxMsg [tx'] (TargetShard ctx)]"
proof -
  have "\<not> RequestTime tx \<le> 0" using assms(2) by (auto simp: IsTXNew_def)
  then show ?thesis using assms
    by (auto simp: mvssRedirectNewTx_def Let_def emit_def upd_mig_def ctx_at_def)
qed

lemma digest_nonempty:
  "\<forall>x. sha x \<noteq> [] \<Longrightarrow> RedirectTag sha a t n \<noteq> []"
  by (simp add: RedirectTag_def)

lemma mig1_ctx_sel [simp]:
  "Mig1Time (mig1_ctx cfg m1) = mig1_Request_Time m1" "MigNonce (mig1_ctx cfg m1) = mig1_LastCN m1"
  "LastCN (mig1_ctx cfg m1) = mig1_LastCN m1" "TargetShard (mig1_ctx cfg m1) = self_shard cfg"
  by (simp_all add: mig1_ctx_def)

lemma redirect_check:
  assumes sha: "\<forall>x. sha x \<noteq> []"
    and src: "ctx_at p (from_addr tx) = Some ctx" "IsTXNew (Mig1Time ctx) (RequestTime tx)"
      "TargetShard ctx \<noteq> self_shard cfg" "shard_name (TargetShard ctx) \<noteq> ''''"
    and tgt: "EnableSyncProbe cfgT" "IsMVSS cfgT" "mig1_Request_Time m1 = Mig1Time ctx" "mig1_LastCN m1 = MigNonce ctx"
  obtains tx' p' where "mvssRedirectNewTx sha rng cfg now tx p = (True, tx', p')"
    "TxNonce tx' = NextNonce ctx" "map_option NextNonce (ctx_at p' (from_addr tx)) = Some (NextNonce ctx + 1)"
    "mvssValidateIncomingTx sha cfgT (SetMigCtx (from_addr tx) (mig1_ctx cfgT m1) mg) tx'
        \<longleftrightarrow> mig1_LastCN m1 < NextNonce ctx"
    "mvssNormalizeTargetNewTx cfgT (self_shard cfgT) (SetMigCtx (from_addr tx) (mig1_ctx cfgT m1) mg) tx'
        = tx'\<lparr> IsRelay := False \<rparr>"
proof -
  let ?tx = "tx\<lparr> TxNonce := NextNonce ctx,
      Tag := RedirectTag sha (from_addr tx) (Mig1Time ctx) (MigNonce ctx), IsRelay := True \<rparr>"
  from redirect_sends [OF src, of sha rng now] obtain p' where
    r: "mvssRedirectNewTx sha rng cfg now tx p = (True, ?tx, p')"
      "map_option NextNonce (ctx_at p' (from_addr tx)) = Some (NextNonce ctx + 1)" by auto
  have g: "GetMigCtx a (SetMigCtx a c mg) = Some c" for a c by (simp add: GetMigCtx_def SetMigCtx_def)
  have "from_addr ?tx = from_addr tx" by (simp add: from_addr_def)
  with src tgt digest_nonempty [of sha, OF sha] have
    "mvssValidateIncomingTx sha cfgT (SetMigCtx (from_addr tx) (mig1_ctx cfgT m1) mg) ?tx
        \<longleftrightarrow> mig1_LastCN m1 < NextNonce ctx"
    "mvssNormalizeTargetNewTx cfgT (self_shard cfgT) (SetMigCtx (from_addr tx) (mig1_ctx cfgT m1) mg) ?tx
        = ?tx\<lparr> IsRelay := False \<rparr>"
    by (auto simp: mvssValidateIncomingTx_def mvssNormalizeTargetNewTx_def g ValidRedirectTag_def not_le)
  with r show thesis by (intro that [of ?tx p']) (assumption | simp)+
qed

text \<open>
  What the source redirects, the target admits: a new transaction of a migrating account is sent
  once, with a tag and the context's next nonce; the check of the target, whose context comes from
  the same migration request, passes exactly when that nonce lies above the last committed one, and
  the target then executes it as a local transaction. SHA-256 digests are not empty.
\<close>

theorem redirected_tx_admitted:
  assumes sha: "\<forall>x. sha x \<noteq> []"
    and src: "ctx_at p (from_addr tx) = Some ctx" "IsTXNew (Mig1Time ctx) (RequestTime tx)"
      "TargetShard ctx \<noteq> self_shard cfg" "shard_name (TargetShard ctx) \<noteq> ''''"
    and tgt: "EnableSyncProbe cfgT" "IsMVSS cfgT" "mig1_Request_Time m1 = Mig1Time ctx" "mig1_LastCN m1 = MigNonce ctx"
  shows "\<exists>tx' p'. mvssRedirectNewTx sha rng cfg now tx p = (True, tx', p')
    \<and> Sent p' = Sent p @ [ClientTxMsg [tx'] (TargetShard ctx)]
    \<and> TxNonce tx' = NextNonce ctx \<and> map_option NextNonce (ctx_at p' (from_addr tx)) = Some (NextNonce ctx + 1)
    \<and> (mvssValidateIncomingTx sha cfgT (SetMigCtx (from_addr tx) (mig1_ctx cfgT m1) mg) tx'
        \<longleftrightarrow> mig1_LastCN m1 < NextNonce ctx)
    \<and> mvssNormalizeTargetNewTx cfgT (self_shard cfgT) (SetMigCtx (from_addr tx) (mig1_ctx cfgT m1) mg) tx'
        = tx'\<lparr> IsRelay := False \<rparr>"
  by (rule redirect_check [OF assms, where rng = rng and now = now and mg = mg]) (use redirect_sent [OF src] in blast)

definition probe_config :: ChainConfig where
  "probe_config = mvss_config\<lparr> EnableSyncProbe := True \<rparr>"

lemma probe_config_facts:
  "EnableSyncProbe probe_config" "IsMVSS probe_config" "self_shard mvss_config = 0" "shard_name 1 \<noteq> ''''"
  by (simp_all add: probe_config_def mvss_config_def default_config_def IsMVSS_def self_shard_def
      shard_number_def shard_name_def ShardTable_def ShardTableInt2Str_def)

lemma tx_of_05 [simp]: "from_addr (tx_of k 5 x t) = ''05''" "RequestTime (tx_of k 5 x t) = t"
  by (simp_all add: tx_of_def from_addr_def hex_05)

theorem redirected_tx_admitted_witness:
  "\<exists>tx' p'. mvssRedirectNewTx ((#) 1) rev mvss_config 20 (tx_of 2 5 6 12)
      (upd_mig (SetMigCtx ''05'' (ctx0\<lparr> NextNonce := 3 \<rparr>)) pbft0) = (True, tx', p') \<and> TxNonce tx' = 3
    \<and> mvssValidateIncomingTx ((#) 1) probe_config (SetMigCtx ''05'' (mig1_ctx probe_config
        (mig1_0\<lparr> mig1_Request_Time := 10, mig1_LastCN := 0 \<rparr>)) InitMigCtx) tx'"
proof -
  let ?p = "upd_mig (SetMigCtx ''05'' (ctx0\<lparr> NextNonce := 3 \<rparr>)) pbft0"
  have "ctx_at ?p (from_addr (tx_of 2 5 6 12)) = Some (ctx0\<lparr> NextNonce := 3 \<rparr>)"
    by (simp add: ctx_at_def upd_mig_def GetMigCtx_def SetMigCtx_def)
  from redirected_tx_admitted [of "(#) 1" ?p "tx_of 2 5 6 12" "ctx0\<lparr> NextNonce := 3 \<rparr>" mvss_config probe_config
      "mig1_0\<lparr> mig1_Request_Time := 10, mig1_LastCN := 0 \<rparr>" rev 20 InitMigCtx, OF _ this]
  show ?thesis by (auto simp: probe_config_facts ctx0_def IsTXNew_def)
qed

text \<open>The nonces that the builder of the context hands out.\<close>

lemma assign_nonces_next:
  "fst (assign_nonces pending st) = fst st + of_nat (length pending)"
proof -
  have "fst (fold (\<lambda>(i, tx) (n, order, arrival, q). (n + 1, f i tx order, g i tx arrival, h i n q)) pending st)
      = fst st + of_nat (length pending)"
    for f :: "nat \<Rightarrow> Transaction \<Rightarrow> timemap \<Rightarrow> timemap" and g :: "nat \<Rightarrow> Transaction \<Rightarrow> timemap \<Rightarrow> timemap"
      and h :: "nat \<Rightarrow> u64 \<Rightarrow> Transaction list \<Rightarrow> Transaction list"
    by (induction pending arbitrary: st) (auto simp: split_beta)
  then show ?thesis unfolding assign_nonces_def .
qed

lemma length_tx_exchange_sort [simp]: "length (tx_exchange_sort xs) = length xs"
proof (induction xs rule: tx_exchange_sort.induct)
  case (2 x xs)
  obtain m r where mr: "tx_sort_pass x xs = (m, r)" by (cases "tx_sort_pass x xs")
  with length_tx_sort_pass [of x xs] have "length r = length xs" by simp
  with 2 mr show ?case by simp
qed simp

lemma build_ctx:
  assumes "mvssBuildMigCtx rng cfg a to t p = (m1, p1)"
  obtains ctx k where "ctx_at p1 a = Some ctx" "Mig1Time ctx = t" "MigNonce ctx = LastCN ctx"
    "NextNonce ctx = LastCN ctx + of_nat k" "k \<le> length (Queue (Pool (chain p)))" "mig1_Sync m1 \<longleftrightarrow> k > 0"
    "mig1_LastCN m1 = LastCN ctx" "mig1_Request_Time m1 = t" "TargetShard ctx = to"
proof -
  let ?q = "Queue (Pool (chain p))"
  let ?pend = "tx_exchange_sort (filter (\<lambda>(i, tx). pending_old a t tx) (zip [0..<length ?q] ?q))"
  have len: "length ?pend \<le> length ?q"
    using length_filter_le [of "\<lambda>(i, tx). pending_old a t tx" "zip [0..<length ?q] ?q"] by simp
  let ?n = "case StateTree (chain p) (addr_bytes a) of None \<Rightarrow> 0 | Some s \<Rightarrow> Nonce s"
  obtain nx order arrival q' where as: "assign_nonces ?pend (?n, [], [], ?q) = (nx, order, arrival, q')"
    by (cases "assign_nonces ?pend (?n, [], [], ?q)") auto
  with assign_nonces_next [of ?pend "(?n, [], [], ?q)"] have nx: "nx = ?n + of_nat (length ?pend)" by simp
  let ?c = "mvssProbeEarlyPauseSuffixOld rng cfg t \<lparr> SourceShard = self_shard cfg, TargetShard = to, Mig1Time = t,
      LastCN = ?n, SyncNeeded = length ?pend > 0, MigNonce = ?n, NextNonce = nx, OrderList = order,
      ArrivalList = arrival, CommittedTx = Map.empty, FirstNewTxID = 0, PausedTxIDs = Map.empty,
      FSM = FSMActive, PendingSyncAck = False, LastDeltaHash = [] \<rparr>"
  have "ctx_at p1 a = Some ?c" "mig1_Sync m1 \<longleftrightarrow> length ?pend > 0" "mig1_LastCN m1 = ?n" "mig1_Request_Time m1 = t"
    using assms unfolding mvssBuildMigCtx_def Let_def as prod.case
    by (auto simp: ctx_at_def upd_mig_def upd_pool_def GetMigCtx_def SetMigCtx_def)
  with nx len show thesis by (intro that [of ?c "length ?pend"]) (simp_all del: length_tx_exchange_sort)
qed

text \<open>
  The first redirected transaction passes only if the account had old transactions: right after
  the source has built the migration request, the first new transaction of the account that it
  redirects is admitted by the target exactly when the request asks for a synchronisation, that is,
  when the pool held old transactions of the account. Otherwise it carries the last committed nonce
  itself and is turned away. The account's nonce does not wrap around.
\<close>

theorem first_redirect_needs_pending:
  assumes sha: "\<forall>x. sha x \<noteq> []" and build: "mvssBuildMigCtx rng cfg (from_addr tx) to t p = (m1, p1)"
    and src: "IsTXNew t (RequestTime tx)" "to \<noteq> self_shard cfg" "shard_name to \<noteq> ''''"
    and tgt: "EnableSyncProbe cfgT" "IsMVSS cfgT"
    and bound: "unat (mig1_LastCN m1) + length (Queue (Pool (chain p))) < 2 ^ 64"
  shows "\<exists>tx' p'. mvssRedirectNewTx sha rng cfg now tx p1 = (True, tx', p')
    \<and> (mvssValidateIncomingTx sha cfgT (SetMigCtx (from_addr tx) (mig1_ctx cfgT m1) mg) tx' \<longleftrightarrow> mig1_Sync m1)"
proof -
  from build_ctx [OF build] obtain ctx k where c: "ctx_at p1 (from_addr tx) = Some ctx" "Mig1Time ctx = t"
    "MigNonce ctx = LastCN ctx" "NextNonce ctx = LastCN ctx + of_nat k" "k \<le> length (Queue (Pool (chain p)))"
    "mig1_Sync m1 \<longleftrightarrow> k > 0" "mig1_LastCN m1 = LastCN ctx" "mig1_Request_Time m1 = t" "TargetShard ctx = to"
    by metis
  have "unat (LastCN ctx) + k < 2 ^ 64" using bound c by simp
  then have "unat (NextNonce ctx) = unat (LastCN ctx) + k"
    unfolding c(4) by (simp add: unat_word_ariths unat_of_nat)
  then have adv: "mig1_LastCN m1 < NextNonce ctx \<longleftrightarrow> mig1_Sync m1" using c(6,7) by (simp add: word_less_nat_alt)
  have pre: "IsTXNew (Mig1Time ctx) (RequestTime tx)" "TargetShard ctx \<noteq> self_shard cfg" "shard_name (TargetShard ctx) \<noteq> ''''"
    "mig1_Request_Time m1 = Mig1Time ctx" "mig1_LastCN m1 = MigNonce ctx" using src c by simp_all
  obtain tx' p' where "mvssRedirectNewTx sha rng cfg now tx p1 = (True, tx', p')"
    "mvssValidateIncomingTx sha cfgT (SetMigCtx (from_addr tx) (mig1_ctx cfgT m1) mg) tx' \<longleftrightarrow> mig1_LastCN m1 < NextNonce ctx"
    by (rule redirect_check [OF sha c(1) pre(1-3) tgt pre(4,5), where rng = rng and now = now and mg = mg])
  with adv show ?thesis by blast
qed


theorem first_redirect_needs_pending_witness:
  "\<exists>m1 p1 tx' p'. mvssBuildMigCtx rev mvss_config ''05'' 1 10 pbft0 = (m1, p1)
    \<and> mvssRedirectNewTx ((#) 1) rev mvss_config 20 (tx_of 2 5 6 12) p1 = (True, tx', p')
    \<and> (mvssValidateIncomingTx ((#) 1) probe_config (SetMigCtx ''05'' (mig1_ctx probe_config m1) InitMigCtx) tx'
        \<longleftrightarrow> mig1_Sync m1)"
proof -
  obtain m1 p1 where b: "mvssBuildMigCtx rev mvss_config ''05'' 1 10 pbft0 = (m1, p1)"
    by (cases "mvssBuildMigCtx rev mvss_config ''05'' 1 10 pbft0") auto
  then have "unat (mig1_LastCN m1) + length (Queue (Pool (chain pbft0))) < 2 ^ 64"
    using unsigned_less [of "mig1_LastCN m1"] by (simp add: pbft0_def node0_def NewTxPool_def)
  with first_redirect_needs_pending [of "(#) 1" rev mvss_config "tx_of 2 5 6 12" 1 10 pbft0 m1 p1 probe_config 20 InitMigCtx] b
  show ?thesis by (auto simp: probe_config_facts IsTXNew_def)
qed

end
