(* ===== verification/DeltaGaps.thy ===== *)
theory DeltaGaps
  imports Redirect
begin

text \<open>
  The limits of the incremental synchronisation (\<open>pbft/mvss_delta.go\<close>): a delta is recognised by the
  nonces it spans, so a change of balance alone does not arrive, and an acknowledgement has no
  check of its range, so each delivery of it counts.
\<close>

section \<open>Changes of balance alone\<close>

lemma state_ini_empty_range:
  assumes "Nonce new = LastCN ctx"
  shows "delta_wellformed sha (state_ini_delta sha cfg now a ctx old new)"
    "sd_EndN (state_ini_delta sha cfg now a ctx old new) = LastCN ctx"
    "sd_Address (state_ini_delta sha cfg now a ctx old new) = a"
    "sd_DeltaBalance (state_ini_delta sha cfg now a ctx old new) \<noteq> None"
  using assms by (simp_all add: delta_wellformed_def state_ini_delta_def Let_def CalcDeltaHash_def delta_text_def)

text \<open>
  A change of balance alone is acknowledged and lost: when the account received value on the source
  but sent nothing, so that its nonce is still the last committed one, the delta that the source builds
  is answered as a success by the target that holds that nonce, and no account there changes.
\<close>

theorem received_value_is_lost:
  assumes src: "Nonce new = LastCN ctx"
    and tgt: "snd (hex_decode a)" "MigAbortReason (mig_of p) a = None" "ctx_at p a = Some ctx'"
      "StateTree (chain p) (addr_bytes a) = Some held" "Nonce held = LastCN ctx"
  shows "\<exists>p'. mvssApplyDeltaInbound sha rt (state_ini_delta sha cfg now a ctx old new) p = (True, p')
    \<and> StateTree (chain p') = StateTree (chain p)
    \<and> (FSM ctx' = FSMWaitSyncIni \<longrightarrow> map_option FSM (ctx_at p' a) = Some FSMSyncApplied)"
proof -
  let ?d = "state_ini_delta sha cfg now a ctx old new"
  note d = state_ini_empty_range [OF src, of sha cfg now a old]
  have "mvssApplyDeltaInbound sha rt ?d p = (True, upd_ctx a (note_duplicate ?d) p)"
    using inbound_repeated [of ?d p sha held rt] tgt d by simp
  with tgt(3) show ?thesis by (simp add: note_duplicate_def Let_def)
qed

theorem received_value_is_lost_witness:
  "\<exists>p'. mvssApplyDeltaInbound id (\<lambda>_. []) (state_ini_delta id mvss_config 5 ''05'' ctx0 held_state
      (held_state\<lparr> Balance := 99 \<rparr>)) pbft0 = (True, p')
    \<and> map_option Balance (StateTree (chain p') [5]) = Some 10"
proof -
  have "Nonce (held_state\<lparr> Balance := 99 \<rparr>) = LastCN ctx0" "Nonce held_state = LastCN ctx0" "Balance held_state = 10"
    by (simp_all add: held_state_def ctx0_def)
  moreover have "StateTree (chain pbft0) (addr_bytes ''05'') = Some held_state" by (simp add: pbft0_facts)
  ultimately show ?thesis
    using received_value_is_lost [of "held_state\<lparr> Balance := 99 \<rparr>" ctx0 "''05''" pbft0 tgt_ctx held_state id "\<lambda>_. []" mvss_config 5 held_state]
      addr_05 pbft0_facts by (auto simp del: hex_decode.simps)
qed

section \<open>Acknowledgements\<close>

definition ack_ok :: "(bytes \<Rightarrow> bytes) \<Rightarrow> TXsyncDelta \<Rightarrow> Pbft \<Rightarrow> bool" where
  "ack_ok sha d p \<longleftrightarrow> sd_Ack d \<and> delta_wellformed sha d \<and> snd (hex_decode (sd_Address d))
     \<and> ctx_at p (sd_Address d) \<noteq> None"

lemma ack_applied:
  assumes "ack_ok sha d p" "sd_DeltaBalance d = Some b" "StateTree (chain p) (addr_bytes (sd_Address d)) = Some s"
    and "0 \<le> Balance s + b"
  shows "\<exists>p'. mvssOnDeltaAck sha rt d p = (True, p') \<and> ack_ok sha d p'
    \<and> StateTree (chain p') = (StateTree (chain p))(addr_bytes (sd_Address d) \<mapsto>
        s\<lparr> Balance := Balance s + b, Nonce := Nonce s + (sd_EndN d - sd_StartN d) \<rparr>)"
proof -
  let ?s = "s\<lparr> Balance := Balance s + b, Nonce := Nonce s + (sd_EndN d - sd_StartN d) \<rparr>"
  let ?n = "commit_tree rt ((StateTree (chain p))(addr_bytes (sd_Address d) \<mapsto> ?s)) (chain p)"
  have "ApplyMVSSAccountDelta rt (sd_Address d) (sd_DeltaBalance d) (sd_DeltaNonce d) (chain p) = (True, ?n)"
    using assms by (simp add: ApplyDelta_eq ack_ok_def delta_wellformed_def Let_def)
  then show ?thesis using assms
    by (auto simp: mvssOnDeltaAck_def Let_def ack_ok_def ctx_at_chain)
qed

text \<open>
  C38. An acknowledgement counts each time it comes: the source adds the balance and the nonce step of a
  well-formed acknowledgement to its account without comparing the start of the range with the
  account's nonce, so \<open>k\<close> deliveries add them \<open>k\<close> times, as long as the balance does not fall below zero.
\<close>

theorem ack_adds_each_time:
  assumes "ack_ok sha d p" "sd_DeltaBalance d = Some b" "StateTree (chain p) (addr_bytes (sd_Address d)) = Some s"
    and "0 \<le> Balance s" "0 \<le> Balance s + int k * b"
  shows "\<exists>s'. StateTree (chain (((\<lambda>q. snd (mvssOnDeltaAck sha rt d q)) ^^ k) p)) (addr_bytes (sd_Address d)) = Some s'
    \<and> Balance s' = Balance s + int k * b \<and> Nonce s' = Nonce s + of_nat k * (sd_EndN d - sd_StartN d)"
proof -
  let ?f = "\<lambda>q. snd (mvssOnDeltaAck sha rt d q)"
  have "\<exists>s'. ack_ok sha d ((?f ^^ j) p) \<and> StateTree (chain ((?f ^^ j) p)) (addr_bytes (sd_Address d)) = Some s'
      \<and> Balance s' = Balance s + int j * b \<and> Nonce s' = Nonce s + of_nat j * (sd_EndN d - sd_StartN d)"
    if "j \<le> k" for j
    using that
  proof (induction j)
    case (Suc j)
    then obtain s' where s': "ack_ok sha d ((?f ^^ j) p)" "StateTree (chain ((?f ^^ j) p)) (addr_bytes (sd_Address d)) = Some s'"
      "Balance s' = Balance s + int j * b" "Nonce s' = Nonce s + of_nat j * (sd_EndN d - sd_StartN d)" by auto
    have "0 \<le> Balance s' + b"
    proof (cases "0 \<le> b")
      case False
      then have "int k * b \<le> int (Suc j) * b" using Suc.prems by (intro mult_right_mono_neg) simp_all
      then show ?thesis using assms(5) s'(3) by (simp add: distrib_right)
    qed (use assms(4) s'(3) in simp)
    from ack_applied [OF s'(1) assms(2) s'(2) this, of rt] s' show ?case by (auto simp: algebra_simps)
  qed (use assms(1,3) in simp)
  from this [OF order_refl] show ?thesis by blast
qed

definition ack1 :: TXsyncDelta where
  "ack1 = (let d = delta0\<lparr> sd_Address := ''05'', sd_DeltaBalance := Some (- 3), sd_DeltaNonce := 1,
       sd_EndN := 1, sd_Ack := True \<rparr> in d\<lparr> sd_DeltaHash := CalcDeltaHash id d \<rparr>)"

theorem ack_adds_each_time_witness:
  "\<exists>s'. StateTree (chain (((\<lambda>q. snd (mvssOnDeltaAck id (\<lambda>_. []) ack1 q)) ^^ 2) pbft0)) [5] = Some s'
    \<and> Balance s' = 4 \<and> Nonce s' = 2"
proof -
  have a: "sd_Address ack1 = ''05''" "sd_DeltaBalance ack1 = Some (- 3)" "sd_EndN ack1 - sd_StartN ack1 = 1"
    by (simp_all add: ack1_def delta0_def Let_def)
  have "ack_ok id ack1 pbft0"
    using pbft0_facts(2) addr_05(2)
    by (simp add: ack_ok_def a delta_wellformed_def del: hex_decode.simps)
      (simp add: ack1_def delta0_def Let_def CalcDeltaHash_def delta_text_def)
  from ack_adds_each_time [OF this a(2), of held_state 2 "\<lambda>_. []"] show ?thesis
    by (simp add: a pbft0_facts del: hex_decode.simps) (simp add: held_state_def)
qed

end
