(* ===== verification/Ingress.thy ===== *)
theory Ingress
  imports DeltaGaps
begin

text \<open>
  Transactions that enter a node and leave it again: \<open>handleTxFromClient\<close>
  (\<open>pbft/hanleTxFromClient.go\<close>), \<open>TrySendTX\<close>, \<open>TryRelay\<close>, \<open>TryRelay2\<close> and \<open>handleRelay\<close>
  (\<open>pbft/pbft.go\<close>). \<open>keys\<close> lists the shards of \<open>params.NodeTable\<close> in the order of \<open>range\<close>;
  \<open>clk\<close> holds the times that the code reads, by place and position.
\<close>

section \<open>Sending by shard\<close>

definition upd_acc :: "Globals \<Rightarrow> Pbft \<Rightarrow> Pbft" where
  "upd_acc g p = p\<lparr> chain := (chain p)\<lparr> Acc := g \<rparr> \<rparr>"

text \<open>\<open>pool[shard] = append(pool[shard], v)\<close> on a slice of \<open>Shard_num\<close> slices.\<close>

definition shard_append :: "ChainConfig \<Rightarrow> int \<Rightarrow> 'a \<Rightarrow> (int \<Rightarrow> 'a list) \<Rightarrow> (int \<Rightarrow> 'a list) res" where
  "shard_append cfg s v pool =
     (if 0 \<le> s \<and> s < Shard_num cfg then Inr (pool(s := pool s @ [v])) else Inl index_panic)"

definition distribute :: "ChainConfig \<Rightarrow> ('a \<Rightarrow> addr) \<Rightarrow> 'a list \<Rightarrow> (int \<Rightarrow> 'a list) \<times> Globals
    \<Rightarrow> ((int \<Rightarrow> 'a list) \<times> Globals) res" where
  "distribute cfg addr_of = fold_res (\<lambda>v (pool, g).
     bind_res (Addr2Shard cfg (addr_of v) g) (\<lambda>(s, g').
     bind_res (shard_append cfg s v pool) (\<lambda>pool'. Inr (pool', g'))))"

text \<open>The other shards in use.\<close>

definition send_targets :: "ChainConfig \<Rightarrow> string list \<Rightarrow> int list" where
  "send_targets cfg keys = filter (\<lambda>s. \<not> (s < 0 \<or> s \<ge> Shard_num cfg)) (map shard_number (filter (\<lambda>k. k \<noteq> ShardID cfg) keys))"

definition send_pool :: "('a list \<Rightarrow> int \<Rightarrow> message) \<Rightarrow> int list \<Rightarrow> (int \<Rightarrow> 'a list) \<Rightarrow> Pbft \<Rightarrow> Pbft" where
  "send_pool msg targets pool = fold (\<lambda>s p. if pool s \<noteq> [] then emit (msg (pool s) s) p else p) targets"

definition TrySendTX :: "ChainConfig \<Rightarrow> string list \<Rightarrow> Transaction list \<Rightarrow> Pbft \<Rightarrow> Pbft res" where
  "TrySendTX cfg keys txs p =
     bind_res (distribute cfg from_addr txs (\<lambda>_. [], Acc (chain p))) (\<lambda>(pool, g).
       Inr (send_pool ClientTxMsg (send_targets cfg keys) pool (upd_acc g p)))"

definition TryRelay2 :: "ChainConfig \<Rightarrow> string list \<Rightarrow> TXrelay list \<Rightarrow> Pbft \<Rightarrow> Pbft res" where
  "TryRelay2 cfg keys relaytxs p =
     bind_res (distribute cfg (\<lambda>r. to_addr (rl_Txcs r)) relaytxs (\<lambda>_. [], Acc (chain p))) (\<lambda>(pool, g).
       Inr (send_pool RelayMsg (send_targets cfg keys) pool (upd_acc g p)))"

text \<open>
  \<open>prove_tx\<close> and \<open>prove_state\<close> are the proofs of the transaction tree and of the state tree, \<open>tree\<close> is
  the state after the block. An absent state cannot be decoded.
\<close>

definition make_relay :: "(bytes \<Rightarrow> ProofDB) \<Rightarrow> (bytes \<Rightarrow> ProofDB) \<Rightarrow> state_tree \<Rightarrow> Transaction \<Rightarrow> TXrelay res" where
  "make_relay prove_tx prove_state tree v =
     (case tree (Recipient v) of
        None \<Rightarrow> Inl log_panic
      | Some s \<Rightarrow> Inr \<lparr> rl_Txcs = v, rl_MPcs = prove_tx (TxHash v), rl_State = Some s,
          rl_MPstate = prove_state (Recipient v), rl_H = 0 \<rparr>)"

definition TryRelay :: "(bytes \<Rightarrow> ProofDB) \<Rightarrow> (bytes \<Rightarrow> ProofDB) \<Rightarrow> ChainConfig \<Rightarrow> string list \<Rightarrow> state_tree
    \<Rightarrow> Transaction list \<Rightarrow> Pbft \<Rightarrow> Pbft res" where
  "TryRelay prove_tx prove_state cfg keys tree relaytxs p =
     bind_res (fold_res (\<lambda>v (pool, g).
         bind_res (Addr2Shard cfg (to_addr v) g) (\<lambda>(s, g').
         bind_res (make_relay prove_tx prove_state tree v) (\<lambda>r.
         bind_res (shard_append cfg s r pool) (\<lambda>pool'. Inr (pool', g')))))
       relaytxs (\<lambda>_. [], Acc (chain p))) (\<lambda>(pool, g).
     Inr (send_pool RelayMsg (send_targets cfg keys) pool (upd_acc g p)))"

section \<open>Relayed transactions\<close>

text \<open>MVSS fills in the time of the migration of the sender, or of the receiver.\<close>

definition fill_mig1_time :: "ChainConfig \<Rightarrow> MigGlobals \<Rightarrow> Transaction \<Rightarrow> Transaction" where
  "fill_mig1_time cfg mg tx =
     (let time_of = (\<lambda>a. case GetMigCtx a mg of None \<Rightarrow> None
            | Some ctx \<Rightarrow> if Mig1Time ctx > 0 then Some (Mig1Time ctx) else None) in
      if IsMVSSPlus cfg \<and> TXmig1_Time tx \<le> 0 then
        (case time_of (from_addr tx) of
           Some t \<Rightarrow> tx\<lparr> TXmig1_Time := t \<rparr>
         | None \<Rightarrow> (case time_of (to_addr tx) of Some t \<Rightarrow> tx\<lparr> TXmig1_Time := t \<rparr> | None \<Rightarrow> tx))
      else tx)"

record relay_state =
  rs_txcss :: "Transaction list"
  rs_relay2 :: "TXrelay list"
  rs_pbft :: Pbft

definition handle_one_relay :: "(bytes \<Rightarrow> bytes) \<Rightarrow> ChainConfig \<Rightarrow> (nat \<Rightarrow> nat \<Rightarrow> int) \<Rightarrow> nat \<times> TXrelay
    \<Rightarrow> relay_state \<Rightarrow> relay_state res" where
  "handle_one_relay sha cfg clk = (\<lambda>(i, r) st.
     (let p = rs_pbft st; tx = fill_mig1_time cfg (mig_of p) (rl_Txcs r); a = to_addr tx in
      if IsMVSSPlus cfg \<and> \<not> mvssValidateIncomingTx sha cfg (mig_of p) tx then Inr st
      else bind_res (Addr2Shard cfg a (Acc (chain p))) (\<lambda>(shard, g).
        (let p1 = upd_acc g p;
             locked = (stamp_lock (clk 0 i) tx)\<lparr> RecLock := True, Second_RequestTime := clk 1 i \<rparr> in
         if \<not> Not_Lock_immediately cfg \<and> flag (Not_Lock_Acc g) a then
           Inr (st\<lparr> rs_pbft := upd_pool (\<lambda>pool. pool\<lparr> Not_Locking_TX_Pools :=
             append_at a locked (Not_Locking_TX_Pools pool) \<rparr>) p1 \<rparr>)
         else if \<not> Not_Lock_immediately cfg \<and> flag (Lock_Acc g) a then
           Inr (st\<lparr> rs_pbft := upd_pool (\<lambda>pool. pool\<lparr> Locking_TX_Pools :=
             append_at a locked (Locking_TX_Pools pool) \<rparr>) p1 \<rparr>)
         else if shard = self_shard cfg then
           Inr (st\<lparr> rs_txcss := rs_txcss st @ [tx\<lparr> Second_RequestTime := clk 1 i \<rparr>], rs_pbft := p1 \<rparr>)
         else Inr (st\<lparr> rs_relay2 := rs_relay2 st @ [r\<lparr> rl_Txcs := tx \<rparr>], rs_pbft := p1 \<rparr>)))))"

definition handleRelay :: "(bytes \<Rightarrow> bytes) \<Rightarrow> ChainConfig \<Rightarrow> string list \<Rightarrow> (nat \<Rightarrow> nat \<Rightarrow> int) \<Rightarrow> TXrelay list
    \<Rightarrow> Pbft \<Rightarrow> Pbft res" where
  "handleRelay sha cfg keys clk txs p =
     bind_res (fold_res (handle_one_relay sha cfg clk) (zip [0..<length txs] txs)
         \<lparr> rs_txcss = [], rs_relay2 = [], rs_pbft = p \<rparr>) (\<lambda>st.
       let p1 = upd_pool (AddTxs (rs_txcss st)) (rs_pbft st) in
       if rs_relay2 st \<noteq> [] then TryRelay2 cfg keys (rs_relay2 st) p1 else Inr p1)"

section \<open>Transactions of clients\<close>

text \<open>
  The items of \<open>pending\<close>: transaction, whether it is local, whether it was redirected. The set
  \<open>promoteAfterEnqueue\<close> is a list without repetitions.
\<close>

record intake =
  in_pending :: "(Transaction \<times> bool \<times> bool) list"
  in_promote :: "addr list"
  in_pbft :: Pbft

definition is_local_tx :: "ChainConfig \<Rightarrow> MigGlobals \<Rightarrow> int \<Rightarrow> int \<Rightarrow> Transaction \<Rightarrow> bool" where
  "is_local_tx cfg mg senderSID recSID tx \<longleftrightarrow>
     senderSID = self_shard cfg \<or> (IsMVSSPlus cfg \<and> recSID = self_shard cfg \<and> Tag tx \<noteq> [])
     \<or> (IsMVSSPlus cfg \<and> Tag tx \<noteq> []
        \<and> (case GetMigCtx (from_addr tx) mg of None \<Rightarrow> False | Some ctx \<Rightarrow> TargetShard ctx = self_shard cfg))"

definition promote_due :: "ChainConfig \<Rightarrow> MigGlobals \<Rightarrow> Transaction \<Rightarrow> bool" where
  "promote_due cfg mg tx = (case GetMigCtx (from_addr tx) mg of
      None \<Rightarrow> False
    | Some ctx \<Rightarrow> TargetShard ctx = self_shard cfg \<and> IsTXNew (Mig1Time ctx) (RequestTime tx) \<and> FSM ctx \<ge> FSMSyncApplied)"

definition intake_item :: "(bytes \<Rightarrow> bytes) \<Rightarrow> (timemap \<Rightarrow> timemap) \<Rightarrow> ChainConfig \<Rightarrow> (nat \<Rightarrow> nat \<Rightarrow> int)
    \<Rightarrow> nat \<times> Transaction \<Rightarrow> intake \<Rightarrow> intake res" where
  "intake_item sha rng cfg clk = (\<lambda>(i, tx0) st.
     (let p = in_pbft st; tx1 = fill_mig1_time cfg (mig_of p) tx0 in
      bind_res (Addr2Shard cfg (from_addr tx1) (Acc (chain p))) (\<lambda>(senderSID, g1).
      bind_res (Addr2Shard cfg (to_addr tx1) g1) (\<lambda>(recSID, g2).
        (let p1 = upd_acc g2 p;
             localTx = is_local_tx cfg (mig_of p) senderSID recSID tx1 in
         if localTx \<and> IsMVSSPlus cfg then
           (let tx2 = (if recSID = self_shard cfg \<and> Tag tx1 \<noteq> [] then tx1\<lparr> Second_RequestTime := clk 0 i \<rparr> else tx1) in
            if \<not> mvssValidateIncomingTx sha cfg (mig_of p) tx2 then Inr (st\<lparr> in_pbft := p1 \<rparr>)
            else
              (let (redirect, tx3, p2) = mvssRedirectNewTx sha rng cfg (clk 1 i)
                     (mvssNormalizeTargetNewTx cfg (self_shard cfg) (mig_of p) tx2) p1;
                   promote = (if \<not> redirect \<and> promote_due cfg (mig_of p2) tx3
                     then List.insert (from_addr tx3) (in_promote st) else in_promote st)
               in Inr \<lparr> in_pending = in_pending st @ [(tx3, True, redirect)], in_promote = promote, in_pbft = p2 \<rparr>))
         else Inr (st\<lparr> in_pending := in_pending st @ [(tx1, localTx, False)], in_pbft := p1 \<rparr>))))))"

text \<open>A local transaction of a locked account waits in a pool; \<open>None\<close> when it is queued.\<close>

definition intake_lock :: "ChainConfig \<Rightarrow> Globals \<Rightarrow> int \<Rightarrow> Transaction \<Rightarrow> Tx_pool \<Rightarrow> Tx_pool option" where
  "intake_lock cfg g now tx pool =
     (let a = from_addr tx; b = to_addr tx;
          v = tx\<lparr> LockTime := now \<rparr>;
          notlock = \<not> Stop_When_Migrating cfg \<and> Not_Lock_Acc_When_Migrating cfg \<and> \<not> IsMVSSPlus cfg;
          fulllock = \<not> Stop_When_Migrating cfg \<and> Lock_Acc_When_Migrating cfg;
          halflock = \<not> Stop_When_Migrating cfg \<and> \<not> Lock_Acc_When_Migrating cfg \<and> \<not> Not_Lock_Acc_When_Migrating cfg in
      if notlock \<and> flag (Not_Lock_Acc g) a
      then Some (pool\<lparr> Not_Locking_TX_Pools := append_at a (v\<lparr> SenLock := True \<rparr>) (Not_Locking_TX_Pools pool) \<rparr>)
      else if notlock \<and> flag (Not_Lock_Acc g) b
      then Some (pool\<lparr> Not_Locking_TX_Pools := append_at b (v\<lparr> RecLock := True \<rparr>) (Not_Locking_TX_Pools pool) \<rparr>)
      else if fulllock \<and> flag (Lock_Acc g) a
      then Some (pool\<lparr> Locking_TX_Pools := append_at a (v\<lparr> SenLock := True \<rparr>) (Locking_TX_Pools pool) \<rparr>)
      else if fulllock \<and> flag (Lock_Acc g) b
      then Some (pool\<lparr> Locking_TX_Pools := append_at b (v\<lparr> RecLock := True \<rparr>) (Locking_TX_Pools pool) \<rparr>)
      else if halflock \<and> flag (Outing_Acc_Before_Announce g) a
      then Some (pool\<lparr> Outing_Before_Announce_TX_Pools := append_at a v (Outing_Before_Announce_TX_Pools pool) \<rparr>)
      else None)"

text \<open>The loop over \<open>pending\<close>: transactions to queue, to send on, and the pool.\<close>

fun place_items :: "ChainConfig \<Rightarrow> Globals \<Rightarrow> (nat \<Rightarrow> int) \<Rightarrow> nat \<Rightarrow> (Transaction \<times> bool \<times> bool) list \<Rightarrow> Tx_pool
    \<Rightarrow> Transaction list \<times> Transaction list \<times> Tx_pool" where
  "place_items cfg g clock i [] pool = ([], [], pool)"
| "place_items cfg g clock i ((tx, localTx, redirect) # items) pool =
     (if \<not> localTx then (let (q, f, pool') = place_items cfg g clock (Suc i) items pool in (q, tx # f, pool'))
      else if redirect then place_items cfg g clock (Suc i) items pool
      else case (if \<not> Not_Lock_immediately cfg then intake_lock cfg g (clock i) tx pool else None) of
          Some pool1 \<Rightarrow> place_items cfg g clock (Suc i) items pool1
        | None \<Rightarrow> (let (q, f, pool') = place_items cfg g clock (Suc i) items pool in (tx # q, f, pool')))"

text \<open>Probes of slot 3 go to the end before the normal transactions, other probes to the front.\<close>

definition enqueue_order :: "Transaction list \<Rightarrow> Transaction list \<Rightarrow> Transaction list" where
  "enqueue_order txs q =
     (let slot3 = (\<lambda>tx. (TxId tx - 9000000000) mod 10 = 3);
          probe = (\<lambda>tx. IsSyncProbeTxID (TxId tx));
          probe1Head = filter (\<lambda>tx. probe tx \<and> \<not> slot3 tx) txs;
          probe3Tail = filter (\<lambda>tx. probe tx \<and> slot3 tx) txs;
          normalTail = filter (\<lambda>tx. \<not> probe tx) txs
      in probe1Head @ q @ probe3Tail @ normalTail)"

text \<open>\<open>rngs\<close> is the order in which \<open>range\<close> visits the addresses to promote.\<close>

definition handleTxFromClient :: "(bytes \<Rightarrow> bytes) \<Rightarrow> (timemap \<Rightarrow> timemap) \<Rightarrow> (addr list \<Rightarrow> addr list) \<Rightarrow> ChainConfig
    \<Rightarrow> string list \<Rightarrow> (nat \<Rightarrow> nat \<Rightarrow> int) \<Rightarrow> Transaction list \<Rightarrow> Pbft \<Rightarrow> Pbft res" where
  "handleTxFromClient sha rng rngs cfg keys clk txs p =
     bind_res (fold_res (intake_item sha rng cfg clk) (zip [0..<length txs] txs)
         \<lparr> in_pending = [], in_promote = [], in_pbft = p \<rparr>) (\<lambda>st.
       let p1 = in_pbft st;
           (q, tx2, pool) = place_items cfg (Acc (chain p1)) (clk 2) 0 (in_pending st) (Pool (chain p1));
           p2 = upd_pool (\<lambda>_. pool\<lparr> Queue := enqueue_order q (Queue pool) \<rparr>) p1
       in bind_res (if tx2 \<noteq> [] then TrySendTX cfg keys tx2 p2 else Inr p2) (\<lambda>p3.
            Inr (fold (mvssMaybePromoteAfterNewEnqueued cfg) (rngs (in_promote st)) p3)))"

end
