(* ===== verification/Intake.thy ===== *)
theory Intake
  imports Ingress
begin

text \<open>
  What becomes of incoming transactions: each one is dropped by the check, sent to another shard,
  put into a pool of locked transactions or queued, and a new transaction of an account that
  leaves the shard under MVSS never reaches a pool of the source.
\<close>

section \<open>Steps\<close>

text \<open>Looking up shards only remembers them.\<close>

definition memo_grows :: "Globals \<Rightarrow> Globals \<Rightarrow> bool" where
  "memo_grows g g' \<longleftrightarrow> (\<forall>a s. Account2Shard g a = Some s \<longrightarrow> Account2Shard g' a = Some s)
     \<and> Lock_Acc g' = Lock_Acc g \<and> Not_Lock_Acc g' = Not_Lock_Acc g
     \<and> Outing_Acc_Before_Announce g' = Outing_Acc_Before_Announce g"

lemma memo_grows_refl [simp]: "memo_grows g g" by (simp add: memo_grows_def)

lemma memo_grows_trans: "memo_grows a b \<Longrightarrow> memo_grows b c \<Longrightarrow> memo_grows a c"
  by (simp add: memo_grows_def)

lemma memo_growsD: "memo_grows g g' \<Longrightarrow> Account2Shard g a = Some s \<Longrightarrow> Account2Shard g' a = Some s"
  by (simp add: memo_grows_def)

lemma Addr2Shard_grows:
  assumes "Addr2Shard cfg a g = Inr (s, g')"
  shows "Account2Shard g' a = Some s" "memo_grows g g'"
  using assms
  by (auto simp: Addr2Shard_def memo_grows_def Let_def bind_res_eq_Inr split: option.splits if_splits)

lemma upd_acc_frame [simp, frame_simps]:
  "Pool (chain (upd_acc g p)) = Pool (chain p)" "mig_of (upd_acc g p) = mig_of p" "Sent (upd_acc g p) = Sent p"
  "Acc (chain (upd_acc g p)) = g" "StateTree (chain (upd_acc g p)) = StateTree (chain p)" "ctx_at (upd_acc g p) a = ctx_at p a"
  by (simp_all add: upd_acc_def ctx_at_def)

lemma Acc_upd_pool [simp, frame_simps]: "Acc (chain (upd_pool f p)) = Acc (chain p)"
  by (simp add: upd_pool_def)

text \<open>What no step changes of a transaction, and what its time of arrival adds.\<close>

definition payload :: "Transaction \<Rightarrow> int \<times> bytes \<times> bytes \<times> int" where
  "payload v = (TxId v, Sender v, Recipient v, TxValue v)"

definition arrived :: "Transaction \<Rightarrow> (int \<times> bytes \<times> bytes \<times> int) \<times> int" where
  "arrived v = (payload v, RequestTime v)"

lemma same_parties [simp]:
  "payload (fill_mig1_time cfg mg tx) = payload tx" "from_addr (fill_mig1_time cfg mg tx) = from_addr tx"
  "to_addr (fill_mig1_time cfg mg tx) = to_addr tx" "RequestTime (fill_mig1_time cfg mg tx) = RequestTime tx"
  "payload (mvssNormalizeTargetNewTx cfg s mg tx) = payload tx" "from_addr (mvssNormalizeTargetNewTx cfg s mg tx) = from_addr tx"
  "RequestTime (mvssNormalizeTargetNewTx cfg s mg tx) = RequestTime tx"
  by (auto simp: fill_mig1_time_def mvssNormalizeTargetNewTx_def Let_def payload_def from_addr_def to_addr_def split: option.splits)

lemma from_addr_upd [simp]: "from_addr (tx\<lparr> Second_RequestTime := t \<rparr>) = from_addr tx"
  "payload (tx\<lparr> Second_RequestTime := t \<rparr>) = payload tx" "arrived (tx\<lparr> TxNonce := n \<rparr>) = arrived tx"
  by (simp_all add: from_addr_def payload_def arrived_def)

text \<open>An account that leaves for a known shard, and a transaction that came after its request.\<close>

definition departing :: "ChainConfig \<Rightarrow> Pbft \<Rightarrow> Transaction \<Rightarrow> bool" where
  "departing cfg p tx \<longleftrightarrow> (\<exists>ctx. ctx_at p (from_addr tx) = Some ctx \<and> TargetShard ctx \<noteq> self_shard cfg
     \<and> shard_name (TargetShard ctx) \<noteq> '''' \<and> IsTXNew (Mig1Time ctx) (RequestTime tx))"

text \<open>The fields of the contexts that decide this do not change.\<close>

definition same_targets :: "Pbft \<Rightarrow> Pbft \<Rightarrow> bool" where
  "same_targets p p' \<longleftrightarrow> (\<forall>a. map_option (\<lambda>c. (TargetShard c, Mig1Time c)) (ctx_at p' a)
     = map_option (\<lambda>c. (TargetShard c, Mig1Time c)) (ctx_at p a))"

lemma same_targets_refl [simp]: "same_targets p p" by (simp add: same_targets_def)

lemma same_targets_trans: "same_targets p q \<Longrightarrow> same_targets q r \<Longrightarrow> same_targets p r"
  by (simp add: same_targets_def)

lemma departing_eq:
  "departing cfg p tx \<longleftrightarrow> (case map_option (\<lambda>c. (TargetShard c, Mig1Time c)) (ctx_at p (from_addr tx)) of
     None \<Rightarrow> False | Some (t, m) \<Rightarrow> t \<noteq> self_shard cfg \<and> shard_name t \<noteq> '''' \<and> IsTXNew m (RequestTime tx))"
  by (auto simp: departing_def split: option.splits)

lemma departing_same: "same_targets p p' \<Longrightarrow> departing cfg p' tx = departing cfg p tx"
  by (simp add: departing_eq same_targets_def)

lemma redirect_facts:
  assumes "mvssRedirectNewTx sha rng cfg now tx p = (r, tx', p')"
  shows "payload tx' = payload tx" "from_addr tx' = from_addr tx" "Pool (chain p') = Pool (chain p)" "Acc (chain p') = Acc (chain p)"
    "Sent p' = (if r then Sent p @ [ClientTxMsg [tx'] (TargetShard (the (ctx_at p (from_addr tx))))] else Sent p)"
    "same_targets p p'" "departing cfg p tx' \<Longrightarrow> r"
  using assms
  by (auto simp: mvssRedirectNewTx_def Let_def payload_def from_addr_def upd_mig_def emit_def ctx_at_def GetMigCtx_def SetMigCtx_def
      same_targets_def departing_def IsTXNew_def split: option.splits if_splits)

lemma check_needs_probe: "\<not> mvssValidateIncomingTx sha cfg mg tx \<Longrightarrow> EnableSyncProbe cfg"
  by (cases "EnableSyncProbe cfg") (simp_all add: mvssValidateIncomingTx_def)

section \<open>The first loop\<close>

definition pending_ok :: "ChainConfig \<Rightarrow> Pbft \<Rightarrow> Pbft \<Rightarrow> Transaction \<times> bool \<times> bool \<Rightarrow> bool" where
  "pending_ok cfg p0 p = (\<lambda>(tx, l, r).
     (r \<longrightarrow> l \<and> (\<exists>t. ClientTxMsg [tx] t \<in> set (Sent p)))
     \<and> (\<not> l \<longrightarrow> (\<exists>s. Account2Shard (Acc (chain p)) (from_addr tx) = Some s \<and> s \<noteq> self_shard cfg))
     \<and> (l \<and> \<not> r \<and> IsMVSSPlus cfg \<longrightarrow> \<not> departing cfg p0 tx))"

lemma pending_ok_mono:
  assumes "pending_ok cfg p0 p x" "set (Sent p) \<subseteq> set (Sent p')"
    and "memo_grows (Acc (chain p)) (Acc (chain p'))"
  shows "pending_ok cfg p0 p' x"
  using assms by (cases x) (auto simp: pending_ok_def dest: memo_growsD)

text \<open>One round: the transaction is dropped by the check, or becomes an item.\<close>

lemma intake_item_step:
  assumes step: "intake_item sha rng cfg clk (i, tx0) st = Inr st'"
    and targets: "same_targets p0 (in_pbft st)"
  shows "Pool (chain (in_pbft st')) = Pool (chain (in_pbft st)) \<and> same_targets p0 (in_pbft st')
    \<and> set (Sent (in_pbft st)) \<subseteq> set (Sent (in_pbft st'))
    \<and> memo_grows (Acc (chain (in_pbft st))) (Acc (chain (in_pbft st')))
    \<and> (in_pending st' = in_pending st \<and> EnableSyncProbe cfg \<and> IsMVSSPlus cfg
       \<or> (\<exists>tx l r. in_pending st' = in_pending st @ [(tx, l, r)] \<and> payload tx = payload tx0
            \<and> pending_ok cfg p0 (in_pbft st') (tx, l, r)))"
proof -
  let ?p = "in_pbft st"
  let ?tx1 = "fill_mig1_time cfg (mig_of ?p) tx0"
  from step obtain s1 g1 s2 g2 where a: "Addr2Shard cfg (from_addr ?tx1) (Acc (chain ?p)) = Inr (s1, g1)"
    "Addr2Shard cfg (to_addr ?tx1) g1 = Inr (s2, g2)"
    by (auto simp: intake_item_def Let_def bind_res_eq_Inr)
  let ?p1 = "upd_acc g2 ?p" and ?l = "is_local_tx cfg (mig_of ?p) s1 s2 ?tx1"
  note grow = memo_grows_trans [OF Addr2Shard_grows(2) [OF a(1)] Addr2Shard_grows(2) [OF a(2)]]
  have t1: "same_targets p0 ?p1" using targets by (auto intro: same_targets_trans simp: same_targets_def)
  have sid: "Account2Shard g2 (from_addr ?tx1) = Some s1"
    using Addr2Shard_grows [OF a(1)] Addr2Shard_grows [OF a(2)] by (blast dest: memo_growsD)
  show ?thesis
  proof (cases "?l \<and> IsMVSSPlus cfg")
    case nl: False
    then have st': "st' = st\<lparr> in_pending := in_pending st @ [(?tx1, ?l, False)], in_pbft := ?p1 \<rparr>"
      using step a unfolding intake_item_def Let_def by (simp only: prod.case bind_res_Inr if_False sum.inject)
    have "\<not> ?l \<Longrightarrow> s1 \<noteq> self_shard cfg" by (auto simp: is_local_tx_def)
    with nl t1 sid grow show ?thesis by (auto simp: st' pending_ok_def)
  next
    case True
    let ?tx2 = "if s2 = self_shard cfg \<and> Tag ?tx1 \<noteq> [] then ?tx1\<lparr> Second_RequestTime := clk 0 i \<rparr> else ?tx1"
    let ?tx3 = "mvssNormalizeTargetNewTx cfg (self_shard cfg) (mig_of ?p) ?tx2"
    show ?thesis
    proof (cases "mvssValidateIncomingTx sha cfg (mig_of ?p) ?tx2")
      case ok: False
      then have "EnableSyncProbe cfg" by (rule check_needs_probe)
      moreover have "st' = st\<lparr> in_pbft := ?p1 \<rparr>" using step a True ok by (simp add: intake_item_def Let_def)
      ultimately show ?thesis using True t1 grow by auto
    next
      case ok: True
      obtain r tx4 p2 where red: "mvssRedirectNewTx sha rng cfg (clk 1 i) ?tx3 ?p1 = (r, tx4, p2)" by (metis prod_cases3)
      note f = redirect_facts [OF red]
      have st': "in_pending st' = in_pending st @ [(tx4, True, r)]" "in_pbft st' = p2"
        using step a True ok red by (auto simp: intake_item_def Let_def)
      have "departing cfg p0 tx4 \<Longrightarrow> r" using f(7) departing_same [OF t1] by simp
      moreover have "same_targets p0 p2" by (rule same_targets_trans [OF t1 f(6)])
      ultimately show ?thesis using f(1,3-5) grow by (auto simp: st' pending_ok_def)
    qed
  qed
qed

lemma intake_loop:
  "fold_res (intake_item sha rng cfg clk) (zip is txs) st = Inr st' \<Longrightarrow> length is = length txs \<Longrightarrow>
   same_targets p0 (in_pbft st) \<Longrightarrow> \<forall>x\<in>set (in_pending st). pending_ok cfg p0 (in_pbft st) x \<Longrightarrow>
   \<exists>dropped new. in_pending st' = in_pending st @ new
     \<and> mset (map payload txs) = mset dropped + mset (map (\<lambda>x. payload (fst x)) new)
     \<and> (dropped \<noteq> [] \<longrightarrow> EnableSyncProbe cfg \<and> IsMVSSPlus cfg)
     \<and> (\<forall>x\<in>set (in_pending st'). pending_ok cfg p0 (in_pbft st') x)
     \<and> Pool (chain (in_pbft st')) = Pool (chain (in_pbft st))
     \<and> memo_grows (Acc (chain (in_pbft st))) (Acc (chain (in_pbft st')))
     \<and> set (Sent (in_pbft st)) \<subseteq> set (Sent (in_pbft st'))"
proof (induction txs arbitrary: "is" st)
  case Nil
  then show ?case by (intro exI [of _ "[]"]) simp
next
  case (Cons tx txs)
  obtain i is' where is': "is = i # is'" using Cons.prems(2) by (cases "is") auto
  with Cons.prems(1) obtain st1 where st1: "intake_item sha rng cfg clk (i, tx) st = Inr st1"
    "fold_res (intake_item sha rng cfg clk) (zip is' txs) st1 = Inr st'" by (auto simp: bind_res_eq_Inr)
  note step = intake_item_step [OF st1(1) Cons.prems(3)]
  have old: "\<forall>x\<in>set (in_pending st). pending_ok cfg p0 (in_pbft st1) x"
    using Cons.prems(4) step by (blast intro: pending_ok_mono)
  have len: "length is' = length txs" and tgt: "same_targets p0 (in_pbft st1)"
    using Cons.prems(2) is' step by simp_all
  from old step have "\<forall>x\<in>set (in_pending st1). pending_ok cfg p0 (in_pbft st1) x" by auto
  from Cons.IH [OF st1(2) len tgt this] obtain dropped new where
    IH: "in_pending st' = in_pending st1 @ new" "mset (map payload txs) = mset dropped + mset (map (\<lambda>x. payload (fst x)) new)"
      "dropped \<noteq> [] \<longrightarrow> EnableSyncProbe cfg \<and> IsMVSSPlus cfg" "\<forall>x\<in>set (in_pending st'). pending_ok cfg p0 (in_pbft st') x"
      "Pool (chain (in_pbft st')) = Pool (chain (in_pbft st1))"
      "memo_grows (Acc (chain (in_pbft st1))) (Acc (chain (in_pbft st')))"
      "set (Sent (in_pbft st1)) \<subseteq> set (Sent (in_pbft st'))" by blast
  have rest: "Pool (chain (in_pbft st')) = Pool (chain (in_pbft st))"
     "memo_grows (Acc (chain (in_pbft st))) (Acc (chain (in_pbft st')))"
     "set (Sent (in_pbft st)) \<subseteq> set (Sent (in_pbft st'))"
    using step IH(5-7) by (auto intro: memo_grows_trans)
  from step consider "in_pending st1 = in_pending st" "EnableSyncProbe cfg" "IsMVSSPlus cfg"
    | v l r where "in_pending st1 = in_pending st @ [(v, l, r)]" "payload v = payload tx" by blast
  then show ?case
  proof cases
    case 1
    with IH rest show ?thesis by (intro exI [of _ "payload tx # dropped"] exI [of _ new]) simp
  next
    case 2
    with IH rest show ?thesis by (intro exI [of _ dropped] exI [of _ "(v, l, r) # new"]) simp
  qed
qed

section \<open>The second loop\<close>

definition must_wait :: "ChainConfig \<Rightarrow> Globals \<Rightarrow> Transaction \<Rightarrow> bool" where
  "must_wait cfg g tx \<longleftrightarrow> \<not> Not_Lock_immediately cfg \<and> \<not> Stop_When_Migrating cfg
     \<and> (Not_Lock_Acc_When_Migrating cfg \<and> \<not> IsMVSSPlus cfg \<and> (flag (Not_Lock_Acc g) (from_addr tx) \<or> flag (Not_Lock_Acc g) (to_addr tx))
       \<or> Lock_Acc_When_Migrating cfg \<and> (flag (Lock_Acc g) (from_addr tx) \<or> flag (Lock_Acc g) (to_addr tx))
       \<or> \<not> Lock_Acc_When_Migrating cfg \<and> \<not> Not_Lock_Acc_When_Migrating cfg \<and> flag (Outing_Acc_Before_Announce g) (from_addr tx))"

lemma must_wait_memo: "memo_grows g g' \<Longrightarrow> must_wait cfg g' = must_wait cfg g"
  by (rule ext) (simp add: must_wait_def memo_grows_def)

lemma intake_lock_must:
  "\<not> Not_Lock_immediately cfg \<Longrightarrow> intake_lock cfg g now tx pool = None \<Longrightarrow> \<not> must_wait cfg g tx"
  by (auto simp: intake_lock_def must_wait_def Let_def split: if_splits)

lemma intake_lock_moves:
  "intake_lock cfg g now tx pool = Some p' \<Longrightarrow> pools_grow pool p' \<and> in_lock_pool p' tx \<and> Queue p' = Queue pool"
  unfolding intake_lock_def Let_def
  by (auto simp: pools_grow_def append_at_def split: if_split_asm
      intro: in_lock_poolI [where a = "from_addr tx" and v' = "tx\<lparr> LockTime := now, SenLock := True \<rparr>"]
        in_lock_poolI [where a = "to_addr tx" and v' = "tx\<lparr> LockTime := now, RecLock := True \<rparr>"]
        in_lock_poolI [where a = "from_addr tx" and v' = "tx\<lparr> LockTime := now \<rparr>"])

lemma place_items_post:
  "place_items cfg g clock i items pool = (q, f, pool') \<Longrightarrow>
   \<exists>L. mset q + mset L = mset (map fst (filter (\<lambda>(v, l, r). l \<and> \<not> r) items))
     \<and> f = map fst (filter (\<lambda>(v, l, r). \<not> l) items)
     \<and> pools_grow pool pool' \<and> Queue pool' = Queue pool
     \<and> (\<forall>v\<in>set L. in_lock_pool pool' v) \<and> (\<forall>v\<in>set q. \<not> must_wait cfg g v)"
proof (induction cfg g clock i items pool arbitrary: q f pool' rule: place_items.induct)
  case (1 cfg g clock i pool)
  then show ?case by simp
next
  case (2 cfg g clock i v l r items pool)
  let ?lock = "if \<not> Not_Lock_immediately cfg then intake_lock cfg g (clock i) v pool else None"
  consider (other) "\<not> l" | (gone) "l" "r" | (keep) "l" "\<not> r" "?lock = None" | (lock) p1 where "l" "\<not> r" "?lock = Some p1"
    by (cases l; cases r; cases ?lock) auto
  then show ?case
  proof cases
    case other
    with "2.prems" obtain f' where s: "place_items cfg g clock (Suc i) items pool = (q, f', pool')" "f = v # f'"
      by (auto split: prod.splits)
    with "2.IH"(1) [OF other s(1)] other show ?thesis by auto
  next
    case gone
    with "2.prems" have s: "place_items cfg g clock (Suc i) items pool = (q, f, pool')" by simp
    from "2.IH"(2) [OF _ gone(2) s] gone show ?thesis by auto
  next
    case keep
    with "2.prems" obtain q' where s: "place_items cfg g clock (Suc i) items pool = (q', f, pool')" "q = v # q'"
      by (auto split: prod.splits)
    have "\<not> must_wait cfg g v"
      using keep(3) intake_lock_must by (cases "Not_Lock_immediately cfg") (auto simp: must_wait_def)
    with "2.IH"(3) [OF _ keep(2,3) s(1)] keep s(2) show ?thesis by auto
  next
    case lock
    with "2.prems" have s: "place_items cfg g clock (Suc i) items p1 = (q, f, pool')" by simp
    from lock have "intake_lock cfg g (clock i) v pool = Some p1" by (auto split: if_splits)
    note m = intake_lock_moves [OF this]
    from "2.IH"(4) [OF _ lock(2,3) s] lock obtain L where
      "mset q + mset L = mset (map fst (filter (\<lambda>(v, l, r). l \<and> \<not> r) items))"
      "f = map fst (filter (\<lambda>(v, l, r). \<not> l) items)" "pools_grow p1 pool'" "Queue pool' = Queue p1"
      "\<forall>v\<in>set L. in_lock_pool pool' v" "\<forall>v\<in>set q. \<not> must_wait cfg g v" by auto
    with lock m show ?thesis
      by (intro exI [of _ "v # L"]) (auto intro: pools_grow_trans in_lock_pool_grow)
  qed
qed

section \<open>Sending and promotion\<close>

lemma distribute_post:
  "distribute cfg addr_of vs (pool, g) = Inr (pool', g') \<Longrightarrow> memo_grows g g'
   \<and> (\<forall>s. set (pool s) \<subseteq> set (pool' s))
   \<and> (\<forall>v\<in>set vs. \<exists>s. Account2Shard g' (addr_of v) = Some s \<and> 0 \<le> s \<and> s < Shard_num cfg \<and> v \<in> set (pool' s))"
proof (induction vs arbitrary: pool g)
  case Nil
  then show ?case by (simp add: distribute_def)
next
  case (Cons v vs)
  then obtain s g1 where a: "Addr2Shard cfg (addr_of v) g = Inr (s, g1)" "0 \<le> s" "s < Shard_num cfg"
    "distribute cfg addr_of vs (pool(s := pool s @ [v]), g1) = Inr (pool', g')"
    by (auto simp: distribute_def bind_res_eq_Inr shard_append_def split: if_splits)
  note g = Addr2Shard_grows [OF a(1)] and IH = Cons.IH [OF a(4)]
  have "set (pool t) \<subseteq> set ((pool(s := pool s @ [v])) t)" for t by auto
  with IH have "\<forall>t. set (pool t) \<subseteq> set (pool' t)" by (meson order_trans)
  moreover have "v \<in> set ((pool(s := pool s @ [v])) s)" by simp
  with IH have "v \<in> set (pool' s)" by blast
  ultimately show ?case using IH g a(2,3) by (auto dest: memo_growsD intro: memo_grows_trans)
qed

lemma send_pool_frame [simp]:
  "chain (send_pool msg ts pool p) = chain p" "mig_of (send_pool msg ts pool p) = mig_of p"
  by (induction ts arbitrary: p) (simp_all add: send_pool_def emit_def)

lemma send_pool_sent:
  "Sent (send_pool msg ts pool p) = Sent p @ map (\<lambda>s. msg (pool s) s) (filter (\<lambda>s. pool s \<noteq> []) ts)"
  by (induction ts arbitrary: p) (auto simp: send_pool_def emit_def)

text \<open>The table of nodes lists every other shard.\<close>

definition covers :: "ChainConfig \<Rightarrow> string list \<Rightarrow> bool" where
  "covers cfg keys \<longleftrightarrow> (\<forall>s. 0 \<le> s \<and> s < Shard_num cfg \<and> s \<noteq> self_shard cfg \<longrightarrow> s \<in> set (send_targets cfg keys))"

lemma sent_by_shard:
  assumes d: "distribute cfg addr_of vs (\<lambda>_. [], g0) = Inr (pool, g)" and cov: "covers cfg keys"
    and foreign: "\<forall>v\<in>set vs. \<exists>s. Account2Shard g0 (addr_of v) = Some s \<and> s \<noteq> self_shard cfg" and v: "v \<in> set vs"
  shows "\<exists>ts s. msg ts s \<in> set (Sent (send_pool msg (send_targets cfg keys) pool q)) \<and> v \<in> set ts
    \<and> Account2Shard g0 (addr_of v) = Some s"
proof -
  note post = distribute_post [OF d]
  from post v obtain s where s: "Account2Shard g (addr_of v) = Some s" "0 \<le> s" "s < Shard_num cfg" "v \<in> set (pool s)"
    by blast
  from foreign v obtain t where t: "Account2Shard g0 (addr_of v) = Some t" "t \<noteq> self_shard cfg" by blast
  with post s(1) have "s = t" by (metis memo_growsD option.inject)
  with cov s t have "s \<in> set (send_targets cfg keys)" by (simp add: covers_def)
  moreover have "pool s \<noteq> []" using s(4) by auto
  ultimately have "msg (pool s) s \<in> set (Sent (send_pool msg (send_targets cfg keys) pool q))" by (auto simp: send_pool_sent)
  with s(4) t(1) \<open>s = t\<close> show ?thesis by blast
qed

lemma TrySendTX_post:
  assumes "TrySendTX cfg keys txs p = Inr p'" "covers cfg keys"
    and foreign: "\<forall>v\<in>set txs. \<exists>s. Account2Shard (Acc (chain p)) (from_addr v) = Some s \<and> s \<noteq> self_shard cfg"
  shows "Pool (chain p') = Pool (chain p)" "memo_grows (Acc (chain p)) (Acc (chain p'))" "set (Sent p) \<subseteq> set (Sent p')"
    "\<forall>v\<in>set txs. \<exists>ts s. ClientTxMsg ts s \<in> set (Sent p') \<and> v \<in> set ts"
proof -
  obtain pool g where d: "distribute cfg from_addr txs (\<lambda>_. [], Acc (chain p)) = Inr (pool, g)"
    and p': "p' = send_pool ClientTxMsg (send_targets cfg keys) pool (upd_acc g p)"
    using assms(1) by (auto simp: TrySendTX_def bind_res_eq_Inr)
  show "Pool (chain p') = Pool (chain p)" "memo_grows (Acc (chain p)) (Acc (chain p'))" "set (Sent p) \<subseteq> set (Sent p')"
    using distribute_post [OF d] by (simp_all add: p' send_pool_sent)
  show "\<forall>v\<in>set txs. \<exists>ts s. ClientTxMsg ts s \<in> set (Sent p') \<and> v \<in> set ts"
    using sent_by_shard [OF d assms(2) foreign] unfolding p' by blast
qed

lemma ids_partition: "mset (map arrived (filter P q)) + mset (map arrived (filter (\<lambda>v. \<not> P v) q)) = mset (map arrived q)"
  by (induction q) auto

lemma pull_front_arrived: "pull_front P n q = (h, t, m) \<Longrightarrow> map arrived h = map arrived (filter P q)"
  by (induction P n q arbitrary: h t m rule: pull_front.induct) (auto split: prod.splits if_splits)

lemma promote_cases:
  obtains "mvssMaybePromoteAfterNewEnqueued cfg a p = p"
    | P n h t m where "pull_front P n (Queue (Pool (chain p))) = (h, t, m)"
        "mvssMaybePromoteAfterNewEnqueued cfg a p
           = upd_ctx a (\<lambda>c. c\<lparr> NextNonce := m \<rparr>) (upd_pool (\<lambda>pool. pool\<lparr> Queue := h @ t \<rparr>) p)"
proof (cases "mvssMaybePromoteAfterNewEnqueued cfg a p = p")
  case False
  then have e: "mvssMaybePromoteAfterNewEnqueued cfg a p = mvssPromoteMigNewTxsToHead a p"
    by (auto simp: mvssMaybePromoteAfterNewEnqueued_def split: option.splits if_splits)
  with False obtain ctx where ctx: "ctx_at p a = Some ctx"
    by (cases "ctx_at p a") (simp_all add: mvssPromoteMigNewTxsToHead_def)
  define P where "P = (\<lambda>tx. from_addr tx = a \<and> IsTXNew (Mig1Time ctx) (RequestTime tx))"
  define n where "n = (case GetAccountNonce a (chain p) of None \<Rightarrow> LastCN ctx | Some n \<Rightarrow> n)"
  obtain h t m where pf: "pull_front P n (Queue (Pool (chain p))) = (h, t, m)" by (metis prod_cases3)
  have "mvssPromoteMigNewTxsToHead a p
      = (if h = [] then p else upd_ctx a (\<lambda>c. c\<lparr> NextNonce := m \<rparr>) (upd_pool (\<lambda>pool. pool\<lparr> Queue := h @ t \<rparr>) p))"
    unfolding mvssPromoteMigNewTxsToHead_def ctx option.case Let_def P_def [symmetric] n_def [symmetric] pf by simp
  with e False that(2) [OF pf] show thesis by (cases "h = []") simp_all
qed (rule that(1))

lemma promote_keeps:
  "mset (map arrived (Queue (Pool (chain (mvssMaybePromoteAfterNewEnqueued cfg a p))))) = mset (map arrived (Queue (Pool (chain p))))"
  "in_lock_pool (Pool (chain (mvssMaybePromoteAfterNewEnqueued cfg a p))) = in_lock_pool (Pool (chain p))"
  "Sent (mvssMaybePromoteAfterNewEnqueued cfg a p) = Sent p"
proof -
  have part: "mset (map arrived h) + mset (map arrived t) = mset (map arrived q)" if "pull_front P n q = (h, t, m)" for P n h t m q
    using pull_front_eq [OF that] pull_front_arrived [OF that] ids_partition [of P q] by simp
  show "mset (map arrived (Queue (Pool (chain (mvssMaybePromoteAfterNewEnqueued cfg a p))))) = mset (map arrived (Queue (Pool (chain p))))"
    by (rule promote_cases [of cfg a p]) (use part in simp_all)
  show "in_lock_pool (Pool (chain (mvssMaybePromoteAfterNewEnqueued cfg a p))) = in_lock_pool (Pool (chain p))"
    "Sent (mvssMaybePromoteAfterNewEnqueued cfg a p) = Sent p"
    by (rule promote_cases [of cfg a p]; simp add: in_lock_pool_def fun_eq_iff)+
qed

lemma promote_fold_keeps:
  "mset (map arrived (Queue (Pool (chain (fold (mvssMaybePromoteAfterNewEnqueued cfg) addrs p))))) = mset (map arrived (Queue (Pool (chain p))))"
  "in_lock_pool (Pool (chain (fold (mvssMaybePromoteAfterNewEnqueued cfg) addrs p))) = in_lock_pool (Pool (chain p))"
  "Sent (fold (mvssMaybePromoteAfterNewEnqueued cfg) addrs p) = Sent p"
  by (induction addrs arbitrary: p) (simp_all only: fold_simps promote_keeps)

lemma probe_partition:
  "mset (filter (\<lambda>v. P v \<and> \<not> S v) q) + mset (filter (\<lambda>v. P v \<and> S v) q) + mset (filter (\<lambda>v. \<not> P v) q) = mset q"
  by (induction q) auto

lemma enqueue_order_mset: "mset (enqueue_order q Q) = mset q + mset Q"
  using probe_partition [of "\<lambda>v. IsSyncProbeTxID (TxId v)" "\<lambda>v. (TxId v - 9000000000) mod 10 = 3" q]
  unfolding enqueue_order_def Let_def mset_append by (simp only: ac_simps)

section \<open>The handler\<close>

lemma split_items:
  "mset (map (\<lambda>x. payload (fst x)) items)
   = mset (map payload (map fst (filter (\<lambda>(v, l, r). l \<and> r) items))) + mset (map payload (map fst (filter (\<lambda>(v, l, r). \<not> l) items)))
     + mset (map payload (map fst (filter (\<lambda>(v, l, r). l \<and> \<not> r) items)))"
  by (induction items) auto

lemma intake_post:
  assumes run: "handleTxFromClient sha rng rngs cfg keys clk txs p = Inr p'" and cov: "covers cfg keys"
  shows "\<exists>dropped sent locked queued.
      mset (map payload txs) = mset dropped + mset (map payload sent) + mset (map payload locked) + mset (map payload queued)
    \<and> mset (map arrived (Queue (Pool (chain p')))) = mset (map arrived (Queue (Pool (chain p)))) + mset (map arrived queued)
    \<and> (dropped \<noteq> [] \<longrightarrow> EnableSyncProbe cfg \<and> IsMVSSPlus cfg)
    \<and> (\<forall>v\<in>set sent. \<exists>ts s. ClientTxMsg ts s \<in> set (Sent p') \<and> v \<in> set ts)
    \<and> (\<forall>v\<in>set locked. in_lock_pool (Pool (chain p')) v)
    \<and> (\<forall>v\<in>set queued. \<not> must_wait cfg (Acc (chain p)) v)
    \<and> (IsMVSSPlus cfg \<longrightarrow> (\<forall>v\<in>set locked \<union> set queued. \<not> departing cfg p v))"
proof -
  obtain st where st: "fold_res (intake_item sha rng cfg clk) (zip [0..<length txs] txs)
      \<lparr> in_pending = [], in_promote = [], in_pbft = p \<rparr> = Inr st"
    using run by (auto simp: handleTxFromClient_def bind_res_eq_Inr)
  let ?p1 = "in_pbft st" and ?items = "in_pending st"
  obtain q f pool where place: "place_items cfg (Acc (chain ?p1)) (clk 2) 0 ?items (Pool (chain ?p1)) = (q, f, pool)"
    by (metis prod_cases3)
  let ?p2 = "upd_pool (\<lambda>_. pool\<lparr> Queue := enqueue_order q (Queue pool) \<rparr>) ?p1"
  obtain p3 where p3: "(if f \<noteq> [] then TrySendTX cfg keys f ?p2 else Inr ?p2) = Inr p3"
    and p': "p' = fold (mvssMaybePromoteAfterNewEnqueued cfg) (rngs (in_promote st)) p3"
    using run st place by (auto simp: handleTxFromClient_def bind_res_eq_Inr Let_def)
  from intake_loop [OF st, of p] obtain dropped where
    loop: "mset (map payload txs) = mset dropped + mset (map (\<lambda>x. payload (fst x)) ?items)"
      "dropped \<noteq> [] \<longrightarrow> EnableSyncProbe cfg \<and> IsMVSSPlus cfg" "\<forall>x\<in>set ?items. pending_ok cfg p ?p1 x"
      "Pool (chain ?p1) = Pool (chain p)" "memo_grows (Acc (chain p)) (Acc (chain ?p1))" by auto
  from place_items_post [OF place] obtain L where
    P: "mset q + mset L = mset (map fst (filter (\<lambda>(v, l, r). l \<and> \<not> r) ?items))"
      "f = map fst (filter (\<lambda>(v, l, r). \<not> l) ?items)" "Queue pool = Queue (Pool (chain p))"
      "\<forall>v\<in>set L. in_lock_pool pool v" "\<forall>v\<in>set q. \<not> must_wait cfg (Acc (chain ?p1)) v"
    using loop(4) by auto
  have foreign: "\<forall>v\<in>set f. \<exists>s. Account2Shard (Acc (chain ?p2)) (from_addr v) = Some s \<and> s \<noteq> self_shard cfg"
    using loop(3) by (fastforce simp: P(2) pending_ok_def upd_pool_def)
  have send: "Pool (chain p3) = Pool (chain ?p2) \<and> set (Sent ?p1) \<subseteq> set (Sent p3)
      \<and> (\<forall>v\<in>set f. \<exists>ts s. ClientTxMsg ts s \<in> set (Sent p3) \<and> v \<in> set ts)"
  proof (cases "f = []")
    case False
    then have "TrySendTX cfg keys f ?p2 = Inr p3" using p3 by simp
    from TrySendTX_post [OF this cov foreign] show ?thesis by simp
  qed (use p3 in auto)
  have pool': "Pool (chain p3) = pool\<lparr> Queue := enqueue_order q (Queue pool) \<rparr>" using send by simp
  let ?red = "map fst (filter (\<lambda>(v, l, r). l \<and> r) ?items)"
  have red: "\<forall>v\<in>set ?red. \<exists>ts s. ClientTxMsg ts s \<in> set (Sent p3) \<and> v \<in> set ts"
  proof
    fix v assume "v \<in> set ?red"
    then have "(v, True, True) \<in> set ?items" by auto
    with loop(3) have "pending_ok cfg p ?p1 (v, True, True)" by blast
    then obtain t where "ClientTxMsg [v] t \<in> set (Sent ?p1)" by (auto simp: pending_ok_def)
    with send show "\<exists>ts s. ClientTxMsg ts s \<in> set (Sent p3) \<and> v \<in> set ts" by (metis list.set_intros(1) subsetD)
  qed
  have stay: "\<forall>v\<in>set L \<union> set q. (v, True, False) \<in> set ?items"
  proof
    fix v assume "v \<in> set L \<union> set q"
    then have "v \<in># mset q + mset L" by auto
    then show "(v, True, False) \<in> set ?items" unfolding P(1) by auto
  qed
  show ?thesis
  proof (intro exI conjI)
    show "mset (map payload txs) = mset dropped + mset (map payload (?red @ f)) + mset (map payload L) + mset (map payload q)"
    proof -
      have "mset (map payload L) + mset (map payload q) = mset (map payload (map fst (filter (\<lambda>(v, l, r). l \<and> \<not> r) ?items)))"
        using arg_cong [OF P(1), of "image_mset payload"]
        by (simp only: mset_map image_mset_union ac_simps)
      then show ?thesis using loop(1) split_items [of ?items] P(2) by (simp add: ac_simps)
    qed
    show "mset (map arrived (Queue (Pool (chain p')))) = mset (map arrived (Queue (Pool (chain p)))) + mset (map arrived q)"
      by (simp add: p' promote_fold_keeps pool' enqueue_order_mset P(3) del: mset_map) (simp add: enqueue_order_mset)
    show "\<forall>v\<in>set (?red @ f). \<exists>ts s. ClientTxMsg ts s \<in> set (Sent p') \<and> v \<in> set ts"
      unfolding p' promote_fold_keeps set_append using red send by (intro ballI) (erule UnE; blast)
    show "\<forall>v\<in>set L. in_lock_pool (Pool (chain p')) v"
      using P(4) by (simp add: p' promote_fold_keeps pool') (simp add: in_lock_pool_def)
    show "\<forall>v\<in>set q. \<not> must_wait cfg (Acc (chain p)) v" using P(5) must_wait_memo [OF loop(5)] by simp
    show "IsMVSSPlus cfg \<longrightarrow> (\<forall>v\<in>set L \<union> set q. \<not> departing cfg p v)"
    proof (intro impI ballI)
      fix v assume "IsMVSSPlus cfg" "v \<in> set L \<union> set q"
      with stay loop(3) have "pending_ok cfg p ?p1 (v, True, False)" by blast
      with \<open>IsMVSSPlus cfg\<close> show "\<not> departing cfg p v" by (simp add: pending_ok_def)
    qed
  qed (use loop(2) in blast)
qed



definition intake_config :: ChainConfig where
  "intake_config = default_config\<lparr> ShardID := ''S0'', Shard_num := 2 \<rparr>"

lemma intake_config_facts:
  "covers intake_config [''S0'', ''S1'']" "self_shard intake_config = 0" "\<not> IsMVSSPlus intake_config"
  "send_targets intake_config [''S0'', ''S1''] = [1]" "Not_Lock_immediately intake_config" "Shard_num intake_config = 2"
  by (auto simp: covers_def send_targets_def intake_config_def default_config_def IsMVSSPlus_def IsMVSS_def self_shard_def
      shard_number_def ShardTable_def)

definition intake_node :: Pbft where
  "intake_node = upd_acc (InitGlobals\<lparr> Account2Shard := [''05'' \<mapsto> 0, ''06'' \<mapsto> 1] \<rparr>) pbft0"


definition leaving_node :: Pbft where
  "leaving_node = upd_acc (InitGlobals\<lparr> Account2Shard := [''05'' \<mapsto> 0, ''06'' \<mapsto> 1] \<rparr>) (upd_mig (SetMigCtx ''05'' ctx0) pbft0)"

lemma leaving_facts:
  "departing mvss_config leaving_node (tx_of 2 5 6 12)" "IsMVSSPlus mvss_config" "covers mvss_config [''S0'', ''S1'']"
  by (simp add: departing_def leaving_node_def upd_mig_def ctx_at_def GetMigCtx_def SetMigCtx_def ctx0_def IsTXNew_def probe_config_facts)
    (auto simp: mvss_config_def default_config_def IsMVSSPlus_def IsMVSS_def covers_def send_targets_def self_shard_def
      shard_number_def ShardTable_def)

lemma Not_Lock_mvss: "Not_Lock_immediately mvss_config"
  by (simp add: mvss_config_def default_config_def)


end
