(* ===== verification/Relays.thy ===== *)
theory Relays
  imports Intake
begin

text \<open>
  What becomes of relayed transactions: \<open>handleRelay\<close> (\<open>pbft/pbft.go\<close>) queues those whose recipient
  lives on this shard, parks those of locked recipients, sends the others on and drops what its check rejects.
\<close>

text \<open>One round of the loop.\<close>

lemma handle_one_relay_step:
  assumes "handle_one_relay sha cfg clk (i, r) st = Inr st'"
  shows "memo_grows (Acc (chain (rs_pbft st))) (Acc (chain (rs_pbft st'))) \<and> Sent (rs_pbft st') = Sent (rs_pbft st)
    \<and> pools_grow (Pool (chain (rs_pbft st))) (Pool (chain (rs_pbft st')))
    \<and> Queue (Pool (chain (rs_pbft st'))) = Queue (Pool (chain (rs_pbft st)))
    \<and> (rs_txcss st' = rs_txcss st \<and> rs_relay2 st' = rs_relay2 st \<and> EnableSyncProbe cfg \<and> IsMVSSPlus cfg
       \<or> (\<exists>v. payload v = payload (rl_Txcs r) \<and>
           (rs_txcss st' = rs_txcss st @ [v] \<and> rs_relay2 st' = rs_relay2 st
              \<and> Account2Shard (Acc (chain (rs_pbft st'))) (to_addr v) = Some (self_shard cfg)
            \<or> rs_txcss st' = rs_txcss st \<and> rs_relay2 st' = rs_relay2 st \<and> in_lock_pool (Pool (chain (rs_pbft st'))) v
            \<or> (\<exists>s. rs_txcss st' = rs_txcss st \<and> rs_relay2 st' = rs_relay2 st @ [r\<lparr> rl_Txcs := v \<rparr>]
              \<and> Account2Shard (Acc (chain (rs_pbft st'))) (to_addr v) = Some s \<and> s \<noteq> self_shard cfg))))"
proof -
  let ?p = "rs_pbft st"
  let ?v = "fill_mig1_time cfg (mig_of ?p) (rl_Txcs r)"
  let ?w = "(stamp_lock (clk 0 i) ?v)\<lparr> RecLock := True, Second_RequestTime := clk 1 i \<rparr>"
  have same: "payload (tx\<lparr> Second_RequestTime := t \<rparr>) = payload tx" "to_addr (tx\<lparr> Second_RequestTime := t \<rparr>) = to_addr tx" for tx t
    by (simp_all add: payload_def to_addr_def)
  show ?thesis
  proof (cases "IsMVSSPlus cfg \<and> \<not> mvssValidateIncomingTx sha cfg (mig_of ?p) ?v")
    case True
    with assms show ?thesis by (auto simp: handle_one_relay_def Let_def dest: check_needs_probe)
  next
    case False
    with assms obtain s g where a: "Addr2Shard cfg (to_addr ?v) (Acc (chain ?p)) = Inr (s, g)"
      by (auto simp: handle_one_relay_def Let_def bind_res_eq_Inr)
    note grow = Addr2Shard_grows [OF a]
    consider (parked) f where "st' = st\<lparr> rs_pbft := upd_pool f (upd_acc g ?p) \<rparr>"
        "pools_grow (Pool (chain ?p)) (f (Pool (chain ?p)))" "Queue (f (Pool (chain ?p))) = Queue (Pool (chain ?p))"
        "in_lock_pool (f (Pool (chain ?p))) ?v"
      | (own) "s = self_shard cfg" "st' = st\<lparr> rs_txcss := rs_txcss st @ [?v\<lparr> Second_RequestTime := clk 1 i \<rparr>], rs_pbft := upd_acc g ?p \<rparr>"
      | (other) "s \<noteq> self_shard cfg" "st' = st\<lparr> rs_relay2 := rs_relay2 st @ [r\<lparr> rl_Txcs := ?v \<rparr>], rs_pbft := upd_acc g ?p \<rparr>"
    proof -
      have id: "TxId ?w = TxId ?v" by (simp add: stamp_lock_def)
      have put: "in_lock_pool (pool\<lparr> Not_Locking_TX_Pools := append_at (to_addr ?v) ?w (Not_Locking_TX_Pools pool) \<rparr>) ?v"
        "in_lock_pool (pool\<lparr> Locking_TX_Pools := append_at (to_addr ?v) ?w (Locking_TX_Pools pool) \<rparr>) ?v" for pool
        using id by (auto simp: append_at_def intro!: in_lock_poolI [where a = "to_addr ?v" and v' = ?w])
      have st': "Inr st' = (if \<not> Not_Lock_immediately cfg \<and> flag (Not_Lock_Acc g) (to_addr ?v) then
           Inr (st\<lparr> rs_pbft := upd_pool (\<lambda>pool. pool\<lparr> Not_Locking_TX_Pools := append_at (to_addr ?v) ?w (Not_Locking_TX_Pools pool) \<rparr>) (upd_acc g ?p) \<rparr>)
         else if \<not> Not_Lock_immediately cfg \<and> flag (Lock_Acc g) (to_addr ?v) then
           Inr (st\<lparr> rs_pbft := upd_pool (\<lambda>pool. pool\<lparr> Locking_TX_Pools := append_at (to_addr ?v) ?w (Locking_TX_Pools pool) \<rparr>) (upd_acc g ?p) \<rparr>)
         else if s = self_shard cfg then
           Inr (st\<lparr> rs_txcss := rs_txcss st @ [?v\<lparr> Second_RequestTime := clk 1 i \<rparr>], rs_pbft := upd_acc g ?p \<rparr>)
         else (Inr (st\<lparr> rs_relay2 := rs_relay2 st @ [r\<lparr> rl_Txcs := ?v \<rparr>], rs_pbft := upd_acc g ?p \<rparr>) :: relay_state res))"
        using assms a False unfolding handle_one_relay_def prod.case Let_def by (simp only: prod.case if_False bind_res_Inr)
      show thesis
      proof (cases "\<not> Not_Lock_immediately cfg \<and> flag (Not_Lock_Acc g) (to_addr ?v)")
        case True
        then have "st' = st\<lparr> rs_pbft := upd_pool (\<lambda>pool. pool\<lparr> Not_Locking_TX_Pools :=
            append_at (to_addr ?v) ?w (Not_Locking_TX_Pools pool) \<rparr>) (upd_acc g ?p) \<rparr>" using st' by simp
        from parked [OF this _ _ put(1)] show thesis by (simp add: pools_grow_def append_at_def)
      next
        case nl: False
        show thesis
        proof (cases "\<not> Not_Lock_immediately cfg \<and> flag (Lock_Acc g) (to_addr ?v)")
          case True
          then have "st' = st\<lparr> rs_pbft := upd_pool (\<lambda>pool. pool\<lparr> Locking_TX_Pools :=
              append_at (to_addr ?v) ?w (Locking_TX_Pools pool) \<rparr>) (upd_acc g ?p) \<rparr>"
            using st' unfolding if_not_P [OF nl] if_P [OF True] by (simp only: sum.inject)
          from parked [OF this _ _ put(2)] show thesis by (simp add: pools_grow_def append_at_def)
        next
          case lk: False
          show thesis
          proof (cases "s = self_shard cfg")
            case True
            show thesis by (rule own [OF True]) (use st' in \<open>unfold if_not_P [OF nl] if_not_P [OF lk] if_P [OF True], simp only: sum.inject\<close>)
          next
            case False
            show thesis by (rule other [OF False]) (use st' in \<open>unfold if_not_P [OF nl] if_not_P [OF lk] if_not_P [OF False], simp only: sum.inject\<close>)
          qed
        qed
      qed
    qed
    then show ?thesis
    proof cases
      case parked
      with grow show ?thesis by auto
    next
      case own
      with grow same show ?thesis by auto
    next
      case other
      with grow show ?thesis by (auto intro: exI [where x = ?v])
    qed
  qed
qed

text \<open>The loop, with what it has collected so far.\<close>

definition relays_ok :: "ChainConfig \<Rightarrow> relay_state \<Rightarrow> bool" where
  "relays_ok cfg st \<longleftrightarrow>
     (\<forall>v\<in>set (rs_txcss st). Account2Shard (Acc (chain (rs_pbft st))) (to_addr v) = Some (self_shard cfg))
   \<and> (\<forall>r\<in>set (rs_relay2 st). \<exists>s. Account2Shard (Acc (chain (rs_pbft st))) (to_addr (rl_Txcs r)) = Some s \<and> s \<noteq> self_shard cfg)"

lemma relays_ok_step:
  assumes "handle_one_relay sha cfg clk x st = Inr st'" "relays_ok cfg st"
  shows "relays_ok cfg st'"
proof -
  obtain i r where x: "x = (i, r)" by force
  note step = handle_one_relay_step [OF assms(1) [unfolded x]]
  then have g: "memo_grows (Acc (chain (rs_pbft st))) (Acc (chain (rs_pbft st')))" by blast
  from assms(2) have "\<forall>v\<in>set (rs_txcss st). Account2Shard (Acc (chain (rs_pbft st'))) (to_addr v) = Some (self_shard cfg)"
    "\<forall>r\<in>set (rs_relay2 st). \<exists>s. Account2Shard (Acc (chain (rs_pbft st'))) (to_addr (rl_Txcs r)) = Some s \<and> s \<noteq> self_shard cfg"
    unfolding relays_ok_def using g by (blast dest: memo_growsD)+
  with step show ?thesis unfolding relays_ok_def by auto
qed

lemma relay_loop:
  "fold_res (handle_one_relay sha cfg clk) (zip is rs) st = Inr st' \<Longrightarrow> length is = length rs \<Longrightarrow>
   \<exists>dropped locked own other. rs_txcss st' = rs_txcss st @ own \<and> rs_relay2 st' = rs_relay2 st @ other
     \<and> mset (map (\<lambda>r. payload (rl_Txcs r)) rs) = mset dropped + mset (map payload locked) + mset (map payload own)
         + mset (map (\<lambda>r. payload (rl_Txcs r)) other)
     \<and> (dropped \<noteq> [] \<longrightarrow> EnableSyncProbe cfg \<and> IsMVSSPlus cfg)
     \<and> (\<forall>v\<in>set locked. in_lock_pool (Pool (chain (rs_pbft st'))) v)
     \<and> pools_grow (Pool (chain (rs_pbft st))) (Pool (chain (rs_pbft st')))
     \<and> Queue (Pool (chain (rs_pbft st'))) = Queue (Pool (chain (rs_pbft st))) \<and> Sent (rs_pbft st') = Sent (rs_pbft st)"
proof (induction rs arbitrary: "is" st)
  case Nil
  then show ?case by (intro exI [of _ "[]"]) simp
next
  case (Cons r rs)
  obtain i is' where is': "is = i # is'" using Cons.prems(2) by (cases "is") auto
  with Cons.prems(1) obtain st1 where st1: "handle_one_relay sha cfg clk (i, r) st = Inr st1"
    "fold_res (handle_one_relay sha cfg clk) (zip is' rs) st1 = Inr st'" by (auto simp: bind_res_eq_Inr)
  note step = handle_one_relay_step [OF st1(1)]
  have "length is' = length rs" using Cons.prems(2) is' by simp
  from Cons.IH [OF st1(2) this] obtain dropped locked own other where
    IH: "rs_txcss st' = rs_txcss st1 @ own" "rs_relay2 st' = rs_relay2 st1 @ other"
      "mset (map (\<lambda>r. payload (rl_Txcs r)) rs) = mset dropped + mset (map payload locked) + mset (map payload own)
         + mset (map (\<lambda>r. payload (rl_Txcs r)) other)"
      "dropped \<noteq> [] \<longrightarrow> EnableSyncProbe cfg \<and> IsMVSSPlus cfg"
      "\<forall>v\<in>set locked. in_lock_pool (Pool (chain (rs_pbft st'))) v"
      "pools_grow (Pool (chain (rs_pbft st1))) (Pool (chain (rs_pbft st')))"
      "Queue (Pool (chain (rs_pbft st'))) = Queue (Pool (chain (rs_pbft st1)))" "Sent (rs_pbft st') = Sent (rs_pbft st1)"
    by blast
  have rest: "pools_grow (Pool (chain (rs_pbft st))) (Pool (chain (rs_pbft st')))"
    "Queue (Pool (chain (rs_pbft st'))) = Queue (Pool (chain (rs_pbft st)))" "Sent (rs_pbft st') = Sent (rs_pbft st)"
    using step IH(6-8) by (auto intro: pools_grow_trans)
  from step consider
      (drop) "rs_txcss st1 = rs_txcss st" "rs_relay2 st1 = rs_relay2 st" "EnableSyncProbe cfg" "IsMVSSPlus cfg"
    | (own) v where "payload v = payload (rl_Txcs r)" "rs_txcss st1 = rs_txcss st @ [v]" "rs_relay2 st1 = rs_relay2 st"
    | (lock) v where "payload v = payload (rl_Txcs r)" "rs_txcss st1 = rs_txcss st" "rs_relay2 st1 = rs_relay2 st"
        "in_lock_pool (Pool (chain (rs_pbft st1))) v"
    | (other) v where "payload v = payload (rl_Txcs r)" "rs_txcss st1 = rs_txcss st" "rs_relay2 st1 = rs_relay2 st @ [r\<lparr> rl_Txcs := v \<rparr>]"
    by blast
  then show ?case
  proof cases
    case drop
    with IH rest show ?thesis
      by (intro exI [of _ "payload (rl_Txcs r) # dropped"] exI [of _ locked] exI [of _ own] exI [of _ other]) simp
  next
    case own
    with IH rest show ?thesis
      by (intro exI [of _ dropped] exI [of _ locked] exI [of _ "v # own"] exI [of _ other]) simp
  next
    case lock
    with IH rest show ?thesis
      by (intro exI [of _ dropped] exI [of _ "v # locked"] exI [of _ own] exI [of _ other]) (simp add: in_lock_pool_grow)
  next
    case other
    with IH rest show ?thesis
      by (intro exI [of _ dropped] exI [of _ locked] exI [of _ own] exI [of _ "r\<lparr> rl_Txcs := v \<rparr> # other"]) simp
  qed
qed

lemma TryRelay2_post:
  assumes "TryRelay2 cfg keys rs p = Inr p'" "covers cfg keys"
    and foreign: "\<forall>r\<in>set rs. \<exists>s. Account2Shard (Acc (chain p)) (to_addr (rl_Txcs r)) = Some s \<and> s \<noteq> self_shard cfg"
  shows "Pool (chain p') = Pool (chain p)" "memo_grows (Acc (chain p)) (Acc (chain p'))"
    "\<forall>r\<in>set rs. \<exists>ts s. RelayMsg ts s \<in> set (Sent p') \<and> r \<in> set ts \<and> Account2Shard (Acc (chain p)) (to_addr (rl_Txcs r)) = Some s"
proof -
  obtain pool g where d: "distribute cfg (\<lambda>r. to_addr (rl_Txcs r)) rs (\<lambda>_. [], Acc (chain p)) = Inr (pool, g)"
    and p': "p' = send_pool RelayMsg (send_targets cfg keys) pool (upd_acc g p)"
    using assms(1) by (auto simp: TryRelay2_def bind_res_eq_Inr)
  show "Pool (chain p') = Pool (chain p)" "memo_grows (Acc (chain p)) (Acc (chain p'))"
    using distribute_post [OF d] by (simp_all add: p')
  show "\<forall>r\<in>set rs. \<exists>ts s. RelayMsg ts s \<in> set (Sent p') \<and> r \<in> set ts \<and> Account2Shard (Acc (chain p)) (to_addr (rl_Txcs r)) = Some s"
    using sent_by_shard [OF d assms(2) foreign] unfolding p' by blast
qed


definition relay_of :: "Transaction \<Rightarrow> TXrelay" where
  "relay_of tx = \<lparr> rl_Txcs = tx, rl_MPcs = [], rl_State = None, rl_MPstate = [], rl_H = 0 \<rparr>"


end
