(* ===== verification/Announce.thy ===== *)
theory Announce
  imports Relays
begin

text \<open>
  The migration of an account between two shards, as the leaders do it: \<open>handleNewMap\<close>, \<open>TryTXmig1\<close>,
  \<open>TryAnnounce\<close>, \<open>handleAnnounce\<close>, \<open>TrySendChangesAndPendings\<close>, \<open>handleChangesAndPendings\<close> and
  \<open>handleMigrateWanted\<close> (\<open>pbft/pbft.go\<close>), \<open>handleAnns\<close> and \<open>mpAndSend\<close> (\<open>pbft/handleanns.go\<close>). The
  goroutine that \<open>handleAnns\<close> starts last is its last step here. \<open>prove_mig\<close> and \<open>prove_state\<close> are the
  proofs of the migration tree and of the state tree.
\<close>

section \<open>A new map of accounts\<close>

definition stamp_mig1 :: "addr \<Rightarrow> int \<Rightarrow> Transaction \<Rightarrow> Transaction" where
  "stamp_mig1 a migTime tx = (if from_addr tx = a \<or> to_addr tx = a then tx\<lparr> TXmig1_Time := migTime \<rparr> else tx)"

definition request_move :: "(timemap \<Rightarrow> timemap) \<Rightarrow> ChainConfig \<Rightarrow> int \<Rightarrow> addr \<times> int \<Rightarrow> Pbft \<Rightarrow> Pbft" where
  "request_move rng cfg migTime = (\<lambda>(a, toShard) p.
     (let (m1, p1) = (if IsMVSSPlus cfg then mvssBuildMigCtx rng cfg a toShard migTime p
            else (\<lparr> mig1_Address = a, mig1_FromshardID = self_shard cfg, mig1_ToshardID = toShard,
                    mig1_Request_Time = migTime, mig1_CommitTime = 0, mig1_ID = 0, mig1_Sync = False,
                    mig1_OrderList = [], mig1_LastCN = 0 \<rparr>, p));
          p2 = upd_pool (\<lambda>pool. pool\<lparr> Queue := map (stamp_mig1 a migTime) (Queue pool) \<rparr>) p1;
          pools = Pools (chain p2)
      in p2\<lparr> chain := (chain p2)\<lparr> Pools := pools\<lparr> mp_mig1 := AddTXmig1 m1 (mp_mig1 pools) \<rparr> \<rparr> \<rparr>))"

text \<open>The own accounts that the new map puts elsewhere; an absent key reads 0.\<close>

definition moves_out :: "ChainConfig \<Rightarrow> Globals \<Rightarrow> addr list \<Rightarrow> (addr \<rightharpoonup> int) \<Rightarrow> (addr \<times> int) list" where
  "moves_out cfg g addrs new =
     (let shard = (\<lambda>a. case new a of None \<Rightarrow> 0 | Some s \<Rightarrow> s) in
      map (\<lambda>a. (a, shard a)) (filter (\<lambda>a. flag (AccountInOwnShard g) a \<and> shard a \<noteq> self_shard cfg) addrs))"

text \<open>
  \<open>content\<close> is the message, \<open>last\<close> the hash of the one before. In the stop mode the map is handed to
  \<open>mpropose\<close>: the second result.
\<close>

definition handleNewMap :: "(bytes \<Rightarrow> bytes) \<Rightarrow> (timemap \<Rightarrow> timemap) \<Rightarrow> ChainConfig \<Rightarrow> int \<Rightarrow> bytes \<Rightarrow> addr list \<Rightarrow> (addr \<rightharpoonup> int)
    \<Rightarrow> bytes \<times> Pbft \<Rightarrow> (bytes \<times> Pbft) \<times> (addr \<rightharpoonup> int) option" where
  "handleNewMap sha rng cfg migTime content addrs new = (\<lambda>(last, p).
     (let sum = sha content in
      if last = sum then ((last, p), None)
      else if Stop_When_Migrating cfg then ((sum, p), Some new)
      else ((sum, fold (request_move rng cfg migTime) (moves_out cfg (Acc (chain p)) addrs new) p), None)))"

section \<open>Migration requests and announcements\<close>

definition make_mig2 :: "(TXmig1 \<Rightarrow> ProofDB) \<Rightarrow> (bytes \<Rightarrow> ProofDB) \<Rightarrow> state_tree \<Rightarrow> balances \<Rightarrow> TXmig1 \<Rightarrow> TXmig2 res" where
  "make_mig2 prove_mig prove_state tree outbalance v =
     (case tree (addr_bytes (mig1_Address v)) of
        None \<Rightarrow> Inl log_panic
      | Some s \<Rightarrow>
          (case outbalance (mig1_Address v) of
             None \<Rightarrow> Inl nil_panic
           | Some b \<Rightarrow> Inr \<lparr> mig2_Txmig1 = Some v, mig2_MPmig1 = prove_mig v, mig2_State = Some s,
               mig2_MPstate = prove_state (addr_bytes (mig1_Address v)), mig2_H = 0, mig2_Address = mig1_Address v,
               mig2_Value = Some b \<rparr>))"

definition sort_migs :: "(TXmig1 \<Rightarrow> ProofDB) \<Rightarrow> (bytes \<Rightarrow> ProofDB) \<Rightarrow> ChainConfig \<Rightarrow> state_tree \<Rightarrow> balances
    \<Rightarrow> TXmig1 list \<Rightarrow> (int \<Rightarrow> TXmig2 list) \<Rightarrow> (int \<Rightarrow> TXmig2 list) res" where
  "sort_migs prove_mig prove_state cfg tree outbalance = fold_res (\<lambda>v pool.
     bind_res (make_mig2 prove_mig prove_state tree outbalance v) (\<lambda>m2.
       shard_append cfg (mig1_ToshardID v) m2 pool))"

text \<open>With \<open>Cross_Chain\<close> the requests wait in \<open>TryOutPool\<close> for block 3: it is an argument and a result.\<close>

definition TryTXmig1 :: "(TXmig1 \<Rightarrow> ProofDB) \<Rightarrow> (bytes \<Rightarrow> ProofDB) \<Rightarrow> ChainConfig \<Rightarrow> string list \<Rightarrow> int \<Rightarrow> state_tree
    \<Rightarrow> balances \<Rightarrow> TXmig1 list \<Rightarrow> (int \<Rightarrow> TXmig2 list) \<times> Pbft \<Rightarrow> ((int \<Rightarrow> TXmig2 list) \<times> Pbft) res" where
  "TryTXmig1 prove_mig prove_state cfg keys seq tree outbalance txmig1s = (\<lambda>(out, p).
     (let send = (\<lambda>pool. send_pool Mig2Msg (send_targets cfg keys) pool p) in
      if Cross_Chain cfg \<and> \<not> Fail cfg then
        bind_res (sort_migs prove_mig prove_state cfg tree outbalance txmig1s out) (\<lambda>out'.
          Inr (if seq \<ge> 3 then (\<lambda>_. [], send out') else (out', p)))
      else
        bind_res (sort_migs prove_mig prove_state cfg tree outbalance txmig1s (\<lambda>_. [])) (\<lambda>pool.
          Inr (out, send pool))))"

definition make_ann :: "(TXmig2 \<Rightarrow> ProofDB) \<Rightarrow> (bytes \<Rightarrow> ProofDB) \<Rightarrow> ChainConfig \<Rightarrow> state_tree \<Rightarrow> TXmig2 \<Rightarrow> TXann res" where
  "make_ann prove_mig prove_state cfg tree v =
     (case tree (addr_bytes (mig2_Address v)) of
        None \<Rightarrow> Inl log_panic
      | Some s \<Rightarrow> Inr \<lparr> ann_Txmig2 = v, ann_MPmig2 = prove_mig v, ann_State = Some s,
          ann_MPstate = prove_state (addr_bytes (mig2_Address v)), ann_H = 0, ann_Address = mig2_Address v,
          ann_ToshardID = self_shard cfg \<rparr>)"

text \<open>The announcement goes to the client (\<open>None\<close>) and to every other shard.\<close>

definition TryAnnounce :: "(TXmig2 \<Rightarrow> ProofDB) \<Rightarrow> (bytes \<Rightarrow> ProofDB) \<Rightarrow> ChainConfig \<Rightarrow> string list \<Rightarrow> state_tree
    \<Rightarrow> TXmig2 list \<Rightarrow> Pbft \<Rightarrow> Pbft res" where
  "TryAnnounce prove_mig prove_state cfg keys tree txmig2s p =
     bind_res (fold_res (\<lambda>v anns. bind_res (make_ann prove_mig prove_state cfg tree v) (\<lambda>a. Inr (anns @ [a]))) txmig2s [])
       (\<lambda>anns.
          let p1 = (if ClientSendTX cfg then emit (AnnounceMsg anns None) p else p)
          in Inr (fold (\<lambda>s. emit (AnnounceMsg anns (Some s))) (send_targets cfg keys) p1))"

definition handle_one_announce :: "TXann \<Rightarrow> Pbft \<Rightarrow> Pbft" where
  "handle_one_announce v p =
     (let g = Acc (chain p); a = ann_Address v;
          p1 = (if flag (AccountInOwnShard g) a then
                  upd_pool (\<lambda>pool. pool\<lparr> Outing_After_Announce_TX_Pools := (Outing_After_Announce_TX_Pools pool)(a := []) \<rparr>)
                    (upd_acc (g\<lparr> Outing_Acc_After_Announce := (Outing_Acc_After_Announce g)(a \<mapsto> True) \<rparr>) p)
                else p);
          pools = Pools (chain p1)
      in p1\<lparr> chain := (chain p1)\<lparr> Pools := pools\<lparr> mp_ann := AddTXann v (mp_ann pools) \<rparr> \<rparr> \<rparr>)"

definition handleAnnounce :: "TXann list \<Rightarrow> Pbft \<Rightarrow> Pbft" where
  "handleAnnounce = fold handle_one_announce"

section \<open>Leaving accounts\<close>

text \<open>
  The loop over the pool of an account that leaves: transactions that only pay it return to the queue, or
  to the pool of their sender when \<open>held\<close> says that the sender leaves or is locked; the others stay.
\<close>

fun release_locked :: "(addr \<Rightarrow> bool) \<Rightarrow> addr \<Rightarrow> (nat \<Rightarrow> int) \<Rightarrow> nat \<Rightarrow> Transaction list \<Rightarrow> tx_map \<times> Transaction list
    \<Rightarrow> Transaction list \<times> tx_map \<times> Transaction list" where
  "release_locked held a clock i [] st = ([], st)"
| "release_locked held a clock i (tx # txs) (pools, queue) =
     (let tx1 = (if UnlockTime tx > 0 then tx\<lparr> UnlockTime2 := clock i \<rparr> else tx\<lparr> UnlockTime := clock i \<rparr>) in
      if to_addr tx = a \<and> \<not> IsRelay tx \<and> \<not> Relay_Lock tx then
        (if held (from_addr tx)
         then release_locked held a clock (Suc i) txs (append_at (from_addr tx) (tx1\<lparr> SenLock := True \<rparr>) pools, queue)
         else release_locked held a clock (Suc i) txs (pools, queue @ [tx1\<lparr> Success := True \<rparr>]))
      else (let (kept, st) = release_locked held a clock (Suc i) txs (pools, queue) in (tx1 # kept, st)))"

definition release_account :: "(addr \<Rightarrow> bool) \<Rightarrow> addr \<Rightarrow> (nat \<Rightarrow> int) \<Rightarrow> tx_map \<times> Transaction list \<Rightarrow> tx_map \<times> Transaction list" where
  "release_account held a clock = (\<lambda>(pools, queue).
     (let (kept, pools', queue') = release_locked held a clock 0 (pools a) (pools, queue) in (pools'(a := kept), queue')))"

definition release_leaving :: "ChainConfig \<Rightarrow> Globals \<Rightarrow> (addr \<Rightarrow> bool) \<Rightarrow> addr \<Rightarrow> (nat \<Rightarrow> int) \<Rightarrow> Tx_pool \<Rightarrow> Tx_pool" where
  "release_leaving cfg g leaves a clock pool =
     (let pool1 = (if Not_Lock_Acc_When_Migrating cfg then
            (let (m, q) = release_account (\<lambda>s. leaves s \<or> flag (Not_Lock_Acc g) s) a clock (Not_Locking_TX_Pools pool, Queue pool)
             in pool\<lparr> Not_Locking_TX_Pools := m, Queue := q \<rparr>) else pool)
      in if Lock_Acc_When_Migrating cfg then
           (let (m, q) = release_account (\<lambda>s. leaves s \<or> flag (Lock_Acc g) s) a clock (Locking_TX_Pools pool1, Queue pool1)
            in pool1\<lparr> Locking_TX_Pools := m, Queue := q \<rparr>) else pool1)"

text \<open>The account sets: the account belongs to its target and is unlocked.\<close>

definition unlock_leaving :: "ChainConfig \<Rightarrow> TXann \<Rightarrow> Globals \<Rightarrow> Globals" where
  "unlock_leaving cfg ann g =
     (let a = ann_Address ann;
          g1 = g\<lparr> Account2Shard := (Account2Shard g)(a \<mapsto> ann_ToshardID ann),
                 AccountInOwnShard := (AccountInOwnShard g)(a := None) \<rparr> in
      if Not_Lock_Acc_When_Migrating cfg then g1\<lparr> Not_Lock_Acc := (Not_Lock_Acc g1)(a := None) \<rparr>
      else if Lock_Acc_When_Migrating cfg then g1\<lparr> Lock_Acc := (Lock_Acc g1)(a := None) \<rparr>
      else if \<not> Stop_When_Migrating cfg
        then g1\<lparr> Outing_Acc_Before_Announce := (Outing_Acc_Before_Announce g1)(a := None) \<rparr>
      else g1)"

text \<open>\<open>leaving\<close> is \<open>isdelete\<close>, the accounts that leave with the names of their shards.\<close>

type_synonym leaving = "(addr \<times> string) list"

definition handle_one_ann :: "ChainConfig \<Rightarrow> (nat \<Rightarrow> nat \<Rightarrow> int) \<Rightarrow> nat \<times> TXann \<Rightarrow> leaving \<times> Pbft \<Rightarrow> leaving \<times> Pbft" where
  "handle_one_ann cfg clk = (\<lambda>(i, ann) (del, p).
     (let a = ann_Address ann; g = Acc (chain p) in
      if \<not> flag (AccountInOwnShard g) a
      then (del, upd_acc (g\<lparr> Account2Shard := (Account2Shard g)(a \<mapsto> ann_ToshardID ann) \<rparr>) p)
      else
        (let del1 = del @ [(a, shard_name (ann_ToshardID ann))];
             g1 = unlock_leaving cfg ann g;
             leaves = (\<lambda>s. s \<in> fst ` set del1);
             p1 = upd_acc g1 p;
             p2 = (if Not_Lock_Acc_When_Migrating cfg \<and> IsMVSSPlus cfg then upd_mig (mvssOnAnnounceDone cfg a) p1 else p1)
         in (del1, upd_pool (release_leaving cfg g1 leaves a (clk i)) p2))))"

text \<open>
  The pending transactions of the accounts that leave, by account: first those of their pools, then
  those of the queue, then those that came after the announcement.
\<close>

definition collect_pools :: "ChainConfig \<Rightarrow> MigGlobals \<Rightarrow> addr list \<Rightarrow> Tx_pool \<Rightarrow> tx_map \<times> Tx_pool" where
  "collect_pools cfg mg del pool =
     (let take_all = (\<lambda>m a. if a \<in> set del then m a else []);
          drop_all = (\<lambda>m a. if a \<in> set del then [] else m a);
          keep = (\<lambda>tx. mvssShouldKeepTxOnSourceDuringAnnounce cfg (from_addr tx) tx mg) in
      if Not_Lock_Acc_When_Migrating cfg then
        (\<lambda>a. filter (\<lambda>tx. \<not> keep tx) (take_all (Not_Locking_TX_Pools pool) a),
         pool\<lparr> Not_Locking_TX_Pools := (\<lambda>a. if a \<in> set del then filter keep (Not_Locking_TX_Pools pool a)
           else Not_Locking_TX_Pools pool a) \<rparr>)
      else if Lock_Acc_When_Migrating cfg then
        (take_all (Locking_TX_Pools pool), pool\<lparr> Locking_TX_Pools := drop_all (Locking_TX_Pools pool) \<rparr>)
      else if \<not> Stop_When_Migrating cfg then
        (take_all (Outing_Before_Announce_TX_Pools pool),
         pool\<lparr> Outing_Before_Announce_TX_Pools := drop_all (Outing_Before_Announce_TX_Pools pool) \<rparr>)
      else (\<lambda>_. [], pool))"

fun collect_queue :: "ChainConfig \<Rightarrow> MigGlobals \<Rightarrow> addr list \<Rightarrow> Transaction list \<Rightarrow> tx_map \<Rightarrow> Transaction list \<times> tx_map" where
  "collect_queue cfg mg del [] pend = ([], pend)"
| "collect_queue cfg mg del (tx # txs) pend =
     (let stay = (\<lambda>(q, pend'). (tx # q, pend')) in
      if from_addr tx \<in> set del \<and> \<not> IsRelay tx \<and> \<not> Relay_Lock tx then
        (if mvssShouldKeepTxOnSourceDuringAnnounce cfg (from_addr tx) tx mg
         then stay (collect_queue cfg mg del txs pend)
         else collect_queue cfg mg del txs (append_at (from_addr tx) tx pend))
      else if to_addr tx \<in> set del \<and> (IsRelay tx \<or> Relay_Lock tx)
      then collect_queue cfg mg del txs (append_at (to_addr tx) (tx\<lparr> RecLock := True \<rparr>) pend)
      else stay (collect_queue cfg mg del txs pend))"

definition collect_after :: "addr list \<Rightarrow> Tx_pool \<Rightarrow> tx_map \<Rightarrow> tx_map \<times> Tx_pool" where
  "collect_after del pool pend =
     (\<lambda>a. if a \<in> set del then pend a @ Outing_After_Announce_TX_Pools pool a else pend a,
      pool\<lparr> Outing_After_Announce_TX_Pools := (\<lambda>a. if a \<in> set del then [] else Outing_After_Announce_TX_Pools pool a) \<rparr>)"

definition collect_pending :: "ChainConfig \<Rightarrow> MigGlobals \<Rightarrow> addr list \<Rightarrow> Tx_pool \<Rightarrow> tx_map \<times> Tx_pool" where
  "collect_pending cfg mg del pool =
     (let (pend1, pool1) = collect_pools cfg mg del pool;
          (q, pend2) = collect_queue cfg mg del (Queue pool1) pend1
      in collect_after del (pool1\<lparr> Queue := q \<rparr>) pend2)"

section \<open>Settlement\<close>

text \<open>The changes of the balances since the account was sent: by shard, the number of unchanged ones, the set.\<close>

definition settle_one :: "(TXann \<Rightarrow> ProofDB) \<Rightarrow> (bytes \<Rightarrow> ProofDB) \<Rightarrow> ChainConfig \<Rightarrow> leaving \<Rightarrow> state_tree \<Rightarrow> TXann
    \<Rightarrow> (string \<Rightarrow> TXns list) \<times> nat \<times> (addr \<rightharpoonup> int) \<Rightarrow> ((string \<Rightarrow> TXns list) \<times> nat \<times> (addr \<rightharpoonup> int)) res" where
  "settle_one prove_mig prove_state cfg del tree ann = (\<lambda>(nss, unchanged, before).
     (let a = ann_Address ann; k = shard_name (ann_ToshardID ann) in
      if a \<notin> fst ` set del then Inr (nss, unchanged, before)
      else case tree (addr_bytes a) of
          None \<Rightarrow> Inl log_panic
        | Some s \<Rightarrow>
            bind_res (if Lock_Acc_When_Migrating cfg then Inr (0, before)
                else case before a of None \<Rightarrow> Inl nil_panic | Some b \<Rightarrow> Inr (Balance s - b, before(a := None)))
              (\<lambda>(change, before').
                 if change = 0 then Inr (nss, unchanged + 1, before')
                 else Inr (nss(k := nss k @ [\<lparr> ns_Txann = ann, ns_MPann = prove_mig ann, ns_State = Some s,
                        ns_MPstate = prove_state (addr_bytes a), ns_H = 0, ns_Address = a, ns_Change = change \<rparr>]),
                      unchanged, before'))))"

definition TrySendChangesAndPendings :: "TXns list \<Rightarrow> (addr \<times> Transaction list) list \<Rightarrow> string \<Rightarrow> Pbft \<Rightarrow> Pbft" where
  "TrySendChangesAndPendings nss caps k = emit (CaPMsg nss caps k)"

text \<open>\<open>rngs\<close> is the order in which \<open>range\<close> visits the shards of \<open>cAps\<close>.\<close>

definition mpAndSend :: "(TXann \<Rightarrow> ProofDB) \<Rightarrow> (bytes \<Rightarrow> ProofDB) \<Rightarrow> (string list \<Rightarrow> string list) \<Rightarrow> ChainConfig \<Rightarrow> leaving
    \<Rightarrow> TXann list \<Rightarrow> tx_map \<Rightarrow> state_tree \<Rightarrow> Pbft \<Rightarrow> Pbft res" where
  "mpAndSend prove_mig prove_state rngs cfg del anns pend tree p =
     bind_res (fold_res (settle_one prove_mig prove_state cfg del tree) anns
         (\<lambda>_. [], 0, BalanceBeforeOut (Acc (chain p)))) (\<lambda>(nss, unchanged, before).
       let p1 = upd_acc ((Acc (chain p))\<lparr> BalanceBeforeOut := before \<rparr>) p;
           caps = (\<lambda>k. map (\<lambda>(a, _). (a, pend a)) (filter (\<lambda>(_, k'). k' = k) del));
           p2 = fold (\<lambda>k. TrySendChangesAndPendings (nss k) (caps k) k) (rngs (remdups (map snd del))) p1
       in Inr (emit (UnchangedMsg unchanged) p2))"

definition handleAnns :: "(TXann \<Rightarrow> ProofDB) \<Rightarrow> (bytes \<Rightarrow> ProofDB) \<Rightarrow> (string list \<Rightarrow> string list) \<Rightarrow> ChainConfig
    \<Rightarrow> (nat \<Rightarrow> nat \<Rightarrow> int) \<Rightarrow> state_tree \<Rightarrow> TXann list \<Rightarrow> Pbft \<Rightarrow> Pbft res" where
  "handleAnns prove_mig prove_state rngs cfg clk tree anns p =
     (if anns = [] then Inr p
      else
        (let (del, p1) = fold (handle_one_ann cfg clk) (zip [0..<length anns] anns) ([], p);
             (pend, pool) = collect_pending cfg (mig_of p1) (map fst del) (Pool (chain p1));
             g = Acc (chain p1);
             p2 = upd_acc (g\<lparr> Outing_Acc_After_Announce := (\<lambda>a. if a \<in> fst ` set del then None else Outing_Acc_After_Announce g a) \<rparr>)
               (upd_pool (\<lambda>_. pool) p1)
         in mpAndSend prove_mig prove_state rngs cfg del anns pend tree p2))"

section \<open>The target\<close>

definition handleChangesAndPendings :: "ChainConfig \<Rightarrow> (nat \<Rightarrow> nat \<Rightarrow> int) \<Rightarrow> TXns list \<Rightarrow> (addr \<times> Transaction list) list
    \<Rightarrow> Pbft \<Rightarrow> Pbft" where
  "handleChangesAndPendings cfg clk nss caps p =
     (let arrive = (\<lambda>i (a, txs). map (\<lambda>(j, v). v\<lparr> Success := True, TXmig2_Time := clk i j \<rparr>) (zip [0..<length txs] txs));
          p1 = fold (\<lambda>(i, cap). upd_pool (\<lambda>pool. fold AddTx (arrive i cap) pool)) (zip [0..<length caps] caps) p;
          pools = Pools (chain p1);
          p2 = (if \<not> Lock_Acc_When_Migrating cfg
                then p1\<lparr> chain := (chain p1)\<lparr> Pools := pools\<lparr> mp_ns := AddTXnss nss (mp_ns pools) \<rparr> \<rparr> \<rparr> else p1)
      in emit (MovedMsg (length caps)) p2)"

definition handleMigrateWanted :: "Pbft \<Rightarrow> Pbft" where
  "handleMigrateWanted p = emit (PendingTXsMsg (Queue (Pool (chain p)))) p"

end
