(* ===== verification/Settlement.thy ===== *)
theory Settlement
  imports Announce
begin

text \<open>
  What the migration of an account keeps: the source hands over every pending transaction of the
  accounts that leave, the target queues them all, and the change of the balance that the source sends
  brings the target's account to the source's balance.
\<close>

section \<open>Transactions\<close>

abbreviation payloads :: "Transaction list \<Rightarrow> (int \<times> bytes \<times> bytes \<times> int) multiset" where
  "payloads vs \<equiv> image_mset payload (mset vs)"

text \<open>The transactions of a map, over a finite set of accounts.\<close>

definition tot :: "addr set \<Rightarrow> tx_map \<Rightarrow> (int \<times> bytes \<times> bytes \<times> int) multiset" where
  "tot A m = (\<Sum>a\<in>A. payloads (m a))"

lemma tot_update:
  assumes "finite A" "a \<in> A"
  shows "tot A (m(a := vs)) + payloads (m a) = tot A m + payloads vs"
proof -
  have "(\<Sum>b\<in>A - {a}. payloads ((m(a := vs)) b)) = (\<Sum>b\<in>A - {a}. payloads (m b))" by (rule sum.cong) auto
  then show ?thesis using assms by (simp add: tot_def sum.remove [of A a])
qed

lemma tot_append: "finite A \<Longrightarrow> a \<in> A \<Longrightarrow> tot A (append_at a v m) = tot A m + {# payload v #}"
  using tot_update [of A a m "m a @ [v]"] by (simp add: append_at_def)

lemma tot_split: "(\<And>a. a \<in> A \<Longrightarrow> payloads (m a) = payloads (m1 a) + payloads (m2 a)) \<Longrightarrow> tot A m = tot A m1 + tot A m2"
  by (simp add: tot_def sum.distrib cong: sum.cong)

lemma payload_upd [simp]:
  "payload (tx\<lparr> UnlockTime := t \<rparr>) = payload tx" "payload (tx\<lparr> UnlockTime2 := t \<rparr>) = payload tx"
  "payload (tx\<lparr> SenLock := b \<rparr>) = payload tx" "payload (tx\<lparr> RecLock := b \<rparr>) = payload tx"
  "payload (tx\<lparr> Success := b \<rparr>) = payload tx" "payload (tx\<lparr> TXmig2_Time := t \<rparr>) = payload tx"
  by (simp_all add: payload_def)

lemma parties_upd [simp]:
  "from_addr (tx\<lparr> UnlockTime := t \<rparr>) = from_addr tx" "from_addr (tx\<lparr> UnlockTime2 := t \<rparr>) = from_addr tx"
  "from_addr (tx\<lparr> SenLock := b \<rparr>) = from_addr tx"
  "to_addr (tx\<lparr> UnlockTime := t \<rparr>) = to_addr tx" "to_addr (tx\<lparr> UnlockTime2 := t \<rparr>) = to_addr tx"
  "to_addr (tx\<lparr> SenLock := b \<rparr>) = to_addr tx"
  by (simp_all add: from_addr_def to_addr_def)

text \<open>
  Every waiting transaction has its sender among the accounts, and none pays its own sender.
\<close>

definition waits_ok :: "addr set \<Rightarrow> tx_map \<Rightarrow> bool" where
  "waits_ok A m \<longleftrightarrow> (\<forall>a\<in>A. \<forall>v\<in>set (m a). from_addr v \<in> A \<and> from_addr v \<noteq> to_addr v)"

lemma waits_ok_append: "waits_ok A m \<Longrightarrow> from_addr v \<in> A \<Longrightarrow> from_addr v \<noteq> to_addr v \<Longrightarrow> waits_ok A (append_at a v m)"
  by (auto simp: waits_ok_def append_at_def)

text \<open>A transaction of the account to itself.\<close>

definition self_pay :: "addr \<Rightarrow> Transaction \<Rightarrow> bool" where
  "self_pay a v \<longleftrightarrow> from_addr v = a \<and> to_addr v = a \<and> \<not> IsRelay v \<and> \<not> Relay_Lock v"

lemma release_locked_counts:
  assumes "finite A" "held a"
  shows "release_locked held a clock i txs (pools, queue) = (kept, pools', queue') \<Longrightarrow> \<forall>v\<in>set txs. from_addr v \<in> A \<Longrightarrow>
    payloads kept + tot A pools' + payloads queue' = payloads txs + tot A pools + payloads queue
    \<and> payloads (pools' a) = payloads (pools a) + payloads (filter (self_pay a) txs)"
  using assms(2)
proof (induction held a clock i txs "(pools, queue)" arbitrary: pools queue kept rule: release_locked.induct)
  case (2 held a clock i tx txs pools queue)
  let ?tx1 = "if UnlockTime tx > 0 then tx\<lparr> UnlockTime2 := clock i \<rparr> else tx\<lparr> UnlockTime := clock i \<rparr>"
  let ?pays = "to_addr tx = a \<and> \<not> IsRelay tx \<and> \<not> Relay_Lock tx"
  have tx: "from_addr tx \<in> A" and rest: "\<forall>v\<in>set txs. from_addr v \<in> A" using "2.prems"(2) by auto
  have tx1: "payload ?tx1 = payload tx" by auto
  consider (held) ?pays "held (from_addr tx)" | (queue) ?pays "\<not> held (from_addr tx)" | (keep) "\<not> ?pays" by blast
  then show ?case
  proof cases
    case held
    let ?v = "?tx1\<lparr> SenLock := True \<rparr>"
    let ?pools = "append_at (from_addr tx) ?v pools"
    from held "2.prems"(1) have r: "release_locked held a clock (Suc i) txs (?pools, queue) = (kept, pools', queue')"
      by (simp add: Let_def)
    from "2.hyps"(1) [OF refl _ _ r rest "2.prems"(3)] held have IH:
      "payloads kept + tot A pools' + payloads queue' = payloads txs + tot A ?pools + payloads queue"
      "payloads (pools' a) = payloads (?pools a) + payloads (filter (self_pay a) txs)" by blast+
    have "payloads (?pools a) = payloads (pools a) + payloads (filter (self_pay a) [tx])"
      using held tx1 by (simp add: append_at_def self_pay_def)
    with IH tot_append [OF assms(1) tx, of ?v pools] tx1 show ?thesis by (simp add: ac_simps)
  next
    case queue
    with "2.prems"(1) have r: "release_locked held a clock (Suc i) txs (pools, queue @ [?tx1\<lparr> Success := True \<rparr>]) = (kept, pools', queue')"
      by (simp add: Let_def)
    have "\<not> self_pay a tx" using queue "2.prems"(3) by (auto simp: self_pay_def)
    with "2.hyps"(2) [OF refl _ _ r rest "2.prems"(3)] queue tx1 show ?thesis by (simp add: ac_simps)
  next
    case keep
    with "2.prems"(1) obtain kept' where r: "release_locked held a clock (Suc i) txs (pools, queue) = (kept', pools', queue')"
      "kept = ?tx1 # kept'" by (auto simp: Let_def split: prod.splits)
    have "\<not> self_pay a tx" using keep by (auto simp: self_pay_def)
    with "2.hyps"(3) [OF refl keep r(1) rest "2.prems"(3)] r(2) tx1 show ?thesis by (simp add: ac_simps)
  qed
qed simp

text \<open>Exactly the account's transactions to itself get lost.\<close>

lemma release_account_counts:
  assumes "finite A" "a \<in> A" "held a" "release_account held a clock (pools, queue) = (pools', queue')"
    and "\<forall>v\<in>set (pools a). from_addr v \<in> A"
  shows "tot A pools' + payloads queue' + payloads (filter (self_pay a) (pools a)) = tot A pools + payloads queue"
proof -
  obtain kept m where r: "release_locked held a clock 0 (pools a) (pools, queue) = (kept, m, queue')" "pools' = m(a := kept)"
    using assms(4) by (auto simp: release_account_def split: prod.splits)
  let ?S = "payloads (filter (self_pay a) (pools a))"
  note c = release_locked_counts [OF assms(1,3) r(1) assms(5)]
  have t: "tot A pools' + payloads (m a) = tot A m + payloads kept"
    using tot_update [OF assms(1,2), of m kept] by (simp add: r(2))
  have "(tot A pools' + payloads queue' + ?S) + payloads (pools a) = (tot A pools' + payloads (m a)) + payloads queue'"
    using c by (simp add: ac_simps)
  also have "\<dots> = payloads kept + tot A m + payloads queue'" unfolding t by (simp add: ac_simps)
  also have "\<dots> = (tot A pools + payloads queue) + payloads (pools a)" using c by (simp add: ac_simps)
  finally show ?thesis by simp
qed

lemma release_locked_waits:
  "release_locked held a clock i txs (pools, queue) = (kept, pools', queue') \<Longrightarrow>
   \<forall>v\<in>set txs. from_addr v \<in> A \<and> from_addr v \<noteq> to_addr v \<Longrightarrow> waits_ok A pools \<Longrightarrow>
   waits_ok A pools' \<and> (\<forall>v\<in>set kept. from_addr v \<in> A \<and> from_addr v \<noteq> to_addr v)"
proof (induction held a clock i txs "(pools, queue)" arbitrary: pools queue kept rule: release_locked.induct)
  case (2 held a clock i tx txs pools queue)
  let ?tx1 = "if UnlockTime tx > 0 then tx\<lparr> UnlockTime2 := clock i \<rparr> else tx\<lparr> UnlockTime := clock i \<rparr>"
  let ?pays = "to_addr tx = a \<and> \<not> IsRelay tx \<and> \<not> Relay_Lock tx"
  have tx: "from_addr tx \<in> A" "from_addr tx \<noteq> to_addr tx" and rest: "\<forall>v\<in>set txs. from_addr v \<in> A \<and> from_addr v \<noteq> to_addr v"
    using "2.prems"(2) by auto
  have tx1: "from_addr ?tx1 = from_addr tx" "to_addr ?tx1 = to_addr tx" by auto
  consider (held) ?pays "held (from_addr tx)" | (queue) ?pays "\<not> held (from_addr tx)" | (keep) "\<not> ?pays" by blast
  then show ?case
  proof cases
    case held
    have ok: "waits_ok A (append_at (from_addr tx) (?tx1\<lparr> SenLock := True \<rparr>) pools)"
      using "2.prems"(3) tx tx1 by (intro waits_ok_append) auto
    from held "2.prems"(1) show ?thesis by (intro "2.hyps"(1) [OF refl _ _ _ rest ok]) (auto simp: Let_def)
  next
    case queue
    with "2.prems"(1) show ?thesis by (intro "2.hyps"(2) [OF refl _ _ _ rest "2.prems"(3)]) (auto simp: Let_def)
  next
    case keep
    with "2.prems"(1) obtain kept' where r: "release_locked held a clock (Suc i) txs (pools, queue) = (kept', pools', queue')"
      "kept = ?tx1 # kept'" by (auto simp: Let_def split: prod.splits)
    from "2.hyps"(3) [OF refl keep r(1) rest "2.prems"(3)] r(2) tx tx1 show ?thesis by simp
  qed
qed simp

lemma release_account_keeps:
  assumes "finite A" "a \<in> A" "held a" "release_account held a clock (pools, queue) = (pools', queue')" "waits_ok A pools"
  shows "tot A pools' + payloads queue' = tot A pools + payloads queue" "waits_ok A pools'"
proof -
  obtain kept m where r: "release_locked held a clock 0 (pools a) (pools, queue) = (kept, m, queue')" "pools' = m(a := kept)"
    using assms(4) by (auto simp: release_account_def split: prod.splits)
  have ok: "\<forall>v\<in>set (pools a). from_addr v \<in> A \<and> from_addr v \<noteq> to_addr v" using assms(2,5) by (simp add: waits_ok_def)
  then have "filter (self_pay a) (pools a) = []" by (auto simp: filter_empty_conv self_pay_def)
  with release_account_counts [OF assms(1-4)] ok show "tot A pools' + payloads queue' = tot A pools + payloads queue" by simp
  show "waits_ok A pools'" using release_locked_waits [OF r(1) ok assms(5)] by (auto simp: r(2) waits_ok_def)
qed

definition pool_total :: "addr set \<Rightarrow> Tx_pool \<Rightarrow> (int \<times> bytes \<times> bytes \<times> int) multiset" where
  "pool_total A pool = payloads (Queue pool) + tot A (Not_Locking_TX_Pools pool) + tot A (Locking_TX_Pools pool)
     + tot A (Outing_Before_Announce_TX_Pools pool) + tot A (Outing_After_Announce_TX_Pools pool)"

definition locks_ok :: "addr set \<Rightarrow> Tx_pool \<Rightarrow> bool" where
  "locks_ok A pool \<longleftrightarrow> waits_ok A (Not_Locking_TX_Pools pool) \<and> waits_ok A (Locking_TX_Pools pool)"

text \<open>The accounts that leave are distinct and no longer own.\<close>

definition leaving_ok :: "addr set \<Rightarrow> leaving \<Rightarrow> Pbft \<Rightarrow> bool" where
  "leaving_ok A del p \<longleftrightarrow> distinct (map fst del) \<and> fst ` set del \<subseteq> A
     \<and> (\<forall>a\<in>fst ` set del. \<not> flag (AccountInOwnShard (Acc (chain p))) a)"

lemma release_not_locking:
  assumes "finite A" "a \<in> A" "held a" "locks_ok A pool"
    "pool' = (let (m, q) = release_account held a clock (Not_Locking_TX_Pools pool, Queue pool)
       in pool\<lparr> Not_Locking_TX_Pools := m, Queue := q \<rparr>)"
  shows "pool_total A pool' = pool_total A pool \<and> locks_ok A pool'"
proof -
  obtain m q where r: "release_account held a clock (Not_Locking_TX_Pools pool, Queue pool) = (m, q)" by force
  from release_account_keeps [OF assms(1-3) r] assms(4) have k: "tot A m + payloads q = tot A (Not_Locking_TX_Pools pool) + payloads (Queue pool)"
    "waits_ok A m" by (simp_all add: locks_ok_def)
  have "pool_total A pool' = (tot A m + payloads q) + tot A (Locking_TX_Pools pool)
     + tot A (Outing_Before_Announce_TX_Pools pool) + tot A (Outing_After_Announce_TX_Pools pool)"
    by (simp add: assms(5) r pool_total_def ac_simps)
  also have "\<dots> = pool_total A pool" by (simp add: k(1) pool_total_def ac_simps)
  finally show ?thesis using k(2) assms(4) by (simp add: assms(5) r locks_ok_def)
qed

lemma release_locking:
  assumes "finite A" "a \<in> A" "held a" "locks_ok A pool"
    "pool' = (let (m, q) = release_account held a clock (Locking_TX_Pools pool, Queue pool)
       in pool\<lparr> Locking_TX_Pools := m, Queue := q \<rparr>)"
  shows "pool_total A pool' = pool_total A pool \<and> locks_ok A pool'"
proof -
  obtain m q where r: "release_account held a clock (Locking_TX_Pools pool, Queue pool) = (m, q)" by force
  from release_account_keeps [OF assms(1-3) r] assms(4) have k: "tot A m + payloads q = tot A (Locking_TX_Pools pool) + payloads (Queue pool)"
    "waits_ok A m" by (simp_all add: locks_ok_def)
  have "pool_total A pool' = (tot A m + payloads q) + tot A (Not_Locking_TX_Pools pool)
     + tot A (Outing_Before_Announce_TX_Pools pool) + tot A (Outing_After_Announce_TX_Pools pool)"
    by (simp add: assms(5) r pool_total_def ac_simps)
  also have "\<dots> = pool_total A pool" by (simp add: k(1) pool_total_def ac_simps)
  finally show ?thesis using k(2) assms(4) by (simp add: assms(5) r locks_ok_def)
qed

lemma release_leaving_keeps:
  assumes "finite A" "a \<in> A" "leaves a" "locks_ok A pool"
  shows "pool_total A (release_leaving cfg g leaves a clock pool) = pool_total A pool \<and> locks_ok A (release_leaving cfg g leaves a clock pool)"
proof -
  define pool1 where "pool1 = (if Not_Lock_Acc_When_Migrating cfg then
      (let (m, q) = release_account (\<lambda>s. leaves s \<or> flag (Not_Lock_Acc g) s) a clock (Not_Locking_TX_Pools pool, Queue pool)
       in pool\<lparr> Not_Locking_TX_Pools := m, Queue := q \<rparr>) else pool)"
  have one: "pool_total A pool1 = pool_total A pool \<and> locks_ok A pool1"
    using release_not_locking [OF assms(1,2) _ assms(4) refl, of "\<lambda>s. leaves s \<or> flag (Not_Lock_Acc g) s"] assms(3,4) by (simp add: pool1_def)
  then have "locks_ok A pool1" by simp
  from release_locking [OF assms(1,2) _ this refl, of "\<lambda>s. leaves s \<or> flag (Lock_Acc g) s"] assms(3) one show ?thesis
    unfolding release_leaving_def pool1_def [symmetric] Let_def [of pool1] by simp
qed

lemma upd_mig_frame [simp, frame_simps]:
  "Pool (chain (upd_mig f p)) = Pool (chain p)" "Acc (chain (upd_mig f p)) = Acc (chain p)" "Sent (upd_mig f p) = Sent p"
  by (simp_all add: upd_mig_def)

lemma unlock_leaving_own [simp]:
  "AccountInOwnShard (unlock_leaving cfg ann g) = (AccountInOwnShard g)(ann_Address ann := None)"
  "BalanceBeforeOut (unlock_leaving cfg ann g) = BalanceBeforeOut g"
  by (simp_all add: unlock_leaving_def Let_def)

lemma handle_one_ann_keeps:
  assumes A: "finite A" "ann_Address ann \<in> A" and step: "handle_one_ann cfg clk (i, ann) (del, p) = (del', p')"
    and ok: "locks_ok A (Pool (chain p))" "leaving_ok A del p"
  shows "pool_total A (Pool (chain p')) = pool_total A (Pool (chain p)) \<and> locks_ok A (Pool (chain p')) \<and> leaving_ok A del' p'
    \<and> BalanceBeforeOut (Acc (chain p')) = BalanceBeforeOut (Acc (chain p)) \<and> Sent p' = Sent p
    \<and> del' = del @ (if flag (AccountInOwnShard (Acc (chain p))) (ann_Address ann)
        then [(ann_Address ann, shard_name (ann_ToshardID ann))] else [])"
proof (cases "flag (AccountInOwnShard (Acc (chain p))) (ann_Address ann)")
  case False
  with step ok show ?thesis by (auto simp: handle_one_ann_def Let_def leaving_ok_def)
next
  case True
  let ?a = "ann_Address ann" and ?g1 = "unlock_leaving cfg ann (Acc (chain p))"
  let ?del = "del @ [(?a, shard_name (ann_ToshardID ann))]"
  let ?p1 = "upd_acc ?g1 p"
  let ?p2 = "if Not_Lock_Acc_When_Migrating cfg \<and> IsMVSSPlus cfg then upd_mig (mvssOnAnnounceDone cfg ?a) ?p1 else ?p1"
  have d: "del' = ?del" and p': "p' = upd_pool (release_leaving cfg ?g1 (\<lambda>s. s \<in> fst ` set ?del) ?a (clk i)) ?p2"
    using step [symmetric] True unfolding handle_one_ann_def Let_def prod.case
    by (simp only: if_False not_True_eq_False prod.inject, simp only: if_False not_True_eq_False prod.inject)
  have pool: "Pool (chain p') = release_leaving cfg ?g1 (\<lambda>s. s \<in> fst ` set ?del) ?a (clk i) (Pool (chain p))"
    unfolding p' by simp
  have acc: "Acc (chain p') = ?g1" "Sent p' = Sent p" unfolding p' by simp_all
  have "leaving_ok A ?del p'" using ok(2) True A(2) by (auto simp: leaving_ok_def acc)
  with release_leaving_keeps [OF A _ ok(1), of "\<lambda>s. s \<in> fst ` set ?del"] acc d True show ?thesis by (simp add: pool)
qed

lemma handle_anns_keeps:
  "fold (handle_one_ann cfg clk) (zip is anns) (del, p) = (del', p') \<Longrightarrow> length is = length anns \<Longrightarrow>
   finite A \<Longrightarrow> ann_Address ` set anns \<subseteq> A \<Longrightarrow> locks_ok A (Pool (chain p)) \<Longrightarrow> leaving_ok A del p \<Longrightarrow>
   pool_total A (Pool (chain p')) = pool_total A (Pool (chain p)) \<and> leaving_ok A del' p'
    \<and> BalanceBeforeOut (Acc (chain p')) = BalanceBeforeOut (Acc (chain p)) \<and> Sent p' = Sent p
    \<and> fst ` set del' \<subseteq> fst ` set del \<union> ann_Address ` set anns"
proof (induction anns arbitrary: "is" del p)
  case (Cons ann anns)
  then obtain i is' where is': "is = i # is'" by (cases "is") auto
  obtain del1 p1 where step: "handle_one_ann cfg clk (i, ann) (del, p) = (del1, p1)" by force
  note k = handle_one_ann_keeps [OF Cons.prems(3) _ step Cons.prems(5,6)]
  have "ann_Address ann \<in> A" using Cons.prems(4) by simp
  note k = k [OF this]
  have "fold (handle_one_ann cfg clk) (zip is' anns) (del1, p1) = (del', p')" using Cons.prems(1) is' step by simp
  from Cons.IH [OF this _ Cons.prems(3)] k Cons.prems(2,4) is' show ?case by (auto split: if_splits)
qed simp

lemma payloads_partition: "payloads vs = payloads (filter P vs) + payloads (filter (\<lambda>v. \<not> P v) vs)"
  by (induction vs) auto

lemma collect_pools_keeps:
  assumes "finite A" "set del \<subseteq> A" "collect_pools cfg mg del pool = (pend, pool')"
  shows "pool_total A pool' + tot A pend = pool_total A pool" "a \<notin> set del \<Longrightarrow> pend a = []"
proof -
  have part: "tot A m = tot A (\<lambda>a. if a \<in> set del then filter P (m a) else m a) + tot A (\<lambda>a. filter (\<lambda>tx. \<not> P tx) (if a \<in> set del then m a else []))" for m P
  proof (rule tot_split)
    fix a
    show "payloads (m a) = payloads (if a \<in> set del then filter P (m a) else m a)
        + payloads (filter (\<lambda>tx. \<not> P tx) (if a \<in> set del then m a else []))"
      using payloads_partition [of "m a" P] by simp
  qed
  have all: "tot A m = tot A (\<lambda>a. if a \<in> set del then [] else m a) + tot A (\<lambda>a. if a \<in> set del then m a else [])" for m
    by (rule tot_split) auto
  have none: "tot A (\<lambda>_. []) = {#}" by (simp add: tot_def)
  show "pool_total A pool' + tot A pend = pool_total A pool"
    using assms(3) part [of "Not_Locking_TX_Pools pool" "\<lambda>tx. mvssShouldKeepTxOnSourceDuringAnnounce cfg (from_addr tx) tx mg"]
      all [of "Locking_TX_Pools pool"] all [of "Outing_Before_Announce_TX_Pools pool"] none
    by (auto simp: collect_pools_def Let_def pool_total_def ac_simps split: if_splits)
  show "a \<notin> set del \<Longrightarrow> pend a = []" using assms(3) by (auto simp: collect_pools_def Let_def split: if_splits)
qed

lemma collect_queue_keeps:
  assumes "finite A"
  shows "collect_queue cfg mg del txs pend = (q, pend') \<Longrightarrow> set del \<subseteq> A \<Longrightarrow> payloads q + tot A pend' = payloads txs + tot A pend
    \<and> ((\<forall>a. a \<notin> set del \<longrightarrow> pend a = []) \<longrightarrow> (\<forall>a. a \<notin> set del \<longrightarrow> pend' a = []))"
proof (induction cfg mg del txs pend arbitrary: q rule: collect_queue.induct)
  case (2 cfg mg del tx txs pend)
  let ?go = "from_addr tx \<in> set del \<and> \<not> IsRelay tx \<and> \<not> Relay_Lock tx"
  let ?keep = "mvssShouldKeepTxOnSourceDuringAnnounce cfg (from_addr tx) tx mg"
  let ?in = "to_addr tx \<in> set del \<and> (IsRelay tx \<or> Relay_Lock tx)"
  have none: "a \<in> set del \<Longrightarrow> \<forall>b. b \<notin> set del \<longrightarrow> pend b = [] \<Longrightarrow> b \<notin> set del \<Longrightarrow> append_at a v pend b = []" for a b v
    by (auto simp: append_at_def)
  have inA: "a \<in> set del \<Longrightarrow> a \<in> A" for a using "2.prems"(2) by blast
  consider (go) "?go" "\<not> ?keep" | (inw) "\<not> ?go" "?in" | (stay) "?go \<and> ?keep \<or> \<not> ?go \<and> \<not> ?in" by blast
  then show ?case
  proof cases
    case go
    with "2.prems"(1) have "collect_queue cfg mg del txs (append_at (from_addr tx) tx pend) = (q, pend')" by simp
    from "2.IH"(2) [OF refl go this "2.prems"(2)] go inA [of "from_addr tx"] tot_append [OF assms, of "from_addr tx" tx pend] none [of "from_addr tx" _ tx] show ?thesis
      by auto
  next
    case inw
    with "2.prems"(1) have "collect_queue cfg mg del txs (append_at (to_addr tx) (tx\<lparr> RecLock := True \<rparr>) pend) = (q, pend')" by auto
    from "2.IH"(3) [OF refl inw this "2.prems"(2)] inw inA [of "to_addr tx"] tot_append [OF assms, of "to_addr tx" "tx\<lparr> RecLock := True \<rparr>" pend]
      none [of "to_addr tx" _ "tx\<lparr> RecLock := True \<rparr>"] show ?thesis by auto
  next
    case stay
    with "2.prems"(1) obtain q' where q': "collect_queue cfg mg del txs pend = (q', pend')" "q = tx # q'"
      by (auto split: prod.splits if_splits)
    have "payloads q' + tot A pend' = payloads txs + tot A pend
      \<and> ((\<forall>a. a \<notin> set del \<longrightarrow> pend a = []) \<longrightarrow> (\<forall>a. a \<notin> set del \<longrightarrow> pend' a = []))"
      using stay "2.IH"(1) [OF refl _ _ q'(1) "2.prems"(2)] "2.IH"(4) [OF refl _ _ q'(1) "2.prems"(2)] by argo
    then show ?thesis by (simp add: q'(2))
  qed
qed simp

lemma collect_after_keeps:
  assumes "finite A" "set del \<subseteq> A" "collect_after del pool pend = (pend', pool')" "\<forall>a. a \<notin> set del \<longrightarrow> pend a = []"
  shows "pool_total A pool' + tot A pend' = pool_total A pool + tot A pend" "a \<notin> set del \<Longrightarrow> pend' a = []"
proof -
  have "tot A pend' = tot A pend + tot A (\<lambda>a. if a \<in> set del then Outing_After_Announce_TX_Pools pool a else [])"
    using assms(3) by (intro tot_split) (auto simp: collect_after_def)
  moreover have "tot A (Outing_After_Announce_TX_Pools pool) = tot A (\<lambda>a. if a \<in> set del then [] else Outing_After_Announce_TX_Pools pool a)
      + tot A (\<lambda>a. if a \<in> set del then Outing_After_Announce_TX_Pools pool a else [])" by (rule tot_split) auto
  ultimately show "pool_total A pool' + tot A pend' = pool_total A pool + tot A pend"
    using assms(3) by (auto simp: collect_after_def pool_total_def ac_simps)
  show "a \<notin> set del \<Longrightarrow> pend' a = []" using assms(3,4) by (auto simp: collect_after_def)
qed

lemma collect_pending_keeps:
  assumes "finite A" "set del \<subseteq> A" "collect_pending cfg mg del pool = (pend, pool')"
  shows "pool_total A pool' + tot A pend = pool_total A pool" "a \<notin> set del \<Longrightarrow> pend a = []"
proof -
  obtain pend1 pool1 q pend2 where c: "collect_pools cfg mg del pool = (pend1, pool1)"
    "collect_queue cfg mg del (Queue pool1) pend1 = (q, pend2)" "collect_after del (pool1\<lparr> Queue := q \<rparr>) pend2 = (pend, pool')"
    using assms(3) by (auto simp: collect_pending_def split: prod.splits)
  note one = collect_pools_keeps [OF assms(1,2) c(1)] and two = collect_queue_keeps [OF assms(1) c(2) assms(2)]
  have empty: "\<forall>a. a \<notin> set del \<longrightarrow> pend2 a = []" using one(2) two by blast
  note three = collect_after_keeps [OF assms(1,2) c(3) empty]
  have "pool_total A (pool1\<lparr> Queue := q \<rparr>) + payloads (Queue pool1) = pool_total A pool1 + payloads q"
    by (simp add: pool_total_def ac_simps)
  note swap = this
  have "pool_total A pool' + tot A pend + payloads (Queue pool1) = (pool_total A (pool1\<lparr> Queue := q \<rparr>) + payloads (Queue pool1)) + tot A pend2"
    unfolding three(1) by (simp only: ac_simps)
  also have "\<dots> = pool_total A pool1 + (payloads q + tot A pend2)" unfolding swap by (simp only: ac_simps)
  also have "\<dots> = pool_total A pool1 + (payloads (Queue pool1) + tot A pend1)" using two by simp
  also have "\<dots> = pool_total A pool + payloads (Queue pool1)" unfolding one(1) [symmetric] by (simp only: ac_simps)
  finally show "pool_total A pool' + tot A pend = pool_total A pool" by simp
  show "a \<notin> set del \<Longrightarrow> pend a = []" by (rule three(2))
qed

lemma tot_outside:
  assumes "finite A" "distinct ds" "set ds \<subseteq> A" "\<And>a. a \<notin> set ds \<Longrightarrow> m a = []"
  shows "tot A m = payloads (concat (map m ds))"
proof -
  have "tot A m = (\<Sum>a\<in>set ds. payloads (m a))"
    unfolding tot_def using assms by (intro sum.mono_neutral_right) auto
  also have "\<dots> = payloads (concat (map m ds))" using assms(2) by (induction ds) (auto simp: ac_simps)
  finally show ?thesis .
qed

lemma send_caps:
  "Sent (fold (\<lambda>k. TrySendChangesAndPendings (nss k) (caps k) k) ks p) = Sent p @ map (\<lambda>k. CaPMsg (nss k) (caps k) k) ks"
  "chain (fold (\<lambda>k. TrySendChangesAndPendings (nss k) (caps k) k) ks p) = chain p"
  by (induction ks arbitrary: p) (simp_all add: TrySendChangesAndPendings_def emit_def)

lemma mpAndSend_sends:
  assumes run: "mpAndSend pm ps rngs cfg del anns pend tree p = Inr p'" and rng: "\<And>ks. set (rngs ks) = set ks"
  shows "Pool (chain p') = Pool (chain p)"
    "(a, k) \<in> set del \<Longrightarrow> \<exists>nss cs. CaPMsg nss cs k \<in> set (Sent p') \<and> (a, pend a) \<in> set cs"
proof -
  obtain nss u before where r: "fold_res (settle_one pm ps cfg del tree) anns (\<lambda>_. [], 0, BalanceBeforeOut (Acc (chain p))) = Inr (nss, u, before)"
    using run by (auto simp: mpAndSend_def bind_res_eq_Inr)
  let ?caps = "\<lambda>k. map (\<lambda>(a, _). (a, pend a)) (filter (\<lambda>(_, k'). k' = k) del)"
  have p': "p' = emit (UnchangedMsg u) (fold (\<lambda>k. TrySendChangesAndPendings (nss k) (?caps k) k) (rngs (remdups (map snd del)))
      (upd_acc ((Acc (chain p))\<lparr> BalanceBeforeOut := before \<rparr>) p))"
    using run r by (simp add: mpAndSend_def Let_def)
  show "Pool (chain p') = Pool (chain p)" by (simp add: p' emit_def send_caps)
  assume del: "(a, k) \<in> set del"
  then have "k \<in> set (rngs (remdups (map snd del)))" using rng by force
  then have "CaPMsg (nss k) (?caps k) k \<in> set (Sent p')" by (simp add: p' emit_def send_caps)
  moreover have "(a, pend a) \<in> set (?caps k)" using del by force
  ultimately show "\<exists>nss cs. CaPMsg nss cs k \<in> set (Sent p') \<and> (a, pend a) \<in> set cs" by blast
qed

text \<open>
  C8. \<open>handleAnns\<close> loses no transaction of the accounts that leave: what waited in the queue and in the
  pools of locked accounts waits there still or is sent, each once, to the shard of an account that
  leaves, provided that no transaction in a lock pool pays its own sender. \<open>A\<close> is any finite set of
  accounts that has those of the announcements and the senders in the lock pools.
\<close>

theorem announced_transactions_handed_over:
  assumes run: "handleAnns pm ps rngs cfg clk tree anns p = Inr p'"
    and A: "finite A" "ann_Address ` set anns \<subseteq> A" "locks_ok A (Pool (chain p))"
    and rng: "\<And>ks. set (rngs ks) = set ks"
  shows "\<exists>caps. pool_total A (Pool (chain p)) = pool_total A (Pool (chain p')) + payloads (concat (map snd caps))
    \<and> distinct (map fst caps) \<and> set (map fst caps) \<subseteq> ann_Address ` set anns
    \<and> (\<forall>c\<in>set caps. \<exists>nss cs k. CaPMsg nss cs k \<in> set (Sent p') \<and> c \<in> set cs)"
proof (cases "anns = []")
  case True
  with run show ?thesis by (intro exI [of _ "[]"]) (simp add: handleAnns_def)
next
  case False
  obtain del p1 where loop: "fold (handle_one_ann cfg clk) (zip [0..<length anns] anns) ([], p) = (del, p1)" by force
  obtain pend pool where coll: "collect_pending cfg (mig_of p1) (map fst del) (Pool (chain p1)) = (pend, pool)" by force
  define p2 where "p2 = upd_acc ((Acc (chain p1))\<lparr> Outing_Acc_After_Announce := (\<lambda>a. if a \<in> fst ` set del then None
      else Outing_Acc_After_Announce (Acc (chain p1)) a) \<rparr>) (upd_pool (\<lambda>_. pool) p1)"
  have send: "mpAndSend pm ps rngs cfg del anns pend tree p2 = Inr p'"
    using run False by (simp add: handleAnns_def loop coll Let_def p2_def)
  note keeps = handle_anns_keeps [OF loop _ A(1,2,3)]
  have k: "pool_total A (Pool (chain p1)) = pool_total A (Pool (chain p))" "distinct (map fst del)" "set (map fst del) \<subseteq> A"
    and sub: "set (map fst del) \<subseteq> ann_Address ` set anns"
    using keeps by (auto simp: leaving_ok_def)
  note c = collect_pending_keeps [OF A(1) k(3) coll]
  have "tot A pend = payloads (concat (map pend (map fst del)))" by (rule tot_outside [OF A(1) k(2,3) c(2)])
  moreover have "Pool (chain p2) = pool" by (simp add: p2_def)
  ultimately have tot: "pool_total A (Pool (chain p)) = pool_total A (Pool (chain p')) + payloads (concat (map pend (map fst del)))"
    using c(1) k(1) mpAndSend_sends(1) [OF send rng] by simp
  show ?thesis
  proof (intro exI conjI)
    let ?caps = "map (\<lambda>(a, k). (a, pend a)) del"
    show "pool_total A (Pool (chain p)) = pool_total A (Pool (chain p')) + payloads (concat (map snd ?caps))"
      using tot by (simp add: comp_def case_prod_beta)
    show "distinct (map fst ?caps)" "set (map fst ?caps) \<subseteq> ann_Address ` set anns"
      using k(2) sub by (auto simp: comp_def case_prod_beta)
    show "\<forall>c\<in>set ?caps. \<exists>nss cs k. CaPMsg nss cs k \<in> set (Sent p') \<and> c \<in> set cs"
    proof
      fix c assume "c \<in> set ?caps"
      then obtain a k where "(a, k) \<in> set del" "c = (a, pend a)" by auto
      then show "\<exists>nss cs k. CaPMsg nss cs k \<in> set (Sent p') \<and> c \<in> set cs"
        using mpAndSend_sends(2) [OF send rng] by blast
    qed
  qed
qed

lemma mpAndSend_form:
  assumes "mpAndSend pm ps rngs cfg del anns pend tree p = Inr p'"
  shows "\<exists>nss u. Sent p' = Sent p @ map (\<lambda>k. CaPMsg (nss k) (map (\<lambda>(a, _). (a, pend a)) (filter (\<lambda>(_, k'). k' = k) del)) k)
      (rngs (remdups (map snd del))) @ [UnchangedMsg u] \<and> Pool (chain p') = Pool (chain p)"
  using assms by (auto simp: mpAndSend_def bind_res_eq_Inr Let_def send_caps emit_def)

text \<open>
  \<open>handleAnns\<close> loses the transactions that the leaving account sends to itself: in the no-lock mode,
  what waits after one announcement and what is sent to the target make up, with exactly the
  account's transactions to itself from its lock pool, what waited before. The loop appends these to the
  pool that it then overwrites with the ones it kept.
\<close>

theorem self_transfers_are_lost:
  assumes run: "handleAnns pm ps rngs cfg clk tree [ann] p = Inr p'"
    and mode: "Not_Lock_Acc_When_Migrating cfg" "\<not> Lock_Acc_When_Migrating cfg"
    and own: "flag (AccountInOwnShard (Acc (chain p))) (ann_Address ann)" and rng: "\<And>k. rngs [k] = [k]"
    and A: "finite A" "ann_Address ann \<in> A" "\<forall>v\<in>set (Not_Locking_TX_Pools (Pool (chain p)) (ann_Address ann)). from_addr v \<in> A"
  shows "\<exists>nss caps u. Sent p' = Sent p @ [CaPMsg nss caps (shard_name (ann_ToshardID ann)), UnchangedMsg u]
    \<and> pool_total A (Pool (chain p')) + payloads (concat (map snd caps))
        + payloads (filter (self_pay (ann_Address ann)) (Not_Locking_TX_Pools (Pool (chain p)) (ann_Address ann)))
      = pool_total A (Pool (chain p))"
proof -
  let ?a = "ann_Address ann" and ?k = "shard_name (ann_ToshardID ann)" and ?pool = "Pool (chain p)"
  let ?del = "[(?a, ?k)]" and ?g1 = "unlock_leaving cfg ann (Acc (chain p))"
  let ?held = "\<lambda>s. s = ?a \<or> flag (Not_Lock_Acc ?g1) s"
  let ?p2 = "if IsMVSSPlus cfg then upd_mig (mvssOnAnnounceDone cfg ?a) (upd_acc ?g1 p) else upd_acc ?g1 p"
  define p1 where "p1 = upd_pool (release_leaving cfg ?g1 (\<lambda>s. s \<in> fst ` set ?del) ?a (clk 0)) ?p2"
  have loop: "fold (handle_one_ann cfg clk) (zip [0..<length [ann]] [ann]) ([], p) = (?del, p1)"
    using own mode by (simp add: handle_one_ann_def Let_def p1_def)
  obtain m q where r: "release_account ?held ?a (clk 0) (Not_Locking_TX_Pools ?pool, Queue ?pool) = (m, q)" by force
  have pool1: "Pool (chain p1) = ?pool\<lparr> Not_Locking_TX_Pools := m, Queue := q \<rparr>"
    using mode r by (simp add: p1_def release_leaving_def)
  have sent1: "Sent p1 = Sent p" by (simp add: p1_def)
  have "tot A m + payloads q + payloads (filter (self_pay ?a) (Not_Locking_TX_Pools ?pool ?a))
      = tot A (Not_Locking_TX_Pools ?pool) + payloads (Queue ?pool)"
    using release_account_counts [OF A(1,2) _ r A(3)] by simp
  then have one: "pool_total A (Pool (chain p1)) + payloads (filter (self_pay ?a) (Not_Locking_TX_Pools ?pool ?a)) = pool_total A ?pool"
    by (simp add: pool1 pool_total_def ac_simps)
  obtain pend pool where coll: "collect_pending cfg (mig_of p1) [?a] (Pool (chain p1)) = (pend, pool)" by force
  define p2 where "p2 = upd_acc ((Acc (chain p1))\<lparr> Outing_Acc_After_Announce := (\<lambda>a. if a \<in> fst ` set ?del then None
      else Outing_Acc_After_Announce (Acc (chain p1)) a) \<rparr>) (upd_pool (\<lambda>_. pool) p1)"
  have send: "mpAndSend pm ps rngs cfg ?del [ann] pend tree p2 = Inr p'"
    using run loop coll by (simp add: handleAnns_def Let_def p2_def)
  have sub: "set [?a] \<subseteq> A" using A(2) by simp
  note c = collect_pending_keeps [OF A(1) sub coll]
  have tot: "tot A pend = payloads (concat (map pend [?a]))" by (rule tot_outside [OF A(1) _ sub c(2)]) simp
  from mpAndSend_form [OF send] obtain nss u where
    s: "Sent p' = Sent p @ [CaPMsg (nss ?k) [(?a, pend ?a)] ?k, UnchangedMsg u]" "Pool (chain p') = pool"
    by (auto simp: p2_def sent1 rng)
  have "pool_total A pool + payloads (pend ?a) + payloads (filter (self_pay ?a) (Not_Locking_TX_Pools ?pool ?a)) = pool_total A ?pool"
    using c(1) tot one by (simp add: ac_simps)
  with s show ?thesis by (intro exI [of _ "nss ?k"] exI [of _ "[(?a, pend ?a)]"] exI [of _ u]) simp
qed

section \<open>Arrival\<close>

lemma map_payload_stamp:
  "map payload (map (\<lambda>(j, v). v\<lparr> Success := True, TXmig2_Time := t j \<rparr>) (zip js vs)) = map payload (take (length js) vs)"
proof (induction js arbitrary: vs)
  case (Cons j js)
  then show ?case by (cases vs) (simp_all add: payload_def)
qed simp

text \<open>The target queues every transaction it is handed, in order.\<close>

lemma handed_over_transactions_queued:
  "map payload (Queue (Pool (chain (handleChangesAndPendings cfg clk nss caps p))))
   = map payload (Queue (Pool (chain p))) @ map payload (concat (map snd caps))"
proof -
  have "map payload (Queue (Pool (chain (fold (\<lambda>(i, cap). upd_pool (\<lambda>pool. fold AddTx (f i cap) pool)) (zip is caps) p))))
      = map payload (Queue (Pool (chain p))) @ map payload (concat (map snd caps))"
    if "length is = length caps" "\<And>i cap. map payload (f i cap) = map payload (snd cap)" for f "is"
    using that
  proof (induction caps arbitrary: "is" p)
    case (Cons c caps)
    then obtain i is' where "is = i # is'" by (cases "is") auto
    have add: "Queue (fold AddTx vs pool) = Queue pool @ vs" for vs pool
      by (induction vs arbitrary: pool) (simp_all add: AddTx_def)
    with Cons \<open>is = i # is'\<close> show ?case by simp
  qed simp
  from this [of "[0..<length caps]" "\<lambda>i cap. map (\<lambda>(j, v). v\<lparr> Success := True, TXmig2_Time := clk i j \<rparr>)
      (zip [0..<length (snd cap)] (snd cap))"] show ?thesis
    unfolding map_payload_stamp
    by (simp add: handleChangesAndPendings_def Let_def emit_def case_prod_unfold)
qed

section \<open>Balances\<close>

text \<open>
  C7. The migration carries the balance over: outside MVSS and the full-lock mode, let \<open>b\<close> be the balance that
  the source recorded when it executed the request. The target's account starts from \<open>b\<close> when it
  executes the \<open>TXmig2\<close>; what the source then sends settles the difference: executing it adds to the
  target's balance exactly what the source's account gained since, and the rest of the account stays.
\<close>

theorem migration_settles_balance:
  assumes m2: "make_mig2 pm ps tree0 out m1 = Inr m2" "out (mig1_Address m1) = Some b"
    and target: "\<not> IsMVSS cfgT" "exec_mig2 cfgT m2 (treeT, mg) = Inr (tree1, mg1)"
    and settle: "settle_one pm' ps' cfg del tree ann (\<lambda>_. [], 0, before) = Inr (nss, u, before')" "ann_Address ann = mig1_Address m1"
      "mig1_Address m1 \<in> fst ` set del" "\<not> Lock_Acc_When_Migrating cfg" "before (mig1_Address m1) = Some b"
    and source: "tree (addr_bytes (mig1_Address m1)) = Some s"
    and now: "ex_tree es (addr_bytes (mig1_Address m1)) = Some t"
  shows "map_option Balance (tree1 (addr_bytes (mig1_Address m1))) = Some b
    \<and> (\<exists>es'. fold_res exec_ns (nss (shard_name (ann_ToshardID ann))) es = Inr es'
        \<and> ex_tree es' = (ex_tree es)(addr_bytes (mig1_Address m1) \<mapsto> t\<lparr> Balance := Balance t + (Balance s - b) \<rparr>))
    \<and> before' (mig1_Address m1) = None"
proof -
  let ?a = "mig1_Address m1" and ?k = "shard_name (ann_ToshardID ann)"
  have v: "mig2_Address m2 = ?a" "mig2_Value m2 = Some b"
    using m2 by (auto simp: make_mig2_def split: option.splits)
  have "map_option Balance (tree1 (addr_bytes ?a)) = Some b"
    using target v by (auto simp: exec_mig2_def bind_res_eq_Inr mvss_mig2_state_def Let_def)
  moreover have "nss ?k = (if Balance s - b = 0 then [] else [\<lparr> ns_Txann = ann, ns_MPann = pm' ann, ns_State = Some s,
      ns_MPstate = ps' (addr_bytes ?a), ns_H = 0, ns_Address = ?a, ns_Change = Balance s - b \<rparr>])"
    and "before' ?a = None"
    using settle source by (auto simp: settle_one_def Let_def split: if_splits)
  ultimately show ?thesis
    using now by (auto simp: exec_ns_def get_state_def)
qed

section \<open>Witnesses\<close>

definition mig2_0 :: TXmig2 where
  "mig2_0 = \<lparr> mig2_Txmig1 = Some mig1_0, mig2_MPmig1 = [], mig2_State = Some held_state, mig2_MPstate = [], mig2_H = 0,
     mig2_Address = ''05'', mig2_Value = Some 10 \<rparr>"

definition ann_0 :: TXann where
  "ann_0 = \<lparr> ann_Txmig2 = mig2_0, ann_MPmig2 = [], ann_State = Some held_state, ann_MPstate = [], ann_H = 0,
     ann_Address = ''05'', ann_ToshardID = 1 \<rparr>"

definition move_config :: ChainConfig where
  "move_config = default_config\<lparr> ShardID := ''S0'', Shard_num := 2, Not_Lock_Acc_When_Migrating := True \<rparr>"

text \<open>The source: account 05 leaves, a transaction of it and one more wait in its pool.\<close>

definition move_node :: "Transaction \<Rightarrow> Pbft" where
  "move_node v = upd_pool (\<lambda>pool. pool\<lparr> Not_Locking_TX_Pools := (\<lambda>_. [])(''05'' := [tx_of 1 5 6 3, v]) \<rparr>)
     (upd_acc ((own_globals [''05'', ''06''])\<lparr> BalanceBeforeOut := [''05'' \<mapsto> 10] \<rparr>) pbft0)"

lemma move_facts:
  "ann_Address ann_0 = ''05''" "ann_ToshardID ann_0 = 1" "Not_Lock_Acc_When_Migrating move_config"
  "\<not> Lock_Acc_When_Migrating move_config" "\<not> IsMVSSPlus move_config" "\<not> IsMVSS move_config" "shard_name 1 = ''S1''"
  "flag (AccountInOwnShard (Acc (chain (move_node v)))) ''05''"
  "BalanceBeforeOut (Acc (chain (move_node v))) = [''05'' \<mapsto> 10]"
  by (simp_all add: ann_0_def move_config_def default_config_def IsMVSSPlus_def IsMVSS_def shard_name_def ShardTableInt2Str_def
      move_node_def own_globals_def)

lemma move_runs:
  "\<exists>p'. handleAnns (\<lambda>_. []) (\<lambda>_. []) id move_config (\<lambda>_ _. 9) [[5] \<mapsto> held_state] [ann_0] (move_node v) = Inr p'"
proof -
  obtain del p1 where loop: "handle_one_ann move_config (\<lambda>_ _. 9) (0, ann_0) ([], move_node v) = (del, p1)" by force
  have "leaving_ok {''05''} [] (move_node v)" by (simp add: leaving_ok_def)
  from loop have del: "del = [(''05'', ''S1'')]" and before: "BalanceBeforeOut (Acc (chain p1)) = [''05'' \<mapsto> 10]"
    by (auto simp: handle_one_ann_def Let_def move_facts)
  obtain pend pool where coll: "collect_pending move_config (mig_of p1) (map fst del) (Pool (chain p1)) = (pend, pool)" by force
  show ?thesis
    using loop coll before addr_05
    by (simp add: handleAnns_def mpAndSend_def settle_one_def Let_def del move_facts held_state_def del: hex_decode.simps)
qed

theorem announced_transactions_handed_over_witness:
  "\<exists>p' caps. handleAnns (\<lambda>_. []) (\<lambda>_. []) id move_config (\<lambda>_ _. 9) [[5] \<mapsto> held_state] [ann_0] (move_node (tx_of 2 5 6 4)) = Inr p'
    \<and> pool_total {''05''} (Pool (chain (move_node (tx_of 2 5 6 4)))) = pool_total {''05''} (Pool (chain p')) + payloads (concat (map snd caps))
    \<and> (\<forall>c\<in>set caps. \<exists>nss cs k. CaPMsg nss cs k \<in> set (Sent p') \<and> c \<in> set cs)"
proof -
  let ?p = "move_node (tx_of 2 5 6 4)"
  obtain p' where run: "handleAnns (\<lambda>_. []) (\<lambda>_. []) id move_config (\<lambda>_ _. 9) [[5] \<mapsto> held_state] [ann_0] ?p = Inr p'"
    using move_runs by blast
  have "to_addr (tx_of k 5 6 t) = ''06''" for k t by (simp add: to_addr_def tx_of_def hex_05)
  then have "locks_ok {''05''} (Pool (chain ?p))"
    by (auto simp: locks_ok_def waits_ok_def move_node_def pbft0_def node0_def NewTxPool_def)
  from announced_transactions_handed_over [OF run _ _ this] run show ?thesis by (auto simp: move_facts)
qed

theorem self_transfers_are_lost_witness:
  "\<exists>p' nss caps u. handleAnns (\<lambda>_. []) (\<lambda>_. []) id move_config (\<lambda>_ _. 9) [[5] \<mapsto> held_state] [ann_0] (move_node (tx_of 2 5 5 4)) = Inr p'
    \<and> Sent p' = [CaPMsg nss caps ''S1'', UnchangedMsg u]
    \<and> pool_total {''05''} (Pool (chain p')) + payloads (concat (map snd caps)) + payloads [tx_of 2 5 5 4]
      = pool_total {''05''} (Pool (chain (move_node (tx_of 2 5 5 4))))"
proof -
  let ?p = "move_node (tx_of 2 5 5 4)"
  obtain p' where run: "handleAnns (\<lambda>_. []) (\<lambda>_. []) id move_config (\<lambda>_ _. 9) [[5] \<mapsto> held_state] [ann_0] ?p = Inr p'"
    using move_runs by blast
  have wait: "Not_Locking_TX_Pools (Pool (chain ?p)) ''05'' = [tx_of 1 5 6 3, tx_of 2 5 5 4]" "Sent ?p = []"
    by (simp_all add: move_node_def pbft0_def)
  have "self_pay ''05'' (tx_of 2 5 5 4)" "\<not> self_pay ''05'' (tx_of 1 5 6 3)"
    by (simp_all add: self_pay_def to_addr_def from_addr_def tx_of_def hex_05 zero_tx_def)
  with self_transfers_are_lost [OF run, of "{''05''}"] run wait show ?thesis by (auto simp: move_facts)
qed

theorem migration_settles_balance_witness:
  "\<exists>m2 tree1 mg1 nss u before' es'.
      make_mig2 (\<lambda>_. []) (\<lambda>_. []) [[5] \<mapsto> held_state] [''05'' \<mapsto> 10] mig1_0 = Inr m2
    \<and> exec_mig2 move_config m2 ([[5] \<mapsto> held_state\<lparr> Balance := 0 \<rparr>], InitMigCtx) = Inr (tree1, mg1)
    \<and> settle_one (\<lambda>_. []) (\<lambda>_. []) move_config [(''05'', ''S1'')] [[5] \<mapsto> src_state] ann_0 (\<lambda>_. [], 0, [''05'' \<mapsto> 10]) = Inr (nss, u, before')
    \<and> fold_res exec_ns (nss ''S1'') \<lparr> ex_tree = tree1, ex_mig = mg1, ex_done = [], ex_out = Map.empty \<rparr> = Inr es'
    \<and> map_option Balance (ex_tree es' [5]) = Some 17"
proof -
  let ?tree0 = "[[5] \<mapsto> held_state]" and ?treeT = "[[5] \<mapsto> held_state\<lparr> Balance := 0 \<rparr>]"
  have a: "addr_bytes ''05'' = [5]" by (rule addr_05)
  have m: "mig1_Address mig1_0 = ''05''" by (simp add: mig1_0_def)
  obtain m2 where m2: "make_mig2 (\<lambda>_. []) (\<lambda>_. []) ?tree0 [''05'' \<mapsto> 10] mig1_0 = Inr m2"
    by (simp add: make_mig2_def m a)
  obtain tree1 mg1 where t: "exec_mig2 move_config m2 (?treeT, InitMigCtx) = Inr (tree1, mg1)" "tree1 [5] \<noteq> None"
    using m2 by (auto simp: make_mig2_def m a exec_mig2_def get_state_def mvss_mig2_state_def move_facts Let_def)
  obtain nss u before' where s: "settle_one (\<lambda>_. []) (\<lambda>_. []) move_config [(''05'', ''S1'')] [[5] \<mapsto> src_state] ann_0 (\<lambda>_. [], 0, [''05'' \<mapsto> 10])
      = Inr (nss, u, before')" by (simp add: settle_one_def move_facts a Let_def src_state_def)
  let ?es = "\<lparr> ex_tree = tree1, ex_mig = mg1, ex_done = [], ex_out = Map.empty \<rparr>"
  from t(2) obtain st where st: "tree1 [5] = Some st" by blast
  have "ann_Address ann_0 = mig1_Address mig1_0" by (simp add: m move_facts)
  from migration_settles_balance [OF m2 _ _ t(1) s this, of 10 src_state ?es st] st m a obtain es' where
    "fold_res exec_ns (nss ''S1'') ?es = Inr es'" "ex_tree es' = tree1([5] \<mapsto> st\<lparr> Balance := Balance st + (Balance src_state - 10) \<rparr>)"
    "Balance st = 10" by (auto simp: move_facts del: hex_decode.simps)
  with m2 t s show ?thesis by (auto simp: src_state_def)
qed

end
