(* ===== verification/Commit.thy ===== *)
theory Commit
  imports Settlement
begin

text \<open>
  The committed block at the leader of a shard: \<open>propose1\<close> and the block branch of \<open>commit1\<close>
  (\<open>pbft/pbftsingle.go\<close>), which runs all the steps of the other theories in order. A goroutine runs
  here where it is started. What the code reads from outside is in the record \<open>env\<close>: hashes, proofs,
  the order of \<open>range\<close>, the table of nodes, the clock.
\<close>

record env =
  ev_hashes :: hashes
  ev_sha :: "bytes \<Rightarrow> bytes"
  ev_prove_mig1 :: "TXmig1 \<Rightarrow> ProofDB"
  ev_prove_mig2 :: "TXmig2 \<Rightarrow> ProofDB"
  ev_prove_ann :: "TXann \<Rightarrow> ProofDB"
  ev_prove_tx :: "bytes \<Rightarrow> ProofDB"
  ev_prove_state :: "bytes \<Rightarrow> ProofDB"
  ev_order :: "timemap \<Rightarrow> timemap"
  ev_targets :: "int list \<Rightarrow> int list"
  ev_names :: "string list \<Rightarrow> string list"
  ev_migrating :: "Pbft \<Rightarrow> addr list"
  ev_keys :: "string list"
  ev_now :: int
  ev_clock :: "nat \<Rightarrow> int"
  ev_ann_clock :: "nat \<Rightarrow> nat \<Rightarrow> int"

record Leader =
  ld_pbft :: Pbft
  sequenceID :: int
  TryOutPool :: "int \<Rightarrow> TXmig2 list"

section \<open>The transactions of the block\<close>

text \<open>Committed here, to be relayed, the number of relays, and the block's transactions as they are left.\<close>

record commit_acc =
  ca_acc :: Globals
  ca_commit :: "Transaction list"
  ca_relay :: "Transaction list"
  ca_count :: nat
  ca_done :: "Transaction list"

definition recipient_locked :: "ChainConfig \<Rightarrow> Globals \<Rightarrow> Transaction \<Rightarrow> bool" where
  "recipient_locked cfg g v =
     (if Not_Lock_Acc_When_Migrating cfg then flag (Not_Lock_Acc g) (to_addr v)
      else if Lock_Acc_When_Migrating cfg then flag (Lock_Acc g) (to_addr v) else False)"

definition commit_one :: "ChainConfig \<Rightarrow> int \<Rightarrow> Transaction \<Rightarrow> commit_acc \<Rightarrow> commit_acc res" where
  "commit_one cfg now v st =
     bind_res (Addr2Shard cfg (from_addr v) (ca_acc st)) (\<lambda>(fromid, g1).
     bind_res (Addr2Shard cfg (to_addr v) g1) (\<lambda>(toid, g2).
       (let here = self_shard cfg; st1 = st\<lparr> ca_acc := g2 \<rparr>;
            committed = v\<lparr> CommitTime := now \<rparr>; relayed = v\<lparr> IsRelay := True \<rparr> in
        Inr (if IsSyncProbeTxID (TxId v) \<and> (here = fromid \<or> here = toid)
             then st1\<lparr> ca_commit := ca_commit st @ [committed], ca_done := ca_done st @ [committed] \<rparr>
             else if here = toid then
               (if recipient_locked cfg g2 v
                then st1\<lparr> ca_count := ca_count st + 1, ca_done := ca_done st @ [relayed] \<rparr>
                else st1\<lparr> ca_commit := ca_commit st @ [committed], ca_done := ca_done st @ [committed],
                  ca_count := ca_count st + (if IsRelay v then 1 else 0) \<rparr>)
             else if IsRelay v then st1\<lparr> ca_count := ca_count st + 1, ca_done := ca_done st @ [v] \<rparr>
             else st1\<lparr> ca_relay := ca_relay st @ [relayed], ca_count := ca_count st + 1, ca_done := ca_done st @ [relayed] \<rparr>))))"

definition commit_txs :: "ChainConfig \<Rightarrow> int \<Rightarrow> Transaction list \<Rightarrow> Globals \<Rightarrow> commit_acc res" where
  "commit_txs cfg now txs g = fold_res (commit_one cfg now) txs
     \<lparr> ca_acc = g, ca_commit = [], ca_relay = [], ca_count = 0, ca_done = [] \<rparr>"

section \<open>The accounts that ask to leave\<close>

text \<open>They are locked in the way of the mode, each with a new empty pool.\<close>

definition lock_requested :: "ChainConfig \<Rightarrow> TXmig1 list \<Rightarrow> Pbft \<Rightarrow> Pbft" where
  "lock_requested cfg migs p =
     (let as = map mig1_Address migs;
          put = (\<lambda>m. fold (\<lambda>a m. m(a \<mapsto> True)) as m);
          new = (\<lambda>m. fold (\<lambda>a m. m(a := [])) as m);
          p1 = (if Lock_Acc_When_Migrating cfg then
                 upd_pool (\<lambda>pool. pool\<lparr> Locking_TX_Pools := new (Locking_TX_Pools pool) \<rparr>)
                   (upd_acc ((Acc (chain p))\<lparr> Lock_Acc := put (Lock_Acc (Acc (chain p))) \<rparr>) p) else p);
          p2 = (if Not_Lock_Acc_When_Migrating cfg then
                 upd_pool (\<lambda>pool. pool\<lparr> Not_Locking_TX_Pools := new (Not_Locking_TX_Pools pool) \<rparr>)
                   (upd_acc ((Acc (chain p1))\<lparr> Not_Lock_Acc := put (Not_Lock_Acc (Acc (chain p1))) \<rparr>) p1) else p1)
      in if \<not> Stop_When_Migrating cfg \<and> \<not> Lock_Acc_When_Migrating cfg \<and> \<not> Not_Lock_Acc_When_Migrating cfg
         then upd_pool (\<lambda>pool. pool\<lparr> Outing_Before_Announce_TX_Pools := new (Outing_Before_Announce_TX_Pools pool) \<rparr>)
           (upd_acc ((Acc (chain p2))\<lparr> Outing_Acc_Before_Announce := put (Outing_Acc_Before_Announce (Acc (chain p2))) \<rparr>) p2)
         else p2)"

text \<open>The failure experiment: the migration of one account is given up and its transactions return.\<close>

definition fail_timeout :: "ChainConfig \<Rightarrow> int \<Rightarrow> int \<Rightarrow> Pbft \<Rightarrow> Pbft" where
  "fail_timeout cfg seq now p =
     (let g = Acc (chain p); a = special_addr;
          back = map (\<lambda>v. v\<lparr> UnlockTime := now, Success := False \<rparr>) in
      if \<not> (Fail cfg \<and> Fail_Time cfg = seq \<and> ShardID cfg = ''S0'') then p
      else if Lock_Acc_When_Migrating cfg then
        upd_pool (\<lambda>pool. AddTxs (back (Locking_TX_Pools pool a))
            (pool\<lparr> Locking_TX_Pools := (Locking_TX_Pools pool)(a := []) \<rparr>))
          (upd_acc (g\<lparr> Lock_Acc := (Lock_Acc g)(a \<mapsto> False) \<rparr>) p)
      else if Not_Lock_Acc_When_Migrating cfg then
        upd_pool (\<lambda>pool. AddTxs (back (Not_Locking_TX_Pools pool a))
            (pool\<lparr> Not_Locking_TX_Pools := (Not_Locking_TX_Pools pool)(a := []) \<rparr>))
          (upd_acc (g\<lparr> Not_Lock_Acc := (Not_Lock_Acc g)(a \<mapsto> False) \<rparr>) p)
      else
        upd_pool (\<lambda>pool. AddTxs (back (Outing_Before_Announce_TX_Pools pool a))
            (pool\<lparr> Outing_Before_Announce_TX_Pools := (Outing_Before_Announce_TX_Pools pool)(a := []) \<rparr>))
          (upd_acc (g\<lparr> Outing_Acc_Before_Announce := (Outing_Acc_Before_Announce g)(a \<mapsto> False) \<rparr>) p))"

text \<open>In some experiments the first block restarts the clock of the waiting transactions.\<close>

definition restart_times :: "ChainConfig \<Rightarrow> int \<Rightarrow> int \<Rightarrow> Pbft \<Rightarrow> Pbft" where
  "restart_times cfg seq now p =
     (if seq = 1 \<and> (Bu_Tong_Bi_Li cfg \<or> Bu_Tong_Shi_Jian cfg \<or> (Fail cfg \<and> \<not> Bu_Tong_Bi_Li_2 cfg) \<or> Cross_Chain cfg)
      then upd_pool (\<lambda>pool. pool\<lparr> Queue := map (\<lambda>tx. tx\<lparr> RequestTime := now \<rparr>) (Queue pool) \<rparr>) p else p)"

section \<open>The block\<close>

text \<open>The messages after the block: relays, migration requests, Stage 3, announcements.\<close>

definition commit_sends :: "env \<Rightarrow> ChainConfig \<Rightarrow> int \<Rightarrow> Block \<Rightarrow> Transaction list \<Rightarrow> balances \<Rightarrow> state_tree
    \<Rightarrow> (int \<Rightarrow> TXmig2 list) \<times> Pbft \<Rightarrow> ((int \<Rightarrow> TXmig2 list) \<times> Pbft) res" where
  "commit_sends e cfg seq b relaytxs outbalance tree = (\<lambda>(out, p).
     bind_res (if relaytxs \<noteq> [] then TryRelay (ev_prove_tx e) (ev_prove_state e) cfg (ev_keys e) tree relaytxs p else Inr p) (\<lambda>p1.
     if \<not> Stop_When_Migrating cfg \<and> \<not> Fail cfg then
       bind_res (if Cross_Chain cfg \<or> TXmig1s b \<noteq> []
           then TryTXmig1 (ev_prove_mig1 e) (ev_prove_state e) cfg (ev_keys e) seq tree outbalance (TXmig1s b) (out, p1)
           else Inr (out, p1)) (\<lambda>(out', p2).
       (let p3 = (if IsMVSSPlus cfg then mvssOnBlockCommitted (ev_sha e) (root (ev_hashes e)) (ev_order e) (ev_targets e)
              cfg (ev_now e) tree (ev_migrating e p2) b p2 else p2) in
        bind_res (if TXmig2s b \<noteq> [] then TryAnnounce (ev_prove_mig2 e) (ev_prove_state e) cfg (ev_keys e) tree (TXmig2s b) p3
            else Inr p3) (\<lambda>p4. Inr (out', p4))))
     else Inr (out, p1)))"

definition record_balances :: "ChainConfig \<Rightarrow> balances \<Rightarrow> Pbft \<Rightarrow> Pbft" where
  "record_balances cfg outbalance p =
     (if \<not> Stop_When_Migrating cfg \<and> \<not> Lock_Acc_When_Migrating cfg
      then upd_acc ((Acc (chain p))\<lparr> BalanceBeforeOut := BalanceBeforeOut (Acc (chain p)) ++ outbalance \<rparr>) p else p)"

text \<open>The block's transactions as the loop leaves them, the locks, the failure experiment, and \<open>LockTX\<close>.\<close>

definition settle_block :: "env \<Rightarrow> ChainConfig \<Rightarrow> int \<Rightarrow> Block \<Rightarrow> Globals \<Rightarrow> Pbft \<Rightarrow> Pbft" where
  "settle_block e cfg seq b g p =
     (let p1 = upd_acc g p;
          p2 = p1\<lparr> chain := (chain p1)\<lparr> CurrentBlock := b \<rparr> \<rparr>;
          p3 = fail_timeout cfg seq (ev_now e) (lock_requested cfg (TXmig1s b) p2)
      in if \<not> Not_Lock_immediately cfg then upd_pool (LockTX cfg (Acc (chain p3)) (ev_clock e)) p3 else p3)"

text \<open>The part of the leader \<open>N0\<close>; \<open>b\<close> is the block as \<open>AddBlock\<close> leaves it, \<open>tree\<close> the state after it.\<close>

definition commit_leader :: "env \<Rightarrow> ChainConfig \<Rightarrow> int \<Rightarrow> Block \<Rightarrow> balances \<Rightarrow> state_tree
    \<Rightarrow> (int \<Rightarrow> TXmig2 list) \<times> Pbft \<Rightarrow> ((int \<Rightarrow> TXmig2 list) \<times> Pbft) res" where
  "commit_leader e cfg seq b outbalance tree = (\<lambda>(out, p).
     bind_res (commit_txs cfg (ev_now e) (Transactions b) (Acc (chain p))) (\<lambda>st.
     bind_res (handleAnns (ev_prove_ann e) (ev_prove_state e) (ev_names e) cfg (ev_ann_clock e) tree (Anns b)
         (settle_block e cfg seq (b\<lparr> Transactions := ca_done st \<rparr>) (ca_acc st) (record_balances cfg outbalance p))) (\<lambda>p6.
     bind_res (commit_sends e cfg seq (b\<lparr> Transactions := ca_done st \<rparr>) (ca_relay st) outbalance tree (out, p6)) (\<lambda>(out', p7).
       (let size = length (TXmig1s b) + length (TXmig2s b) + length (Anns b) + length (NSs b) + length (Transactions b)
        in Inr (out', restart_times cfg seq (ev_now e) (emit (ReplyMsg (ca_commit st) size (length (NSs b))) p7)))))))"

definition commit1 :: "env \<Rightarrow> ChainConfig \<Rightarrow> Block \<Rightarrow> Leader \<Rightarrow> Leader res" where
  "commit1 e cfg b l =
     (let p = ld_pbft l; seq = sequenceID l in
      bind_res (AddBlock (ev_hashes e) cfg b (chain p)) (\<lambda>(outbalance, n).
      bind_res (if NodeID cfg = ''N0''
          then commit_leader e cfg seq (CurrentBlock n) outbalance (StateTree n) (TryOutPool l, p\<lparr> chain := n \<rparr>)
          else Inr (TryOutPool l, p\<lparr> chain := n \<rparr>)) (\<lambda>(out, p').
        Inr (l\<lparr> ld_pbft := p', TryOutPool := out, sequenceID := seq + 1 \<rparr>))))"

definition propose1 :: "env \<Rightarrow> ChainConfig \<Rightarrow> u64 \<Rightarrow> Leader \<Rightarrow> Leader res" where
  "propose1 e cfg time l =
     (let p = ld_pbft l in
      bind_res (GenerateBlock (ev_hashes e) cfg (ev_clock e) time (sequenceID l) (chain p)) (\<lambda>(b, n).
        commit1 e cfg b (l\<lparr> ld_pbft := p\<lparr> chain := n \<rparr> \<rparr>)))"

end
