(* ===== verification/Delivery.thy ===== *)
theory Delivery
  imports Commit
begin

text \<open>
  What a committed block sends: its transactions are answered to the client, relayed to the shard of
  their recipient, or, in two cases, neither.
\<close>

section \<open>Messages stay sent\<close>

named_theorems sent_mono "no step takes a message back"

definition later :: "Pbft \<Rightarrow> Pbft \<Rightarrow> bool" where
  "later p p' \<longleftrightarrow> set (Sent p) \<subseteq> set (Sent p')"

lemma later_refl [simp]: "later p p" by (simp add: later_def)

lemma later_trans: "later p q \<Longrightarrow> later q r \<Longrightarrow> later p r" by (auto simp: later_def)

lemma later_same: "Sent p' = Sent p \<Longrightarrow> later q p \<Longrightarrow> later q p'" by (simp add: later_def)

lemma later_fold: "(\<And>x p. later p (f x p)) \<Longrightarrow> later p (fold f xs p)"
  by (induction xs arbitrary: p) (auto intro: later_trans)

lemma later_emit [sent_mono]: "later p (emit m p)" by (auto simp: later_def emit_def)

lemma later_TrySend [sent_mono]: "later p (TrySendTXsync ss t p)" "later p (TrySendTXsyncDelta ds t p)"
  by (simp_all add: TrySendTXsync_def TrySendTXsyncDelta_def later_emit)

lemma Sent_upd [simp]: "Sent (upd_ctx a f p) = Sent p" "Sent (upd_pool g p) = Sent p"
  by (simp_all add: upd_ctx_def upd_pool_def split: option.splits)

lemma Sent_promote [simp]: "Sent (mvssPromoteMigNewTxsToHead a p) = Sent p"
  by (auto simp: mvssPromoteMigNewTxsToHead_def Let_def split: option.splits prod.splits)

lemma Sent_enqueue [simp]: "Sent (enqueuePendingTargetDelta d p) = Sent p" "Sent (enqueueOutboundStateIniDelta now d t p) = Sent p"
  "Sent (mvssAbortDelta a r p) = Sent p"
  by (simp_all add: enqueuePendingTargetDelta_def enqueueOutboundStateIniDelta_def mvssAbortDelta_def Let_def)

lemma Sent_apply [simp]: "Sent (snd (mvssApplyDeltaInbound sha rt d p)) = Sent p"
  by (auto simp: mvssApplyDeltaInbound_def Let_def split: option.splits prod.splits bool.splits)

lemma later_apply_or_abort [sent_mono]: "later p (apply_or_abort sha rt d p)"
proof -
  obtain ok p' where r: "mvssApplyDeltaInbound sha rt d p = (ok, p')" by force
  then have "Sent p' = Sent p" using Sent_apply [of sha rt d p] by simp
  then show ?thesis by (simp add: apply_or_abort_def r later_def split: bool.splits)
qed

lemma later_flush_pending [sent_mono]: "later p (mvssFlushPendingTargetDeltas sha rt cfg a p)"
proof -
  have "later (p\<lparr> pendingTargetDelta := m \<rparr>) (fold (apply_or_abort sha rt) ds (p\<lparr> pendingTargetDelta := m \<rparr>))" for m ds
    by (rule later_fold) (rule later_apply_or_abort)
  then show ?thesis by (simp add: mvssFlushPendingTargetDeltas_def dequeuePendingTargetDeltas_def later_def)
qed

lemma later_commit_mark [sent_mono]: "later p (commit_mark rng tx p)"
  by (simp add: commit_mark_def later_def split: option.splits)

lemma later_send [sent_mono]: "later p (mvssSendSyncForAddr sha cfg now st a p)" "later p (mvssSendSyncAck cfg now a p)"
  "later p (mvssSendDeltaAck sha cfg now a b p)"
proof -
  have up: "later p q" if "later (upd_ctx a f p) q" for f q using that by (simp add: later_def)
  show "later p (mvssSendSyncForAddr sha cfg now st a p)"
    by (auto simp: mvssSendSyncForAddr_def Let_def intro: up later_TrySend split: option.splits) (simp_all add: later_def)
  show "later p (mvssSendSyncAck cfg now a p)"
    by (auto simp: mvssSendSyncAck_def intro: up later_TrySend split: option.splits)
  show "later p (mvssSendDeltaAck sha cfg now a b p)"
    by (auto simp: mvssSendDeltaAck_def Let_def intro: up later_TrySend split: option.splits)
qed

lemma later_after_block [sent_mono]: "later p (after_block_step sha cfg now st b a p)"
  by (auto simp: after_block_step_def intro: sent_mono split: option.splits)

lemma later_flush_out [sent_mono]: "later p (mvssFlushOutboundStateIniDeltas cfg now t force p)"
proof -
  have "later (p\<lparr> outboundStateIniByTarget := m, outboundStateIniStart := n \<rparr>)
    (TrySendTXsyncDelta ds t (p\<lparr> outboundStateIniByTarget := m, outboundStateIniStart := n \<rparr>))" for m n ds
    by (rule later_TrySend)
  then show ?thesis by (auto simp: mvssFlushOutboundStateIniDeltas_def later_def)
qed

lemma later_block_committed [sent_mono]: "later p (mvssOnBlockCommitted sha rt rng rngt cfg now st addrs b p)"
proof -
  define p1 where "p1 = (if IsMVSSDelta cfg then fold (\<lambda>m2. mvssFlushPendingTargetDeltas sha rt cfg (mig2_Address m2))
      (filter (\<lambda>m2. mig2_Address m2 \<noteq> '''') (TXmig2s b)) p else p)"
  define p2 where "p2 = fold (commit_mark rng) (Transactions b) p1"
  define p3 where "p3 = fold (after_block_step sha cfg now st b) addrs p2"
  have 1: "later p p1" unfolding p1_def by (simp add: later_fold later_flush_pending)
  have 2: "later p1 p2" unfolding p2_def by (rule later_fold) (rule later_commit_mark)
  have 3: "later p2 p3" unfolding p3_def by (rule later_fold) (rule later_after_block)
  have 4: "later p3 (mvssFlushAllOutboundStateIniAtBlockEnd rngt cfg now p3)"
    unfolding mvssFlushAllOutboundStateIniAtBlockEnd_def Let_def by (rule later_fold) (rule later_flush_out)
  have "mvssOnBlockCommitted sha rt rng rngt cfg now st addrs b p
      = (if \<not> IsMVSS cfg then p else if IsMVSSDelta cfg then mvssFlushAllOutboundStateIniAtBlockEnd rngt cfg now p3 else p3)"
    unfolding mvssOnBlockCommitted_def Let_def p1_def [symmetric] p2_def [symmetric] p3_def [symmetric] ..
  then show ?thesis using later_trans [OF later_trans [OF 1 2] 3] later_trans [OF later_trans [OF later_trans [OF 1 2] 3] 4]
    by simp
qed

lemma later_send_pool [sent_mono]: "later p (send_pool msg ts pool p)"
  by (auto simp: later_def send_pool_sent)

lemma later_TryTXmig1 [sent_mono]: "TryTXmig1 pm ps cfg keys seq tree ob migs (out, p) = Inr (out', p') \<Longrightarrow> later p p'"
  by (auto simp: TryTXmig1_def Let_def bind_res_eq_Inr intro: sent_mono split: if_splits)

lemma later_TryAnnounce [sent_mono]: "TryAnnounce pm ps cfg keys tree m2s p = Inr p' \<Longrightarrow> later p p'"
proof -
  assume "TryAnnounce pm ps cfg keys tree m2s p = Inr p'"
  then obtain anns where "p' = fold (\<lambda>s. emit (AnnounceMsg anns (Some s))) (send_targets cfg keys)
      (if ClientSendTX cfg then emit (AnnounceMsg anns None) p else p)"
    by (auto simp: TryAnnounce_def bind_res_eq_Inr Let_def)
  moreover have "later p (if ClientSendTX cfg then emit (AnnounceMsg anns None) p else p)" by (simp add: later_emit)
  ultimately show ?thesis using later_fold [where f = "\<lambda>s. emit (AnnounceMsg anns (Some s))"] later_emit
    by (metis (no_types, lifting) later_trans)
qed

section \<open>Classification\<close>

lemma payload_marks [simp]:
  "payload (v\<lparr> CommitTime := t \<rparr>) = payload v" "payload (v\<lparr> IsRelay := b \<rparr>) = payload v" "payload (v\<lparr> HalfLock := b \<rparr>) = payload v"
  "to_addr (v\<lparr> IsRelay := b \<rparr>) = to_addr v"
  by (simp_all add: payload_def to_addr_def)

text \<open>What the loop neither answers nor relays.\<close>

definition stuck :: "ChainConfig \<Rightarrow> Globals \<Rightarrow> Transaction \<Rightarrow> bool" where
  "stuck cfg g v \<longleftrightarrow> (Account2Shard g (to_addr v) = Some (self_shard cfg) \<and> recipient_locked cfg g v)
     \<or> (IsRelay v \<and> (\<exists>s. Account2Shard g (to_addr v) = Some s \<and> s \<noteq> self_shard cfg))"

lemma recipient_locked_memo: "memo_grows g g' \<Longrightarrow> recipient_locked cfg g' v = recipient_locked cfg g v"
  by (simp add: recipient_locked_def memo_grows_def)

lemma stuck_memo: "memo_grows g g' \<Longrightarrow> stuck cfg g v \<Longrightarrow> stuck cfg g' v"
  by (auto simp: stuck_def recipient_locked_memo dest: memo_growsD)

definition relay_due :: "ChainConfig \<Rightarrow> Globals \<Rightarrow> Transaction \<Rightarrow> bool" where
  "relay_due cfg g v \<longleftrightarrow> IsRelay v \<and> (\<exists>s. Account2Shard g (to_addr v) = Some s \<and> s \<noteq> self_shard cfg)"

lemma relay_due_memo: "memo_grows g g' \<Longrightarrow> relay_due cfg g v \<Longrightarrow> relay_due cfg g' v"
  by (auto simp: relay_due_def dest: memo_growsD)

lemma commit_one_step:
  assumes "commit_one cfg now v st = Inr st'"
  shows "memo_grows (ca_acc st) (ca_acc st') \<and> payloads (ca_done st') = payloads (ca_done st) + {# payload v #}
    \<and> (\<exists>w. payload w = payload v \<and>
        (ca_commit st' = ca_commit st @ [w] \<and> ca_relay st' = ca_relay st
         \<or> ca_commit st' = ca_commit st \<and> ca_relay st' = ca_relay st @ [w] \<and> relay_due cfg (ca_acc st') w
         \<or> ca_commit st' = ca_commit st \<and> ca_relay st' = ca_relay st \<and> w = v \<and> stuck cfg (ca_acc st') v))"
proof -
  obtain fromid g1 toid g2 where a: "Addr2Shard cfg (from_addr v) (ca_acc st) = Inr (fromid, g1)"
    "Addr2Shard cfg (to_addr v) g1 = Inr (toid, g2)"
    using assms by (auto simp: commit_one_def bind_res_eq_Inr)
  have grow: "memo_grows (ca_acc st) g2" and to: "Account2Shard g2 (to_addr v) = Some toid"
    using Addr2Shard_grows [OF a(1)] Addr2Shard_grows [OF a(2)] by (auto intro: memo_grows_trans)
  let ?probe = "IsSyncProbeTxID (TxId v) \<and> (self_shard cfg = fromid \<or> self_shard cfg = toid)"
  let ?st1 = "st\<lparr> ca_acc := g2 \<rparr>" and ?c = "v\<lparr> CommitTime := now \<rparr>" and ?r = "v\<lparr> IsRelay := True \<rparr>"
  have st': "st' = (if ?probe then ?st1\<lparr> ca_commit := ca_commit st @ [?c], ca_done := ca_done st @ [?c] \<rparr>
      else if self_shard cfg = toid then
        (if recipient_locked cfg g2 v then ?st1\<lparr> ca_count := ca_count st + 1, ca_done := ca_done st @ [?r] \<rparr>
         else ?st1\<lparr> ca_commit := ca_commit st @ [?c], ca_done := ca_done st @ [?c],
           ca_count := ca_count st + (if IsRelay v then 1 else 0) \<rparr>)
      else if IsRelay v then ?st1\<lparr> ca_count := ca_count st + 1, ca_done := ca_done st @ [v] \<rparr>
      else ?st1\<lparr> ca_relay := ca_relay st @ [?r], ca_count := ca_count st + 1, ca_done := ca_done st @ [?r] \<rparr>)"
    using assms a unfolding commit_one_def Let_def by (simp only: bind_res_Inr prod.case sum.inject)
  have acc: "ca_acc st' = g2" unfolding st' by simp
  have finished: "payloads (ca_done st') = payloads (ca_done st) + {# payload v #}" unfolding st' by simp
  consider (answered) "?probe \<or> self_shard cfg = toid \<and> \<not> recipient_locked cfg g2 v"
    | (locked) "\<not> ?probe" "self_shard cfg = toid" "recipient_locked cfg g2 v"
    | (lost) "\<not> ?probe" "self_shard cfg \<noteq> toid" "IsRelay v"
    | (relay) "\<not> ?probe" "self_shard cfg \<noteq> toid" "\<not> IsRelay v" by blast
  then have "\<exists>w. payload w = payload v \<and>
        (ca_commit st' = ca_commit st @ [w] \<and> ca_relay st' = ca_relay st
         \<or> ca_commit st' = ca_commit st \<and> ca_relay st' = ca_relay st @ [w] \<and> relay_due cfg g2 w
         \<or> ca_commit st' = ca_commit st \<and> ca_relay st' = ca_relay st \<and> w = v \<and> stuck cfg g2 v)"
  proof cases
    case answered
    then have "ca_commit st' = ca_commit st @ [?c]" "ca_relay st' = ca_relay st" unfolding st' by auto
    then show ?thesis by (intro exI [of _ ?c]) simp
  next
    case locked
    then have "ca_commit st' = ca_commit st" "ca_relay st' = ca_relay st" unfolding st' by auto
    with locked to show ?thesis by (intro exI [of _ v]) (simp add: stuck_def)
  next
    case lost
    then have "ca_commit st' = ca_commit st" "ca_relay st' = ca_relay st" unfolding st' by auto
    with lost to show ?thesis by (intro exI [of _ v]) (simp add: stuck_def)
  next
    case relay
    then have "ca_commit st' = ca_commit st" "ca_relay st' = ca_relay st @ [?r]" unfolding st' by auto
    with relay to show ?thesis by (intro exI [of _ ?r]) (simp add: relay_due_def)
  qed
  with acc finished grow show ?thesis by simp
qed

lemma commit_loop:
  "fold_res (commit_one cfg now) txs st = Inr st' \<Longrightarrow>
   \<exists>committed relayed rest. ca_commit st' = ca_commit st @ committed \<and> ca_relay st' = ca_relay st @ relayed
     \<and> payloads txs = payloads committed + payloads relayed + payloads rest
     \<and> payloads (ca_done st') = payloads (ca_done st) + payloads txs
     \<and> memo_grows (ca_acc st) (ca_acc st')
     \<and> (\<forall>v\<in>set relayed. relay_due cfg (ca_acc st') v) \<and> (\<forall>v\<in>set rest. v \<in> set txs \<and> stuck cfg (ca_acc st') v)"
proof (induction txs arbitrary: st)
  case Nil
  then show ?case by (intro exI [of _ "[]"]) simp
next
  case (Cons v txs)
  then obtain st1 where st1: "commit_one cfg now v st = Inr st1" "fold_res (commit_one cfg now) txs st1 = Inr st'"
    by (auto simp: bind_res_eq_Inr)
  note step = commit_one_step [OF st1(1)]
  from Cons.IH [OF st1(2)] obtain committed relayed rest where
    IH: "ca_commit st' = ca_commit st1 @ committed" "ca_relay st' = ca_relay st1 @ relayed"
      "payloads txs = payloads committed + payloads relayed + payloads rest"
      "payloads (ca_done st') = payloads (ca_done st1) + payloads txs" "memo_grows (ca_acc st1) (ca_acc st')"
      "\<forall>v\<in>set relayed. relay_due cfg (ca_acc st') v" "\<forall>v\<in>set rest. v \<in> set txs \<and> stuck cfg (ca_acc st') v" by blast
  have g: "memo_grows (ca_acc st) (ca_acc st')" using step IH(5) by (blast intro: memo_grows_trans)
  have d: "payloads (ca_done st') = payloads (ca_done st) + payloads (v # txs)" using step IH(4) by (simp add: ac_simps)
  from step consider
      (c) w where "payload w = payload v" "ca_commit st1 = ca_commit st @ [w]" "ca_relay st1 = ca_relay st"
    | (r) w where "payload w = payload v" "ca_commit st1 = ca_commit st" "ca_relay st1 = ca_relay st @ [w]" "relay_due cfg (ca_acc st1) w"
    | (s) "ca_commit st1 = ca_commit st" "ca_relay st1 = ca_relay st" "stuck cfg (ca_acc st1) v" by blast
  then show ?case
  proof cases
    case c
    with IH g d show ?thesis
      by (intro exI [of _ "w # committed"] exI [of _ relayed] exI [of _ rest]) (simp add: ac_simps)
  next
    case r
    have "relay_due cfg (ca_acc st') w" by (rule relay_due_memo [OF IH(5) r(4)])
    with r IH g d show ?thesis
      by (intro exI [of _ committed] exI [of _ "w # relayed"] exI [of _ rest]) (simp add: ac_simps)
  next
    case s
    have "stuck cfg (ca_acc st') v" by (rule stuck_memo [OF IH(5) s(3)])
    with s IH g d show ?thesis
      by (intro exI [of _ committed] exI [of _ relayed] exI [of _ "v # rest"]) (simp add: ac_simps)
  qed
qed

section \<open>Recipients elsewhere\<close>

definition elsewhere :: "ChainConfig \<Rightarrow> Pbft \<Rightarrow> Transaction \<Rightarrow> bool" where
  "elsewhere cfg p v \<longleftrightarrow> (\<exists>s. Account2Shard (Acc (chain p)) (to_addr v) = Some s \<and> s \<noteq> self_shard cfg)"

lemma elsewhere_same: "Account2Shard (Acc (chain p')) = Account2Shard (Acc (chain p)) \<Longrightarrow> elsewhere cfg p' v = elsewhere cfg p v"
  by (simp add: elsewhere_def)

lemma Account2Shard_lock_requested [simp]: "Account2Shard (Acc (chain (lock_requested cfg migs p))) = Account2Shard (Acc (chain p))"
  by (simp add: lock_requested_def Let_def)

lemma Account2Shard_fail_timeout [simp]: "Account2Shard (Acc (chain (fail_timeout cfg seq now p))) = Account2Shard (Acc (chain p))"
  by (simp add: fail_timeout_def Let_def)

lemma elsewhere_one_ann:
  assumes "handle_one_ann cfg clk (i, ann) (del, p) = (del', p')" "ann_ToshardID ann \<noteq> self_shard cfg" "elsewhere cfg p v"
  shows "elsewhere cfg p' v"
proof -
  have acc: "Account2Shard (unlock_leaving cfg ann g) = (Account2Shard g)(ann_Address ann \<mapsto> ann_ToshardID ann)" for g
    by (simp add: unlock_leaving_def Let_def)
  from assms(1) have "Account2Shard (Acc (chain p')) = (Account2Shard (Acc (chain p)))(ann_Address ann \<mapsto> ann_ToshardID ann)"
    by (auto simp: handle_one_ann_def Let_def acc split: if_splits)
  with assms(2,3) show ?thesis by (auto simp: elsewhere_def)
qed

lemma elsewhere_anns:
  "fold (handle_one_ann cfg clk) (zip is anns) (del, p) = (del', p') \<Longrightarrow> \<forall>ann\<in>set anns. ann_ToshardID ann \<noteq> self_shard cfg \<Longrightarrow>
   elsewhere cfg p v \<Longrightarrow> elsewhere cfg p' v"
proof (induction anns arbitrary: "is" del p)
  case (Cons ann anns)
  show ?case
  proof (cases "is")
    case (Cons i is')
    obtain del1 p1 where step: "handle_one_ann cfg clk (i, ann) (del, p) = (del1, p1)" by force
    have e: "elsewhere cfg p1 v" using elsewhere_one_ann [OF step _ Cons.prems(3)] Cons.prems(2) by simp
    have "fold (handle_one_ann cfg clk) (zip is' anns) (del1, p1) = (del', p')" using Cons.prems(1) local.Cons step by simp
    from Cons.IH [OF this _ e] Cons.prems(2) show ?thesis by simp
  qed (use Cons.prems in simp)
qed simp

lemma elsewhere_handleAnns:
  assumes run: "handleAnns pm ps rngs cfg clk tree anns p = Inr p'" and to: "\<forall>ann\<in>set anns. ann_ToshardID ann \<noteq> self_shard cfg"
    and v: "elsewhere cfg p v"
  shows "elsewhere cfg p' v"
proof (cases "anns = []")
  case False
  obtain del p1 where loop: "fold (handle_one_ann cfg clk) (zip [0..<length anns] anns) ([], p) = (del, p1)" by force
  have acc: "Account2Shard (Acc (chain q')) = Account2Shard (Acc (chain q))" if "mpAndSend pm ps rngs cfg del anns pend tree q = Inr q'" for q q' pend
    using that by (auto simp: mpAndSend_def bind_res_eq_Inr Let_def send_caps emit_def)
  have "elsewhere cfg p1 v" by (rule elsewhere_anns [OF loop to v])
  moreover have "Account2Shard (Acc (chain p')) = Account2Shard (Acc (chain p1))"
  proof -
    obtain pend pool where coll: "collect_pending cfg (mig_of p1) (map fst del) (Pool (chain p1)) = (pend, pool)" by force
    have "mpAndSend pm ps rngs cfg del anns pend tree (upd_acc ((Acc (chain p1))\<lparr> Outing_Acc_After_Announce :=
        (\<lambda>a. if a \<in> fst ` set del then None else Outing_Acc_After_Announce (Acc (chain p1)) a) \<rparr>) (upd_pool (\<lambda>_. pool) p1)) = Inr p'"
      using run False by (simp add: handleAnns_def loop coll Let_def)
    from acc [OF this] show ?thesis by simp
  qed
  ultimately show ?thesis by (simp only: elsewhere_def)
qed (use run v in \<open>simp add: handleAnns_def\<close>)

section \<open>Relays\<close>

lemma relay_fold_post:
  "fold_res (\<lambda>v (pool, g). bind_res (Addr2Shard cfg (to_addr v) g) (\<lambda>(s, g').
      bind_res (make_relay pt ps tree v) (\<lambda>r. bind_res (shard_append cfg s r pool) (\<lambda>pool'. Inr (pool', g'))))) vs (pool, g) = Inr (pool', g')
   \<Longrightarrow> memo_grows g g' \<and> (\<forall>s. set (pool s) \<subseteq> set (pool' s))
    \<and> (\<forall>v\<in>set vs. \<exists>s r. Account2Shard g' (to_addr v) = Some s \<and> 0 \<le> s \<and> s < Shard_num cfg \<and> r \<in> set (pool' s) \<and> rl_Txcs r = v)"
proof (induction vs arbitrary: pool g)
  case (Cons v vs)
  obtain s g1 r where a: "Addr2Shard cfg (to_addr v) g = Inr (s, g1)" "make_relay pt ps tree v = Inr r" "0 \<le> s" "s < Shard_num cfg"
    and rest: "fold_res (\<lambda>v (pool, g). bind_res (Addr2Shard cfg (to_addr v) g) (\<lambda>(s, g').
      bind_res (make_relay pt ps tree v) (\<lambda>r. bind_res (shard_append cfg s r pool) (\<lambda>pool'. Inr (pool', g'))))) vs
        (pool(s := pool s @ [r]), g1) = Inr (pool', g')"
    using Cons.prems by (auto simp: bind_res_eq_Inr shard_append_def split: if_splits)
  note g = Addr2Shard_grows [OF a(1)] and IH = Cons.IH [OF rest]
  have r: "rl_Txcs r = v" using a(2) by (auto simp: make_relay_def split: option.splits)
  have "set (pool t) \<subseteq> set ((pool(s := pool s @ [r])) t)" for t by auto
  with IH have sub: "\<forall>t. set (pool t) \<subseteq> set (pool' t)" by (meson order_trans)
  have "r \<in> set ((pool(s := pool s @ [r])) s)" by simp
  with IH have "r \<in> set (pool' s)" by blast
  moreover have "memo_grows g1 g'" using IH by blast
  ultimately have "\<exists>s r. Account2Shard g' (to_addr v) = Some s \<and> 0 \<le> s \<and> s < Shard_num cfg \<and> r \<in> set (pool' s) \<and> rl_Txcs r = v"
    using g(1) a(3,4) r by (blast dest: memo_growsD)
  with IH sub g(2) show ?case by (auto intro: memo_grows_trans)
qed simp

lemma TryRelay_post:
  assumes run: "TryRelay pt ps cfg keys tree vs p = Inr p'" and cov: "covers cfg keys" and foreign: "\<forall>v\<in>set vs. elsewhere cfg p v"
  shows "later p p'" "\<forall>v\<in>set vs. \<exists>rs s r. RelayMsg rs s \<in> set (Sent p') \<and> r \<in> set rs \<and> rl_Txcs r = v \<and> s \<noteq> self_shard cfg
      \<and> Account2Shard (Acc (chain p')) (to_addr v) = Some s"
proof -
  obtain pool g where d: "fold_res (\<lambda>v (pool, g). bind_res (Addr2Shard cfg (to_addr v) g) (\<lambda>(s, g').
      bind_res (make_relay pt ps tree v) (\<lambda>r. bind_res (shard_append cfg s r pool) (\<lambda>pool'. Inr (pool', g'))))) vs
      (\<lambda>_. [], Acc (chain p)) = Inr (pool, g)"
    and p': "p' = send_pool RelayMsg (send_targets cfg keys) pool (upd_acc g p)"
    using run by (auto simp: TryRelay_def bind_res_eq_Inr)
  note post = relay_fold_post [OF d]
  show "later p p'" by (simp add: p' later_def send_pool_sent)
  show "\<forall>v\<in>set vs. \<exists>rs s r. RelayMsg rs s \<in> set (Sent p') \<and> r \<in> set rs \<and> rl_Txcs r = v \<and> s \<noteq> self_shard cfg
      \<and> Account2Shard (Acc (chain p')) (to_addr v) = Some s"
  proof
    fix v assume v: "v \<in> set vs"
    with post obtain s r where s: "Account2Shard g (to_addr v) = Some s" "0 \<le> s" "s < Shard_num cfg" "r \<in> set (pool s)" "rl_Txcs r = v"
      by blast
    from foreign v obtain t where t: "Account2Shard (Acc (chain p)) (to_addr v) = Some t" "t \<noteq> self_shard cfg"
      by (auto simp: elsewhere_def)
    with post s(1) have "s = t" by (metis memo_growsD option.inject)
    with cov s t have "s \<in> set (send_targets cfg keys)" by (simp add: covers_def)
    moreover have "pool s \<noteq> []" using s(4) by auto
    ultimately have "RelayMsg (pool s) s \<in> set (Sent p')" by (auto simp: p' send_pool_sent)
    with s t \<open>s = t\<close> show "\<exists>rs s r. RelayMsg rs s \<in> set (Sent p') \<and> r \<in> set rs \<and> rl_Txcs r = v \<and> s \<noteq> self_shard cfg
      \<and> Account2Shard (Acc (chain p')) (to_addr v) = Some s" by (auto simp: p')
  qed
qed

section \<open>The whole block\<close>

lemma exec_txs_done:
  "fold_res (exec_tx cfg c) txs es = Inr es' \<Longrightarrow> payloads (ex_done es') = payloads (ex_done es) + payloads txs"
proof (induction txs arbitrary: es)
  case (Cons tx txs)
  then obtain es1 where s: "exec_tx cfg c tx es = Inr es1" "fold_res (exec_tx cfg c) txs es1 = Inr es'"
    by (auto simp: bind_res_eq_Inr)
  from s(1) have "payloads (ex_done es1) = payloads (ex_done es) + {# payload tx #}"
    by (auto simp: exec_tx_def bind_res_eq_Inr split: option.splits prod.splits if_splits)
  with Cons.IH [OF s(2)] show ?case by (simp add: ac_simps)
qed simp

lemma fold_done: "fold_res f xs es = Inr es' \<Longrightarrow> (\<And>x es es'. f x es = Inr es' \<Longrightarrow> ex_done es' = ex_done es) \<Longrightarrow> ex_done es' = ex_done es"
  by (induction xs arbitrary: es) (fastforce simp: bind_res_eq_Inr)+

lemma AddBlock_block:
  assumes "AddBlock H cfg b n = Inr (out, n')"
  shows "payloads (Transactions (CurrentBlock n')) = payloads (Transactions b)" "Anns (CurrentBlock n') = Anns b"
proof -
  obtain es where es: "getUpdatedTreeOfState cfg True (StateTree n) (Mig n) (Transactions b) (TXmig1s b) (TXmig2s b) (Anns b) (NSs b) = Inr es"
    and n': "CurrentBlock n' = b\<lparr> Transactions := ex_done es \<rparr>"
    using assms by (auto simp: AddBlock_def Let_def bind_res_eq_Inr split: if_splits)
  obtain t m es0 where x: "fold_res (exec_tx cfg True) (Transactions b) \<lparr> ex_tree = t, ex_mig = m, ex_done = [], ex_out = Map.empty \<rparr> = Inr es0"
    and rest: "es = es0 \<or> (\<exists>es1 es2. fold_res exec_mig1 (TXmig1s b) es0 = Inr es1 \<and> fold_res exec_ann (Anns b) es1 = Inr es2
      \<and> fold_res exec_ns (NSs b) es2 = Inr es)"
    using es by (auto simp: getUpdatedTreeOfState_def bind_res_eq_Inr split: if_splits)
  have "ex_done es1 = ex_done es" if "exec_mig1 v es = Inr es1" for v es es1
    using that by (auto simp: exec_mig1_def bind_res_eq_Inr)
  moreover have "ex_done es1 = ex_done es" if "exec_ann v es = Inr es1" for v es es1
    using that by (auto simp: exec_ann_def bind_res_eq_Inr)
  moreover have "ex_done es1 = ex_done es" if "exec_ns v es = Inr es1" for v es es1
    using that by (auto simp: exec_ns_def bind_res_eq_Inr)
  ultimately have "ex_done es = ex_done es0" using rest by (metis fold_done)
  with exec_txs_done [OF x] n' show "payloads (Transactions (CurrentBlock n')) = payloads (Transactions b)" by simp
  show "Anns (CurrentBlock n') = Anns b" by (simp add: n')
qed

lemma later_commit_sends:
  assumes "commit_sends e cfg seq b relaytxs ob tree (out, p) = Inr (out', p')"
  obtains p1 where "(if relaytxs \<noteq> [] then TryRelay (ev_prove_tx e) (ev_prove_state e) cfg (ev_keys e) tree relaytxs p else Inr p) = Inr p1"
    "later p1 p'"
proof -
  obtain p1 where p1: "(if relaytxs \<noteq> [] then TryRelay (ev_prove_tx e) (ev_prove_state e) cfg (ev_keys e) tree relaytxs p else Inr p) = Inr p1"
    using assms by (auto simp: commit_sends_def bind_res_eq_Inr)
  have "later p1 p'"
  proof (cases "\<not> Stop_When_Migrating cfg \<and> \<not> Fail cfg")
    case False
    then show ?thesis using assms p1 by (auto simp: commit_sends_def)
  next
    case True
    then obtain out2 p2 where p2: "(if Cross_Chain cfg \<or> TXmig1s b \<noteq> []
           then TryTXmig1 (ev_prove_mig1 e) (ev_prove_state e) cfg (ev_keys e) seq tree ob (TXmig1s b) (out, p1)
           else Inr (out, p1)) = Inr (out2, p2)"
      using assms p1 by (auto simp: commit_sends_def bind_res_eq_Inr)
    define p3 where "p3 = (if IsMVSSPlus cfg then mvssOnBlockCommitted (ev_sha e) (root (ev_hashes e)) (ev_order e) (ev_targets e)
        cfg (ev_now e) tree (ev_migrating e p2) b p2 else p2)"
    have p4: "(if TXmig2s b \<noteq> [] then TryAnnounce (ev_prove_mig2 e) (ev_prove_state e) cfg (ev_keys e) tree (TXmig2s b) p3 else Inr p3) = Inr p'"
      using assms p1 p2 True unfolding commit_sends_def p3_def [symmetric] Let_def
      by (auto simp: p3_def bind_res_eq_Inr)
    have "later p1 p2" using p2 by (auto split: if_splits intro: later_TryTXmig1)
    moreover have "later p2 p3" by (simp add: p3_def later_block_committed)
    moreover have "later p3 p'" using p4 by (auto split: if_splits intro: later_TryAnnounce)
    ultimately show ?thesis by (blast intro: later_trans)
  qed
  with p1 show thesis by (rule that)
qed

text \<open>
  C6. What becomes of the transactions of a committed block at its leader: each one is reported to the
  client as committed, or relayed, marked as a relay, to the shard of its recipient, or it is stuck:
  its recipient is a locked account of this shard, or it is a relay whose recipient has gone
  elsewhere. The block advances the sequence number by one.
\<close>

theorem commit_delivers:
  assumes run: "commit1 e cfg b l = Inr l'" and leader: "NodeID cfg = ''N0''" and cov: "covers cfg (ev_keys e)"
    and anns: "\<forall>ann\<in>set (Anns b). ann_ToshardID ann \<noteq> self_shard cfg"
  shows "\<exists>ob n committed relayed rest g. AddBlock (ev_hashes e) cfg b (chain (ld_pbft l)) = Inr (ob, n) \<and> memo_grows (Acc n) g
    \<and> payloads (Transactions b) = payloads committed + payloads relayed + payloads rest
    \<and> (\<exists>size ns. ReplyMsg committed size ns \<in> set (Sent (ld_pbft l')))
    \<and> (\<forall>v\<in>set relayed. IsRelay v \<and> (\<exists>rs s r. RelayMsg rs s \<in> set (Sent (ld_pbft l')) \<and> r \<in> set rs \<and> rl_Txcs r = v \<and> s \<noteq> self_shard cfg))
    \<and> (\<forall>v\<in>set rest. stuck cfg g v)
    \<and> sequenceID l' = sequenceID l + 1"
proof -
  let ?p = "ld_pbft l" and ?seq = "sequenceID l"
  obtain ob n where add: "AddBlock (ev_hashes e) cfg b (chain ?p) = Inr (ob, n)"
    using run by (auto simp: commit1_def bind_res_eq_Inr Let_def)
  let ?b = "CurrentBlock n"
  obtain out p' where lead: "commit_leader e cfg ?seq ?b ob (StateTree n) (TryOutPool l, ?p\<lparr> chain := n \<rparr>) = Inr (out, p')"
    and l': "l' = l\<lparr> ld_pbft := p', TryOutPool := out, sequenceID := ?seq + 1 \<rparr>"
    using run add leader by (auto simp: commit1_def bind_res_eq_Inr Let_def)
  obtain st where st: "commit_txs cfg (ev_now e) (Transactions ?b) (Acc n) = Inr st"
    using lead by (auto simp: commit_leader_def bind_res_eq_Inr)
  let ?b' = "?b\<lparr> Transactions := ca_done st \<rparr>"
  define p5 where "p5 = settle_block e cfg ?seq ?b' (ca_acc st) (record_balances cfg ob (?p\<lparr> chain := n \<rparr>))"
  obtain p6 where p6: "handleAnns (ev_prove_ann e) (ev_prove_state e) (ev_names e) cfg (ev_ann_clock e) (StateTree n) (Anns ?b) p5 = Inr p6"
    using lead st by (auto simp: commit_leader_def bind_res_eq_Inr p5_def)
  obtain p7 where sends: "commit_sends e cfg ?seq ?b' (ca_relay st) ob (StateTree n) (TryOutPool l, p6) = Inr (out, p7)"
    and last: "\<exists>size ns. p' = restart_times cfg ?seq (ev_now e) (emit (ReplyMsg (ca_commit st) size ns) p7)"
    using lead st p6 by (auto simp: commit_leader_def bind_res_eq_Inr p5_def Let_def)
  have fin: "later p7 p'" "\<exists>size ns. ReplyMsg (ca_commit st) size ns \<in> set (Sent p')"
  proof -
    from last obtain size ns where p': "p' = restart_times cfg ?seq (ev_now e) (emit (ReplyMsg (ca_commit st) size ns) p7)" by blast
    have "Sent p' = Sent p7 @ [ReplyMsg (ca_commit st) size ns]" by (simp add: p' restart_times_def emit_def)
    then show "later p7 p'" "\<exists>size ns. ReplyMsg (ca_commit st) size ns \<in> set (Sent p')" by (auto simp: later_def)
  qed
  from commit_loop [OF st [unfolded commit_txs_def]] obtain committed relayed rest where
    C: "ca_commit st = committed" "ca_relay st = relayed" "payloads (Transactions ?b) = payloads committed + payloads relayed + payloads rest"
      "\<forall>v\<in>set relayed. relay_due cfg (ca_acc st) v" "\<forall>v\<in>set rest. stuck cfg (ca_acc st) v" "memo_grows (Acc n) (ca_acc st)" by auto
  have acc5: "Account2Shard (Acc (chain p5)) = Account2Shard (ca_acc st)" by (simp add: p5_def settle_block_def Let_def)
  have else6: "elsewhere cfg p6 v" if "v \<in> set relayed" for v
  proof (rule elsewhere_handleAnns [OF p6])
    show "\<forall>ann\<in>set (Anns ?b). ann_ToshardID ann \<noteq> self_shard cfg" using anns AddBlock_block(2) [OF add] by simp
    show "elsewhere cfg p5 v" using C(4) that acc5 by (auto simp: elsewhere_def relay_due_def)
  qed
  from later_commit_sends [OF sends] obtain p61 where
    relay: "(if ca_relay st \<noteq> [] then TryRelay (ev_prove_tx e) (ev_prove_state e) cfg (ev_keys e) (StateTree n) (ca_relay st) p6 else Inr p6) = Inr p61"
    and later7: "later p61 p7" by blast
  have del: "\<exists>rs s r. RelayMsg rs s \<in> set (Sent p') \<and> r \<in> set rs \<and> rl_Txcs r = v \<and> s \<noteq> self_shard cfg" if v: "v \<in> set relayed" for v
  proof -
    have "ca_relay st \<noteq> []" using v C(2) by auto
    then have "TryRelay (ev_prove_tx e) (ev_prove_state e) cfg (ev_keys e) (StateTree n) (ca_relay st) p6 = Inr p61" using relay by simp
    from TryRelay_post(2) [OF this cov] else6 C(2) v obtain rs s r where
      "RelayMsg rs s \<in> set (Sent p61)" "r \<in> set rs" "rl_Txcs r = v" "s \<noteq> self_shard cfg" by metis
    with later_trans [OF later7 fin(1)] show ?thesis by (auto simp: later_def)
  qed
  have "\<forall>v\<in>set relayed. IsRelay v" using C(4) by (simp add: relay_due_def)
  with del fin(2) C AddBlock_block(1) [OF add] show ?thesis
    by (intro exI [of _ ob] exI [of _ n] exI [of _ committed] exI [of _ relayed] exI [of _ rest] exI [of _ "ca_acc st"]) (auto simp: l' add)
qed

definition env0 :: env where
  "env0 = \<lparr> ev_hashes = H0, ev_sha = id, ev_prove_mig1 = (\<lambda>_. []), ev_prove_mig2 = (\<lambda>_. []), ev_prove_ann = (\<lambda>_. []),
     ev_prove_tx = (\<lambda>_. []), ev_prove_state = (\<lambda>_. []), ev_order = id, ev_targets = id, ev_names = id,
     ev_migrating = (\<lambda>_. []), ev_keys = [''S0'', ''S1''], ev_now = 7, ev_clock = (\<lambda>_. 7), ev_ann_clock = (\<lambda>_ _. 7) \<rparr>"

definition leader_config :: ChainConfig where
  "leader_config = intake_config\<lparr> NodeID := ''N0'' \<rparr>"

definition leader0 :: Leader where
  "leader0 = \<lparr> ld_pbft = intake_node, sequenceID = 1, TryOutPool = (\<lambda>_. []) \<rparr>"

text \<open>A block with one transaction from this shard to the other.\<close>

definition block1 :: Block where
  "block1 = NewBlock (Header block0) [tx_of 1 5 6 3] [] [] [] []"

lemma leader_config_facts:
  "covers leader_config [''S0'', ''S1'']" "self_shard leader_config = 0" "\<not> IsMVSSPlus leader_config" "\<not> IsMVSS leader_config"
  "send_targets leader_config [''S0'', ''S1''] = [1]" "Not_Lock_immediately leader_config" "Shard_num leader_config = 2"
  "NodeID leader_config = ''N0''" "\<not> Stop_When_Migrating leader_config" "\<not> Lock_Acc_When_Migrating leader_config"
  "\<not> Not_Lock_Acc_When_Migrating leader_config" "\<not> Fail leader_config" "\<not> Cross_Chain leader_config"
  "\<not> Bu_Tong_Bi_Li leader_config" "\<not> Bu_Tong_Shi_Jian leader_config"
  by (auto simp: covers_def leader_config_def send_targets_def intake_config_def default_config_def IsMVSSPlus_def IsMVSS_def self_shard_def
      shard_number_def ShardTable_def)

lemma tx1_parts:
  "from_addr (tx_of 1 5 6 3) = ''05''" "to_addr (tx_of 1 5 6 3) = ''06''" "Sender (tx_of 1 5 6 3) = [5]" "Recipient (tx_of 1 5 6 3) = [6]"
  "TxNonce (tx_of 1 5 6 3) = 0" "\<not> IsRelay (tx_of 1 5 6 3)" "TxId (tx_of 1 5 6 3) = 1"
  "\<not> Relay_Lock (tx_of 1 5 6 3)" "Tag (tx_of 1 5 6 3) = []" "TxValue (tx_of 1 5 6 3) = 0"
  by (simp_all add: from_addr_def to_addr_def hex_05 tx_of_def zero_tx_def)

lemma block1_added:
  "\<exists>n. AddBlock H0 leader_config block1 (chain intake_node) = Inr (Map.empty, n) \<and> Acc n = Acc (chain intake_node)
    \<and> CurrentBlock n = block1 \<and> StateTree n [6] \<noteq> None"
proof -
  have tree: "StateTree (chain intake_node) = StateTree node0" by (simp add: intake_node_def pbft0_def)
  obtain es where es: "exec_tx leader_config True (tx_of 1 5 6 3)
      \<lparr> ex_tree = StateTree node0, ex_mig = mig_of intake_node, ex_done = [], ex_out = Map.empty \<rparr> = Inr es"
    "ex_done es = [tx_of 1 5 6 3]" "ex_tree es [6] \<noteq> None" "ex_out es = Map.empty"
    by (simp add: exec_tx_def exec_sender_def exec_receiver_def get_state_def node0_def tx1_parts runSender_def
        set_PendingSyncAck_def leader_config_facts Let_def)
  show ?thesis
    using es by (simp add: AddBlock_def block1_def NewBlock_def leader_config_facts Let_def getUpdatedTreeOfState_def tree
        map_incoming_def lock_leaving_def unmap_announced_def H0_def block0_def)
qed

lemma leader_runs: "\<exists>l'. commit1 env0 leader_config block1 leader0 = Inr l'"
proof -
  obtain n where n: "AddBlock H0 leader_config block1 (chain intake_node) = Inr (Map.empty, n)" "Acc n = Acc (chain intake_node)"
    "CurrentBlock n = block1" "StateTree n [6] \<noteq> None" using block1_added by blast
  have acc: "Account2Shard (Acc (chain intake_node)) = [''05'' \<mapsto> 0, ''06'' \<mapsto> 1]" by (simp add: intake_node_def)
  obtain s where "StateTree n [6] = Some s" using n(4) by blast
  with n acc show ?thesis
    by (simp add: commit1_def Let_def env0_def leader0_def leader_config_facts commit_leader_def block1_def NewBlock_def
        commit_txs_def commit_one_def Addr2Shard_def tx1_parts IsSyncProbeTxID_def handleAnns_def commit_sends_def
        TryRelay_def make_relay_def shard_append_def settle_block_def)
qed

theorem commit_delivers_witness:
  "\<exists>l' committed relayed rest. commit1 env0 leader_config block1 leader0 = Inr l'
    \<and> payloads [tx_of 1 5 6 3] = payloads committed + payloads relayed + payloads rest
    \<and> (\<exists>size ns. ReplyMsg committed size ns \<in> set (Sent (ld_pbft l')))
    \<and> (\<forall>v\<in>set relayed. \<exists>rs s r. RelayMsg rs s \<in> set (Sent (ld_pbft l')) \<and> r \<in> set rs \<and> rl_Txcs r = v \<and> s \<noteq> 0)
    \<and> sequenceID l' = 2"
proof -
  obtain l' where l': "commit1 env0 leader_config block1 leader0 = Inr l'" using leader_runs by blast
  have "covers leader_config (ev_keys env0)" "Anns block1 = []" "Transactions block1 = [tx_of 1 5 6 3]" "sequenceID leader0 = 1"
    using leader_config_facts(1) by (simp_all add: env0_def block1_def NewBlock_def leader0_def)
  with commit_delivers [OF l' leader_config_facts(8)] l' leader_config_facts(2) show ?thesis by fastforce
qed

section \<open>Money between shards\<close>

lemma never_skipped: "\<not> IsMVSS cfg \<Longrightarrow> \<not> skipped cfg es tx"
  by (auto simp: skipped_def exec_sender_def get_state_def bind_res_eq_Inr split: option.splits)

lemma flow_total:
  "fold_res (exec_tx cfg c) txs es = Inr es' \<Longrightarrow> finite (dom (ex_tree es)) \<Longrightarrow> \<not> IsMVSS cfg \<Longrightarrow>
   \<forall>tx\<in>set txs. credited cfg (ex_tree es) tx = cr \<and> (\<not> IsRelay tx \<and> \<not> Relay_Lock tx) = se \<Longrightarrow>
   total (ex_tree es') = total (ex_tree es) + (if cr then sum_list (map TxValue txs) else 0) - (if se then sum_list (map TxValue txs) else 0)"
proof (induction txs arbitrary: es)
  case (Cons tx txs)
  then obtain es1 where s: "exec_tx cfg c tx es = Inr es1" "fold_res (exec_tx cfg c) txs es1 = Inr es'"
    by (auto simp: bind_res_eq_Inr)
  note b = exec_tx_balance [OF s(1) Cons.prems(2)]
  have run: "runSender cfg (ex_mig es) tx = se" "credited cfg (ex_tree es) tx = cr" "\<not> skipped cfg es tx"
    using Cons.prems(3,4) never_skipped by (auto simp: runSender_def)
  have "credited cfg (ex_tree es1) tx' = credited cfg (ex_tree es) tx'" for tx' using b by (intro credited_where) simp
  with Cons.prems(4) have "\<forall>tx\<in>set txs. credited cfg (ex_tree es1) tx = cr \<and> (\<not> IsRelay tx \<and> \<not> Relay_Lock tx) = se" by simp
  from Cons.IH [OF s(2) _ Cons.prems(3) this] b run show ?case by (cases cr; cases se) auto
qed simp



end
