(* ===== verification/Graphs.thy ===== *)
theory Graphs
  imports CoreTypes Complex_Main
begin

text \<open>
  What the partition algorithms stand on: Go's \<open>float64\<close>, the graph of the accounts
  (\<open>algorithm/graph.go\<close>) and the graph of the transactions (\<open>algorithm/tx2graph.go\<close>).
\<close>

section \<open>\<open>float64\<close>\<close>

text \<open>
  A finite number is the rational it stands for. \<open>rnd\<close> rounds an exact result to a \<open>float64\<close>, perhaps
  an infinite one; it is an argument of the operations. A zero has no sign here: the divisors of the
  code are integers that were converted, so never a negative zero.
\<close>

datatype f64 = Fin rat | PInf | NInf | NaN

type_synonym rounding = "rat \<Rightarrow> f64"

definition sgn64 :: "f64 \<Rightarrow> rat" where
  "sgn64 x = (case x of Fin a \<Rightarrow> sgn a | PInf \<Rightarrow> 1 | NInf \<Rightarrow> - 1 | NaN \<Rightarrow> 0)"

text \<open>The infinity of a sign; without a sign there is no value.\<close>

definition inf64 :: "rat \<Rightarrow> f64" where
  "inf64 s = (if s > 0 then PInf else if s < 0 then NInf else NaN)"

definition f64_of_int :: "rounding \<Rightarrow> int \<Rightarrow> f64" where
  "f64_of_int rnd i = rnd (of_int i)"

definition f64_add :: "rounding \<Rightarrow> f64 \<Rightarrow> f64 \<Rightarrow> f64" where
  "f64_add rnd x y =
     (case (x, y) of
        (Fin a, Fin b) \<Rightarrow> rnd (a + b)
      | (NaN, _) \<Rightarrow> NaN
      | (_, NaN) \<Rightarrow> NaN
      | (Fin _, _) \<Rightarrow> y
      | (_, Fin _) \<Rightarrow> x
      | _ \<Rightarrow> if x = y then x else NaN)"

definition f64_neg :: "f64 \<Rightarrow> f64" where
  "f64_neg x = (case x of Fin a \<Rightarrow> Fin (- a) | PInf \<Rightarrow> NInf | NInf \<Rightarrow> PInf | NaN \<Rightarrow> NaN)"

definition f64_sub :: "rounding \<Rightarrow> f64 \<Rightarrow> f64 \<Rightarrow> f64" where
  "f64_sub rnd x y = f64_add rnd x (f64_neg y)"

definition f64_mul :: "rounding \<Rightarrow> f64 \<Rightarrow> f64 \<Rightarrow> f64" where
  "f64_mul rnd x y =
     (case (x, y) of
        (Fin a, Fin b) \<Rightarrow> rnd (a * b)
      | _ \<Rightarrow> if x = NaN \<or> y = NaN then NaN else inf64 (sgn64 x * sgn64 y))"

definition f64_div :: "rounding \<Rightarrow> f64 \<Rightarrow> f64 \<Rightarrow> f64" where
  "f64_div rnd x y =
     (case (x, y) of
        (Fin a, Fin b) \<Rightarrow> if b = 0 then inf64 a else rnd (a / b)
      | (NaN, _) \<Rightarrow> NaN
      | (_, NaN) \<Rightarrow> NaN
      | (Fin _, _) \<Rightarrow> Fin 0
      | (_, Fin b) \<Rightarrow> if b = 0 then x else inf64 (sgn64 x * sgn b)
      | _ \<Rightarrow> NaN)"

definition f64_less :: "f64 \<Rightarrow> f64 \<Rightarrow> bool" where
  "f64_less x y =
     (case (x, y) of
        (Fin a, Fin b) \<Rightarrow> a < b
      | (NaN, _) \<Rightarrow> False
      | (_, NaN) \<Rightarrow> False
      | (NInf, _) \<Rightarrow> y \<noteq> NInf
      | (_, PInf) \<Rightarrow> x \<noteq> PInf
      | _ \<Rightarrow> False)"

section \<open>Graphs\<close>

datatype Vertex = Vertex (vx_Addr: addr)

text \<open>The index of a vertex in \<open>Vertexs\<close> is also that of its weights in \<open>EdgeWeight\<close>.\<close>

record Graph =
  VertexSet :: "Vertex \<rightharpoonup> int"
  Vertexs :: "Vertex list"
  EdgeSet :: "Vertex \<rightharpoonup> Vertex list"
  EdgeWeight :: "(int \<rightharpoonup> int) list"

definition empty_graph :: Graph where
  "empty_graph = \<lparr> VertexSet = Map.empty, Vertexs = [], EdgeSet = Map.empty, EdgeWeight = [] \<rparr>"

definition ConstructVertex :: "string \<Rightarrow> Vertex \<Rightarrow> Vertex" where
  "ConstructVertex s v = Vertex s"

definition graph_AddVertex :: "Vertex \<Rightarrow> Graph \<Rightarrow> Graph" where
  "graph_AddVertex v g =
     (if VertexSet g v = None
      then g\<lparr> VertexSet := (VertexSet g)(v \<mapsto> int (length (Vertexs g))), Vertexs := Vertexs g @ [v],
              EdgeWeight := EdgeWeight g @ [Map.empty] \<rparr>
      else g)"

text \<open>\<open>g.EdgeSet[v]\<close> and \<open>g.VertexSet[v]\<close>, zero values when absent.\<close>

definition neighbours :: "Graph \<Rightarrow> Vertex \<Rightarrow> Vertex list" where
  "neighbours g v = (case EdgeSet g v of None \<Rightarrow> [] | Some l \<Rightarrow> l)"

definition vertex_index :: "Graph \<Rightarrow> Vertex \<Rightarrow> int" where
  "vertex_index g v = (case VertexSet g v of None \<Rightarrow> 0 | Some i \<Rightarrow> i)"

text \<open>One direction of an edge: \<open>u\<close> points to \<open>v\<close>, and its weight is one more.\<close>

definition link_to :: "Vertex \<Rightarrow> Vertex \<Rightarrow> Graph \<Rightarrow> Graph res" where
  "link_to u v g =
     bind_res (slice_upd (vertex_index g u)
         (\<lambda>m. m(vertex_index g v \<mapsto> (case m (vertex_index g v) of None \<Rightarrow> 0 | Some w \<Rightarrow> w) + 1)) (EdgeWeight g)) (\<lambda>ws.
       Inr (g\<lparr> EdgeSet := (EdgeSet g)(u \<mapsto> neighbours g u @ [v]), EdgeWeight := ws \<rparr>))"

definition graph_AddEdge :: "Vertex \<Rightarrow> Vertex \<Rightarrow> int \<Rightarrow> Graph \<Rightarrow> Graph res" where
  "graph_AddEdge u v uni g =
     (let g1 = graph_AddVertex v (graph_AddVertex u g) in
      bind_res (if uni = 0 then link_to u v g1 else Inr g1) (link_to v u))"

text \<open>
  \<open>CopyGraph\<close> copies the nodes and the edges, not \<open>Vertexs\<close> and \<open>EdgeWeight\<close>. A nil map is an empty
  one: no operation makes an \<open>EdgeSet\<close> without an entry.
\<close>

definition CopyGraph :: "Graph \<Rightarrow> Graph \<Rightarrow> Graph" where
  "CopyGraph src dst =
     (let dst1 = dst\<lparr> VertexSet := VertexSet src \<rparr> in
      if list_all (\<lambda>v. EdgeSet src v = None) (Vertexs src) then dst1
      else dst1\<lparr> EdgeSet := (\<lambda>v. if VertexSet src v = None then None else Some (neighbours src v)) \<rparr>)"

section \<open>The graph of the transactions\<close>

text \<open>\<open>graph[from][to]\<close> counts; \<open>addrs\<close> lists the accounts in the order of their first transaction.\<close>

type_synonym tx_graph = "addr \<rightharpoonup> (addr \<rightharpoonup> int)"

definition count_edge :: "addr \<Rightarrow> addr \<Rightarrow> tx_graph \<Rightarrow> tx_graph" where
  "count_edge a b gr =
     (let m = (case gr a of None \<Rightarrow> Map.empty | Some m \<Rightarrow> m);
          n = (case m b of None \<Rightarrow> 1 | Some n \<Rightarrow> n + 1)
      in gr(a \<mapsto> m(b \<mapsto> n)))"

definition add_addr :: "addr \<Rightarrow> addr list \<Rightarrow> addr list" where
  "add_addr a as = (if a \<in> set as then as else as @ [a])"

definition Tx2graph_step :: "Transaction \<Rightarrow> tx_graph \<times> addr list \<Rightarrow> tx_graph \<times> addr list" where
  "Tx2graph_step tx = (\<lambda>(gr, as).
     (count_edge (to_addr tx) (from_addr tx) (count_edge (from_addr tx) (to_addr tx) gr),
      add_addr (to_addr tx) (add_addr (from_addr tx) as)))"

definition Pagerank_Tx2graph_And_Addrs :: "Transaction list \<Rightarrow> tx_graph \<times> addr list" where
  "Pagerank_Tx2graph_And_Addrs txs = fold Tx2graph_step txs (Map.empty, [])"

section \<open>Lemmas\<close>

text \<open>
  Indices and vertices correspond, edges lead between vertices, and the table of weights counts the
  entries of the adjacency lists.
\<close>

definition counted :: "nat \<Rightarrow> int option" where
  "counted n = (if n = 0 then None else Some (int n))"

definition weights_ok :: "Graph \<Rightarrow> bool" where
  "weights_ok g \<longleftrightarrow> (\<forall>i < length (Vertexs g). \<forall>j. (EdgeWeight g ! i) j =
     (if 0 \<le> j \<and> j < int (length (Vertexs g))
      then counted (count_list (neighbours g (Vertexs g ! i)) (Vertexs g ! nat j)) else None))"

definition indexed :: "Graph \<Rightarrow> bool" where
  "indexed g \<longleftrightarrow> distinct (Vertexs g) \<and> length (EdgeWeight g) = length (Vertexs g)
     \<and> (\<forall>v i. VertexSet g v = Some i \<longleftrightarrow> 0 \<le> i \<and> i < int (length (Vertexs g)) \<and> Vertexs g ! nat i = v)"

definition graph_ok :: "Graph \<Rightarrow> bool" where
  "graph_ok g \<longleftrightarrow> indexed g \<and> weights_ok g
     \<and> (\<forall>u. set (neighbours g u) \<subseteq> set (Vertexs g) \<and> (EdgeSet g u \<noteq> None \<longrightarrow> u \<in> set (Vertexs g)))"

definition symmetric :: "Graph \<Rightarrow> bool" where
  "symmetric g \<longleftrightarrow> (\<forall>u v. count_list (neighbours g u) v = count_list (neighbours g v) u)"

definition loop_free :: "Graph \<Rightarrow> bool" where
  "loop_free g \<longleftrightarrow> (\<forall>u. u \<notin> set (neighbours g u))"

lemma indexed_vertex:
  assumes "indexed g"
  shows "VertexSet g v = None \<longleftrightarrow> v \<notin> set (Vertexs g)"
proof (cases "VertexSet g v")
  case None
  have "v \<notin> set (Vertexs g)"
  proof
    assume "v \<in> set (Vertexs g)"
    then obtain n where "n < length (Vertexs g)" "Vertexs g ! n = v" by (auto simp: in_set_conv_nth)
    with assms have "VertexSet g v = Some (int n)" by (simp add: indexed_def)
    with None show False by simp
  qed
  with None show ?thesis by simp
next
  case (Some i)
  with assms have "0 \<le> i" "i < int (length (Vertexs g))" "Vertexs g ! nat i = v"
    by (auto simp: indexed_def)
  then have "v \<in> set (Vertexs g)" by (metis nat_less_iff nth_mem)
  with Some show ?thesis by simp
qed

lemma indexed_index:
  assumes "indexed g" "v \<in> set (Vertexs g)"
  shows "0 \<le> vertex_index g v" "vertex_index g v < int (length (Vertexs g))" "Vertexs g ! nat (vertex_index g v) = v"
proof -
  from indexed_vertex [OF assms(1), of v] assms(2) obtain i where i: "VertexSet g v = Some i" by auto
  with assms(1) have "0 \<le> i \<and> i < int (length (Vertexs g)) \<and> Vertexs g ! nat i = v" by (simp add: indexed_def)
  with i show "0 \<le> vertex_index g v" "vertex_index g v < int (length (Vertexs g))" "Vertexs g ! nat (vertex_index g v) = v"
    by (auto simp: vertex_index_def)
qed

lemma indexed_nth:
  assumes "indexed g" "v \<in> set (Vertexs g)" "i < length (Vertexs g)"
  shows "Vertexs g ! i = v \<longleftrightarrow> i = nat (vertex_index g v)"
proof -
  have d: "distinct (Vertexs g)" using assms(1) by (simp add: indexed_def)
  have lt: "nat (vertex_index g v) < length (Vertexs g)"
    using indexed_index(1,2) [OF assms(1,2)] by (simp add: nat_less_iff)
  show ?thesis using nth_eq_iff_index_eq [OF d assms(3) lt] indexed_index(3) [OF assms(1,2)] by auto
qed

lemma counted_Suc: "counted (Suc n) = Some ((case counted n of None \<Rightarrow> 0 | Some w \<Rightarrow> w) + 1)"
  by (simp add: counted_def)

lemma graph_ok_empty [simp]: "graph_ok empty_graph" "symmetric empty_graph" "loop_free empty_graph"
  by (simp_all add: graph_ok_def indexed_def weights_ok_def empty_graph_def neighbours_def symmetric_def loop_free_def)

lemma AddVertex_sel [simp]:
  "EdgeSet (graph_AddVertex v g) = EdgeSet g" "neighbours (graph_AddVertex v g) = neighbours g"
  by (auto simp: graph_AddVertex_def neighbours_def)

lemma AddVertex_Vertexs:
  assumes "indexed g"
  shows "Vertexs (graph_AddVertex v g) = (if v \<in> set (Vertexs g) then Vertexs g else Vertexs g @ [v])"
  using indexed_vertex [OF assms, of v] by (simp add: graph_AddVertex_def)

lemma AddVertex_indexed:
  assumes ix: "indexed g" and new: "v \<notin> set (Vertexs g)"
  shows "indexed (g\<lparr> VertexSet := (VertexSet g)(v \<mapsto> int (length (Vertexs g))), Vertexs := Vertexs g @ [v],
              EdgeWeight := EdgeWeight g @ [Map.empty] \<rparr>)"
proof -
  let ?n = "int (length (Vertexs g))"
  have "((VertexSet g)(v \<mapsto> ?n)) w = Some i \<longleftrightarrow>
      0 \<le> i \<and> i < ?n + 1 \<and> (Vertexs g @ [v]) ! nat i = w" for w i
  proof (cases "0 \<le> i \<and> i < ?n")
    case True
    then have "(Vertexs g @ [v]) ! nat i = Vertexs g ! nat i" "Vertexs g ! nat i \<in> set (Vertexs g)"
      by (auto simp: nth_append nat_less_iff)
    with True ix new show ?thesis by (auto simp: indexed_def)
  next
    case False
    then have "VertexSet g w \<noteq> Some i" using ix by (auto simp: indexed_def)
    with False show ?thesis by (auto simp: nth_append)
  qed
  with ix new show ?thesis by (auto simp add: indexed_def)
qed

lemma AddVertex_ok:
  assumes ok: "graph_ok g"
  shows "graph_ok (graph_AddVertex v g)"
proof (cases "VertexSet g v = None")
  case True
  have ix: "indexed g" and w: "weights_ok g" using ok by (auto simp: graph_ok_def)
  have v: "v \<notin> set (Vertexs g)" using True indexed_vertex [OF ix] by blast
  have none: "neighbours g v = []" using ok v by (auto simp: graph_ok_def neighbours_def split: option.splits)
  have no_edge: "count_list (neighbours g u) v = 0" for u
    using ok v by (auto simp: graph_ok_def count_list_0_iff)
  have len: "length (EdgeWeight g) = length (Vertexs g)" using ix by (simp add: indexed_def)
  have row: "(EdgeWeight g ! i) j = (if 0 \<le> j \<and> j \<le> int (length (Vertexs g))
      then counted (count_list (neighbours g (Vertexs g ! i)) ((Vertexs g @ [v]) ! nat j)) else None)"
    if "i < length (Vertexs g)" for i j
  proof (cases "0 \<le> j \<and> j < int (length (Vertexs g))")
    case True
    then have "(Vertexs g @ [v]) ! nat j = Vertexs g ! nat j" by (simp add: nth_append nat_less_iff)
    with True that w show ?thesis by (simp add: weights_ok_def)
  next
    case False
    then have "(EdgeWeight g ! i) j = None" using w that by (auto simp: weights_ok_def)
    with False no_edge show ?thesis by (auto simp: counted_def nth_append)
  qed
  have "weights_ok (graph_AddVertex v g)"
    using True row len none
    by (auto simp: weights_ok_def graph_AddVertex_def nth_append less_Suc_eq neighbours_def counted_def)
  moreover have "indexed (graph_AddVertex v g)"
    using True AddVertex_indexed [OF ix v] by (simp add: graph_AddVertex_def)
  ultimately show ?thesis
    using ok True by (auto simp: graph_ok_def AddVertex_Vertexs [OF ix])
next
  case False
  with assms show ?thesis by (auto simp: graph_AddVertex_def)
qed

lemma link_to_ok:
  assumes ok: "graph_ok g" and u: "u \<in> set (Vertexs g)" and v: "v \<in> set (Vertexs g)"
  obtains g' where "link_to u v g = Inr g'" "graph_ok g'" "Vertexs g' = Vertexs g"
    "neighbours g' = (neighbours g)(u := neighbours g u @ [v])"
proof -
  have ix: "indexed g" and w: "weights_ok g" using ok by (auto simp: graph_ok_def)
  have len: "length (EdgeWeight g) = length (Vertexs g)" using ix by (simp add: indexed_def)
  note iu = indexed_index [OF ix u] and iv = indexed_index [OF ix v]
  define i where "i = nat (vertex_index g u)"
  define f where "f = (\<lambda>m. m(vertex_index g v \<mapsto> (case m (vertex_index g v) of None \<Rightarrow> 0 | Some w \<Rightarrow> w) + (1 :: int)))"
  define g' where "g' = g\<lparr> EdgeSet := (EdgeSet g)(u \<mapsto> neighbours g u @ [v]), EdgeWeight := (EdgeWeight g)[i := f (EdgeWeight g ! i)] \<rparr>"
  have i: "i < length (Vertexs g)" using iu by (simp add: i_def nat_less_iff)
  have "link_to u v g = Inr g'"
    using iu len by (simp add: link_to_def slice_in_range g'_def i_def f_def)
  moreover have nb: "neighbours g' = (neighbours g)(u := neighbours g u @ [v])"
    by (auto simp: g'_def neighbours_def)
  moreover have "weights_ok g'"
    unfolding weights_ok_def
  proof (intro allI impI)
    fix k j assume k: "k < length (Vertexs g')"
    then have k': "k < length (Vertexs g)" by (simp add: g'_def)
    have old: "(EdgeWeight g ! k) j = (if 0 \<le> j \<and> j < int (length (Vertexs g))
      then counted (count_list (neighbours g (Vertexs g ! k)) (Vertexs g ! nat j)) else None)"
      using w k' by (simp add: weights_ok_def)
    have j: "Vertexs g ! nat j = v \<longleftrightarrow> j = vertex_index g v" if "0 \<le> j \<and> j < int (length (Vertexs g))"
      using indexed_nth [OF ix v, of "nat j"] that iv(1) by (auto simp: nat_less_iff)
    show "(EdgeWeight g' ! k) j = (if 0 \<le> j \<and> j < int (length (Vertexs g'))
      then counted (count_list (neighbours g' (Vertexs g' ! k)) (Vertexs g' ! nat j)) else None)"
    proof (cases "k = i")
      case True
      with iu have ku: "Vertexs g ! k = u" by (simp add: i_def)
      show ?thesis using True ku old j len i iv(1,2) nb
        by (auto simp: g'_def f_def counted_Suc)
    next
      case False
      then have "Vertexs g ! k \<noteq> u" using indexed_nth [OF ix u k'] by (simp add: i_def)
      with False old nb show ?thesis by (simp add: g'_def)
    qed
  qed
  moreover have "indexed g'" using ix by (simp add: g'_def indexed_def)
  moreover have "Vertexs g' = Vertexs g" by (simp add: g'_def)
  ultimately have "graph_ok g'" using ok u v by (auto simp: graph_ok_def g'_def)
  with \<open>link_to u v g = Inr g'\<close> nb show thesis by (intro that) (auto simp: g'_def)
qed

lemma AddEdge_ok:
  assumes ok: "graph_ok g"
  obtains g' where "graph_AddEdge u v uni g = Inr g'" "graph_ok g'"
    "Vertexs g' = Vertexs (graph_AddVertex v (graph_AddVertex u g))"
    "neighbours g' = (\<lambda>w. neighbours g w @ (if uni = 0 \<and> w = u then [v] else []) @ (if w = v then [u] else []))"
proof -
  let ?g1 = "graph_AddVertex v (graph_AddVertex u g)"
  have ok1: "graph_ok ?g1" by (intro AddVertex_ok ok)
  have ix: "indexed g" "indexed (graph_AddVertex u g)" using ok AddVertex_ok [OF ok] by (auto simp: graph_ok_def)
  have uv: "u \<in> set (Vertexs ?g1)" "v \<in> set (Vertexs ?g1)"
    by (auto simp: AddVertex_Vertexs ix)
  show thesis
  proof (cases "uni = 0")
    case True
    obtain g2 where g2: "link_to u v ?g1 = Inr g2" "graph_ok g2" "Vertexs g2 = Vertexs ?g1"
      "neighbours g2 = (neighbours ?g1)(u := neighbours ?g1 u @ [v])"
      by (rule link_to_ok [OF ok1 uv])
    obtain g3 where g3: "link_to v u g2 = Inr g3" "graph_ok g3" "Vertexs g3 = Vertexs g2"
      "neighbours g3 = (neighbours g2)(v := neighbours g2 v @ [u])"
      by (rule link_to_ok [OF g2(2), of v u]) (use uv g2(3) in auto)
    show thesis
      by (rule that [of g3]) (use True g2 g3 in \<open>auto simp: graph_AddEdge_def\<close>)
  next
    case False
    obtain g3 where g3: "link_to v u ?g1 = Inr g3" "graph_ok g3" "Vertexs g3 = Vertexs ?g1"
      "neighbours g3 = (neighbours ?g1)(v := neighbours ?g1 v @ [u])"
      by (rule link_to_ok [OF ok1 uv(2,1)])
    show thesis
      by (rule that [of g3]) (use False g3 in \<open>auto simp: graph_AddEdge_def\<close>)
  qed
qed

lemma symmetric_AddEdge:
  assumes "symmetric g"
    and "neighbours g' = (\<lambda>w. neighbours g w @ (if w = u then [v] else []) @ (if w = v then [u] else []))"
  shows "symmetric g'"
  using assms by (auto simp: symmetric_def)

lemma loop_free_AddEdge:
  assumes "loop_free g" "u \<noteq> v"
    and "neighbours g' = (\<lambda>w. neighbours g w @ (if w = u then [v] else []) @ (if w = v then [u] else []))"
  shows "loop_free g'"
  using assms by (auto simp: loop_free_def)

section \<open>Properties\<close>

definition edge_count :: "tx_graph \<Rightarrow> addr \<Rightarrow> addr \<Rightarrow> nat" where
  "edge_count gr a b = (case gr a of None \<Rightarrow> 0 | Some m \<Rightarrow> (case m b of None \<Rightarrow> 0 | Some n \<Rightarrow> nat n))"

definition positive_counts :: "tx_graph \<Rightarrow> bool" where
  "positive_counts gr \<longleftrightarrow> (\<forall>a m b n. gr a = Some m \<longrightarrow> m b = Some n \<longrightarrow> n > 0)"

lemma count_edge_count:
  assumes "positive_counts gr"
  shows "positive_counts (count_edge a b gr)"
    "edge_count (count_edge a b gr) c d = edge_count gr c d + (if a = c \<and> b = d then 1 else 0)"
    "dom (count_edge a b gr) = insert a (dom gr)"
  using assms
  by (auto simp: positive_counts_def count_edge_def edge_count_def Let_def nat_add_distrib
      split: option.splits if_splits) fastforce+

lemma Tx2graph_fold:
  assumes "positive_counts gr" "distinct as" "dom gr = set as"
    and "fold Tx2graph_step txs (gr, as) = (gr', as')"
  shows "distinct as' \<and> dom gr' = set as' \<and> set as' = set as \<union> from_addr ` set txs \<union> to_addr ` set txs
    \<and> (\<forall>a b. edge_count gr' a b = edge_count gr a b
          + length (filter (\<lambda>tx. from_addr tx = a \<and> to_addr tx = b) txs)
          + length (filter (\<lambda>tx. from_addr tx = b \<and> to_addr tx = a) txs))"
  using assms
proof (induction txs arbitrary: gr as)
  case (Cons tx txs)
  define gr1 where "gr1 = count_edge (from_addr tx) (to_addr tx) gr"
  define gr2 where "gr2 = count_edge (to_addr tx) (from_addr tx) gr1"
  define as2 where "as2 = add_addr (to_addr tx) (add_addr (from_addr tx) as)"
  have p1: "positive_counts gr1" and p2: "positive_counts gr2"
    unfolding gr2_def gr1_def by (intro count_edge_count(1) Cons.prems(1))+
  have e: "edge_count gr2 a b = edge_count gr a b + length (filter (\<lambda>tx. from_addr tx = a \<and> to_addr tx = b) [tx])
      + length (filter (\<lambda>tx. from_addr tx = b \<and> to_addr tx = a) [tx])" for a b
  proof -
    have swap: "(from_addr t = b \<and> to_addr t = a) = (to_addr t = a \<and> from_addr t = b)" for t
      by (rule conj_commute)
    have one: "length (filter P [tx]) = (if P tx then 1 else 0)" for P by simp
    show ?thesis
      unfolding gr2_def count_edge_count(2) [OF p1] unfolding gr1_def count_edge_count(2) [OF Cons.prems(1)] swap one
      by (rule refl)
  qed
  have d: "distinct as2" "dom gr2 = set as2" "set as2 = set as \<union> {from_addr tx, to_addr tx}"
    unfolding gr2_def count_edge_count(3) [OF p1] unfolding gr1_def count_edge_count(3) [OF Cons.prems(1)]
    using Cons.prems(2,3) by (auto simp: as2_def add_addr_def)
  have step: "Tx2graph_step tx (gr, as) = (gr2, as2)"
    by (simp add: Tx2graph_step_def gr1_def gr2_def as2_def)
  have "fold Tx2graph_step txs (gr2, as2) = (gr', as')"
    using Cons.prems(4) by (simp only: fold_simps step)
  from Cons.IH [OF p2 d(1,2) this] d(3)
  have ih: "distinct as'" "dom gr' = set as'"
    "set as' = set as \<union> from_addr ` set (tx # txs) \<union> to_addr ` set (tx # txs)"
    "\<And>a b. edge_count gr' a b = edge_count gr2 a b
          + length (filter (\<lambda>tx. from_addr tx = a \<and> to_addr tx = b) txs)
          + length (filter (\<lambda>tx. from_addr tx = b \<and> to_addr tx = a) txs)" by auto
  have "edge_count gr' a b = edge_count gr a b
          + length (filter (\<lambda>tx. from_addr tx = a \<and> to_addr tx = b) (tx # txs))
          + length (filter (\<lambda>tx. from_addr tx = b \<and> to_addr tx = a) (tx # txs))" for a b
  proof -
    have one: "length (filter P (tx # txs)) = length (filter P [tx]) + length (filter P txs)" for P
      by simp
    show ?thesis unfolding ih(4) [of a b] e [of a b] one by (simp only: ac_simps)
  qed
  with ih(1-3) show ?case by blast
qed auto

text \<open>
  The graph of the transactions is undirected and counts: its entry for two accounts is the number of
  transactions between them, in either direction (a transaction to itself counts twice), and \<open>addrs\<close>
  lists each party of a transaction once, and these are the nodes of the graph.
\<close>

theorem Tx2graph_counts:
  "let (gr, addrs) = Pagerank_Tx2graph_And_Addrs txs in
     distinct addrs \<and> dom gr = set addrs \<and> set addrs = from_addr ` set txs \<union> to_addr ` set txs
     \<and> (\<forall>a b. edge_count gr a b = length (filter (\<lambda>tx. from_addr tx = a \<and> to_addr tx = b) txs)
                               + length (filter (\<lambda>tx. from_addr tx = b \<and> to_addr tx = a) txs))
     \<and> (\<forall>a b. edge_count gr a b = edge_count gr b a)"
proof -
  obtain gr addrs where r: "fold Tx2graph_step txs (Map.empty, []) = (gr, addrs)" by fastforce
  have "positive_counts Map.empty" by (simp add: positive_counts_def)
  from Tx2graph_fold [OF this _ _ r] show ?thesis
    by (auto simp: Pagerank_Tx2graph_And_Addrs_def r edge_count_def)
qed

end
