(* ===== verification/Clpa.thy ===== *)
theory Clpa
  imports Graphs
begin

text \<open>
  The constrained label propagation that computes a new map of accounts
  (\<open>algorithm/partition_CLPA.go\<close>). \<open>rng\<close> is the order in which Go ranges over \<open>EdgeSet\<close>, whose keys are
  vertices of the graph; the locks and prints are left out.
\<close>

section \<open>State\<close>

record CLPAState =
  NetGraph :: Graph
  PartitionMap :: "Vertex \<rightharpoonup> int"
  Edges2Shard :: "int list"
  VertexsNumInShard :: "int list"
  WeightPenalty :: f64
  MinEdges2Shard :: int
  MaxIterations :: int
  CrossShardEdgeNum :: int
  ShardNum :: int

definition new_CLPAState :: CLPAState where
  "new_CLPAState = \<lparr> NetGraph = empty_graph, PartitionMap = Map.empty, Edges2Shard = [], VertexsNumInShard = [],
     WeightPenalty = Fin 0, MinEdges2Shard = 0, MaxIterations = 0, CrossShardEdgeNum = 0, ShardNum = 0 \<rparr>"

text \<open>\<open>make([]int, n)\<close>.\<close>

definition make_ints :: "int \<Rightarrow> int list res" where
  "make_ints n = (if n < 0 then Inl make_panic else Inr (replicate (nat n) 0))"

definition Init_CLPAState :: "f64 \<Rightarrow> int \<Rightarrow> int \<Rightarrow> CLPAState \<Rightarrow> CLPAState res" where
  "Init_CLPAState wp mIter sn cs =
     bind_res (make_ints sn) (\<lambda>ns. Inr (cs\<lparr> WeightPenalty := wp, MaxIterations := mIter, ShardNum := sn,
       VertexsNumInShard := ns, PartitionMap := Map.empty \<rparr>))"

text \<open>\<open>cs.PartitionMap[v]\<close>, 0 when absent.\<close>

definition shard_of :: "CLPAState \<Rightarrow> Vertex \<Rightarrow> int" where
  "shard_of cs v = (case PartitionMap cs v of None \<Rightarrow> 0 | Some s \<Rightarrow> s)"

section \<open>Building the graph\<close>

definition clpa_AddVertex :: "ChainConfig \<Rightarrow> Vertex \<Rightarrow> CLPAState \<times> Globals \<Rightarrow> (CLPAState \<times> Globals) res" where
  "clpa_AddVertex cfg v = (\<lambda>(cs, g).
     bind_res (case PartitionMap cs v of Some s \<Rightarrow> Inr (s, g) | None \<Rightarrow> Addr2Shard cfg (vx_Addr v) g) (\<lambda>(s, g').
     bind_res (slice_upd s (\<lambda>n. n + 1) (VertexsNumInShard cs)) (\<lambda>ns.
       Inr (cs\<lparr> NetGraph := graph_AddVertex v (NetGraph cs), PartitionMap := (PartitionMap cs)(v \<mapsto> s),
                VertexsNumInShard := ns \<rparr>, g'))))"

definition clpa_need_vertex :: "ChainConfig \<Rightarrow> Vertex \<Rightarrow> CLPAState \<times> Globals \<Rightarrow> (CLPAState \<times> Globals) res" where
  "clpa_need_vertex cfg v = (\<lambda>(cs, g). if VertexSet (NetGraph cs) v = None then clpa_AddVertex cfg v (cs, g) else Inr (cs, g))"

definition clpa_AddEdge :: "ChainConfig \<Rightarrow> Vertex \<Rightarrow> Vertex \<Rightarrow> CLPAState \<times> Globals \<Rightarrow> (CLPAState \<times> Globals) res" where
  "clpa_AddEdge cfg u v st =
     bind_res (clpa_need_vertex cfg u st) (\<lambda>st1.
     bind_res (clpa_need_vertex cfg v st1) (\<lambda>(cs, g).
     bind_res (graph_AddEdge u v 0 (NetGraph cs)) (\<lambda>ng. Inr (cs\<lparr> NetGraph := ng \<rparr>, g))))"

section \<open>The edges of the shards\<close>

text \<open>
  \<open>Edges2Shard\<close> counts, for each shard, the edges that touch it: one that leaves it from its other end,
  one inside from both, hence the halves. A sum of counts is not negative, so \<open>/\<close> is \<open>div\<close>.
\<close>

definition count_arc :: "CLPAState \<Rightarrow> Vertex \<Rightarrow> Vertex \<Rightarrow> int list \<times> int list \<Rightarrow> (int list \<times> int list) res" where
  "count_arc cs v u = (\<lambda>(edges, inter).
     if shard_of cs v \<noteq> shard_of cs u
     then bind_res (slice_upd (shard_of cs u) (\<lambda>n. n + 1) edges) (\<lambda>edges'. Inr (edges', inter))
     else bind_res (slice_upd (shard_of cs u) (\<lambda>n. n + 1) inter) (\<lambda>inter'. Inr (edges, inter')))"

definition edge_keys :: "(Vertex list \<Rightarrow> Vertex list) \<Rightarrow> Graph \<Rightarrow> Vertex list" where
  "edge_keys rng g = rng (filter (\<lambda>v. EdgeSet g v \<noteq> None) (Vertexs g))"

definition min_edges :: "int \<Rightarrow> int list \<Rightarrow> int" where
  "min_edges = foldl (\<lambda>m val. if m > val then val else m)"

definition ComputeEdges2Shard :: "(Vertex list \<Rightarrow> Vertex list) \<Rightarrow> CLPAState \<Rightarrow> CLPAState res" where
  "ComputeEdges2Shard rng cs =
     bind_res (make_ints (ShardNum cs)) (\<lambda>zeros.
     bind_res (fold_res (\<lambda>v. fold_res (count_arc cs v) (neighbours (NetGraph cs) v)) (edge_keys rng (NetGraph cs)) (zeros, zeros))
       (\<lambda>(edges, inter).
         let es = map2 (\<lambda>e i. e + i div 2) edges inter in
         Inr (cs\<lparr> Edges2Shard := es, CrossShardEdgeNum := sum_list edges div 2,
                  MinEdges2Shard := min_edges 2147483647 es \<rparr>)))"

text \<open>After \<open>v\<close> moved from \<open>oldshard\<close>: the change that one neighbour makes.\<close>

definition move_arc :: "CLPAState \<Rightarrow> Vertex \<Rightarrow> int \<Rightarrow> Vertex \<Rightarrow> int list \<times> int \<Rightarrow> (int list \<times> int) res" where
  "move_arc cs v oldshard u = (\<lambda>(edges, cross).
     (let vShard = shard_of cs v; uShard = shard_of cs u in
      if vShard \<noteq> uShard then
        bind_res (slice_upd vShard (\<lambda>n. n + 1) edges) (\<lambda>edges1.
          if uShard = oldshard then Inr (edges1, cross + 1)
          else bind_res (slice_upd oldshard (\<lambda>n. n - 1) edges1) (\<lambda>edges2. Inr (edges2, cross)))
      else bind_res (slice_upd oldshard (\<lambda>n. n - 1) edges) (\<lambda>edges1. Inr (edges1, cross - 1))))"

definition ComputeEdges2Shard1 :: "Vertex \<Rightarrow> int \<Rightarrow> CLPAState \<Rightarrow> CLPAState res" where
  "ComputeEdges2Shard1 v oldshard cs =
     bind_res (fold_res (move_arc cs v oldshard) (neighbours (NetGraph cs) v) (Edges2Shard cs, CrossShardEdgeNum cs))
       (\<lambda>(edges, cross).
     bind_res (slice_at edges 0) (\<lambda>e0.
       Inr (cs\<lparr> Edges2Shard := edges, CrossShardEdgeNum := cross, MinEdges2Shard := min_edges e0 edges \<rparr>)))"

section \<open>The partition\<close>

definition getShard_score :: "rounding \<Rightarrow> CLPAState \<Rightarrow> Vertex \<Rightarrow> int \<Rightarrow> f64 res" where
  "getShard_score rnd cs v uShard =
     (let adj = neighbours (NetGraph cs) v;
          v_outdegree = int (length adj);
          Edgesto_uShard = int (length (filter (\<lambda>item. shard_of cs item = uShard) adj)) in
      bind_res (slice_at (Edges2Shard cs) uShard) (\<lambda>e.
        Inr (f64_mul rnd (f64_div rnd (f64_of_int rnd Edgesto_uShard) (f64_of_int rnd v_outdegree))
          (f64_sub rnd (f64_of_int rnd 1)
            (f64_div rnd (f64_mul rnd (WeightPenalty cs) (f64_of_int rnd e)) (f64_of_int rnd (MinEdges2Shard cs)))))))"

text \<open>The loop over the neighbours: the scores of their shards, the best score and its shard.\<close>

definition score_neighbour :: "rounding \<Rightarrow> CLPAState \<Rightarrow> Vertex \<Rightarrow> Vertex \<Rightarrow> (int \<rightharpoonup> f64) \<times> f64 \<times> int
    \<Rightarrow> ((int \<rightharpoonup> f64) \<times> f64 \<times> int) res" where
  "score_neighbour rnd cs v u = (\<lambda>(scores, max_score, max_scoreShard).
     (let uShard = shard_of cs u in
      if scores uShard \<noteq> None then Inr (scores, max_score, max_scoreShard)
      else bind_res (getShard_score rnd cs v uShard) (\<lambda>s.
        Inr (if f64_less max_score s then (scores(uShard \<mapsto> s), s, uShard) else (scores(uShard \<mapsto> s), max_score, max_scoreShard)))))"

record clpa_run =
  cr_state :: CLPAState
  cr_updates :: "addr \<rightharpoonup> int"
  cr_addrs :: "addr list"
  cr_res :: "addr \<rightharpoonup> u64"

definition clpa_move :: "Vertex \<Rightarrow> int \<Rightarrow> int \<Rightarrow> clpa_run \<Rightarrow> clpa_run res" where
  "clpa_move v vNowShard max_scoreShard st =
     (let cs = cr_state st; a = vx_Addr v;
          cs1 = cs\<lparr> PartitionMap := (PartitionMap cs)(v \<mapsto> max_scoreShard) \<rparr> in
      bind_res (slice_upd vNowShard (\<lambda>n. n - 1) (VertexsNumInShard cs1)) (\<lambda>ns1.
      bind_res (slice_upd max_scoreShard (\<lambda>n. n + 1) ns1) (\<lambda>ns2.
      bind_res (ComputeEdges2Shard1 v vNowShard (cs1\<lparr> VertexsNumInShard := ns2 \<rparr>)) (\<lambda>cs2.
        Inr \<lparr> cr_state = cs2,
              cr_updates = (cr_updates st)(a \<mapsto> (case cr_updates st a of None \<Rightarrow> 0 | Some n \<Rightarrow> n) + 1),
              cr_addrs = (if cr_res st a = None then cr_addrs st @ [a] else cr_addrs st),
              cr_res = (cr_res st)(a \<mapsto> word_of_int max_scoreShard) \<rparr>))))"

definition clpa_step :: "rounding \<Rightarrow> Vertex \<Rightarrow> clpa_run \<Rightarrow> clpa_run res" where
  "clpa_step rnd v st =
     (let cs = cr_state st; vNowShard = shard_of cs v in
      if (case cr_updates st (vx_Addr v) of None \<Rightarrow> 0 | Some n \<Rightarrow> n) \<ge> 1000 then Inr st
      else bind_res (fold_res (score_neighbour rnd cs v) (neighbours (NetGraph cs) v) (Map.empty, rnd (- 9999), vNowShard))
        (\<lambda>(_, _, max_scoreShard).
          if vNowShard \<noteq> max_scoreShard then
            bind_res (slice_at (VertexsNumInShard cs) vNowShard) (\<lambda>n.
              if n > 1 then clpa_move v vNowShard max_scoreShard st else Inr st)
          else Inr st))"

definition clpa_iteration :: "rounding \<Rightarrow> clpa_run \<Rightarrow> clpa_run res" where
  "clpa_iteration rnd st = fold_res (clpa_step rnd) (Vertexs (NetGraph (cr_state st))) st"

definition CLPA_Partition :: "rounding \<Rightarrow> (Vertex list \<Rightarrow> Vertex list) \<Rightarrow> CLPAState \<Rightarrow> clpa_run res" where
  "CLPA_Partition rnd rng cs =
     bind_res (ComputeEdges2Shard rng cs) (\<lambda>cs1.
       fold_res (\<lambda>_. clpa_iteration rnd) [0..<nat (MaxIterations cs)]
         \<lparr> cr_state = cs1, cr_updates = Map.empty, cr_addrs = [], cr_res = Map.empty \<rparr>)"

section \<open>The client's call\<close>

text \<open>\<open>RunClient\<close> and \<open>runMigrationFromPending\<close> (\<open>pbft/client.go\<close>) run it with penalty 0.5 and ten iterations.\<close>

definition clpa_add_tx :: "ChainConfig \<Rightarrow> Transaction \<Rightarrow> CLPAState \<times> Globals \<Rightarrow> (CLPAState \<times> Globals) res" where
  "clpa_add_tx cfg tx st =
     (if from_addr tx = to_addr tx then Inr st
      else clpa_AddEdge cfg (Vertex (from_addr tx)) (Vertex (to_addr tx)) st)"

definition changed_accounts :: "Globals \<Rightarrow> addr list \<Rightarrow> (addr \<Rightarrow> int) \<Rightarrow> addr list \<times> (addr \<rightharpoonup> int)" where
  "changed_accounts g addrs new =
     (let moved = filter (\<lambda>a. (case Account2Shard g a of None \<Rightarrow> 0 | Some s \<Rightarrow> s) \<noteq> new a) addrs
      in (moved, fold (\<lambda>a m. m(a \<mapsto> new a)) moved Map.empty))"

definition build_clpa :: "rounding \<Rightarrow> ChainConfig \<Rightarrow> Transaction list \<Rightarrow> Globals \<Rightarrow> (CLPAState \<times> Globals) res" where
  "build_clpa rnd cfg txs g =
     bind_res (Init_CLPAState (rnd (1 / 2)) 10 (Shard_num cfg) new_CLPAState) (\<lambda>cs.
       fold_res (clpa_add_tx cfg) txs (cs, g))"

definition clpa_map :: "rounding \<Rightarrow> (Vertex list \<Rightarrow> Vertex list) \<Rightarrow> ChainConfig \<Rightarrow> Transaction list \<Rightarrow> Globals
    \<Rightarrow> ((addr list \<times> (addr \<rightharpoonup> int)) \<times> Globals) res" where
  "clpa_map rnd rng cfg txs g =
     bind_res (build_clpa rnd cfg txs g) (\<lambda>(cs, g').
     bind_res (CLPA_Partition rnd rng cs) (\<lambda>st.
       Inr (changed_accounts g' (cr_addrs st) (\<lambda>a. case cr_res st a of None \<Rightarrow> 0 | Some w \<Rightarrow> sint w), g')))"

end
