(* ===== verification/Balance.thy ===== *)
theory Balance
  imports Clpa
begin

text \<open>
  The other partition algorithms: the balanced random one (\<open>algorithm/partition_LBF.go\<close>), the call of
  the METIS program (\<open>algorithm/partition_METIS.go\<close>), the scores of PageRank and the choice by score
  (\<open>algorithm/algorithm.go\<close>, \<open>algorithm/allocation.go\<close>), and the maps that the client makes of their results.
\<close>

section \<open>LBF\<close>

record LBFState =
  lb_NetGraph :: Graph
  lb_PartitionMap :: "Vertex \<rightharpoonup> int"
  lb_Alpha :: f64
  lb_ShardNum :: int
  lb_AvgWeight :: f64

definition new_LBFState :: LBFState where
  "new_LBFState = \<lparr> lb_NetGraph = empty_graph, lb_PartitionMap = Map.empty, lb_Alpha = Fin 0, lb_ShardNum = 0, lb_AvgWeight = Fin 0 \<rparr>"

definition Init_LBFState :: "f64 \<Rightarrow> int \<Rightarrow> LBFState \<Rightarrow> LBFState" where
  "Init_LBFState alpha sn ls = ls\<lparr> lb_Alpha := alpha, lb_ShardNum := sn, lb_PartitionMap := Map.empty \<rparr>"

definition lbf_AddVertex :: "Vertex \<Rightarrow> LBFState \<Rightarrow> LBFState" where
  "lbf_AddVertex v ls = ls\<lparr> lb_NetGraph := graph_AddVertex v (lb_NetGraph ls) \<rparr>"

definition lbf_need_vertex :: "Vertex \<Rightarrow> LBFState \<Rightarrow> LBFState" where
  "lbf_need_vertex v ls = (if VertexSet (lb_NetGraph ls) v = None then lbf_AddVertex v ls else ls)"

definition lbf_AddEdge :: "Vertex \<Rightarrow> Vertex \<Rightarrow> int \<Rightarrow> LBFState \<Rightarrow> LBFState res" where
  "lbf_AddEdge u v uni ls =
     (let ls1 = lbf_need_vertex v (lbf_need_vertex u ls) in
      bind_res (graph_AddEdge u v uni (lb_NetGraph ls1)) (\<lambda>g. Inr (ls1\<lparr> lb_NetGraph := g \<rparr>)))"

text \<open>A sum over the keys of \<open>EdgeSet\<close>, in which their order plays no part.\<close>

definition total_degree :: "Graph \<Rightarrow> int" where
  "total_degree g = sum_list (map (\<lambda>v. int (length (neighbours g v))) (filter (\<lambda>v. EdgeSet g v \<noteq> None) (Vertexs g)))"

definition ComputeAvgWeight :: "rounding \<Rightarrow> LBFState \<Rightarrow> LBFState" where
  "ComputeAvgWeight rnd ls = ls\<lparr> lb_AvgWeight :=
     f64_div rnd (f64_of_int rnd (total_degree (lb_NetGraph ls))) (f64_of_int rnd (lb_ShardNum ls)) \<rparr>"

text \<open>What the partition has decided so far, and the number of random numbers drawn.\<close>

record lbf_run =
  lr_map :: "Vertex \<rightharpoonup> int"
  lr_addrs :: "addr list"
  lr_res :: "addr \<rightharpoonup> int"
  lr_globals :: Globals
  lr_drawn :: nat

definition lbf_assign :: "ChainConfig \<Rightarrow> int \<Rightarrow> Vertex \<Rightarrow> lbf_run \<Rightarrow> lbf_run res" where
  "lbf_assign cfg i v st =
     bind_res (Addr2Shard cfg (vx_Addr v) (lr_globals st)) (\<lambda>(s, g).
       let st1 = st\<lparr> lr_map := (lr_map st)(v \<mapsto> i), lr_globals := g \<rparr> in
       Inr (if i \<noteq> s then st1\<lparr> lr_addrs := lr_addrs st @ [vx_Addr v], lr_res := (lr_res st)(vx_Addr v \<mapsto> i) \<rparr> else st1))"

text \<open>
  The inner loop for shard \<open>i\<close> over the vertices \<open>vs\<close> that are left. \<open>intn k n\<close> is the \<open>k\<close>th number
  that \<open>rand.Intn\<close> gives, drawn below \<open>n\<close>.
\<close>

function lbf_fill :: "rounding \<Rightarrow> (nat \<Rightarrow> int \<Rightarrow> int) \<Rightarrow> ChainConfig \<Rightarrow> Graph \<Rightarrow> f64 \<Rightarrow> int \<Rightarrow> f64 \<Rightarrow> Vertex list \<Rightarrow> lbf_run
    \<Rightarrow> (Vertex list \<times> lbf_run) res" where
  "lbf_fill rnd intn cfg g avg i cur_sum vs st =
     (if f64_less cur_sum avg \<and> vs \<noteq> [] then
        let index = intn (lr_drawn st) (int (length vs)) in
        case slice_at vs index of
          Inl e \<Rightarrow> Inl e
        | Inr v \<Rightarrow> (case lbf_assign cfg i v (st\<lparr> lr_drawn := Suc (lr_drawn st) \<rparr>) of
              Inl e \<Rightarrow> Inl e
            | Inr st1 \<Rightarrow> lbf_fill rnd intn cfg g avg i (f64_add rnd cur_sum (f64_of_int rnd (int (length (neighbours g v)))))
                (take (nat index) vs @ drop (nat index + 1) vs) st1)
      else Inr (vs, st))"
  by pat_completeness auto
termination
  by (relation "measure (\<lambda>(_, _, _, _, _, _, _, vs, _). length vs)") (auto simp: slice_at_def split: if_splits)

declare lbf_fill.simps [simp del]

definition lbf_fill_shard :: "rounding \<Rightarrow> (nat \<Rightarrow> int \<Rightarrow> int) \<Rightarrow> ChainConfig \<Rightarrow> Graph \<Rightarrow> f64 \<Rightarrow> int \<Rightarrow> Vertex list \<times> lbf_run
    \<Rightarrow> (Vertex list \<times> lbf_run) res" where
  "lbf_fill_shard rnd intn cfg g avg i = (\<lambda>(vs, st). lbf_fill rnd intn cfg g avg i (rnd 0) vs st)"

definition LBF_Partition :: "rounding \<Rightarrow> (nat \<Rightarrow> int \<Rightarrow> int) \<Rightarrow> ChainConfig \<Rightarrow> LBFState \<Rightarrow> Globals
    \<Rightarrow> (LBFState \<times> lbf_run) res" where
  "LBF_Partition rnd intn cfg ls0 g0 =
     (let ls = ComputeAvgWeight rnd ls0; g = lb_NetGraph ls in
      bind_res (fold_res (\<lambda>i. lbf_fill_shard rnd intn cfg g (lb_AvgWeight ls) (int i)) [0..<nat (lb_ShardNum ls - 1)]
          (Vertexs g, \<lparr> lr_map = Map.empty, lr_addrs = [], lr_res = Map.empty, lr_globals = g0, lr_drawn = 0 \<rparr>)) (\<lambda>(vs, st).
      bind_res (fold_res (lbf_assign cfg (lb_ShardNum ls - 1)) vs st) (\<lambda>st'.
        Inr (ls\<lparr> lb_NetGraph := g\<lparr> Vertexs := vs \<rparr>, lb_PartitionMap := lr_map st' \<rparr>, st'))))"

section \<open>The client's graph for LBF\<close>

text \<open>A relay adds the edge from the recipient alone, and then both directions as well.\<close>

definition lbf_add_tx :: "Transaction \<Rightarrow> LBFState \<Rightarrow> LBFState res" where
  "lbf_add_tx tx ls =
     (let s = Vertex (from_addr tx); r = Vertex (to_addr tx) in
      if from_addr tx = to_addr tx then Inr ls
      else bind_res (if IsRelay tx \<or> Relay_Lock tx then lbf_AddEdge s r 1 ls else Inr ls) (lbf_AddEdge s r 0))"

definition build_lbf :: "rounding \<Rightarrow> ChainConfig \<Rightarrow> Transaction list \<Rightarrow> LBFState res" where
  "build_lbf rnd cfg txs = fold_res lbf_add_tx txs (Init_LBFState (rnd (1 / 2)) (Shard_num cfg) new_LBFState)"

definition lookup0 :: "(addr \<rightharpoonup> int) \<Rightarrow> addr \<Rightarrow> int" where
  "lookup0 m a = (case m a of None \<Rightarrow> 0 | Some s \<Rightarrow> s)"

definition lbf_map :: "rounding \<Rightarrow> (nat \<Rightarrow> int \<Rightarrow> int) \<Rightarrow> ChainConfig \<Rightarrow> Transaction list \<Rightarrow> Globals
    \<Rightarrow> ((addr list \<times> (addr \<rightharpoonup> int)) \<times> Globals) res" where
  "lbf_map rnd intn cfg txs g =
     bind_res (build_lbf rnd cfg txs) (\<lambda>ls.
     bind_res (LBF_Partition rnd intn cfg ls g) (\<lambda>(_, st).
       Inr (changed_accounts (lr_globals st) (lr_addrs st) (lookup0 (lr_res st)), lr_globals st)))"

section \<open>METIS\<close>

text \<open>
  The state and \<open>AddEdge\<close> are those of LBF. The input file is the number of nodes and of edges and a row
  of weights per node (in the order in which Go ranges over the map, which the model leaves open); the
  external program is a function from it and the number of shards to the lines it prints, each the index
  of a node and its shard.
\<close>

definition metis_edges :: "Graph \<Rightarrow> int" where
  "metis_edges g = sum_list (map (\<lambda>m. int (card (dom m))) (EdgeWeight g))"

definition Write_to_txt :: "LBFState \<Rightarrow> (int \<times> int \<times> (int \<rightharpoonup> int) list) res" where
  "Write_to_txt ls =
     (let g = lb_NetGraph ls; nodeNum = int (length (Vertexs g)); edgeNum = metis_edges g in
      if int (card (dom (VertexSet g))) \<noteq> nodeNum then Inl log_panic
      else if edgeNum mod 2 \<noteq> 0 then Inl log_panic
      else Inr (nodeNum, edgeNum div 2, EdgeWeight g))"

definition metis_line :: "ChainConfig \<Rightarrow> Graph \<Rightarrow> int \<times> int \<Rightarrow> lbf_run \<Rightarrow> lbf_run res" where
  "metis_line cfg g = (\<lambda>(index, shard) st.
     bind_res (slice_at (Vertexs g) index) (\<lambda>v.
     bind_res (Addr2Shard cfg (vx_Addr v) (lr_globals st)) (\<lambda>(s, g').
       let st1 = st\<lparr> lr_globals := g' \<rparr> in
       Inr (if shard \<noteq> s then st1\<lparr> lr_addrs := lr_addrs st @ [vx_Addr v], lr_res := (lr_res st)(vx_Addr v \<mapsto> shard) \<rparr> else st1))))"

definition METIS_Partition :: "(int \<times> int \<times> (int \<rightharpoonup> int) list \<Rightarrow> int \<Rightarrow> (int \<times> int) list) \<Rightarrow> ChainConfig \<Rightarrow> LBFState \<Rightarrow> Globals
    \<Rightarrow> lbf_run res" where
  "METIS_Partition metis cfg ls g =
     bind_res (Write_to_txt ls) (\<lambda>input.
       fold_res (metis_line cfg (lb_NetGraph ls)) (metis input (lb_ShardNum ls))
         \<lparr> lr_map = Map.empty, lr_addrs = [], lr_res = Map.empty, lr_globals = g, lr_drawn = 0 \<rparr>)"

definition metis_add_tx :: "Transaction \<Rightarrow> LBFState \<Rightarrow> LBFState res" where
  "metis_add_tx tx ls =
     (if from_addr tx = to_addr tx then Inr ls
      else lbf_AddEdge (Vertex (from_addr tx)) (Vertex (to_addr tx)) 0 ls)"

definition metis_map :: "rounding \<Rightarrow> (int \<times> int \<times> (int \<rightharpoonup> int) list \<Rightarrow> int \<Rightarrow> (int \<times> int) list) \<Rightarrow> ChainConfig
    \<Rightarrow> Transaction list \<Rightarrow> Globals \<Rightarrow> ((addr list \<times> (addr \<rightharpoonup> int)) \<times> Globals) res" where
  "metis_map rnd metis cfg txs g =
     bind_res (fold_res metis_add_tx txs (Init_LBFState (rnd (1 / 2)) (Shard_num cfg) new_LBFState)) (\<lambda>ls.
     bind_res (METIS_Partition metis cfg ls g) (\<lambda>st.
       Inr (changed_accounts (lr_globals st) (lr_addrs st) (lookup0 (lr_res st)), lr_globals st)))"

section \<open>PageRank\<close>

text \<open>
  Go ranges over \<open>graph[addr]\<close> in an order of its own: \<open>rng\<close> gives it from a list of the keys. An absent
  account has no scores, so its index panics; no account of the graph is absent.
\<close>

definition points_at :: "(addr \<rightharpoonup> f64 list) \<Rightarrow> addr \<Rightarrow> f64 list" where
  "points_at points a = (case points a of None \<Rightarrow> [] | Some l \<Rightarrow> l)"

definition pagerank_sum :: "rounding \<Rightarrow> (addr \<rightharpoonup> int) \<Rightarrow> addr list \<Rightarrow> (addr \<rightharpoonup> f64 list) \<Rightarrow> int \<Rightarrow> f64 res" where
  "pagerank_sum rnd out keys points shard =
     bind_res (fold_res (\<lambda>i (total, count). let val = lookup0 out i in
         if val \<noteq> 0 then bind_res (slice_at (points_at points i) shard) (\<lambda>p.
           Inr (f64_add rnd total (f64_mul rnd (f64_of_int rnd val) p), count + val))
         else Inr (total, count)) keys (rnd 0, 0))
       (\<lambda>(total, count). Inr (f64_div rnd total (f64_of_int rnd count)))"

definition pagerank_score :: "rounding \<Rightarrow> (addr list \<Rightarrow> addr list) \<Rightarrow> tx_graph \<Rightarrow> addr list \<Rightarrow> (addr \<rightharpoonup> int) \<Rightarrow> f64 \<Rightarrow> int list
    \<Rightarrow> addr \<Rightarrow> int \<Rightarrow> (addr \<rightharpoonup> f64 list) \<Rightarrow> (addr \<rightharpoonup> f64 list) res" where
  "pagerank_score rnd rng gr addrs addr2shard numbda shard_size a shard points =
     (let out = (case gr a of None \<Rightarrow> Map.empty | Some m \<Rightarrow> m) in
      bind_res (if lookup0 addr2shard a = shard
          then bind_res (slice_at shard_size shard) (\<lambda>n. Inr (f64_div rnd (f64_of_int rnd 1) (f64_of_int rnd n))) else Inr (rnd 0)) (\<lambda>w.
      bind_res (pagerank_sum rnd out (rng (filter (\<lambda>k. out k \<noteq> None) addrs)) points shard) (\<lambda>sm.
      bind_res (slice_upd shard (\<lambda>_. f64_add rnd (f64_mul rnd (f64_sub rnd (f64_of_int rnd 1) numbda) w) (f64_mul rnd numbda sm))
          (points_at points a)) (\<lambda>l.
        Inr (points(a \<mapsto> l))))))"

text \<open>The sizes count the entries of the map of shards; \<open>known\<close> lists its keys.\<close>

definition Pagerank :: "rounding \<Rightarrow> (addr list \<Rightarrow> addr list) \<Rightarrow> tx_graph \<Rightarrow> addr list \<Rightarrow> addr list \<Rightarrow> (addr \<rightharpoonup> int) \<Rightarrow> f64 \<Rightarrow> int \<Rightarrow> int
    \<Rightarrow> (addr \<rightharpoonup> f64 list) res" where
  "Pagerank rnd rng gr addrs known addr2shard numbda iters shard_num =
     bind_res (if addrs \<noteq> [] \<and> shard_num < 0 then Inl make_panic
       else Inr (fold (\<lambda>a m. m(a \<mapsto> replicate (nat shard_num) (rnd 0))) addrs Map.empty)) (\<lambda>points.
     bind_res (make_ints shard_num) (\<lambda>zeros.
     bind_res (fold_res (\<lambda>a. slice_upd (lookup0 addr2shard a) (\<lambda>n. n + 1)) known zeros) (\<lambda>shard_size.
       fold_res (\<lambda>_. fold_res (\<lambda>a. fold_res (\<lambda>s. pagerank_score rnd rng gr addrs addr2shard numbda shard_size a (int s)) [0..<nat shard_num]) addrs)
         [0..<nat iters] points)))"

text \<open>The first shard of the best score above 0; an account whose scores are not above 0 gets no entry.\<close>

definition best_shard :: "rounding \<Rightarrow> f64 list \<Rightarrow> int option" where
  "best_shard rnd v = snd (fold (\<lambda>(shard, point) (mx, best). if f64_less mx point then (point, Some (int shard)) else (mx, best))
     (enumerate 0 v) (rnd 0, None))"

definition Allocate :: "rounding \<Rightarrow> (addr \<rightharpoonup> f64 list) \<Rightarrow> addr \<rightharpoonup> int" where
  "Allocate rnd points a = (case points a of None \<Rightarrow> None | Some v \<Rightarrow> best_shard rnd v)"

text \<open>The client lists the accounts whose shard changes and deletes the others from the map.\<close>

definition pagerank_changed :: "(addr \<rightharpoonup> int) \<Rightarrow> addr list \<Rightarrow> (addr \<rightharpoonup> int) \<Rightarrow> addr list \<times> (addr \<rightharpoonup> int)" where
  "pagerank_changed old addrs new =
     fold (\<lambda>a (l, m). if lookup0 old a \<noteq> lookup0 m a then (l @ [a], m) else (l, m(a := None))) addrs ([], new)"

definition pagerank_map :: "rounding \<Rightarrow> (addr list \<Rightarrow> addr list) \<Rightarrow> ChainConfig \<Rightarrow> addr list \<Rightarrow> Transaction list \<Rightarrow> Globals
    \<Rightarrow> ((addr list \<times> (addr \<rightharpoonup> int)) \<times> Globals) res" where
  "pagerank_map rnd rng cfg known txs g =
     (let (gr, addrs) = Pagerank_Tx2graph_And_Addrs txs in
      bind_res (Pagerank rnd rng gr addrs known (Account2Shard g) (rnd (85 / 100)) 20 (Shard_num cfg)) (\<lambda>points.
        Inr (pagerank_changed (Account2Shard g) addrs (Allocate rnd points), g)))"

section \<open>The fixed migrations\<close>

text \<open>
  \<open>MigrationAlgorithm\<close> and \<open>Algorithm2\<close> of \<open>algorithm/algorithm.go\<close> move every tenth of the numbered accounts
  to the other of two shards; the second changes the map that it is given.
\<close>

definition numbered_addrs :: "addr list" where
  "numbered_addrs = map (\<lambda>i. Int2hexString (if i mod 20 = 0 then i else i + 5)) (filter (\<lambda>i. i mod 10 = 0) [0..<184379])"

definition MigrationAlgorithm :: "flags \<Rightarrow> int \<Rightarrow> addr \<rightharpoonup> int" where
  "MigrationAlgorithm before shardID = fold (\<lambda>a out. if flag before a then out(a \<mapsto> 1 - shardID) else out) numbered_addrs Map.empty"

definition Algorithm2 :: "(addr \<rightharpoonup> int) \<Rightarrow> int \<Rightarrow> addr \<rightharpoonup> int" where
  "Algorithm2 old shardID = fold (\<lambda>a m. m(a \<mapsto> 1 - lookup0 m a)) numbered_addrs old"

end
