(* ===== verification/ClpaRun.thy ===== *)
theory ClpaRun
  imports Clpa
begin

text \<open>
  The label propagation keeps its books: the incremental update of the edges of the shards equals a
  recomputation, the number of accounts of each shard is right, and the result is the list of the
  accounts that moved. The edges are counted by sums over pairs of vertices.
\<close>

section \<open>Sums over pairs\<close>

lemma sum_list_count:
  fixes f :: "'a \<Rightarrow> int"
  assumes "set xs \<subseteq> X" "finite X"
  shows "(\<Sum>x\<leftarrow>xs. f x) = (\<Sum>x\<in>X. int (count_list xs x) * f x)"
  using assms
proof (induction xs)
  case (Cons y xs)
  have "(\<Sum>x\<in>X. int (count_list (y # xs) x) * f x) = (\<Sum>x\<in>X. int (count_list xs x) * f x + (if x = y then f x else 0))"
    by (rule sum.cong) (auto simp: algebra_simps)
  also have "\<dots> = (\<Sum>x\<in>X. int (count_list xs x) * f x) + f y"
    using Cons.prems by (simp add: sum.distrib)
  finally show ?case using Cons by simp
qed simp

lemma even_symmetric_sum:
  fixes d :: "'v \<Rightarrow> 'v \<Rightarrow> int"
  assumes "finite V" "\<And>v u. d v u = d u v" "\<And>v. d v v = 0"
  shows "even (\<Sum>v\<in>V. \<Sum>u\<in>V. d v u)"
  using assms(1)
proof induction
  case (insert x V)
  have "(\<Sum>v\<in>insert x V. \<Sum>u\<in>insert x V. d v u) =
      (d x x + (\<Sum>u\<in>V. d x u)) + ((\<Sum>v\<in>V. d v x) + (\<Sum>v\<in>V. \<Sum>u\<in>V. d v u))"
    using insert.hyps by (simp add: sum.distrib)
  also have "\<dots> = 2 * (\<Sum>u\<in>V. d x u) + (\<Sum>v\<in>V. \<Sum>u\<in>V. d v u)"
    using assms(2) [of _ x] by (simp add: assms(3))
  finally show ?case using insert.IH by simp
qed simp

lemma symmetric_change:
  fixes d :: "'v \<Rightarrow> 'v \<Rightarrow> int"
  assumes "finite V" "x \<in> V" "\<And>v u. d v u = d u v" "d x x = 0" "\<And>v u. v \<noteq> x \<Longrightarrow> u \<noteq> x \<Longrightarrow> d v u = 0"
  shows "(\<Sum>v\<in>V. \<Sum>u\<in>V. d v u) = 2 * (\<Sum>u\<in>V. d x u)"
proof -
  have inner: "(\<Sum>u\<in>V. d v u) = d v x" if "v \<in> V" "v \<noteq> x" for v
  proof -
    have "(\<Sum>u\<in>V. d v u) = d v x + (\<Sum>u\<in>V - {x}. d v u)" by (rule sum.remove) (use assms in auto)
    also have "(\<Sum>u\<in>V - {x}. d v u) = 0" by (rule sum.neutral) (use assms(5) that in auto)
    finally show ?thesis by simp
  qed
  have "(\<Sum>v\<in>V. \<Sum>u\<in>V. d v u) = (\<Sum>u\<in>V. d x u) + (\<Sum>v\<in>V - {x}. \<Sum>u\<in>V. d v u)"
    by (rule sum.remove) (use assms in auto)
  also have "(\<Sum>v\<in>V - {x}. \<Sum>u\<in>V. d v u) = (\<Sum>v\<in>V - {x}. d v x)" by (rule sum.cong) (auto simp: inner)
  also have "\<dots> = (\<Sum>v\<in>V - {x}. d x v)" by (rule sum.cong) (auto simp: assms(3))
  also have "\<dots> = (\<Sum>u\<in>V. d x u)" using sum.remove [OF assms(1,2), of "d x"] assms(4) by simp
  finally show ?thesis by simp
qed

section \<open>Counting edges\<close>

definition arcs :: "Graph \<Rightarrow> Vertex \<Rightarrow> Vertex \<Rightarrow> int" where
  "arcs g v u = int (count_list (neighbours g v) u)"

text \<open>Over all pairs: those that touch shard \<open>k\<close>, those that end in it from outside, those inside, those that cross.\<close>

definition pairs :: "Graph \<Rightarrow> (Vertex \<Rightarrow> Vertex \<Rightarrow> bool) \<Rightarrow> int" where
  "pairs g Q = (\<Sum>v\<in>set (Vertexs g). \<Sum>u\<in>set (Vertexs g). arcs g v u * of_bool (Q v u))"

definition touching :: "Graph \<Rightarrow> (Vertex \<Rightarrow> int) \<Rightarrow> int \<Rightarrow> int" where
  "touching g P k = pairs g (\<lambda>v u. P v = k \<or> P u = k)"

definition crossing :: "Graph \<Rightarrow> (Vertex \<Rightarrow> int) \<Rightarrow> int" where
  "crossing g P = pairs g (\<lambda>v u. P v \<noteq> P u)"

lemma arcs_sym: "symmetric g \<Longrightarrow> arcs g v u = arcs g u v"
  by (simp add: arcs_def symmetric_def)

lemma arcs_self: "loop_free g \<Longrightarrow> arcs g v v = 0"
  by (simp add: arcs_def loop_free_def count_list_0_iff)

lemma pairs_flip:
  assumes "symmetric g"
  shows "pairs g Q = pairs g (\<lambda>v u. Q u v)"
  unfolding pairs_def by (subst sum.swap) (simp add: arcs_sym [OF assms])

lemma pairs_even:
  assumes "symmetric g" "loop_free g" "\<And>v u. Q v u = Q u v"
  shows "even (pairs g Q)"
  unfolding pairs_def
  by (rule even_symmetric_sum) (use assms arcs_sym [OF assms(1)] arcs_self [OF assms(2)] in auto)

lemma pairs_change:
  assumes "symmetric g" "loop_free g" "x \<in> set (Vertexs g)"
    and "\<And>v u. Q v u = Q u v" "\<And>v u. Q' v u = Q' u v"
    and "\<And>v u. v \<noteq> x \<Longrightarrow> u \<noteq> x \<Longrightarrow> Q' v u = Q v u"
    and sub: "set (neighbours g x) \<subseteq> set (Vertexs g)"
  shows "pairs g Q' = pairs g Q + 2 * (\<Sum>u\<leftarrow>neighbours g x. of_bool (Q' x u) - of_bool (Q x u))"
proof -
  define d where "d = (\<lambda>v u. arcs g v u * (of_bool (Q' v u) - of_bool (Q v u)))"
  have "pairs g Q' - pairs g Q = (\<Sum>v\<in>set (Vertexs g). \<Sum>u\<in>set (Vertexs g). d v u)"
    by (simp add: pairs_def d_def sum_subtractf right_diff_distrib)
  also have "\<dots> = 2 * (\<Sum>u\<in>set (Vertexs g). d x u)"
    using assms arcs_self [OF assms(2), of x] arcs_sym [OF assms(1)]
    by (intro symmetric_change) (auto simp: d_def)
  also have "(\<Sum>u\<in>set (Vertexs g). d x u) = (\<Sum>u\<leftarrow>neighbours g x. of_bool (Q' x u) - of_bool (Q x u))"
    using sum_list_count [OF sub, of "\<lambda>u. of_bool (Q' x u) - of_bool (Q x u)"] by (simp add: d_def arcs_def)
  finally show ?thesis by simp
qed

lemma sum_list_if_key:
  assumes "mset keys = mset (filter K vs)" "\<And>v. v \<in> set vs \<Longrightarrow> \<not> K v \<Longrightarrow> F v = (0 :: int)" "distinct vs"
  shows "(\<Sum>v\<leftarrow>keys. F v) = (\<Sum>v\<in>set vs. F v)"
proof -
  have "(\<Sum>v\<leftarrow>keys. F v) = (\<Sum>v\<leftarrow>filter K vs. F v)"
    using assms(1) by (metis mset_map sum_mset_sum_list)
  also have "\<dots> = (\<Sum>v\<leftarrow>vs. F v)" using assms(2) by (induction vs) auto
  also have "\<dots> = (\<Sum>v\<in>set vs. F v)" using assms(3) by (simp add: sum_list_distinct_conv_sum_set)
  finally show ?thesis .
qed

lemma pairs_as_loops:
  assumes "graph_ok g" "mset (rng (filter (\<lambda>v. EdgeSet g v \<noteq> None) (Vertexs g))) = mset (filter (\<lambda>v. EdgeSet g v \<noteq> None) (Vertexs g))"
  shows "(\<Sum>v\<leftarrow>edge_keys rng g. \<Sum>u\<leftarrow>neighbours g v. of_bool (Q v u)) = pairs g Q"
proof -
  have sub: "set (neighbours g v) \<subseteq> set (Vertexs g)" for v using assms(1) by (auto simp: graph_ok_def)
  have "(\<Sum>v\<leftarrow>edge_keys rng g. \<Sum>u\<leftarrow>neighbours g v. of_bool (Q v u)) =
      (\<Sum>v\<in>set (Vertexs g). \<Sum>u\<leftarrow>neighbours g v. of_bool (Q v u) :: int)"
    unfolding edge_keys_def
    by (rule sum_list_if_key [OF assms(2)])
      (use assms(1) in \<open>auto simp: neighbours_def graph_ok_def indexed_def\<close>)
  also have "(\<Sum>v\<in>set (Vertexs g). \<Sum>u\<leftarrow>neighbours g v. of_bool (Q v u) :: int) = pairs g Q"
    using sum_list_count [OF sub] by (simp add: pairs_def arcs_def)
  finally show ?thesis .
qed

section \<open>The loops\<close>

lemma slice_upd_at:
  assumes "0 \<le> s" "s < int n" "length xs = n"
  obtains ys where "slice_upd s f xs = Inr ys" "length ys = n"
    "\<forall>k<n. ys ! k = (if int k = s then f (xs ! k) else xs ! k)"
proof
  show "slice_upd s f xs = Inr (xs[nat s := f (xs ! nat s)])" using assms by (simp add: slice_in_range)
  show "length (xs[nat s := f (xs ! nat s)]) = n" using assms by simp
  show "\<forall>k<n. xs[nat s := f (xs ! nat s)] ! k = (if int k = s then f (xs ! k) else xs ! k)"
    using assms by (auto simp: nth_list_update)
qed

lemma count_arcs:
  assumes "0 \<le> shard_of cs v \<and> shard_of cs v < int n" "\<And>u. u \<in> set us \<Longrightarrow> 0 \<le> shard_of cs u \<and> shard_of cs u < int n"
    and "length es = n" "length is = n"
  shows "\<exists>es' is'. fold_res (count_arc cs v) us (es, is) = Inr (es', is') \<and> length es' = n \<and> length is' = n
    \<and> (\<forall>k<n. es' ! k = es ! k + (\<Sum>u\<leftarrow>us. of_bool (shard_of cs v \<noteq> shard_of cs u \<and> shard_of cs u = int k)))
    \<and> (\<forall>k<n. is' ! k = is ! k + (\<Sum>u\<leftarrow>us. of_bool (shard_of cs v = int k \<and> shard_of cs u = int k)))"
  using assms(2-4)
proof (induction us arbitrary: es "is")
  case (Cons u us)
  have u: "0 \<le> shard_of cs u" "shard_of cs u < int n" using Cons.prems(1) by auto
  obtain js where js: "slice_upd (shard_of cs u) (\<lambda>n. n + 1) is = Inr js" "length js = n"
    "\<forall>k<n. js ! k = (if int k = shard_of cs u then is ! k + 1 else is ! k)"
    by (rule slice_upd_at [OF u Cons.prems(3), of "\<lambda>n. n + 1"])
  obtain ds where ds: "slice_upd (shard_of cs u) (\<lambda>n. n + 1) es = Inr ds" "length ds = n"
    "\<forall>k<n. ds ! k = (if int k = shard_of cs u then es ! k + 1 else es ! k)"
    by (rule slice_upd_at [OF u Cons.prems(2), of "\<lambda>n. n + 1"])
  define es1 where "es1 = (if shard_of cs v = shard_of cs u then es else ds)"
  define is1 where "is1 = (if shard_of cs v = shard_of cs u then js else is)"
  have step: "count_arc cs v u (es, is) = Inr (es1, is1)"
    using js(1) ds(1) by (simp add: count_arc_def es1_def is1_def)
  have l1: "length es1 = n" "length is1 = n" using js ds Cons.prems by (simp_all add: es1_def is1_def)
  have at1: "es1 ! k = es ! k + of_bool (shard_of cs v \<noteq> shard_of cs u \<and> shard_of cs u = int k)"
    "is1 ! k = is ! k + of_bool (shard_of cs v = int k \<and> shard_of cs u = int k)" if "k < n" for k
    using that js(3) ds(3) by (auto simp: es1_def is1_def)
  from Cons.IH [OF _ l1] Cons.prems(1) obtain es' is' where
    "fold_res (count_arc cs v) us (es1, is1) = Inr (es', is')" "length es' = n" "length is' = n"
    "\<forall>k<n. es' ! k = es1 ! k + (\<Sum>u\<leftarrow>us. of_bool (shard_of cs v \<noteq> shard_of cs u \<and> shard_of cs u = int k))"
    "\<forall>k<n. is' ! k = is1 ! k + (\<Sum>u\<leftarrow>us. of_bool (shard_of cs v = int k \<and> shard_of cs u = int k))" by auto
  with step at1 show ?case by simp
qed simp

lemma count_all_arcs:
  assumes "\<forall>v\<in>set vs. 0 \<le> shard_of cs v \<and> shard_of cs v < int n
        \<and> (\<forall>u\<in>set (neighbours g v). 0 \<le> shard_of cs u \<and> shard_of cs u < int n)"
    and "length es = n" "length is = n"
  shows "\<exists>es' is'. fold_res (\<lambda>v. fold_res (count_arc cs v) (neighbours g v)) vs (es, is) = Inr (es', is')
    \<and> length es' = n \<and> length is' = n
    \<and> (\<forall>k<n. es' ! k = es ! k + (\<Sum>v\<leftarrow>vs. \<Sum>u\<leftarrow>neighbours g v. of_bool (shard_of cs v \<noteq> shard_of cs u \<and> shard_of cs u = int k)))
    \<and> (\<forall>k<n. is' ! k = is ! k + (\<Sum>v\<leftarrow>vs. \<Sum>u\<leftarrow>neighbours g v. of_bool (shard_of cs v = int k \<and> shard_of cs u = int k)))"
  using assms
proof (induction vs arbitrary: es "is")
  case (Cons v vs)
  have "0 \<le> shard_of cs v \<and> shard_of cs v < int n" using Cons.prems(1) by simp
  moreover have "\<And>u. u \<in> set (neighbours g v) \<Longrightarrow> 0 \<le> shard_of cs u \<and> shard_of cs u < int n"
    using Cons.prems(1) by simp
  ultimately obtain es1 is1 where r: "fold_res (count_arc cs v) (neighbours g v) (es, is) = Inr (es1, is1)"
    and l: "length es1 = n" "length is1 = n"
    and e: "\<forall>k<n. es1 ! k = es ! k + (\<Sum>u\<leftarrow>neighbours g v. of_bool (shard_of cs v \<noteq> shard_of cs u \<and> shard_of cs u = int k))"
    and i: "\<forall>k<n. is1 ! k = is ! k + (\<Sum>u\<leftarrow>neighbours g v. of_bool (shard_of cs v = int k \<and> shard_of cs u = int k))"
    using count_arcs [of cs v n "neighbours g v" es "is"] Cons.prems(2,3) by blast
  have "\<forall>v\<in>set vs. 0 \<le> shard_of cs v \<and> shard_of cs v < int n
        \<and> (\<forall>u\<in>set (neighbours g v). 0 \<le> shard_of cs u \<and> shard_of cs u < int n)"
    using Cons.prems(1) by simp
  from Cons.IH [OF this l] obtain es' is' where
    "fold_res (\<lambda>v. fold_res (count_arc cs v) (neighbours g v)) vs (es1, is1) = Inr (es', is')"
    and "length es' = n" and "length is' = n"
    and "\<forall>k<n. es' ! k = es1 ! k + (\<Sum>v\<leftarrow>vs. \<Sum>u\<leftarrow>neighbours g v. of_bool (shard_of cs v \<noteq> shard_of cs u \<and> shard_of cs u = int k))"
    and "\<forall>k<n. is' ! k = is1 ! k + (\<Sum>v\<leftarrow>vs. \<Sum>u\<leftarrow>neighbours g v. of_bool (shard_of cs v = int k \<and> shard_of cs u = int k))"
    by (elim exE conjE)
  with r e i show ?case by (simp add: add.assoc)
qed simp

lemma move_arcs:
  assumes "shard_of cs x = b" "a \<noteq> b" "0 \<le> a" "a < int n" "0 \<le> b" "b < int n"
    and "length es = n"
  shows "\<exists>es' cross'. fold_res (move_arc cs x a) us (es, cross) = Inr (es', cross') \<and> length es' = n
    \<and> (\<forall>k<n. es' ! k = es ! k + (\<Sum>u\<leftarrow>us. of_bool (int k = b \<and> shard_of cs u \<noteq> b) - of_bool (int k = a \<and> shard_of cs u \<noteq> a)))
    \<and> cross' = cross + (\<Sum>u\<leftarrow>us. of_bool (shard_of cs u = a) - of_bool (shard_of cs u = b))"
  using assms(7)
proof (induction us arbitrary: es cross)
  case (Cons u us)
  obtain es1 where e1: "slice_upd a (\<lambda>n. n - 1) es = Inr es1" "length es1 = n"
    "\<forall>k<n. es1 ! k = (if int k = a then es ! k - 1 else es ! k)"
    by (rule slice_upd_at [OF assms(3,4) Cons.prems, of "\<lambda>n. n - 1"])
  obtain es2 where e2: "slice_upd b (\<lambda>n. n + 1) es = Inr es2" "length es2 = n"
    "\<forall>k<n. es2 ! k = (if int k = b then es ! k + 1 else es ! k)"
    by (rule slice_upd_at [OF assms(5,6) Cons.prems, of "\<lambda>n. n + 1"])
  obtain es3 where e3: "slice_upd a (\<lambda>n. n - 1) es2 = Inr es3" "length es3 = n"
    "\<forall>k<n. es3 ! k = (if int k = a then es2 ! k - 1 else es2 ! k)"
    by (rule slice_upd_at [OF assms(3,4) e2(2), of "\<lambda>n. n - 1"])
  define c1 where "c1 = cross + (of_bool (shard_of cs u = a) - of_bool (shard_of cs u = b))"
  define es4 where "es4 = (if shard_of cs u = b then es1 else if shard_of cs u = a then es2 else es3)"
  have step: "move_arc cs x a u (es, cross) = Inr (es4, c1)"
    using assms(1,2) e1(1) e2(1) e3(1) by (auto simp: move_arc_def es4_def c1_def Let_def)
  have l4: "length es4 = n" using e1 e2 e3 by (simp add: es4_def)
  have at4: "es4 ! k = es ! k + (of_bool (int k = b \<and> shard_of cs u \<noteq> b) - of_bool (int k = a \<and> shard_of cs u \<noteq> a))"
    if "k < n" for k
    using that assms(2) e1(3) e2(3) e3(3) by (auto simp: es4_def)
  from Cons.IH [OF l4, of c1] obtain es' cross' where
    "fold_res (move_arc cs x a) us (es4, c1) = Inr (es', cross')" "length es' = n"
    "\<forall>k<n. es' ! k = es4 ! k + (\<Sum>u\<leftarrow>us. of_bool (int k = b \<and> shard_of cs u \<noteq> b) - of_bool (int k = a \<and> shard_of cs u \<noteq> a))"
    "cross' = c1 + (\<Sum>u\<leftarrow>us. of_bool (shard_of cs u = a) - of_bool (shard_of cs u = b))" by blast
  with step at4 show ?case by (simp add: c1_def)
qed simp

section \<open>The books are right\<close>

definition clpa_ok :: "CLPAState \<Rightarrow> bool" where
  "clpa_ok cs \<longleftrightarrow> graph_ok (NetGraph cs) \<and> symmetric (NetGraph cs) \<and> loop_free (NetGraph cs) \<and> 0 < ShardNum cs
     \<and> dom (PartitionMap cs) = set (Vertexs (NetGraph cs))
     \<and> (\<forall>v\<in>set (Vertexs (NetGraph cs)). 0 \<le> shard_of cs v \<and> shard_of cs v < ShardNum cs)
     \<and> length (VertexsNumInShard cs) = nat (ShardNum cs)
     \<and> (\<forall>k<nat (ShardNum cs). VertexsNumInShard cs ! k
          = int (length (filter (\<lambda>v. shard_of cs v = int k) (Vertexs (NetGraph cs)))))
     \<and> pairs (NetGraph cs) (\<lambda>_ _. True) \<le> 2 * 2147483647"

definition edges_ok :: "CLPAState \<Rightarrow> bool" where
  "edges_ok cs \<longleftrightarrow> length (Edges2Shard cs) = nat (ShardNum cs)
     \<and> (\<forall>k<nat (ShardNum cs). 2 * Edges2Shard cs ! k = touching (NetGraph cs) (shard_of cs) (int k))
     \<and> 2 * CrossShardEdgeNum cs = crossing (NetGraph cs) (shard_of cs)
     \<and> MinEdges2Shard cs = Min (set (Edges2Shard cs))"

lemma min_edges_Min: "min_edges m xs = Min (insert m (set xs))"
proof (induction xs arbitrary: m)
  case (Cons x xs)
  have "min_edges m (x # xs) = min_edges (min m x) xs" by (simp add: min_edges_def min_def not_less)
  also have "\<dots> = Min (insert m (set (x # xs)))"
    by (simp add: Cons.IH) (metis List.finite_set Min_insert finite.insertI insert_commute insert_is_Un
        insert_not_empty min.assoc Min_singleton)
  finally show ?case .
qed (simp add: min_edges_def)

lemma shard_of_sel [simp]:
  "shard_of (cs\<lparr> Edges2Shard := es \<rparr>) = shard_of cs"
  "shard_of (cs\<lparr> CrossShardEdgeNum := c \<rparr>) = shard_of cs"
  "shard_of (cs\<lparr> MinEdges2Shard := m \<rparr>) = shard_of cs"
  "shard_of (cs\<lparr> NetGraph := ng \<rparr>) = shard_of cs"
  "shard_of (cs\<lparr> VertexsNumInShard := ns \<rparr>) = shard_of cs"
  "shard_of (cs\<lparr> PartitionMap := (PartitionMap cs)(v \<mapsto> b) \<rparr>) = (shard_of cs)(v := b)"
  by (auto simp: shard_of_def)

lemma touching_parts:
  assumes "symmetric g"
  shows "touching g P k = 2 * pairs g (\<lambda>v u. P v \<noteq> P u \<and> P u = k) + pairs g (\<lambda>v u. P v = k \<and> P u = k)"
proof -
  have "pairs g (\<lambda>v u. P v = k \<or> P u = k) = pairs g (\<lambda>v u. P v \<noteq> P u \<and> P u = k)
      + pairs g (\<lambda>v u. P u \<noteq> P v \<and> P v = k) + pairs g (\<lambda>v u. P v = k \<and> P u = k)"
    unfolding pairs_def sum.distrib [symmetric] distrib_left [symmetric]
    by (intro sum.cong refl arg_cong2 [where f = "(*)"]) auto
  also have "pairs g (\<lambda>v u. P u \<noteq> P v \<and> P v = k) = pairs g (\<lambda>v u. P v \<noteq> P u \<and> P u = k)"
    by (rule pairs_flip [OF assms])
  finally show ?thesis by (simp add: touching_def)
qed

lemma pairs_mono:
  assumes "\<And>v u. Q v u \<Longrightarrow> R v u"
  shows "pairs g Q \<le> pairs g R"
  unfolding pairs_def by (intro sum_mono mult_left_mono) (use assms in \<open>auto simp: arcs_def\<close>)

lemma crossing_parts:
  assumes "\<forall>u\<in>set (Vertexs g). 0 \<le> P u \<and> P u < int n"
  shows "(\<Sum>k<n. pairs g (\<lambda>v u. P v \<noteq> P u \<and> P u = int k)) = crossing g P"
proof -
  have one: "(\<Sum>k<n. of_bool (P v \<noteq> P u \<and> P u = int k)) = (of_bool (P v \<noteq> P u) :: int)"
    if "u \<in> set (Vertexs g)" for v u
  proof -
    define m where "m = nat (P u)"
    have m: "P u = int m" "m < n" using assms that by (simp_all add: m_def nat_less_iff)
    have "(\<Sum>k<n. of_bool (P v \<noteq> P u \<and> P u = int k)) = (\<Sum>k<n. if k = m then of_bool (P v \<noteq> P u) else (0 :: int))"
      by (rule sum.cong) (auto simp: m)
    also have "\<dots> = of_bool (P v \<noteq> P u)" using m by simp
    finally show ?thesis .
  qed
  have "(\<Sum>k<n. pairs g (\<lambda>v u. P v \<noteq> P u \<and> P u = int k)) =
      (\<Sum>v\<in>set (Vertexs g). \<Sum>u\<in>set (Vertexs g). arcs g v u * (\<Sum>k<n. of_bool (P v \<noteq> P u \<and> P u = int k)))"
    unfolding pairs_def sum_distrib_left by (subst sum.swap, rule sum.cong [OF refl]) (rule sum.swap)
  also have "\<dots> = crossing g P" unfolding crossing_def pairs_def by (intro sum.cong refl) (simp only: one)
  finally show ?thesis .
qed

lemma ComputeEdges2Shard_ok:
  assumes ok: "clpa_ok cs" and rng: "\<And>xs. mset (rng xs) = mset xs"
  obtains es c m where "ComputeEdges2Shard rng cs = Inr (cs\<lparr> Edges2Shard := es, CrossShardEdgeNum := c, MinEdges2Shard := m \<rparr>)"
    "edges_ok (cs\<lparr> Edges2Shard := es, CrossShardEdgeNum := c, MinEdges2Shard := m \<rparr>)"
proof -
  let ?g = "NetGraph cs" and ?P = "shard_of cs"
  define n where "n = nat (ShardNum cs)"
  have n: "0 < n" "ShardNum cs = int n" using ok by (auto simp: clpa_ok_def n_def)
  have g: "graph_ok ?g" "symmetric ?g" "loop_free ?g" using ok by (auto simp: clpa_ok_def)
  have P: "0 \<le> ?P v \<and> ?P v < int n" if "v \<in> set (Vertexs ?g)" for v using ok that n by (auto simp: clpa_ok_def)
  have keys: "set (edge_keys rng ?g) \<subseteq> set (Vertexs ?g)"
    using arg_cong [OF rng, of set_mset] by (auto simp: edge_keys_def)
  have sub: "set (neighbours ?g v) \<subseteq> set (Vertexs ?g)" for v using g(1) by (auto simp: graph_ok_def)
  have "\<forall>v\<in>set (edge_keys rng ?g). 0 \<le> ?P v \<and> ?P v < int n \<and> (\<forall>u\<in>set (neighbours ?g v). 0 \<le> ?P u \<and> ?P u < int n)"
    using keys sub P by blast
  from count_all_arcs [OF this, of "replicate n 0" "replicate n 0"] obtain es "is" where
    run: "fold_res (\<lambda>v. fold_res (count_arc cs v) (neighbours ?g v)) (edge_keys rng ?g) (replicate n 0, replicate n 0) = Inr (es, is)"
    and len: "length es = n" "length is = n"
    and es: "\<forall>k<n. es ! k = pairs ?g (\<lambda>v u. ?P v \<noteq> ?P u \<and> ?P u = int k)"
    and ins: "\<forall>k<n. is ! k = pairs ?g (\<lambda>v u. ?P v = int k \<and> ?P u = int k)"
    by (auto simp: pairs_as_loops [where rng = rng, OF g(1) rng])
  define es' where "es' = map2 (\<lambda>e i. e + i div 2) es is"
  define cs' where "cs' = cs\<lparr> Edges2Shard := es', CrossShardEdgeNum := sum_list es div 2,
      MinEdges2Shard := min_edges 2147483647 es' \<rparr>"
  have "ComputeEdges2Shard rng cs = Inr cs'"
    using run n by (simp add: ComputeEdges2Shard_def make_ints_def cs'_def es'_def Let_def)
  moreover have twice: "2 * es' ! k = touching ?g ?P (int k)" if "k < n" for k
  proof -
    have "even (is ! k)" using ins that pairs_even [OF g(2,3)] by (metis (mono_tags, lifting) conj_commute)
    then show ?thesis using that es ins len touching_parts [OF g(2), of ?P "int k"] by (simp add: es'_def)
  qed
  moreover have "2 * (sum_list es div 2) = crossing ?g ?P"
  proof -
    have "sum_list es = (\<Sum>k<n. es ! k)" by (simp add: sum_list_sum_nth len atLeast0LessThan)
    also have "\<dots> = (\<Sum>k<n. pairs ?g (\<lambda>v u. ?P v \<noteq> ?P u \<and> ?P u = int k))" using es by (intro sum.cong) auto
    also have "\<dots> = crossing ?g ?P" using P by (intro crossing_parts) auto
    finally have "sum_list es = crossing ?g ?P" .
    moreover have "even (crossing ?g ?P)" unfolding crossing_def by (rule pairs_even [OF g(2,3)]) auto
    ultimately show ?thesis by simp
  qed
  moreover have "min_edges 2147483647 es' = Min (set es')"
  proof -
    have l: "length es' = n" by (simp add: es'_def len)
    have "2 * es' ! 0 \<le> 2 * 2147483647"
      using twice [of 0] n pairs_mono [of "\<lambda>v u. ?P v = 0 \<or> ?P u = 0" "\<lambda>_ _. True" ?g] ok
      by (simp add: touching_def clpa_ok_def)
    moreover have in_es: "es' ! 0 \<in> set es'" using l n by simp
    ultimately have "Min (set es') \<le> 2147483647" using Min_le [OF List.finite_set in_es] by linarith
    moreover have "set es' \<noteq> {}" using in_es by auto
    ultimately show ?thesis by (simp add: min_edges_Min Min_insert min_absorb2)
  qed
  ultimately show thesis
    by (intro that [where es = es' and c = "sum_list es div 2" and m = "min_edges 2147483647 es'"])
      (simp_all add: edges_ok_def cs'_def n_def [symmetric] es'_def len)
qed

text \<open>The books of a partition are determined, so right ones are a fixed point of the recomputation.\<close>

lemma edges_ok_fixpoint:
  assumes ok: "clpa_ok cs" and rng: "\<And>xs. mset (rng xs) = mset xs" and e: "edges_ok cs"
  shows "ComputeEdges2Shard rng cs = Inr cs"
proof -
  obtain es c m where r: "ComputeEdges2Shard rng cs = Inr (cs\<lparr> Edges2Shard := es, CrossShardEdgeNum := c, MinEdges2Shard := m \<rparr>)"
    and e': "edges_ok (cs\<lparr> Edges2Shard := es, CrossShardEdgeNum := c, MinEdges2Shard := m \<rparr>)"
    by (rule ComputeEdges2Shard_ok [OF ok rng])
  have "es = Edges2Shard cs"
  proof (rule nth_equalityI)
    show "length es = length (Edges2Shard cs)" using e e' by (simp add: edges_ok_def)
    show "es ! k = Edges2Shard cs ! k" if "k < length es" for k
    proof -
      have "2 * es ! k = 2 * Edges2Shard cs ! k" using e e' that by (simp add: edges_ok_def)
      then show ?thesis by simp
    qed
  qed
  moreover from this have "c = CrossShardEdgeNum cs" "m = MinEdges2Shard cs"
    using e e' by (simp_all add: edges_ok_def)
  ultimately show ?thesis using r by simp
qed

section \<open>A move\<close>

lemma touching_move:
  assumes g: "symmetric g" "loop_free g" "x \<in> set (Vertexs g)" "set (neighbours g x) \<subseteq> set (Vertexs g)"
    and ab: "P x = a" "a \<noteq> b"
  shows "touching g (P(x := b)) k = touching g P k
      + 2 * (\<Sum>u\<leftarrow>neighbours g x. of_bool (k = b \<and> P u \<noteq> b) - of_bool (k = a \<and> P u \<noteq> a))"
    and "crossing g (P(x := b)) = crossing g P
      + 2 * (\<Sum>u\<leftarrow>neighbours g x. of_bool (P u = a) - of_bool (P u = b))"
proof -
  have no_loop: "u \<noteq> x" if "u \<in> set (neighbours g x)" for u using g(2) that by (auto simp: loop_free_def)
  have "touching g (P(x := b)) k = touching g P k
      + 2 * (\<Sum>u\<leftarrow>neighbours g x. of_bool ((P(x := b)) x = k \<or> (P(x := b)) u = k) - of_bool (P x = k \<or> P u = k))"
    unfolding touching_def by (rule pairs_change [OF g(1-3) _ _ _ g(4)]) auto
  also have "(\<Sum>u\<leftarrow>neighbours g x. of_bool ((P(x := b)) x = k \<or> (P(x := b)) u = k) - of_bool (P x = k \<or> P u = k))
      = (\<Sum>u\<leftarrow>neighbours g x. of_bool (k = b \<and> P u \<noteq> b) - of_bool (k = a \<and> P u \<noteq> a) :: int)"
    by (rule arg_cong [where f = sum_list], rule map_cong) (use no_loop ab in auto)
  finally show "touching g (P(x := b)) k = touching g P k
      + 2 * (\<Sum>u\<leftarrow>neighbours g x. of_bool (k = b \<and> P u \<noteq> b) - of_bool (k = a \<and> P u \<noteq> a))" .
  have "crossing g (P(x := b)) = crossing g P
      + 2 * (\<Sum>u\<leftarrow>neighbours g x. of_bool ((P(x := b)) x \<noteq> (P(x := b)) u) - of_bool (P x \<noteq> P u))"
    unfolding crossing_def by (rule pairs_change [OF g(1-3) _ _ _ g(4)]) auto
  also have "(\<Sum>u\<leftarrow>neighbours g x. of_bool ((P(x := b)) x \<noteq> (P(x := b)) u) - of_bool (P x \<noteq> P u))
      = (\<Sum>u\<leftarrow>neighbours g x. of_bool (P u = a) - of_bool (P u = b) :: int)"
    by (rule arg_cong [where f = sum_list], rule map_cong) (use no_loop ab in auto)
  finally show "crossing g (P(x := b)) = crossing g P
      + 2 * (\<Sum>u\<leftarrow>neighbours g x. of_bool (P u = a) - of_bool (P u = b))" .
qed

lemma ComputeEdges2Shard1_ok:
  assumes g: "symmetric (NetGraph cs)" "loop_free (NetGraph cs)" "graph_ok (NetGraph cs)" "x \<in> set (Vertexs (NetGraph cs))"
    and e: "edges_ok cs" and n: "ShardNum cs = int n"
    and ab: "shard_of cs x = a" "a \<noteq> b" "0 \<le> a" "a < int n" "0 \<le> b" "b < int n"
    and cs1: "cs1 = cs\<lparr> PartitionMap := (PartitionMap cs)(x \<mapsto> b), VertexsNumInShard := ns \<rparr>"
  obtains es c m where "ComputeEdges2Shard1 x a cs1 = Inr (cs1\<lparr> Edges2Shard := es, CrossShardEdgeNum := c, MinEdges2Shard := m \<rparr>)"
    "edges_ok (cs1\<lparr> Edges2Shard := es, CrossShardEdgeNum := c, MinEdges2Shard := m \<rparr>)"
proof -
  let ?g = "NetGraph cs"
  have P1: "shard_of cs1 = (shard_of cs)(x := b)" by (simp add: cs1)
  have nb: "set (neighbours ?g x) \<subseteq> set (Vertexs ?g)" using g(3) by (auto simp: graph_ok_def)
  have same: "shard_of cs1 u = shard_of cs u" if "u \<in> set (neighbours ?g x)" for u
    using g(2) that by (auto simp: P1 loop_free_def)
  have "length (Edges2Shard cs1) = n" using e n by (simp add: cs1 edges_ok_def)
  from move_arcs [OF _ ab(2-6) this, of cs1 x "neighbours ?g x" "CrossShardEdgeNum cs1"] obtain es c where
    run: "fold_res (move_arc cs1 x a) (neighbours ?g x) (Edges2Shard cs1, CrossShardEdgeNum cs1) = Inr (es, c)"
    and len: "length es = n"
    and es: "\<forall>k<n. es ! k = Edges2Shard cs ! k
        + (\<Sum>u\<leftarrow>neighbours ?g x. of_bool (int k = b \<and> shard_of cs1 u \<noteq> b) - of_bool (int k = a \<and> shard_of cs1 u \<noteq> a))"
    and c: "c = CrossShardEdgeNum cs + (\<Sum>u\<leftarrow>neighbours ?g x. of_bool (shard_of cs1 u = a) - of_bool (shard_of cs1 u = b))"
    by (auto simp: P1 cs1)
  define m where "m = min_edges (es ! 0) es"
  have n0: "0 < n" using ab by simp
  have eq: "(\<Sum>u\<leftarrow>neighbours ?g x. F (shard_of cs1 u)) = (\<Sum>u\<leftarrow>neighbours ?g x. F (shard_of cs u))" for F :: "int \<Rightarrow> int"
    by (rule arg_cong [where f = sum_list], rule map_cong) (simp_all add: same)
  note move = touching_move [where P = "shard_of cs", OF g(1,2,4) nb ab(1,2)]
  have run1: "ComputeEdges2Shard1 x a cs1 = Inr (cs1\<lparr> Edges2Shard := es, CrossShardEdgeNum := c, MinEdges2Shard := m \<rparr>)"
    using run len n0 by (auto simp: ComputeEdges2Shard1_def slice_at_def m_def cs1)
  have twice: "2 * es ! k = touching ?g (shard_of cs1) (int k)" if "k < n" for k
  proof -
    have "2 * Edges2Shard cs ! k = touching ?g (shard_of cs) (int k)" using e n that by (simp add: edges_ok_def)
    then show ?thesis
      using es that move(1) [of "int k"] eq [of "\<lambda>s. of_bool (int k = b \<and> s \<noteq> b) - of_bool (int k = a \<and> s \<noteq> a)"]
      by (simp add: P1)
  qed
  have "2 * c = crossing ?g (shard_of cs1)"
  proof -
    have "2 * CrossShardEdgeNum cs = crossing ?g (shard_of cs)" using e by (simp add: edges_ok_def)
    then show ?thesis using c move(2) eq [of "\<lambda>s. of_bool (s = a) - of_bool (s = b)"] by (simp add: P1)
  qed
  moreover have "m = Min (set es)"
  proof -
    have "es ! 0 \<in> set es" using len n0 by simp
    then show ?thesis by (simp add: m_def min_edges_Min insert_absorb)
  qed
  ultimately have "edges_ok (cs1\<lparr> Edges2Shard := es, CrossShardEdgeNum := c, MinEdges2Shard := m \<rparr>)"
    using len n twice by (simp add: edges_ok_def cs1)
  with run1 show thesis by (rule that)
qed

section \<open>The run\<close>

definition run_ok :: "CLPAState \<Rightarrow> clpa_run \<Rightarrow> bool" where
  "run_ok cs0 st \<longleftrightarrow> clpa_ok (cr_state st) \<and> edges_ok (cr_state st)
     \<and> NetGraph (cr_state st) = NetGraph cs0 \<and> ShardNum (cr_state st) = ShardNum cs0
     \<and> distinct (cr_addrs st) \<and> set (cr_addrs st) = dom (cr_res st)
     \<and> set (cr_addrs st) \<subseteq> vx_Addr ` set (Vertexs (NetGraph cs0))
     \<and> (\<forall>v\<in>set (Vertexs (NetGraph cs0)).
          (case cr_res st (vx_Addr v) of
             None \<Rightarrow> shard_of (cr_state st) v = shard_of cs0 v
           | Some w \<Rightarrow> w = word_of_int (shard_of (cr_state st) v)))
     \<and> (\<forall>k<nat (ShardNum cs0). VertexsNumInShard cs0 ! k > 0 \<longrightarrow> VertexsNumInShard (cr_state st) ! k > 0)"

lemma getShard_score_total:
  assumes "0 \<le> s" "s < int (length (Edges2Shard cs))"
  shows "\<exists>x. getShard_score rnd cs v s = Inr x"
  using assms by (simp add: getShard_score_def slice_in_range Let_def)

lemma score_neighbours:
  assumes "\<And>u. u \<in> set us \<Longrightarrow> 0 \<le> shard_of cs u \<and> shard_of cs u < int (length (Edges2Shard cs))"
  shows "\<exists>sc' m' b'. fold_res (score_neighbour rnd cs v) us (sc, m, b) = Inr (sc', m', b')
    \<and> (b' = b \<or> b' \<in> shard_of cs ` set us)"
  using assms
proof (induction us arbitrary: sc m b)
  case (Cons u us)
  obtain x where x: "getShard_score rnd cs v (shard_of cs u) = Inr x"
    using getShard_score_total [of "shard_of cs u" cs] Cons.prems by fastforce
  define r where "r = (if sc (shard_of cs u) \<noteq> None then (sc, m, b)
     else if f64_less m x then (sc(shard_of cs u \<mapsto> x), x, shard_of cs u) else (sc(shard_of cs u \<mapsto> x), m, b))"
  obtain sc1 m1 b1 where r1: "r = (sc1, m1, b1)" by (cases r)
  have s: "score_neighbour rnd cs v u (sc, m, b) = Inr (sc1, m1, b1)"
    using x by (simp add: score_neighbour_def Let_def r_def flip: r1)
  have b1: "b1 = b \<or> b1 = shard_of cs u" using r1 by (auto simp: r_def split: if_splits)
  from Cons.IH [of sc1 m1 b1] Cons.prems s b1 show ?case by auto
qed simp

lemma filter_length_update:
  assumes "distinct vs" "x \<in> set vs" "P x \<noteq> b"
  shows "int (length (filter (\<lambda>v. (P(x := b)) v = k) vs)) =
    int (length (filter (\<lambda>v. P v = k) vs)) + of_bool (k = b) - of_bool (k = P x)"
  using assms(1,2)
proof (induction vs)
  case (Cons v vs)
  show ?case
  proof (cases "v = x")
    case True
    have "filter (\<lambda>v. (P(x := b)) v = k) vs = filter (\<lambda>v. P v = k) vs"
      using Cons.prems(1) True by (intro filter_cong) auto
    then show ?thesis using True assms(3) by auto
  next
    case False
    with Cons show ?thesis by auto
  qed
qed simp

lemma clpa_move_ok:
  assumes run: "run_ok cs0 st" and x: "x \<in> set (Vertexs (NetGraph cs0))"
    and a: "shard_of (cr_state st) x = a" "a \<noteq> b"
    and b: "0 \<le> b" "b < ShardNum cs0"
    and many: "VertexsNumInShard (cr_state st) ! nat a > 1"
  shows "\<exists>st'. clpa_move x a b st = Inr st' \<and> run_ok cs0 st'"
proof -
  let ?cs = "cr_state st" and ?g = "NetGraph cs0"
  define n where "n = nat (ShardNum cs0)"
  have ok: "clpa_ok ?cs" "edges_ok ?cs" "NetGraph ?cs = ?g" "ShardNum ?cs = int n"
    using run by (auto simp: run_ok_def n_def clpa_ok_def)
  have g: "symmetric (NetGraph ?cs)" "loop_free (NetGraph ?cs)" "graph_ok (NetGraph ?cs)"
    using ok(1) by (auto simp: clpa_ok_def)
  have x': "x \<in> set (Vertexs (NetGraph ?cs))" using x ok(3) by simp
  have ra: "0 \<le> a" "a < int n" using ok(1,4) x' a(1) by (auto simp: clpa_ok_def)
  have rb: "0 \<le> b" "b < int n" using b ok(4) run by (auto simp: run_ok_def)
  have len: "length (VertexsNumInShard ?cs) = n" using ok(1,4) by (simp add: clpa_ok_def)
  obtain ns1 where ns1: "slice_upd a (\<lambda>n. n - 1) (VertexsNumInShard ?cs) = Inr ns1" "length ns1 = n"
    "\<forall>k<n. ns1 ! k = (if int k = a then VertexsNumInShard ?cs ! k - 1 else VertexsNumInShard ?cs ! k)"
    by (rule slice_upd_at [OF ra len, of "\<lambda>n. n - 1"])
  obtain ns where ns: "slice_upd b (\<lambda>n. n + 1) ns1 = Inr ns" "length ns = n"
    "\<forall>k<n. ns ! k = (if int k = b then ns1 ! k + 1 else ns1 ! k)"
    by (rule slice_upd_at [OF rb ns1(2), of "\<lambda>n. n + 1"])
  define cs1 where "cs1 = ?cs\<lparr> PartitionMap := (PartitionMap ?cs)(x \<mapsto> b), VertexsNumInShard := ns \<rparr>"
  obtain es c m where r: "ComputeEdges2Shard1 x a cs1 = Inr (cs1\<lparr> Edges2Shard := es, CrossShardEdgeNum := c, MinEdges2Shard := m \<rparr>)"
    and e: "edges_ok (cs1\<lparr> Edges2Shard := es, CrossShardEdgeNum := c, MinEdges2Shard := m \<rparr>)"
    by (rule ComputeEdges2Shard1_ok [OF g x' ok(2,4) a ra rb cs1_def])
  define cs2 where "cs2 = cs1\<lparr> Edges2Shard := es, CrossShardEdgeNum := c, MinEdges2Shard := m \<rparr>"
  define st' where "st' = \<lparr> cr_state = cs2,
      cr_updates = (cr_updates st)(vx_Addr x \<mapsto> (case cr_updates st (vx_Addr x) of None \<Rightarrow> 0 | Some n \<Rightarrow> n) + 1),
      cr_addrs = (if cr_res st (vx_Addr x) = None then cr_addrs st @ [vx_Addr x] else cr_addrs st),
      cr_res = (cr_res st)(vx_Addr x \<mapsto> word_of_int b) \<rparr>"
  have move: "clpa_move x a b st = Inr st'"
    using ns1(1) ns(1) r by (simp add: clpa_move_def Let_def cs1_def cs2_def st'_def)
  have P2: "shard_of cs2 = (shard_of ?cs)(x := b)" by (simp add: cs2_def cs1_def)
  have sel: "NetGraph cs2 = ?g" "ShardNum cs2 = int n" "VertexsNumInShard cs2 = ns"
    "PartitionMap cs2 = (PartitionMap ?cs)(x \<mapsto> b)"
    using ok(3,4) by (simp_all add: cs2_def cs1_def)
  have d: "distinct (Vertexs ?g)" using g(3) ok(3) by (simp add: graph_ok_def indexed_def)
  have at: "ns ! k = VertexsNumInShard ?cs ! k + of_bool (int k = b) - of_bool (int k = a)" if "k < n" for k
    using that ns(3) ns1(3) by auto
  have count: "ns ! k = int (length (filter (\<lambda>v. shard_of cs2 v = int k) (Vertexs ?g)))" if "k < n" for k
  proof -
    have "VertexsNumInShard ?cs ! k = int (length (filter (\<lambda>v. shard_of ?cs v = int k) (Vertexs ?g)))"
      using ok that by (simp add: clpa_ok_def)
    then show ?thesis
      using at [OF that] filter_length_update [OF d x, of "shard_of ?cs" b "int k"] a by (simp add: P2)
  qed
  have cs0: "ShardNum cs0 = int n" "nat (ShardNum cs0) = n" using ok(4) run by (auto simp: run_ok_def n_def)
  have st': "cr_state st' = cs2" by (simp add: st'_def)
  have addrs: "distinct (cr_addrs st')" "set (cr_addrs st') = dom (cr_res st')"
    "set (cr_addrs st') \<subseteq> vx_Addr ` set (Vertexs ?g)"
    using run x by (auto simp: st'_def run_ok_def)
  have ok2: "clpa_ok cs2"
    using ok(1,3,4) sel x ns(2) rb count by (auto simp: clpa_ok_def P2)
  have pos: "\<forall>k<n. VertexsNumInShard cs0 ! k > 0 \<longrightarrow> ns ! k > 0"
  proof (intro allI impI)
    fix k assume k: "k < n" "VertexsNumInShard cs0 ! k > 0"
    then have "VertexsNumInShard ?cs ! k > 0" using run by (simp add: run_ok_def n_def)
    with at [OF k(1)] many show "ns ! k > 0" by (cases "int k = a") auto
  qed
  have res: "(case cr_res st' (vx_Addr v) of None \<Rightarrow> shard_of cs2 v = shard_of cs0 v
      | Some w \<Rightarrow> w = word_of_int (shard_of cs2 v))" if "v \<in> set (Vertexs ?g)" for v
  proof (cases "v = x")
    case True
    then show ?thesis by (simp add: st'_def P2)
  next
    case False
    then have "vx_Addr v \<noteq> vx_Addr x" by (metis Vertex.exhaust_sel)
    with False run that show ?thesis by (auto simp: st'_def P2 run_ok_def split: option.splits)
  qed
  have "run_ok cs0 st'"
    unfolding run_ok_def st' sel cs0 nat_int
    by (intro conjI ballI ok2 e [folded cs2_def] addrs pos res refl)
  with move show ?thesis by blast
qed

lemma clpa_step_ok:
  assumes run: "run_ok cs0 st" and x: "x \<in> set (Vertexs (NetGraph cs0))"
  shows "\<exists>st'. clpa_step rnd x st = Inr st' \<and> run_ok cs0 st'"
proof -
  let ?cs = "cr_state st" and ?a = "shard_of (cr_state st) x"
  have ok: "clpa_ok ?cs" "edges_ok ?cs" "NetGraph ?cs = NetGraph cs0" "ShardNum ?cs = ShardNum cs0"
    using run by (auto simp: run_ok_def)
  have len: "length (Edges2Shard ?cs) = nat (ShardNum cs0)" "length (VertexsNumInShard ?cs) = nat (ShardNum cs0)"
    using ok by (auto simp: edges_ok_def clpa_ok_def)
  have range: "0 \<le> shard_of ?cs v \<and> shard_of ?cs v < ShardNum cs0" if "v \<in> set (Vertexs (NetGraph cs0))" for v
    using ok that by (auto simp: clpa_ok_def)
  have sub: "set (neighbours (NetGraph cs0) x) \<subseteq> set (Vertexs (NetGraph cs0))"
    using ok(1,3) by (auto simp: clpa_ok_def graph_ok_def)
  have nbs: "0 \<le> shard_of ?cs u \<and> shard_of ?cs u < int (length (Edges2Shard ?cs))"
    if "u \<in> set (neighbours (NetGraph ?cs) x)" for u
    using range [of u] sub that len(1) ok(3) by (auto split: if_splits)
  from score_neighbours [where rnd = rnd and v = x and sc = Map.empty and m = "rnd (- 9999)" and b = ?a and cs = ?cs,
      OF nbs] obtain sc m b where
    scores: "fold_res (score_neighbour rnd ?cs x) (neighbours (NetGraph ?cs) x) (Map.empty, rnd (- 9999), ?a) = Inr (sc, m, b)"
    and b: "b = ?a \<or> b \<in> shard_of ?cs ` set (neighbours (NetGraph ?cs) x)" by blast
  have rb: "0 \<le> b" "b < ShardNum cs0" using b range [OF x] range sub ok(3) by auto
  have num: "slice_at (VertexsNumInShard ?cs) ?a = Inr (VertexsNumInShard ?cs ! nat ?a)"
    using range [OF x] len(2) by (intro slice_in_range) auto
  show ?thesis
  proof (cases "?a \<noteq> b \<and> VertexsNumInShard ?cs ! nat ?a > 1")
    case True
    with clpa_move_ok [OF run x refl _ rb] obtain st' where "clpa_move x ?a b st = Inr st'" "run_ok cs0 st'" by blast
    with True scores num run show ?thesis by (simp add: clpa_step_def Let_def)
  next
    case False
    with scores num run show ?thesis by (auto simp: clpa_step_def Let_def)
  qed
qed

lemma clpa_iteration_ok:
  assumes "run_ok cs0 st"
  shows "\<exists>st'. clpa_iteration rnd st = Inr st' \<and> run_ok cs0 st'"
proof -
  have "NetGraph (cr_state st) = NetGraph cs0" using assms by (simp add: run_ok_def)
  with fold_res_total [where P = "run_ok cs0", OF assms clpa_step_ok] show ?thesis
    by (simp add: clpa_iteration_def)
qed

lemma CLPA_Partition_ok:
  assumes ok: "clpa_ok cs" and rng: "\<And>xs. mset (rng xs) = mset xs"
  shows "\<exists>st. CLPA_Partition rnd rng cs = Inr st \<and> run_ok cs st"
proof -
  obtain es c m where r: "ComputeEdges2Shard rng cs = Inr (cs\<lparr> Edges2Shard := es, CrossShardEdgeNum := c, MinEdges2Shard := m \<rparr>)"
    and e: "edges_ok (cs\<lparr> Edges2Shard := es, CrossShardEdgeNum := c, MinEdges2Shard := m \<rparr>)"
    by (rule ComputeEdges2Shard_ok [OF ok rng])
  have "run_ok cs \<lparr> cr_state = cs\<lparr> Edges2Shard := es, CrossShardEdgeNum := c, MinEdges2Shard := m \<rparr>,
      cr_updates = Map.empty, cr_addrs = [], cr_res = Map.empty \<rparr>"
    using ok e by (simp add: run_ok_def clpa_ok_def)
  from fold_res_total [where P = "run_ok cs", OF this clpa_iteration_ok] r show ?thesis
    by (simp add: CLPA_Partition_def)
qed

section \<open>The graph of the client\<close>

definition memo_in_range :: "ChainConfig \<Rightarrow> Globals \<Rightarrow> bool" where
  "memo_in_range cfg g \<longleftrightarrow> (\<forall>s\<in>ran (Account2Shard g). 0 \<le> s \<and> s < Shard_num cfg)"

text \<open>What holds while the graph is built; the bound on the edges comes at the end.\<close>

definition build_ok :: "ChainConfig \<Rightarrow> nat \<Rightarrow> CLPAState \<times> Globals \<Rightarrow> bool" where
  "build_ok cfg k = (\<lambda>(cs, g). memo_in_range cfg g
     \<and> graph_ok (NetGraph cs) \<and> symmetric (NetGraph cs) \<and> loop_free (NetGraph cs) \<and> ShardNum cs = Shard_num cfg
     \<and> dom (PartitionMap cs) = set (Vertexs (NetGraph cs))
     \<and> (\<forall>v\<in>set (Vertexs (NetGraph cs)). 0 \<le> shard_of cs v \<and> shard_of cs v < Shard_num cfg
          \<and> Account2Shard g (vx_Addr v) = Some (shard_of cs v))
     \<and> length (VertexsNumInShard cs) = nat (Shard_num cfg)
     \<and> (\<forall>k<nat (Shard_num cfg). VertexsNumInShard cs ! k
          = int (length (filter (\<lambda>v. shard_of cs v = int k) (Vertexs (NetGraph cs)))))
     \<and> pairs (NetGraph cs) (\<lambda>_ _. True) \<le> 2 * int k)"

lemma Addr2Shard_ok:
  assumes "memo_in_range cfg g" "hex_digits (drop (length a - 5) a)" "5 \<le> length a" "0 < Shard_num cfg"
  shows "\<exists>s g'. Addr2Shard cfg a g = Inr (s, g') \<and> 0 \<le> s \<and> s < Shard_num cfg \<and> memo_in_range cfg g'
    \<and> Account2Shard g' = (Account2Shard g)(a \<mapsto> s) \<and> (Account2Shard g a \<noteq> None \<longrightarrow> g' = g)"
proof (cases "Account2Shard g a")
  case None
  obtain s where s: "utils_Addr2Shard cfg a = Inr s" "0 \<le> s" "s < Shard_num cfg"
    using utils_Addr2Shard_range [OF assms(2-4)] by blast
  then show ?thesis
    using assms(1) None by (auto simp: Addr2Shard_unknown [OF None] Let_def memo_in_range_def ran_def)
next
  case (Some s)
  then have "0 \<le> s \<and> s < Shard_num cfg" using assms(1) by (auto simp: memo_in_range_def ran_def)
  with Some assms(1) show ?thesis by (auto simp: Addr2Shard_def fun_upd_idem)
qed

definition good_addr :: "addr \<Rightarrow> bool" where
  "good_addr a \<longleftrightarrow> hex_digits (drop (length a - 5) a) \<and> 5 \<le> length a"

lemma pairs_all:
  assumes "graph_ok g"
  shows "pairs g (\<lambda>_ _. True) = (\<Sum>v\<in>set (Vertexs g). int (length (neighbours g v)))"
proof -
  have "(\<Sum>u\<in>set (Vertexs g). arcs g v u) = int (length (neighbours g v))" for v
    using assms sum_count_set [of "neighbours g v" "set (Vertexs g)"]
    by (simp add: arcs_def graph_ok_def flip: of_nat_sum)
  then show ?thesis by (simp add: pairs_def)
qed

lemma neighbours_of_new:
  assumes "graph_ok g" "v \<notin> set (Vertexs g)"
  shows "neighbours g v = []" "\<And>u. v \<notin> set (neighbours g u)"
  using assms by (auto simp: graph_ok_def neighbours_def split: option.splits)

lemma need_vertex_ok:
  assumes st: "build_ok cfg k (cs, g)" and a: "good_addr (vx_Addr v)" and n: "0 < Shard_num cfg"
  shows "\<exists>cs' g'. clpa_need_vertex cfg v (cs, g) = Inr (cs', g') \<and> build_ok cfg k (cs', g')
    \<and> NetGraph cs' = graph_AddVertex v (NetGraph cs) \<and> WeightPenalty cs' = WeightPenalty cs"
proof (cases "v \<in> set (Vertexs (NetGraph cs))")
  case True
  then have "VertexSet (NetGraph cs) v \<noteq> None"
    using st indexed_vertex by (auto simp: build_ok_def graph_ok_def)
  then show ?thesis using st by (auto simp: clpa_need_vertex_def graph_AddVertex_def)
next
  case False
  let ?g = "NetGraph cs"
  have gok: "graph_ok ?g" "indexed ?g" and memo: "memo_in_range cfg g"
    and pm: "dom (PartitionMap cs) = set (Vertexs ?g)" and len: "length (VertexsNumInShard cs) = nat (Shard_num cfg)"
    using st by (auto simp: build_ok_def graph_ok_def)
  have none: "VertexSet ?g v = None" "PartitionMap cs v = None"
    using False pm indexed_vertex [OF gok(2)] by auto
  obtain s g' where s: "Addr2Shard cfg (vx_Addr v) g = Inr (s, g')" "0 \<le> s" "s < Shard_num cfg"
    "memo_in_range cfg g'" "Account2Shard g' = (Account2Shard g)(vx_Addr v \<mapsto> s)"
    using Addr2Shard_ok [OF memo, of "vx_Addr v"] a n by (auto simp: good_addr_def)
  obtain ns where ns: "slice_upd s (\<lambda>n. n + 1) (VertexsNumInShard cs) = Inr ns" "length ns = nat (Shard_num cfg)"
    "\<forall>k<nat (Shard_num cfg). ns ! k = (if int k = s then VertexsNumInShard cs ! k + 1 else VertexsNumInShard cs ! k)"
    by (rule slice_upd_at [OF s(2) _ len, of "\<lambda>n. n + 1"]) (use s in auto)
  define cs' where "cs' = cs\<lparr> NetGraph := graph_AddVertex v ?g, PartitionMap := (PartitionMap cs)(v \<mapsto> s), VertexsNumInShard := ns \<rparr>"
  have run: "clpa_need_vertex cfg v (cs, g) = Inr (cs', g')"
    using none s(1) ns(1) by (simp add: clpa_need_vertex_def clpa_AddVertex_def cs'_def)
  have vs: "Vertexs (graph_AddVertex v ?g) = Vertexs ?g @ [v]" using False by (simp add: AddVertex_Vertexs gok)
  have P: "shard_of cs' = (shard_of cs)(v := s)" by (auto simp: cs'_def shard_of_def)
  have old: "filter (\<lambda>w. ((shard_of cs)(v := s)) w = j) (Vertexs ?g) = filter (\<lambda>w. shard_of cs w = j) (Vertexs ?g)" for j
    using False by (intro filter_cong) auto
  have Pv: "Account2Shard g' (vx_Addr w) = Some (((shard_of cs)(v := s)) w)" if "w \<in> set (Vertexs ?g) \<union> {v}" for w
  proof (cases "w = v")
    case False
    then have "vx_Addr w \<noteq> vx_Addr v" by (metis Vertex.exhaust_sel)
    with False that st s(5) show ?thesis by (auto simp: build_ok_def)
  qed (simp add: s(5))
  have same: "symmetric (graph_AddVertex v ?g) = symmetric ?g" "loop_free (graph_AddVertex v ?g) = loop_free ?g"
    by (simp_all add: symmetric_def loop_free_def)
  have "pairs (graph_AddVertex v ?g) (\<lambda>_ _. True) = pairs ?g (\<lambda>_ _. True)"
    using False neighbours_of_new(1) [OF gok(1) False]
    by (simp add: pairs_all gok(1) AddVertex_ok vs)
  then have arcs: "pairs (NetGraph cs') (\<lambda>_ _. True) \<le> 2 * int k" using st by (simp add: build_ok_def cs'_def)
  have count: "ns ! j = int (length (filter (\<lambda>w. shard_of cs' w = int j) (Vertexs ?g @ [v])))"
    if "j < nat (Shard_num cfg)" for j
  proof -
    have "length (filter (\<lambda>w. shard_of cs' w = int j) (Vertexs ?g @ [v]))
        = length (filter (\<lambda>w. shard_of cs w = int j) (Vertexs ?g)) + of_bool (s = int j)"
      unfolding P filter_append old by simp
    with ns(3) that st show ?thesis by (auto simp: build_ok_def)
  qed
  have range: "\<forall>w\<in>set (Vertexs ?g @ [v]). 0 \<le> shard_of cs' w \<and> shard_of cs' w < Shard_num cfg
      \<and> Account2Shard g' (vx_Addr w) = Some (shard_of cs' w)"
    using st s(2,3) Pv by (auto simp: P build_ok_def)
  have sel: "NetGraph cs' = graph_AddVertex v ?g" "ShardNum cs' = ShardNum cs"
    "dom (PartitionMap cs') = insert v (dom (PartitionMap cs))" "VertexsNumInShard cs' = ns"
    by (auto simp: cs'_def)
  have "build_ok cfg k (cs', g')"
    using st s(4) ns(2) count range arcs AddVertex_ok [OF gok(1), of v]
    by (simp add: build_ok_def sel same vs)
  with run show ?thesis by (auto simp: cs'_def)
qed

text \<open>The accounts of the graph: the parties of transactions between two accounts.\<close>

definition parties :: "Transaction list \<Rightarrow> addr set" where
  "parties txs = (\<Union>tx\<in>set txs. if from_addr tx = to_addr tx then {} else {from_addr tx, to_addr tx})"

definition grown :: "CLPAState \<Rightarrow> Transaction list \<Rightarrow> CLPAState \<Rightarrow> bool" where
  "grown cs txs cs' \<longleftrightarrow> vx_Addr ` set (Vertexs (NetGraph cs')) = vx_Addr ` set (Vertexs (NetGraph cs)) \<union> parties txs
     \<and> WeightPenalty cs' = WeightPenalty cs"

lemma clpa_add_tx_ok:
  assumes st: "build_ok cfg k (cs, g)" and a: "good_addr (from_addr tx)" "good_addr (to_addr tx)"
    and n: "0 < Shard_num cfg"
  shows "\<exists>st'. clpa_add_tx cfg tx (cs, g) = Inr st' \<and> build_ok cfg (Suc k) st' \<and> grown cs [tx] (fst st')"
proof (cases "from_addr tx = to_addr tx")
  case True
  then show ?thesis using st by (auto simp: clpa_add_tx_def build_ok_def grown_def parties_def)
next
  case False
  let ?u = "Vertex (from_addr tx)" and ?v = "Vertex (to_addr tx)"
  obtain cs1 g1 where s1: "clpa_need_vertex cfg ?u (cs, g) = Inr (cs1, g1)" "build_ok cfg k (cs1, g1)"
    "NetGraph cs1 = graph_AddVertex ?u (NetGraph cs)" "WeightPenalty cs1 = WeightPenalty cs"
    using need_vertex_ok [OF st, of ?u] a n by auto
  obtain cs2 g2 where s2: "clpa_need_vertex cfg ?v (cs1, g1) = Inr (cs2, g2)" "build_ok cfg k (cs2, g2)"
    "NetGraph cs2 = graph_AddVertex ?v (NetGraph cs1)" "WeightPenalty cs2 = WeightPenalty cs1"
    using need_vertex_ok [OF s1(2), of ?v] a n by auto
  let ?g = "NetGraph cs2"
  have ok: "graph_ok ?g" "symmetric ?g" "loop_free ?g" and ix: "indexed (NetGraph cs1)" "indexed (NetGraph cs)" "indexed ?g"
    using st s1(2) s2(2) by (auto simp: build_ok_def graph_ok_def)
  have uv: "?u \<in> set (Vertexs ?g)" "?v \<in> set (Vertexs ?g)"
    unfolding s2(3) AddVertex_Vertexs [OF ix(1)] unfolding s1(3) AddVertex_Vertexs [OF ix(2)] by auto
  have ne: "?u \<noteq> ?v" using False by simp
  obtain h where h: "graph_AddEdge ?u ?v 0 ?g = Inr h" "graph_ok h"
    "Vertexs h = Vertexs (graph_AddVertex ?v (graph_AddVertex ?u ?g))"
    "neighbours h = (\<lambda>w. neighbours ?g w @ (if 0 = (0 :: int) \<and> w = ?u then [?v] else []) @ (if w = ?v then [?u] else []))"
    by (rule AddEdge_ok [OF ok(1)])
  have nb: "neighbours h = (\<lambda>w. neighbours ?g w @ (if w = ?u then [?v] else []) @ (if w = ?v then [?u] else []))"
    using h(4) by simp
  have vs: "Vertexs h = Vertexs ?g" using h(3) uv ix(3) by (simp add: AddVertex_Vertexs AddVertex_ok [unfolded graph_ok_def] ok graph_AddVertex_def indexed_vertex)
  have "pairs h (\<lambda>_ _. True) = (\<Sum>v\<in>set (Vertexs ?g). int (length (neighbours ?g v)) + (of_bool (v = ?u) + of_bool (v = ?v)))"
    unfolding pairs_all [OF h(2)] vs nb by (rule sum.cong) auto
  also have "\<dots> = pairs ?g (\<lambda>_ _. True) + 2"
  proof -
    have "(\<Sum>v\<in>set (Vertexs ?g). of_bool (v = w)) = (1 :: int)" if "w \<in> set (Vertexs ?g)" for w
      using that by (simp add: of_bool_def)
    then show ?thesis using uv by (simp add: sum.distrib pairs_all [OF ok(1)])
  qed
  finally have arcs: "pairs h (\<lambda>_ _. True) \<le> 2 * int (Suc k)" using s2(2) by (simp add: build_ok_def)
  have "build_ok cfg (Suc k) (cs2\<lparr> NetGraph := h \<rparr>, g2)"
    using s2(2) h(2) arcs symmetric_AddEdge [OF ok(2) nb] loop_free_AddEdge [OF ok(3) ne nb]
    by (simp add: build_ok_def vs)
  moreover have "grown cs [tx] (cs2\<lparr> NetGraph := h \<rparr>)"
  proof -
    have "set (Vertexs h) = set (Vertexs (NetGraph cs)) \<union> {?u, ?v}"
      unfolding vs s2(3) AddVertex_Vertexs [OF ix(1)] unfolding s1(3) AddVertex_Vertexs [OF ix(2)] by auto
    then show ?thesis using False s1(4) s2(4) by (simp add: grown_def parties_def)
  qed
  ultimately show ?thesis using s1(1) s2(1) h(1) False by (simp add: clpa_add_tx_def clpa_AddEdge_def)
qed

lemma grown_Cons:
  assumes "grown cs [tx] cs1" "grown cs1 txs cs2"
  shows "grown cs (tx # txs) cs2"
proof -
  have "parties (tx # txs) = parties [tx] \<union> parties txs" by (auto simp: parties_def)
  with assms show ?thesis by (simp add: grown_def Un_assoc)
qed

lemma clpa_add_txs_ok:
  assumes "build_ok cfg k st" "\<forall>tx\<in>set txs. good_addr (from_addr tx) \<and> good_addr (to_addr tx)" "0 < Shard_num cfg"
  shows "\<exists>st'. fold_res (clpa_add_tx cfg) txs st = Inr st' \<and> build_ok cfg (k + length txs) st' \<and> grown (fst st) txs (fst st')"
  using assms
proof (induction txs arbitrary: st k)
  case (Cons tx txs)
  obtain cs g where st: "st = (cs, g)" by (cases st)
  from clpa_add_tx_ok [of cfg k cs g tx] Cons.prems st obtain st1 where
    "clpa_add_tx cfg tx st = Inr st1" "build_ok cfg (Suc k) st1" "grown (fst st) [tx] (fst st1)" by auto
  moreover from this Cons.IH [of "Suc k" st1] Cons.prems obtain st2 where
    "fold_res (clpa_add_tx cfg) txs st1 = Inr st2" "build_ok cfg (Suc k + length txs) st2" "grown (fst st1) txs (fst st2)" by auto
  ultimately show ?case using grown_Cons by fastforce
qed (simp add: grown_def parties_def)

lemma build_clpa_ok:
  assumes "memo_in_range cfg g" "\<forall>tx\<in>set txs. good_addr (from_addr tx) \<and> good_addr (to_addr tx)" "0 < Shard_num cfg"
    and "length txs \<le> 2147483647"
  obtains cs g' where "build_clpa rnd cfg txs g = Inr (cs, g')" "clpa_ok cs" "ShardNum cs = Shard_num cfg"
    "\<forall>v\<in>set (Vertexs (NetGraph cs)). Account2Shard g' (vx_Addr v) = Some (shard_of cs v)"
    "vx_Addr ` set (Vertexs (NetGraph cs)) = parties txs" "WeightPenalty cs = rnd (1 / 2)"
proof -
  define cs0 where "cs0 = new_CLPAState\<lparr> WeightPenalty := rnd (1 / 2), MaxIterations := 10, ShardNum := Shard_num cfg,
      VertexsNumInShard := replicate (nat (Shard_num cfg)) 0, PartitionMap := Map.empty \<rparr>"
  have init: "Init_CLPAState (rnd (1 / 2)) 10 (Shard_num cfg) new_CLPAState = Inr cs0"
    using assms(3) by (simp add: Init_CLPAState_def make_ints_def cs0_def)
  have "build_ok cfg 0 (cs0, g)"
    using assms(1) by (simp add: build_ok_def cs0_def new_CLPAState_def pairs_def) (simp add: empty_graph_def)
  from clpa_add_txs_ok [OF this assms(2,3)] obtain cs g' where
    r: "fold_res (clpa_add_tx cfg) txs (cs0, g) = Inr (cs, g')" "build_ok cfg (length txs) (cs, g')" "grown cs0 txs cs" by auto
  show thesis
  proof (rule that)
    show "build_clpa rnd cfg txs g = Inr (cs, g')" using init r(1) by (simp add: build_clpa_def)
    show "clpa_ok cs" "ShardNum cs = Shard_num cfg"
      "\<forall>v\<in>set (Vertexs (NetGraph cs)). Account2Shard g' (vx_Addr v) = Some (shard_of cs v)"
      using r(2) assms(3,4) by (auto simp: build_ok_def clpa_ok_def)
    show "vx_Addr ` set (Vertexs (NetGraph cs)) = parties txs" "WeightPenalty cs = rnd (1 / 2)"
      using r(3) by (auto simp: grown_def cs0_def new_CLPAState_def empty_graph_def)
  qed
qed

end
