(* ===== verification/Partition.thy ===== *)
theory Partition
  imports ClpaRun
begin

text \<open>
  What the client obtains from the label propagation: correct books, moves between shards of accounts of
  the transactions, no shard left without an account, and the case in which nothing moves.
\<close>

section \<open>Addresses\<close>

lemma hex_digits_hex_encode: "hex_digits (hex_encode bs)"
proof (induction bs)
  case Nil
  then show ?case by (simp add: hex_encode_def hex_digits_def)
next
  case (Cons b bs)
  have "unat b div 16 < 16" using unsigned_less [of b, where ?'a = nat] by simp
  with Cons show ?case by (simp add: hex_encode_def hex_digits_def)
qed

lemma length_hex_encode: "length (hex_encode bs) = 2 * length bs"
  by (induction bs) (auto simp: hex_encode_def)

lemma good_addr_bytes: "3 \<le> length bs \<Longrightarrow> good_addr (hex_encode bs)"
  by (simp add: good_addr_def hex_digits_drop hex_digits_hex_encode length_hex_encode)

definition long_addresses :: "Transaction list \<Rightarrow> bool" where
  "long_addresses txs \<longleftrightarrow> (\<forall>tx\<in>set txs. 3 \<le> length (Sender tx) \<and> 3 \<le> length (Recipient tx))"

lemma long_good: "long_addresses txs \<Longrightarrow> \<forall>tx\<in>set txs. good_addr (from_addr tx) \<and> good_addr (to_addr tx)"
  by (auto simp: long_addresses_def from_addr_def to_addr_def intro!: good_addr_bytes)

section \<open>Nothing moves\<close>

definition nonneg64 :: "f64 \<Rightarrow> bool" where
  "nonneg64 x \<longleftrightarrow> x = PInf \<or> (\<exists>r\<ge>0. x = Fin r)"

definition nonneg_rounding :: "rounding \<Rightarrow> bool" where
  "nonneg_rounding rnd \<longleftrightarrow> rnd 0 = Fin 0 \<and> (\<forall>q\<ge>0. nonneg64 (rnd q))"

lemma nonneg64_of_int: "nonneg_rounding rnd \<Longrightarrow> 0 \<le> i \<Longrightarrow> nonneg64 (f64_of_int rnd i)"
  by (simp add: nonneg_rounding_def f64_of_int_def)

lemma nonneg64_simps [simp]: "nonneg64 PInf" "nonneg64 (Fin r) \<longleftrightarrow> 0 \<le> r" "\<not> nonneg64 NInf" "\<not> nonneg64 NaN"
  by (auto simp: nonneg64_def)

lemma nonneg64_rnd: "nonneg_rounding rnd \<Longrightarrow> 0 \<le> q \<Longrightarrow> nonneg64 (rnd q)"
  by (simp add: nonneg_rounding_def)

lemma nonneg64_div: "nonneg_rounding rnd \<Longrightarrow> nonneg64 x \<Longrightarrow> nonneg64 y \<Longrightarrow> f64_div rnd x y = NaN \<or> nonneg64 (f64_div rnd x y)"
  by (cases x; cases y) (auto simp: f64_div_def inf64_def sgn64_def nonneg64_rnd)

lemma nonneg64_mul: "nonneg_rounding rnd \<Longrightarrow> nonneg64 x \<Longrightarrow> nonneg64 y \<Longrightarrow> f64_mul rnd x y = NaN \<or> nonneg64 (f64_mul rnd x y)"
  by (cases x; cases y) (auto simp: f64_mul_def inf64_def sgn64_def nonneg64_rnd)

lemma div_zero64: "x = NaN \<or> nonneg64 x \<Longrightarrow> f64_div rnd x (Fin 0) \<in> {PInf, NaN}"
  by (auto simp: nonneg64_def f64_div_def inf64_def split: f64.splits)

lemma sub_inf64: "nonneg64 x \<Longrightarrow> y \<in> {PInf, NaN} \<Longrightarrow> f64_sub rnd x y \<in> {NInf, NaN}"
  by (auto simp: nonneg64_def f64_sub_def f64_add_def f64_neg_def)

lemma mul_inf64: "x = NaN \<or> nonneg64 x \<Longrightarrow> y \<in> {NInf, NaN} \<Longrightarrow> f64_mul rnd x y \<in> {NInf, NaN}"
  by (auto simp: nonneg64_def f64_mul_def inf64_def sgn64_def sgn_if)

lemma not_less64: "y \<in> {NInf, NaN} \<Longrightarrow> \<not> f64_less x y"
  by (auto simp: f64_less_def split: f64.splits)

lemma score_without_edges:
  assumes rnd: "nonneg_rounding rnd" and m: "MinEdges2Shard cs = 0" and wp: "nonneg64 (WeightPenalty cs)"
    and es: "\<And>k. k < length (Edges2Shard cs) \<Longrightarrow> 0 \<le> Edges2Shard cs ! k"
    and s: "getShard_score rnd cs v sh = Inr x"
  shows "x \<in> {NInf, NaN}"
proof -
  define e where "e = Edges2Shard cs ! nat sh"
  have sh: "0 \<le> sh" "sh < int (length (Edges2Shard cs))"
    using s by (auto simp: getShard_score_def slice_at_def Let_def split: if_splits)
  have e: "0 \<le> e" using es [of "nat sh"] sh by (simp add: e_def nat_less_iff)
  have x: "x = f64_mul rnd (f64_div rnd (f64_of_int rnd (int (length (filter (\<lambda>item. shard_of cs item = sh) (neighbours (NetGraph cs) v)))))
      (f64_of_int rnd (int (length (neighbours (NetGraph cs) v)))))
    (f64_sub rnd (f64_of_int rnd 1) (f64_div rnd (f64_mul rnd (WeightPenalty cs) (f64_of_int rnd e)) (f64_of_int rnd 0)))"
    using s sh m by (simp add: getShard_score_def slice_in_range Let_def e_def)
  have zero: "f64_of_int rnd 0 = Fin 0" using rnd by (simp add: nonneg_rounding_def f64_of_int_def)
  show ?thesis
    unfolding x zero
    by (intro mul_inf64 sub_inf64 div_zero64 nonneg64_div nonneg64_mul nonneg64_of_int rnd wp e) auto
qed

lemma scores_without_edges:
  assumes "nonneg_rounding rnd" "MinEdges2Shard cs = 0" "nonneg64 (WeightPenalty cs)"
    and "\<And>k. k < length (Edges2Shard cs) \<Longrightarrow> 0 \<le> Edges2Shard cs ! k"
    and "fold_res (score_neighbour rnd cs v) us (sc, m, b) = Inr (sc', m', b')"
  shows "b' = b"
  using assms(5)
proof (induction us arbitrary: sc m)
  case (Cons u us)
  from Cons.prems obtain r where r: "score_neighbour rnd cs v u (sc, m, b) = Inr r"
    and rest: "fold_res (score_neighbour rnd cs v) us r = Inr (sc', m', b')"
    by (auto simp: bind_res_eq_Inr)
  obtain sc1 where "r = (sc1, m, b)"
    using r not_less64 [OF score_without_edges [OF assms(1-4)]]
    by (auto simp: score_neighbour_def Let_def bind_res_eq_Inr split: if_splits)
  with rest Cons.IH show ?case by blast
qed simp

lemma touching_nonneg: "0 \<le> touching g P k"
  unfolding touching_def pairs_def by (intro sum_nonneg mult_nonneg_nonneg) (auto simp: arcs_def)

lemma step_without_edges:
  assumes rnd: "nonneg_rounding rnd" and run: "run_ok cs0 st" and m: "MinEdges2Shard (cr_state st) = 0"
    and wp: "nonneg64 (WeightPenalty (cr_state st))" and v: "v \<in> set (Vertexs (NetGraph cs0))"
  shows "clpa_step rnd v st = Inr st"
proof -
  let ?cs = "cr_state st"
  have ok: "clpa_ok ?cs" "edges_ok ?cs" "NetGraph ?cs = NetGraph cs0" using run by (auto simp: run_ok_def)
  have es: "0 \<le> Edges2Shard ?cs ! k" if "k < length (Edges2Shard ?cs)" for k
  proof -
    have "2 * Edges2Shard ?cs ! k = touching (NetGraph ?cs) (shard_of ?cs) (int k)"
      using ok(2) that by (simp add: edges_ok_def)
    then show ?thesis using touching_nonneg [of "NetGraph ?cs" "shard_of ?cs" "int k"] by linarith
  qed
  obtain st' where st': "clpa_step rnd v st = Inr st'" using clpa_step_ok [OF run v] by blast
  show ?thesis
  proof (cases "(case cr_updates st (vx_Addr v) of None \<Rightarrow> 0 | Some n \<Rightarrow> n) \<ge> 1000")
    case True
    then show ?thesis by (simp add: clpa_step_def Let_def)
  next
    case False
    with st' obtain sc m' b' where
      f: "fold_res (score_neighbour rnd ?cs v) (neighbours (NetGraph ?cs) v) (Map.empty, rnd (- 9999), shard_of ?cs v) = Inr (sc, m', b')"
      by (auto simp: clpa_step_def Let_def bind_res_eq_Inr)
    with scores_without_edges [OF rnd m wp es f] False show ?thesis by (simp add: clpa_step_def Let_def)
  qed
qed

lemma fold_res_idle: "(\<And>x. x \<in> set xs \<Longrightarrow> f x s = Inr s) \<Longrightarrow> fold_res f xs s = Inr s"
  by (induction xs) auto

lemma partition_without_edges:
  assumes rnd: "nonneg_rounding rnd" and ok: "clpa_ok cs" and rng: "\<And>xs. mset (rng xs) = mset xs"
    and wp: "nonneg64 (WeightPenalty cs)"
    and k: "k < nat (ShardNum cs)" "\<And>v. v \<in> set (Vertexs (NetGraph cs)) \<Longrightarrow> shard_of cs v \<noteq> int k"
  shows "\<exists>st. CLPA_Partition rnd rng cs = Inr st \<and> cr_addrs st = [] \<and> cr_res st = Map.empty"
proof -
  obtain es c m where r: "ComputeEdges2Shard rng cs = Inr (cs\<lparr> Edges2Shard := es, CrossShardEdgeNum := c, MinEdges2Shard := m \<rparr>)"
    and e: "edges_ok (cs\<lparr> Edges2Shard := es, CrossShardEdgeNum := c, MinEdges2Shard := m \<rparr>)"
    by (rule ComputeEdges2Shard_ok [OF ok rng])
  define st where "st = \<lparr> cr_state = cs\<lparr> Edges2Shard := es, CrossShardEdgeNum := c, MinEdges2Shard := m \<rparr>,
      cr_updates = Map.empty, cr_addrs = [], cr_res = Map.empty \<rparr>"
  have run: "run_ok cs st" using ok e by (simp add: run_ok_def clpa_ok_def st_def)
  have twice: "2 * es ! j = touching (NetGraph cs) (shard_of cs) (int j)" if "j < nat (ShardNum cs)" for j
    using e that by (simp add: edges_ok_def)
  have "touching (NetGraph cs) (shard_of cs) (int k) = 0"
    unfolding touching_def pairs_def using k(2) by (intro sum.neutral ballI) auto
  with twice [OF k(1)] have zero: "es ! k = 0" by simp
  have len: "length es = nat (ShardNum cs)" using e by (simp add: edges_ok_def)
  have "0 \<le> es ! j" if "j < length es" for j
  proof -
    have "j < nat (ShardNum cs)" using that len by metis
    from twice [OF this] show ?thesis using touching_nonneg [of "NetGraph cs" "shard_of cs" "int j"] by linarith
  qed
  then have nonneg: "0 \<le> y" if "y \<in> set es" for y using that by (metis in_set_conv_nth)
  have "0 \<in> set es" using zero k(1) len by (metis nth_mem)
  then have "Min (set es) = 0" by (intro Min_eqI) (auto intro: nonneg)
  then have m: "m = 0" using e by (simp add: edges_ok_def)
  have "clpa_step rnd v st = Inr st" if "v \<in> set (Vertexs (NetGraph cs))" for v
    by (rule step_without_edges [OF rnd run _ _ that]) (use m wp in \<open>simp_all add: st_def\<close>)
  then have "clpa_iteration rnd st = Inr st"
    by (simp add: clpa_iteration_def fold_res_idle st_def)
  then have "CLPA_Partition rnd rng cs = Inr st"
    using r by (simp add: CLPA_Partition_def st_def [symmetric] fold_res_idle)
  then show ?thesis by (simp add: st_def)
qed

section \<open>The new map\<close>

lemma sint_of_shard: "0 \<le> s \<Longrightarrow> s < 2 ^ 63 \<Longrightarrow> sint (word_of_int s :: u64) = s"
  by (simp add: sint_sbintrunc' signed_take_bit_int_eq_self)

text \<open>The shard of an account once the new map is in force.\<close>

definition moved_to :: "Globals \<Rightarrow> (addr \<rightharpoonup> int) \<Rightarrow> addr \<Rightarrow> int option" where
  "moved_to g new a = (Account2Shard g ++ new) a"

lemma changed_accounts_map:
  assumes "changed_accounts g addrs f = (moved, new)" "distinct addrs"
  shows "distinct moved \<and> dom new = set moved \<and> set moved \<subseteq> set addrs
    \<and> (\<forall>a. a \<in> set moved \<longleftrightarrow> a \<in> set addrs \<and> (case Account2Shard g a of None \<Rightarrow> 0 | Some s \<Rightarrow> s) \<noteq> f a)
    \<and> (\<forall>a\<in>set moved. new a = Some (f a))"
proof -
  have fold: "fold (\<lambda>a m. m(a \<mapsto> f a)) xs m b = (if b \<in> set xs then Some (f b) else m b)" for xs m b
    by (induction xs arbitrary: m) auto
  show ?thesis using assms by (auto simp: changed_accounts_def Let_def fold split: if_splits)
qed

lemma map_after_partition:
  assumes run: "run_ok cs st" and n: "ShardNum cs < 2 ^ 63"
    and memo: "\<forall>v\<in>set (Vertexs (NetGraph cs)). Account2Shard g (vx_Addr v) = Some (shard_of cs v)"
    and ch: "changed_accounts g (cr_addrs st) (\<lambda>a. case cr_res st a of None \<Rightarrow> 0 | Some w \<Rightarrow> sint w) = (moved, new)"
    and v: "v \<in> set (Vertexs (NetGraph cs))"
  shows "moved_to g new (vx_Addr v) = Some (shard_of (cr_state st) v)"
    and "vx_Addr v \<in> set moved \<Longrightarrow> shard_of (cr_state st) v \<noteq> shard_of cs v"
proof -
  let ?a = "vx_Addr v"
  have d: "distinct (cr_addrs st)" "set (cr_addrs st) = dom (cr_res st)" using run by (auto simp: run_ok_def)
  note m = changed_accounts_map [OF ch d(1)]
  have ok: "clpa_ok (cr_state st)" "NetGraph (cr_state st) = NetGraph cs" "ShardNum (cr_state st) = ShardNum cs"
    using run by (auto simp: run_ok_def)
  have "0 \<le> shard_of (cr_state st) v \<and> shard_of (cr_state st) v < ShardNum cs"
    using ok(1) v unfolding clpa_ok_def ok(2,3) by blast
  with n have range: "0 \<le> shard_of (cr_state st) v" "shard_of (cr_state st) v < 2 ^ 63" by linarith+
  have case_v: "case cr_res st ?a of None \<Rightarrow> shard_of (cr_state st) v = shard_of cs v
      | Some w \<Rightarrow> w = word_of_int (shard_of (cr_state st) v)"
    using run v by (auto simp: run_ok_def)
  have old: "Account2Shard g ?a = Some (shard_of cs v)" using memo v by blast
  show "moved_to g new ?a = Some (shard_of (cr_state st) v)"
  proof (cases "cr_res st ?a")
    case None
    then have "new ?a = None" using m d(2) by (metis domIff subsetD)
    with None case_v old show ?thesis by (simp add: moved_to_def map_add_def)
  next
    case (Some w)
    with case_v range have w: "sint w = shard_of (cr_state st) v" by (simp add: sint_of_shard)
    show ?thesis
    proof (cases "?a \<in> set moved")
      case True
      then have "new ?a = Some (sint w)" using m Some by auto
      with w show ?thesis by (simp add: moved_to_def map_add_def)
    next
      case False
      then have "new ?a = None" using m by (metis domIff)
      moreover have "?a \<in> set (cr_addrs st)" using d(2) Some by auto
      with False m Some old have "shard_of cs v = sint w" by force
      ultimately have "new ?a = None" "shard_of cs v = sint w" by simp_all
      with old w show ?thesis by (simp add: moved_to_def map_add_def)
    qed
  qed
  show "shard_of (cr_state st) v \<noteq> shard_of cs v" if "?a \<in> set moved"
  proof -
    have "?a \<in> set (cr_addrs st)" using m that by blast
    then obtain w where w: "cr_res st ?a = Some w" using d(2) by auto
    with case_v range have "sint w = shard_of (cr_state st) v" by (simp add: sint_of_shard)
    then show ?thesis using m that w old by auto
  qed
qed

lemma nonempty_count:
  assumes "clpa_ok cs" "0 \<le> k" "k < ShardNum cs"
  shows "VertexsNumInShard cs ! nat k > 0 \<longleftrightarrow> (\<exists>v\<in>set (Vertexs (NetGraph cs)). shard_of cs v = k)"
proof -
  have "VertexsNumInShard cs ! nat k = int (length (filter (\<lambda>v. shard_of cs v = k) (Vertexs (NetGraph cs))))"
    using assms by (auto simp: clpa_ok_def nat_less_iff)
  also have "\<dots> > 0 \<longleftrightarrow> (\<exists>v\<in>set (Vertexs (NetGraph cs)). shard_of cs v = k)"
    by (auto simp: filter_empty_conv)
  finally show ?thesis .
qed

text \<open>A shard recorded while the graph is built is the one of the address.\<close>

definition memo_extends :: "ChainConfig \<Rightarrow> Globals \<Rightarrow> Globals \<Rightarrow> bool" where
  "memo_extends cfg g g' \<longleftrightarrow> (\<forall>a s. Account2Shard g' a = Some s \<longrightarrow> Account2Shard g a = Some s \<or> utils_Addr2Shard cfg a = Inr s)"

lemma memo_extends_trans: "memo_extends cfg g g1 \<Longrightarrow> memo_extends cfg g1 g2 \<Longrightarrow> memo_extends cfg g g2"
  unfolding memo_extends_def by blast

lemma memo_extends_refl [simp]: "memo_extends cfg g g"
  by (simp add: memo_extends_def)

lemma memo_Addr2Shard: "Addr2Shard cfg a g = Inr (s, g') \<Longrightarrow> memo_extends cfg g g'"
  by (cases "Account2Shard g a")
    (auto simp: Addr2Shard_def utils_Addr2Shard_def memo_extends_def bind_res_eq_Inr Let_def split: if_splits option.splits)

lemma memo_need_vertex: "clpa_need_vertex cfg v (cs, g) = Inr (cs', g') \<Longrightarrow> memo_extends cfg g g'"
  by (auto simp: clpa_need_vertex_def clpa_AddVertex_def bind_res_eq_Inr split: if_splits option.splits dest: memo_Addr2Shard)

lemma memo_add_tx: "clpa_add_tx cfg tx (cs, g) = Inr (cs', g') \<Longrightarrow> memo_extends cfg g g'"
  by (auto simp: clpa_add_tx_def clpa_AddEdge_def bind_res_eq_Inr split: if_splits
      dest!: memo_need_vertex intro: memo_extends_trans)

lemma memo_add_txs: "fold_res (clpa_add_tx cfg) txs (cs, g) = Inr (cs', g') \<Longrightarrow> memo_extends cfg g g'"
  by (induction txs arbitrary: cs g) (auto simp: bind_res_eq_Inr dest!: memo_add_tx intro: memo_extends_trans)

lemma memo_build: "build_clpa rnd cfg txs g = Inr (cs, g') \<Longrightarrow> memo_extends cfg g g'"
  by (auto simp: build_clpa_def bind_res_eq_Inr dest: memo_add_txs)

section \<open>Small inputs\<close>

text \<open>A client of two shards and a transaction within shard 1.\<close>

definition two_shards :: ChainConfig where
  "two_shards = default_config\<lparr> Shard_num := 2 \<rparr>"

definition tx_between :: "byte list \<Rightarrow> byte list \<Rightarrow> Transaction" where
  "tx_between a b = zero_tx\<lparr> Sender := a, Recipient := b \<rparr>"

lemma memo_in_range_InitGlobals: "memo_in_range cfg InitGlobals"
  by (simp add: memo_in_range_def InitGlobals_def)

lemma two_shards_num: "Shard_num two_shards = 2"
  by (simp add: two_shards_def)

lemma long_pair: "long_addresses [tx_between [1, 2, 3] [1, 2, 5]]"
  by (simp add: long_addresses_def tx_between_def)

lemma nonneg_rounding_Fin: "nonneg_rounding Fin"
  by (simp add: nonneg_rounding_def)

lemma pair_addresses:
  "from_addr (tx_between [1, 2, 3] [1, 2, 5]) = ''010203''" "to_addr (tx_between [1, 2, 3] [1, 2, 5]) = ''010205''"
  by (simp_all add: tx_between_def from_addr_def to_addr_def hex_encode_def, code_simp+)

lemma pair_shards: "utils_Addr2Shard two_shards ''010203'' = Inr 1" "utils_Addr2Shard two_shards ''010205'' = Inr 1"
  by (simp_all add: utils_Addr2Shard_def two_shards_def ParseInt16_def from_hex_char_def go_rem_def)

section \<open>Properties\<close>

text \<open>
  C19. The label propagation keeps its books right: on the graph of any transactions it runs to its end
  without a panic, and when it ends, the numbers of edges of each shard, of crossing edges and the
  minimum, which it updated at every move from the neighbours of the moved account alone, are those
  that \<open>ComputeEdges2Shard\<close> counts again from the whole graph.
\<close>

theorem clpa_incremental:
  assumes "memo_in_range cfg g" "long_addresses txs" "0 < Shard_num cfg" "length txs \<le> 2147483647"
    and "\<And>xs. mset (rng xs) = mset xs"
  shows "\<exists>cs g' st. build_clpa rnd cfg txs g = Inr (cs, g') \<and> CLPA_Partition rnd rng cs = Inr st
    \<and> ComputeEdges2Shard rng (cr_state st) = Inr (cr_state st)"
proof -
  obtain cs g' where b: "build_clpa rnd cfg txs g = Inr (cs, g')" "clpa_ok cs"
    by (rule build_clpa_ok [OF assms(1) long_good [OF assms(2)] assms(3,4)])
  from CLPA_Partition_ok [OF b(2) assms(5)] obtain st where st: "CLPA_Partition rnd rng cs = Inr st" "run_ok cs st" by blast
  then have "clpa_ok (cr_state st)" "edges_ok (cr_state st)" by (auto simp: run_ok_def)
  with edges_ok_fixpoint [OF _ assms(5)] b(1) st(1) show ?thesis by blast
qed

lemma clpa_incremental_witness:
  "\<exists>cs g' st. build_clpa Fin two_shards [tx_between [1, 2, 3] [1, 2, 5]] InitGlobals = Inr (cs, g')
    \<and> CLPA_Partition Fin rev cs = Inr st \<and> ComputeEdges2Shard rev (cr_state st) = Inr (cr_state st)"
  by (rule clpa_incremental [OF memo_in_range_InitGlobals long_pair]) (simp_all add: two_shards_num)

text \<open>
  C20. The map that the client sends to the shards after a label propagation: it moves accounts of the
  given transactions only, each listed once, each to an existing shard other than its own; and a shard
  that had one of these accounts still has one.
\<close>

theorem clpa_map_moves:
  assumes "memo_in_range cfg g" "long_addresses txs" "0 < Shard_num cfg" "Shard_num cfg < 2 ^ 63" "length txs \<le> 2147483647"
    and "\<And>xs. mset (rng xs) = mset xs"
  shows "\<exists>moved new g'. clpa_map rnd rng cfg txs g = Inr ((moved, new), g')
    \<and> distinct moved \<and> dom new = set moved \<and> set moved \<subseteq> parties txs
    \<and> (\<forall>a s. new a = Some s \<longrightarrow> 0 \<le> s \<and> s < Shard_num cfg \<and> Account2Shard g' a \<noteq> Some s)
    \<and> (\<forall>k. (\<exists>a\<in>parties txs. Account2Shard g' a = Some k) \<longrightarrow> (\<exists>a\<in>parties txs. moved_to g' new a = Some k))"
proof -
  obtain cs g' where b: "build_clpa rnd cfg txs g = Inr (cs, g')" "clpa_ok cs" "ShardNum cs = Shard_num cfg"
    and memo: "\<forall>v\<in>set (Vertexs (NetGraph cs)). Account2Shard g' (vx_Addr v) = Some (shard_of cs v)"
    and parts: "vx_Addr ` set (Vertexs (NetGraph cs)) = parties txs"
    by (rule build_clpa_ok [OF assms(1) long_good [OF assms(2)] assms(3,5)])
  from CLPA_Partition_ok [OF b(2) assms(6)] obtain st where st: "CLPA_Partition rnd rng cs = Inr st" "run_ok cs st" by blast
  let ?f = "\<lambda>a. case cr_res st a of None \<Rightarrow> 0 | Some w \<Rightarrow> sint w"
  obtain moved new where ch: "changed_accounts g' (cr_addrs st) ?f = (moved, new)" by fastforce
  have run: "clpa_ok (cr_state st)" "NetGraph (cr_state st) = NetGraph cs" "ShardNum (cr_state st) = Shard_num cfg"
    "distinct (cr_addrs st)" "set (cr_addrs st) \<subseteq> parties txs"
    using st(2) b(3) parts by (auto simp: run_ok_def)
  have n: "ShardNum cs < 2 ^ 63" using assms(4) b(3) by simp
  note m = changed_accounts_map [OF ch run(4)] and final = map_after_partition [OF st(2) n memo ch]
  have new: "0 \<le> s \<and> s < Shard_num cfg \<and> Account2Shard g' a \<noteq> Some s" if s: "new a = Some s" for a s
  proof -
    have a: "a \<in> set moved" using m s by blast
    then have "a \<in> parties txs" using m run(5) by blast
    then obtain v where v: "v \<in> set (Vertexs (NetGraph cs))" "a = vx_Addr v" unfolding parts [symmetric] by blast
    have "s = shard_of (cr_state st) v" using final(1) [OF v(1)] s v(2) by (simp add: moved_to_def map_add_def)
    moreover have "shard_of (cr_state st) v \<noteq> shard_of cs v" using final(2) [OF v(1)] a v(2) by simp
    moreover have "0 \<le> shard_of (cr_state st) v \<and> shard_of (cr_state st) v < Shard_num cfg"
      using run(1) v(1) unfolding clpa_ok_def run(2,3) by blast
    moreover have "Account2Shard g' a = Some (shard_of cs v)" using memo v by blast
    ultimately show ?thesis by simp
  qed
  have keep: "\<exists>a\<in>parties txs. moved_to g' new a = Some k" if k: "a \<in> parties txs" "Account2Shard g' a = Some k" for a k
  proof -
    obtain v where v: "v \<in> set (Vertexs (NetGraph cs))" "a = vx_Addr v" using k(1) parts by blast
    with memo k(2) have sv: "shard_of cs v = k" by auto
    have kr: "0 \<le> k" "k < Shard_num cfg" using b(2,3) v(1) sv by (auto simp: clpa_ok_def)
    then have "VertexsNumInShard cs ! nat k > 0" using nonempty_count [OF b(2)] v(1) sv b(3) by auto
    then have "VertexsNumInShard (cr_state st) ! nat k > 0"
      using st(2) kr b(3) by (auto simp: run_ok_def nat_less_iff)
    then obtain w where w: "w \<in> set (Vertexs (NetGraph cs))" "shard_of (cr_state st) w = k"
      using nonempty_count [OF run(1) kr(1)] kr(2) run(2,3) by auto
    with final(1) [OF w(1)] parts show ?thesis by blast
  qed
  have "clpa_map rnd rng cfg txs g = Inr ((moved, new), g')"
    using b(1) st(1) ch by (simp add: clpa_map_def)
  moreover have "distinct moved \<and> dom new = set moved \<and> set moved \<subseteq> parties txs" using m run(5) by auto
  ultimately show ?thesis using new keep by blast
qed

lemma clpa_map_moves_witness:
  "\<exists>moved new g'. clpa_map Fin rev two_shards [tx_between [1, 2, 3] [1, 2, 5]] InitGlobals = Inr ((moved, new), g')
    \<and> distinct moved \<and> dom new = set moved"
  using clpa_map_moves [OF memo_in_range_InitGlobals long_pair, of two_shards rev Fin]
  by (auto simp: two_shards_num)

text \<open>
  C39. The label propagation is stuck when a shard has none of the accounts of the transactions: it then
  moves nothing at all. The least number of edges is 0, the penalty of every shard is a division by it, and
  no score exceeds the initial one.
\<close>

theorem clpa_stuck:
  assumes "memo_in_range cfg g" "long_addresses txs" "0 < Shard_num cfg" "length txs \<le> 2147483647"
    and "\<And>xs. mset (rng xs) = mset xs" and "nonneg_rounding rnd"
    and k: "0 \<le> k" "k < Shard_num cfg"
    and empty: "\<And>a. a \<in> parties txs \<Longrightarrow> Account2Shard g a \<noteq> Some k \<and> utils_Addr2Shard cfg a \<noteq> Inr k"
  shows "\<exists>g'. clpa_map rnd rng cfg txs g = Inr (([], Map.empty), g')"
proof -
  obtain cs g' where b: "build_clpa rnd cfg txs g = Inr (cs, g')" "clpa_ok cs" "ShardNum cs = Shard_num cfg"
    and memo: "\<forall>v\<in>set (Vertexs (NetGraph cs)). Account2Shard g' (vx_Addr v) = Some (shard_of cs v)"
    and parts: "vx_Addr ` set (Vertexs (NetGraph cs)) = parties txs" and wp: "WeightPenalty cs = rnd (1 / 2)"
    by (rule build_clpa_ok [OF assms(1) long_good [OF assms(2)] assms(3,4)])
  have "shard_of cs v \<noteq> int (nat k)" if v: "v \<in> set (Vertexs (NetGraph cs))" for v
  proof -
    have "vx_Addr v \<in> parties txs" using parts v by blast
    with empty memo_build [OF b(1)] have "Account2Shard g' (vx_Addr v) \<noteq> Some k"
      unfolding memo_extends_def by blast
    with memo v k(1) show ?thesis by auto
  qed
  with partition_without_edges [OF assms(6) b(2) assms(5), of "nat k"] obtain st where
    "CLPA_Partition rnd rng cs = Inr st" "cr_addrs st = []"
    using k b(3) wp nonneg64_rnd [OF assms(6), of "1 / 2"] by auto
  then show ?thesis using b(1) by (simp add: clpa_map_def changed_accounts_def)
qed

lemma clpa_stuck_witness:
  "\<exists>g'. clpa_map Fin rev two_shards [tx_between [1, 2, 3] [1, 2, 5]] InitGlobals = Inr (([], Map.empty), g')"
  by (rule clpa_stuck [OF memo_in_range_InitGlobals long_pair _ _ _ nonneg_rounding_Fin, where k = 0])
    (auto simp: two_shards_num parties_def pair_addresses pair_shards InitGlobals_def)

end
