(* ===== verification/BalanceRun.thy ===== *)
theory BalanceRun
  imports Balance Partition
begin

text \<open>
  What the other partition algorithms guarantee: LBF places every account of the transactions once, and
  the degrees of its shards lie close to the average; the input of METIS is well-formed; PageRank's map.
\<close>

section \<open>One placement\<close>

definition places_ok :: "ChainConfig \<Rightarrow> lbf_run \<Rightarrow> bool" where
  "places_ok cfg st \<longleftrightarrow> memo_in_range cfg (lr_globals st) \<and> distinct (lr_addrs st) \<and> dom (lr_res st) = set (lr_addrs st)
     \<and> set (lr_addrs st) \<subseteq> vx_Addr ` dom (lr_map st)
     \<and> (\<forall>v i. lr_map st v = Some i \<longrightarrow> (\<exists>s. Account2Shard (lr_globals st) (vx_Addr v) = Some s
          \<and> lr_res st (vx_Addr v) = (if i \<noteq> s then Some i else None)))"

lemma vx_Addr_eq: "vx_Addr v = vx_Addr w \<longleftrightarrow> v = w"
  by (cases v; cases w) auto

lemma lbf_assign_ok:
  assumes ok: "places_ok cfg st" and v: "lr_map st v = None" "good_addr (vx_Addr v)" and n: "0 < Shard_num cfg"
  shows "\<exists>st'. lbf_assign cfg i v st = Inr st' \<and> places_ok cfg st' \<and> lr_map st' = (lr_map st)(v \<mapsto> i) \<and> lr_drawn st' = lr_drawn st"
proof -
  let ?a = "vx_Addr v"
  obtain s g where s: "Addr2Shard cfg ?a (lr_globals st) = Inr (s, g)" "memo_in_range cfg g"
    "Account2Shard g = (Account2Shard (lr_globals st))(?a \<mapsto> s)"
    using Addr2Shard_ok [of cfg "lr_globals st" ?a] ok v(2) n by (auto simp: places_ok_def good_addr_def)
  have new: "?a \<notin> set (lr_addrs st)" using ok v(1) by (auto simp: places_ok_def vx_Addr_eq)
  then have res: "lr_res st ?a = None" using ok by (auto simp: places_ok_def)
  define st' where "st' = (let st1 = st\<lparr> lr_map := (lr_map st)(v \<mapsto> i), lr_globals := g \<rparr> in
       if i \<noteq> s then st1\<lparr> lr_addrs := lr_addrs st @ [?a], lr_res := (lr_res st)(?a \<mapsto> i) \<rparr> else st1)"
  have sel: "lr_map st' = (lr_map st)(v \<mapsto> i)" "lr_globals st' = g" "lr_drawn st' = lr_drawn st"
    "lr_addrs st' = lr_addrs st @ (if i \<noteq> s then [?a] else [])" "lr_res st' = (if i \<noteq> s then (lr_res st)(?a \<mapsto> i) else lr_res st)"
    by (simp_all add: st'_def Let_def)
  have "\<exists>t. Account2Shard g (vx_Addr w) = Some t \<and> lr_res st' (vx_Addr w) = (if j \<noteq> t then Some j else None)"
    if w: "((lr_map st)(v \<mapsto> i)) w = Some j" for w j
  proof (cases "w = v")
    case True
    with w res s(3) show ?thesis by (simp add: sel)
  next
    case False
    then have "vx_Addr w \<noteq> ?a" by (simp add: vx_Addr_eq)
    with ok w False s(3) show ?thesis by (simp add: places_ok_def sel)
  qed
  then have "places_ok cfg st'" using ok s(2) new unfolding places_ok_def sel by auto
  moreover have "lbf_assign cfg i v st = Inr st'" using s(1) by (simp add: lbf_assign_def st'_def Let_def)
  ultimately show ?thesis using sel by blast
qed

section \<open>Filling a shard\<close>

definition intn_ok :: "(nat \<Rightarrow> int \<Rightarrow> int) \<Rightarrow> bool" where
  "intn_ok intn \<longleftrightarrow> (\<forall>k n. 0 < n \<longrightarrow> 0 \<le> intn k n \<and> intn k n < n)"

definition degree :: "Graph \<Rightarrow> Vertex \<Rightarrow> int" where
  "degree g v = int (length (neighbours g v))"

text \<open>Integers up to \<open>2 ^ 53\<close> are exact in a \<open>float64\<close>.\<close>

definition exact_ints :: "rounding \<Rightarrow> bool" where
  "exact_ints rnd \<longleftrightarrow> (\<forall>i. 0 \<le> i \<and> i \<le> 2 ^ 53 \<longrightarrow> rnd (of_int i) = Fin (of_int i))"

lemma remove_at:
  assumes "i < length xs" "distinct xs"
  shows "distinct (take i xs @ drop (i + 1) xs)" "set (take i xs @ drop (i + 1) xs) = set xs - {xs ! i}"
proof -
  have xs: "xs = take i xs @ xs ! i # drop (i + 1) xs" using assms(1) by (simp add: id_take_nth_drop)
  have d: "distinct (take i xs @ xs ! i # drop (i + 1) xs)" using assms(2) xs by metis
  then show "distinct (take i xs @ drop (i + 1) xs)" by auto
  have "set xs = insert (xs ! i) (set (take i xs @ drop (i + 1) xs))" by (subst xs) auto
  moreover have "xs ! i \<notin> set (take i xs @ drop (i + 1) xs)" using d by auto
  ultimately show "set (take i xs @ drop (i + 1) xs) = set xs - {xs ! i}" by blast
qed

text \<open>What a fill of shard \<open>i\<close> does: the load it takes from \<open>vs\<close> when sums are exact, and the accounts.\<close>

definition load_ok :: "rounding \<Rightarrow> Graph \<Rightarrow> f64 \<Rightarrow> f64 \<Rightarrow> Vertex list \<Rightarrow> Vertex list \<Rightarrow> bool" where
  "load_ok rnd g avg cur vs vs' \<longleftrightarrow> (\<forall>a c D. exact_ints rnd \<longrightarrow> avg = Fin a \<longrightarrow> cur = Fin (of_int c) \<longrightarrow> 0 \<le> c
     \<longrightarrow> c + sum (degree g) (set vs) \<le> 2 ^ 53 \<longrightarrow> (\<forall>v. degree g v \<le> D)
     \<longrightarrow> (vs' \<noteq> [] \<longrightarrow> a \<le> of_int (c + sum (degree g) (set vs - set vs')))
       \<and> (sum (degree g) (set vs - set vs') = 0 \<or> of_int (c + sum (degree g) (set vs - set vs')) < a + of_int D))"

lemma load_okD:
  assumes "load_ok rnd g avg cur vs vs'" "exact_ints rnd" "avg = Fin a" "cur = Fin (of_int c)" "0 \<le> c"
    "c + sum (degree g) (set vs) \<le> 2 ^ 53" "\<forall>v. degree g v \<le> D"
  shows "vs' \<noteq> [] \<longrightarrow> a \<le> of_int (c + sum (degree g) (set vs - set vs'))"
    and "sum (degree g) (set vs - set vs') = 0 \<or> of_int (c + sum (degree g) (set vs - set vs')) < a + of_int D"
  using assms unfolding load_ok_def by blast+

definition filled :: "rounding \<Rightarrow> ChainConfig \<Rightarrow> Graph \<Rightarrow> f64 \<Rightarrow> int \<Rightarrow> f64 \<Rightarrow> Vertex list \<Rightarrow> lbf_run \<Rightarrow> Vertex list \<times> lbf_run \<Rightarrow> bool" where
  "filled rnd cfg g avg i cur vs st = (\<lambda>(vs', st').
     places_ok cfg st' \<and> distinct vs' \<and> set vs' \<subseteq> set vs
     \<and> lr_map st' = (\<lambda>v. if v \<in> set vs - set vs' then Some i else lr_map st v) \<and> load_ok rnd g avg cur vs vs')"

lemma degree_nonneg [simp]: "0 \<le> degree g v"
  by (simp add: degree_def)

lemma lbf_fill_ok:
  assumes intn: "intn_ok intn" and n: "0 < Shard_num cfg"
    and "places_ok cfg st" "distinct vs" "\<forall>v\<in>set vs. lr_map st v = None \<and> good_addr (vx_Addr v)"
  shows "\<exists>r. lbf_fill rnd intn cfg g avg i cur vs st = Inr r \<and> filled rnd cfg g avg i cur vs st r"
  using assms(3-)
proof (induction "length vs" arbitrary: vs st cur rule: less_induct)
  case less
  show ?case
  proof (cases "f64_less cur avg \<and> vs \<noteq> []")
    case False
    then have "lbf_fill rnd intn cfg g avg i cur vs st = Inr (vs, st)" by (subst lbf_fill.simps) auto
    moreover have "filled rnd cfg g avg i cur vs st (vs, st)"
      using less.prems False by (auto simp: filled_def load_ok_def f64_less_def)
    ultimately show ?thesis by blast
  next
    case True
    define k where "k = nat (intn (lr_drawn st) (int (length vs)))"
    have idx: "0 \<le> intn (lr_drawn st) (int (length vs))" "intn (lr_drawn st) (int (length vs)) < int (length vs)"
      using intn True by (auto simp: intn_ok_def)
    then have k: "k < length vs" by (simp add: k_def nat_less_iff)
    define v where "v = vs ! k"
    have v: "v \<in> set vs" using k by (simp add: v_def)
    define vs1 where "vs1 = take k vs @ drop (k + 1) vs"
    have vs1: "distinct vs1" "set vs1 = set vs - {v}" "length vs1 < length vs"
      using remove_at [OF k less.prems(2)] k by (auto simp: vs1_def v_def)
    have "places_ok cfg (st\<lparr> lr_drawn := Suc (lr_drawn st) \<rparr>)" using less.prems(1) by (simp add: places_ok_def)
    from lbf_assign_ok [OF this _ _ n, of v i] less.prems(3) v obtain st1 where
      st1: "lbf_assign cfg i v (st\<lparr> lr_drawn := Suc (lr_drawn st) \<rparr>) = Inr st1" "places_ok cfg st1" "lr_map st1 = (lr_map st)(v \<mapsto> i)"
      by auto
    define cur1 where "cur1 = f64_add rnd cur (f64_of_int rnd (degree g v))"
    obtain vs' st' where r: "lbf_fill rnd intn cfg g avg i cur1 vs1 st1 = Inr (vs', st')"
      "filled rnd cfg g avg i cur1 vs1 st1 (vs', st')"
      using less.hyps [OF vs1(3) st1(2) vs1(1)] st1(3) less.prems(3) vs1(2) by fastforce
    have run: "lbf_fill rnd intn cfg g avg i cur vs st = Inr (vs', st')"
      using r(1) True st1(1) idx k
      by (subst lbf_fill.simps) (simp add: Let_def slice_in_range k_def v_def vs1_def cur1_def degree_def)
    have sub: "set vs' \<subseteq> set vs - {v}" using r(2) vs1(2) by (auto simp: filled_def)
    have split: "sum (degree g) (set vs - set vs') = degree g v + sum (degree g) (set vs1 - set vs')"
      "sum (degree g) (set vs) = degree g v + sum (degree g) (set vs1)"
    proof -
      have "set vs - set vs' = insert v (set vs1 - set vs')" "set vs = insert v (set vs1)" "v \<notin> set vs1"
        using sub v vs1(2) by auto
      then show "sum (degree g) (set vs - set vs') = degree g v + sum (degree g) (set vs1 - set vs')"
        "sum (degree g) (set vs) = degree g v + sum (degree g) (set vs1)" by simp_all
    qed
    have bal: "(vs' \<noteq> [] \<longrightarrow> a \<le> of_int (c + sum (degree g) (set vs - set vs')))
            \<and> (sum (degree g) (set vs - set vs') = 0 \<or> of_int (c + sum (degree g) (set vs - set vs')) < a + of_int D)"
      if e: "exact_ints rnd" "avg = Fin a" "cur = Fin (of_int c)" "0 \<le> c" "c + sum (degree g) (set vs) \<le> 2 ^ 53"
        and D: "\<forall>v. degree g v \<le> D" for a c D
    proof -
      have S: "0 \<le> sum (degree g) (set vs1)" by (simp add: sum_nonneg)
      have small: "c + degree g v \<le> 2 ^ 53" "degree g v \<le> 2 ^ 53" using e(4,5) S split(2) degree_nonneg [of g v] by linarith+
      have ex: "rnd (of_int i) = Fin (of_int i)" if "0 \<le> i" "i \<le> 2 ^ 53" for i
        using e(1) that unfolding exact_ints_def by blast
      have "cur1 = rnd (of_int (c + degree g v))"
        using e(3) ex [OF degree_nonneg small(2)] by (simp add: cur1_def f64_add_def f64_of_int_def)
      also have "\<dots> = Fin (of_int (c + degree g v))"
        by (rule ex) (use small(1) e(4) in simp_all)
      finally have cur1: "cur1 = Fin (of_int (c + degree g v))" .
      have lt: "of_int c < a" using True e(2,3) by (simp add: f64_less_def)
      have "c + degree g v + sum (degree g) (set vs1) \<le> 2 ^ 53" "0 \<le> c + degree g v" using e(4,5) split(2) by simp_all
      moreover have "load_ok rnd g avg cur1 vs1 vs'" using r(2) by (simp add: filled_def)
      ultimately have b:
        "vs' \<noteq> [] \<longrightarrow> a \<le> of_int (c + degree g v + sum (degree g) (set vs1 - set vs'))"
        "sum (degree g) (set vs1 - set vs') = 0 \<or> of_int (c + degree g v + sum (degree g) (set vs1 - set vs')) < a + of_int D"
        using load_okD [OF _ e(1,2) cur1 _ _ D] by blast+
      have one: "of_int (c + degree g v) < a + of_int D"
        using lt D [rule_format, of v] by (simp add: of_int_add add_less_le_mono)
      obtain T where T: "sum (degree g) (set vs1 - set vs') = T" by blast
      show ?thesis unfolding split(1) T using b one unfolding T by (auto simp: add.assoc)
    qed
    have map: "lr_map st' = (\<lambda>w. if w \<in> set vs - set vs' then Some i else lr_map st w)"
      using r(2) sub v vs1(2) st1(3) by (auto simp: filled_def fun_eq_iff)
    have "filled rnd cfg g avg i cur vs st (vs', st')"
      unfolding filled_def load_ok_def using r(2) sub map bal by (auto simp: filled_def)
    with run show ?thesis by blast
  qed
qed

section \<open>All shards\<close>

definition load :: "Graph \<Rightarrow> (Vertex \<rightharpoonup> int) \<Rightarrow> int \<Rightarrow> int" where
  "load g m i = sum (degree g) {v \<in> set (Vertexs g). m v = Some i}"

text \<open>After the first \<open>k\<close> shards have been filled.\<close>

definition balanced :: "Graph \<Rightarrow> rat \<Rightarrow> int \<Rightarrow> (Vertex \<rightharpoonup> int) \<Rightarrow> Vertex list \<Rightarrow> int \<Rightarrow> bool" where
  "balanced g a D m vs i \<longleftrightarrow> (load g m i = 0 \<or> of_int (load g m i) < a + of_int D)
     \<and> (vs \<noteq> [] \<or> (\<exists>v j. m v = Some j \<and> i < j) \<longrightarrow> a \<le> of_int (load g m i))"

definition lbf_inv :: "rounding \<Rightarrow> ChainConfig \<Rightarrow> Graph \<Rightarrow> f64 \<Rightarrow> nat \<Rightarrow> Vertex list \<times> lbf_run \<Rightarrow> bool" where
  "lbf_inv rnd cfg g avg k = (\<lambda>(vs, st). places_ok cfg st \<and> distinct vs \<and> set vs \<subseteq> set (Vertexs g)
     \<and> dom (lr_map st) = set (Vertexs g) - set vs
     \<and> (\<forall>v i. lr_map st v = Some i \<longrightarrow> 0 \<le> i \<and> i < int k)
     \<and> (\<forall>a D i. exact_ints rnd \<longrightarrow> avg = Fin a \<longrightarrow> sum (degree g) (set (Vertexs g)) \<le> 2 ^ 53 \<longrightarrow> (\<forall>v. degree g v \<le> D)
          \<longrightarrow> 0 \<le> i \<longrightarrow> i < int k \<longrightarrow> balanced g a D (lr_map st) vs i))"

lemma balancedI:
  assumes "load g m i = 0 \<or> of_int (load g m i) < a + of_int D" "vs \<noteq> [] \<or> (\<exists>v j. m v = Some j \<and> i < j) \<Longrightarrow> a \<le> of_int (load g m i)"
  shows "balanced g a D m vs i"
  using assms by (auto simp: balanced_def)

text \<open>A fill of shard \<open>k\<close> keeps the balance of the earlier ones and gives its own.\<close>

lemma balanced_fill:
  assumes e: "exact_ints rnd" "avg = Fin a" "sum (degree g) (set (Vertexs g)) \<le> 2 ^ 53" "\<forall>v. degree g v \<le> D"
    and l: "load_ok rnd g avg (rnd 0) vs vs'" and sub: "set vs' \<subseteq> set vs" "set vs \<subseteq> set (Vertexs g)"
    and dom: "dom m = set (Vertexs g) - set vs" and range: "\<forall>v i. m v = Some i \<longrightarrow> 0 \<le> i \<and> i < int k"
    and old: "0 \<le> i" "i < int k \<Longrightarrow> balanced g a D m vs i" "i \<le> int k"
    and m': "m' = (\<lambda>v. if v \<in> set vs - set vs' then Some (int k) else m v)"
  shows "balanced g a D m' vs' i"
proof (cases "i = int k")
  case False
  then have i: "i < int k" using old(3) by simp
  have "{v \<in> set (Vertexs g). m' v = Some i} = {v \<in> set (Vertexs g). m v = Some i}"
    using i dom by (auto simp: m')
  then have same: "load g m' i = load g m i" by (simp add: load_def)
  have "vs \<noteq> [] \<or> (\<exists>v j. m v = Some j \<and> i < j)" if "vs' \<noteq> [] \<or> (\<exists>v j. m' v = Some j \<and> i < j)"
    using that sub(1) by (auto simp: m' split: if_splits)
  with old(2) [OF i] show ?thesis unfolding balanced_def same by blast
next
  case True
  have none: "m v \<noteq> Some (int k)" for v using range by force
  have "{v \<in> set (Vertexs g). m' v = Some (int k)} = set vs - set vs'"
    using sub none by (auto simp: m')
  then have load: "load g m' i = sum (degree g) (set vs - set vs')" by (simp add: load_def True)
  have zero: "rnd 0 = Fin (of_int 0)" using e(1) [unfolded exact_ints_def, rule_format, of 0] by simp
  have "sum (degree g) (set vs) \<le> sum (degree g) (set (Vertexs g))" using sub(2) by (intro sum_mono2) auto
  then have "0 + sum (degree g) (set vs) \<le> 2 ^ 53" using e(3) by simp
  note b = load_okD [OF l e(1,2) zero _ this e(4)]
  have "\<not> (\<exists>v j. m' v = Some j \<and> i < j)" using range True by (force simp: m' split: if_splits)
  then show ?thesis using b by (intro balancedI) (auto simp: load simp del: of_int_sum)
qed

lemma lbf_fill_shard_ok:
  assumes intn: "intn_ok intn" and n: "0 < Shard_num cfg" and good: "\<forall>v\<in>set (Vertexs g). good_addr (vx_Addr v)"
    and inv: "lbf_inv rnd cfg g avg k st"
  shows "\<exists>st'. lbf_fill_shard rnd intn cfg g avg (int k) st = Inr st' \<and> lbf_inv rnd cfg g avg (Suc k) st'"
proof -
  obtain vs s where st: "st = (vs, s)" by fastforce
  have i: "places_ok cfg s" "distinct vs" "set vs \<subseteq> set (Vertexs g)" "dom (lr_map s) = set (Vertexs g) - set vs"
    "\<forall>v i. lr_map s v = Some i \<longrightarrow> 0 \<le> i \<and> i < int k"
    using inv by (auto simp: lbf_inv_def st)
  have "\<forall>v\<in>set vs. lr_map s v = None \<and> good_addr (vx_Addr v)" using i(3,4) good by (auto simp: domIff [symmetric])
  from lbf_fill_ok [OF intn n i(1,2) this] obtain vs' s' where
    r: "lbf_fill rnd intn cfg g avg (int k) (rnd 0) vs s = Inr (vs', s')" and f: "filled rnd cfg g avg (int k) (rnd 0) vs s (vs', s')"
    by fastforce
  have m': "lr_map s' = (\<lambda>v. if v \<in> set vs - set vs' then Some (int k) else lr_map s v)"
    and l: "load_ok rnd g avg (rnd 0) vs vs'" and sub: "set vs' \<subseteq> set vs" "places_ok cfg s'" "distinct vs'"
    using f by (auto simp: filled_def)
  have dom: "dom (lr_map s') = set (Vertexs g) - set vs'" using i(3,4) sub(1) by (auto simp: m' dom_def split: if_splits)
  have rng: "\<forall>v j. lr_map s' v = Some j \<longrightarrow> 0 \<le> j \<and> j < int (Suc k)" using i(5) by (force simp: m' split: if_splits)
  have bal: "balanced g a D (lr_map s') vs' j"
    if e: "exact_ints rnd" "avg = Fin a" "sum (degree g) (set (Vertexs g)) \<le> 2 ^ 53" "\<forall>v. degree g v \<le> D" "0 \<le> j" "j < int (Suc k)" for a D j
  proof (rule balanced_fill [OF e(1-4) l sub(1) i(3,4,5) e(5) _ _ m'])
    show "j < int k \<Longrightarrow> balanced g a D (lr_map s) vs j" using inv e by (auto simp: lbf_inv_def st)
    show "j \<le> int k" using e(6) by simp
  qed
  have "lbf_inv rnd cfg g avg (Suc k) (vs', s')"
    unfolding lbf_inv_def using sub i(3) dom rng bal by auto
  with r show ?thesis by (auto simp: lbf_fill_shard_def st)
qed

lemma lbf_rest_ok:
  assumes "places_ok cfg st" "distinct vs" "\<forall>v\<in>set vs. lr_map st v = None \<and> good_addr (vx_Addr v)" "0 < Shard_num cfg"
  shows "\<exists>st'. fold_res (lbf_assign cfg i) vs st = Inr st' \<and> places_ok cfg st'
    \<and> lr_map st' = (\<lambda>v. if v \<in> set vs then Some i else lr_map st v)"
  using assms
proof (induction vs arbitrary: st)
  case (Cons v vs)
  from lbf_assign_ok [of cfg st v i] Cons.prems obtain st1 where
    s1: "lbf_assign cfg i v st = Inr st1" "places_ok cfg st1" "lr_map st1 = (lr_map st)(v \<mapsto> i)" by auto
  have "\<forall>w\<in>set vs. lr_map st1 w = None \<and> good_addr (vx_Addr w)" using Cons.prems s1(3) by auto
  with Cons.IH [OF s1(2)] Cons.prems obtain st2 where
    "fold_res (lbf_assign cfg i) vs st1 = Inr st2" "places_ok cfg st2" "lr_map st2 = (\<lambda>w. if w \<in> set vs then Some i else lr_map st1 w)"
    by auto
  with s1 show ?case by (auto simp: fun_eq_iff)
qed simp

lemma LBF_Partition_ok:
  assumes intn: "intn_ok intn" and n: "0 < Shard_num cfg" "lb_ShardNum ls = Shard_num cfg" and memo: "memo_in_range cfg g0"
    and d: "distinct (Vertexs g)" "\<forall>v\<in>set (Vertexs g). good_addr (vx_Addr v)" "lb_NetGraph ls = g"
  obtains ls' st where "LBF_Partition rnd intn cfg ls g0 = Inr (ls', st)" "places_ok cfg st" "lb_PartitionMap ls' = lr_map st"
    "dom (lr_map st) = set (Vertexs g)" "\<forall>v i. lr_map st v = Some i \<longrightarrow> 0 \<le> i \<and> i < Shard_num cfg"
    "\<forall>a D i. exact_ints rnd \<longrightarrow> lb_AvgWeight ls' = Fin a \<longrightarrow> sum (degree g) (set (Vertexs g)) \<le> 2 ^ 53 \<longrightarrow> (\<forall>v. degree g v \<le> D)
          \<longrightarrow> 0 \<le> i \<longrightarrow> i < Shard_num cfg - 1 \<longrightarrow> balanced g a D (lr_map st) [] i"
proof -
  define ls1 where "ls1 = ComputeAvgWeight rnd ls"
  define avg where "avg = lb_AvgWeight ls1"
  have sel: "lb_NetGraph ls1 = g" "lb_ShardNum ls1 = Shard_num cfg" using n(2) d(3) by (simp_all add: ls1_def ComputeAvgWeight_def)
  define k where "k = nat (Shard_num cfg - 1)"
  have k: "int k = Shard_num cfg - 1" using n(1) by (simp add: k_def)
  define st0 where "st0 = \<lparr> lr_map = Map.empty, lr_addrs = [], lr_res = Map.empty, lr_globals = g0, lr_drawn = 0 \<rparr>"
  have "lbf_inv rnd cfg g avg 0 (Vertexs g, st0)" using memo d(1) by (simp add: lbf_inv_def places_ok_def st0_def)
  from fold_res_upt [where P = "lbf_inv rnd cfg g avg" and n = k, OF this lbf_fill_shard_ok [OF intn n(1) d(2)]] obtain vs st where
    r: "fold_res (\<lambda>i. lbf_fill_shard rnd intn cfg g avg (int i)) [0..<k] (Vertexs g, st0) = Inr (vs, st)"
    and inv: "lbf_inv rnd cfg g avg k (vs, st)" by fastforce
  have i: "places_ok cfg st" "distinct vs" "set vs \<subseteq> set (Vertexs g)" "dom (lr_map st) = set (Vertexs g) - set vs"
    "\<forall>v i. lr_map st v = Some i \<longrightarrow> 0 \<le> i \<and> i < int k"
    using inv by (auto simp: lbf_inv_def)
  have "\<forall>v\<in>set vs. lr_map st v = None \<and> good_addr (vx_Addr v)" using i(3,4) d(2) by (auto simp: domIff [symmetric])
  from lbf_rest_ok [OF i(1,2) this n(1), of "int k"] obtain st' where
    s': "fold_res (lbf_assign cfg (int k)) vs st = Inr st'" "places_ok cfg st'"
      "lr_map st' = (\<lambda>v. if v \<in> set vs then Some (int k) else lr_map st v)" by blast
  define ls' where "ls' = ls1\<lparr> lb_NetGraph := g\<lparr> Vertexs := vs \<rparr>, lb_PartitionMap := lr_map st' \<rparr>"
  show thesis
  proof (rule that)
    show "LBF_Partition rnd intn cfg ls g0 = Inr (ls', st')"
      using r s'(1) unfolding k by (simp add: LBF_Partition_def Let_def ls1_def [symmetric] sel k_def avg_def st0_def ls'_def)
    show "places_ok cfg st'" "lb_PartitionMap ls' = lr_map st'" using s'(2) by (simp_all add: ls'_def)
    show "dom (lr_map st') = set (Vertexs g)" using i(3,4) by (auto simp: s'(3) dom_def split: if_splits)
    show "\<forall>v i. lr_map st' v = Some i \<longrightarrow> 0 \<le> i \<and> i < Shard_num cfg" using i(5) k by (force simp: s'(3) split: if_splits)
    show "\<forall>a D i. exact_ints rnd \<longrightarrow> lb_AvgWeight ls' = Fin a \<longrightarrow> sum (degree g) (set (Vertexs g)) \<le> 2 ^ 53 \<longrightarrow> (\<forall>v. degree g v \<le> D)
          \<longrightarrow> 0 \<le> i \<longrightarrow> i < Shard_num cfg - 1 \<longrightarrow> balanced g a D (lr_map st') [] i"
    proof (intro allI impI)
      fix a D i' assume e: "exact_ints rnd" "lb_AvgWeight ls' = Fin a" "sum (degree g) (set (Vertexs g)) \<le> 2 ^ 53" "\<forall>v. degree g v \<le> D"
        "0 \<le> i'" "i' < Shard_num cfg - 1"
      have "avg = Fin a" using e(2) by (simp add: ls'_def avg_def)
      with inv e k have b: "balanced g a D (lr_map st) vs i'" by (auto simp: lbf_inv_def)
      have "{v \<in> set (Vertexs g). lr_map st' v = Some i'} = {v \<in> set (Vertexs g). lr_map st v = Some i'}"
        using i(4) e(6) k by (auto simp: s'(3))
      then have same: "load g (lr_map st') i' = load g (lr_map st) i'" by (simp add: load_def)
      show "balanced g a D (lr_map st') [] i'"
        using b unfolding balanced_def same by (auto simp: s'(3) split: if_splits)
    qed
  qed
qed

end
