(* ===== verification/Placement.thy ===== *)
theory Placement
  imports BalanceRun
begin

text \<open>
  The client's graphs for LBF and METIS, and what the maps of the other three algorithms guarantee.
\<close>

section \<open>The graphs\<close>

lemma no_degree: "graph_ok g \<Longrightarrow> v \<notin> set (Vertexs g) \<Longrightarrow> degree g v = 0"
  by (simp add: degree_def neighbours_of_new)

definition degrees :: "Graph \<Rightarrow> int" where
  "degrees g = sum (degree g) (set (Vertexs g))"

lemma degree_le: "graph_ok g \<Longrightarrow> degree g v \<le> degrees g"
  unfolding degrees_def
  by (cases "v \<in> set (Vertexs g)") (auto simp: no_degree intro: member_le_sum sum_nonneg)

lemma degrees_AddEdge:
  assumes ok: "graph_ok g" and vs: "set (Vertexs h) = set (Vertexs g) \<union> {u, v}"
    and nb: "neighbours h = (\<lambda>w. neighbours g w @ (if uni = (0 :: int) \<and> w = u then [v] else []) @ (if w = v then [u] else []))"
  shows "degrees h \<le> degrees g + 2"
proof -
  let ?S = "set (Vertexs g) \<union> {u, v}"
  have one: "(\<Sum>w\<in>?S. if w = x then 1 else 0) \<le> (1 :: int)" for x by simp
  have "degrees h \<le> (\<Sum>w\<in>?S. degree g w + ((if w = u then 1 else 0) + (if w = v then 1 else 0)))"
    unfolding degrees_def vs degree_def nb by (intro sum_mono) auto
  also have "\<dots> \<le> sum (degree g) ?S + 2"
    using one [of u] one [of v] unfolding sum.distrib by linarith
  also have "sum (degree g) ?S = degrees g"
    unfolding degrees_def using no_degree [OF ok] by (intro sum.mono_neutral_right) auto
  finally show ?thesis .
qed

lemma lbf_AddEdge_ok:
  assumes ok: "graph_ok (lb_NetGraph ls)"
  shows "\<exists>ls'. lbf_AddEdge u v uni ls = Inr ls' \<and> graph_ok (lb_NetGraph ls') \<and> lb_ShardNum ls' = lb_ShardNum ls
    \<and> set (Vertexs (lb_NetGraph ls')) = set (Vertexs (lb_NetGraph ls)) \<union> {u, v} \<and> degrees (lb_NetGraph ls') \<le> degrees (lb_NetGraph ls) + 2
    \<and> neighbours (lb_NetGraph ls') = (\<lambda>w. neighbours (lb_NetGraph ls) w @ (if uni = 0 \<and> w = u then [v] else []) @ (if w = v then [u] else []))"
proof -
  let ?ls1 = "lbf_need_vertex v (lbf_need_vertex u ls)" and ?g = "lb_NetGraph ls"
  have need: "lb_NetGraph (lbf_need_vertex w l) = graph_AddVertex w (lb_NetGraph l)" "lb_ShardNum (lbf_need_vertex w l) = lb_ShardNum l" for w l
    by (simp_all add: lbf_need_vertex_def lbf_AddVertex_def graph_AddVertex_def)
  have g1: "lb_NetGraph ?ls1 = graph_AddVertex v (graph_AddVertex u ?g)" by (simp add: need)
  let ?g1 = "graph_AddVertex v (graph_AddVertex u ?g)"
  have ok1: "graph_ok ?g1" "graph_ok (graph_AddVertex u ?g)" by (intro AddVertex_ok ok)+
  then have ix: "indexed ?g" "indexed (graph_AddVertex u ?g)" "indexed ?g1" "indexed (graph_AddVertex u ?g1)"
    using ok AddVertex_ok [of ?g1 u] by (auto simp: graph_ok_def)
  obtain h where h: "graph_AddEdge u v uni ?g1 = Inr h" "graph_ok h"
    "Vertexs h = Vertexs (graph_AddVertex v (graph_AddVertex u ?g1))"
    "neighbours h = (\<lambda>w. neighbours ?g1 w @ (if uni = 0 \<and> w = u then [v] else []) @ (if w = v then [u] else []))"
    by (rule AddEdge_ok [OF ok1(1)])
  have "set (Vertexs h) = set (Vertexs ?g) \<union> {u, v}"
    unfolding h(3) AddVertex_Vertexs [OF ix(4)] AddVertex_Vertexs [OF ix(3)] AddVertex_Vertexs [OF ix(2)] AddVertex_Vertexs [OF ix(1)]
    by auto
  moreover from this have "degrees h \<le> degrees ?g + 2" by (rule degrees_AddEdge [OF ok]) (use h(4) in simp)
  ultimately show ?thesis using h by (simp add: lbf_AddEdge_def Let_def g1 need)
qed

lemma lbf_add_tx_ok:
  assumes ok: "graph_ok (lb_NetGraph ls)"
  shows "\<exists>ls'. lbf_add_tx tx ls = Inr ls' \<and> graph_ok (lb_NetGraph ls') \<and> lb_ShardNum ls' = lb_ShardNum ls
    \<and> vx_Addr ` set (Vertexs (lb_NetGraph ls')) = vx_Addr ` set (Vertexs (lb_NetGraph ls)) \<union> parties [tx]
    \<and> degrees (lb_NetGraph ls') \<le> degrees (lb_NetGraph ls) + 4"
proof (cases "from_addr tx = to_addr tx")
  case True
  then show ?thesis using ok by (simp add: lbf_add_tx_def parties_def)
next
  case False
  let ?s = "Vertex (from_addr tx)" and ?r = "Vertex (to_addr tx)"
  let ?first = "if IsRelay tx \<or> Relay_Lock tx then lbf_AddEdge ?s ?r 1 ls else Inr ls"
  obtain ls1 where s1: "?first = Inr ls1" "graph_ok (lb_NetGraph ls1)" "lb_ShardNum ls1 = lb_ShardNum ls"
    "set (Vertexs (lb_NetGraph ls1)) \<union> {?s, ?r} = set (Vertexs (lb_NetGraph ls)) \<union> {?s, ?r}"
    "degrees (lb_NetGraph ls1) \<le> degrees (lb_NetGraph ls) + 2"
    using ok lbf_AddEdge_ok [OF ok, of ?s ?r 1] by (cases "IsRelay tx \<or> Relay_Lock tx") auto
  from lbf_AddEdge_ok [OF s1(2), of ?s ?r 0] obtain ls2 where
    s2: "lbf_AddEdge ?s ?r 0 ls1 = Inr ls2" "graph_ok (lb_NetGraph ls2)" "lb_ShardNum ls2 = lb_ShardNum ls1"
      "set (Vertexs (lb_NetGraph ls2)) = set (Vertexs (lb_NetGraph ls1)) \<union> {?s, ?r}"
      "degrees (lb_NetGraph ls2) \<le> degrees (lb_NetGraph ls1) + 2" by blast
  with s1 False show ?thesis by (auto simp: lbf_add_tx_def Let_def parties_def)
qed

lemma build_lbf_ok:
  "\<exists>ls. build_lbf rnd cfg txs = Inr ls \<and> graph_ok (lb_NetGraph ls) \<and> lb_ShardNum ls = Shard_num cfg
    \<and> vx_Addr ` set (Vertexs (lb_NetGraph ls)) = parties txs \<and> degrees (lb_NetGraph ls) \<le> 4 * int (length txs)"
proof -
  have "\<exists>ls'. fold_res lbf_add_tx txs ls = Inr ls' \<and> graph_ok (lb_NetGraph ls') \<and> lb_ShardNum ls' = lb_ShardNum ls
      \<and> vx_Addr ` set (Vertexs (lb_NetGraph ls')) = vx_Addr ` set (Vertexs (lb_NetGraph ls)) \<union> parties txs
      \<and> degrees (lb_NetGraph ls') \<le> degrees (lb_NetGraph ls) + 4 * int (length txs)"
    if "graph_ok (lb_NetGraph ls)" for ls
    using that
  proof (induction txs arbitrary: ls)
    case (Cons tx txs)
    from lbf_add_tx_ok [OF Cons.prems, of tx] obtain ls1 where s1: "lbf_add_tx tx ls = Inr ls1" "graph_ok (lb_NetGraph ls1)"
      "lb_ShardNum ls1 = lb_ShardNum ls" "vx_Addr ` set (Vertexs (lb_NetGraph ls1)) = vx_Addr ` set (Vertexs (lb_NetGraph ls)) \<union> parties [tx]"
      "degrees (lb_NetGraph ls1) \<le> degrees (lb_NetGraph ls) + 4" by blast
    from Cons.IH [OF s1(2)] obtain ls2 where s2: "fold_res lbf_add_tx txs ls1 = Inr ls2" "graph_ok (lb_NetGraph ls2)"
      "lb_ShardNum ls2 = lb_ShardNum ls1" "vx_Addr ` set (Vertexs (lb_NetGraph ls2)) = vx_Addr ` set (Vertexs (lb_NetGraph ls1)) \<union> parties txs"
      "degrees (lb_NetGraph ls2) \<le> degrees (lb_NetGraph ls1) + 4 * int (length txs)" by blast
    have "parties (tx # txs) = parties [tx] \<union> parties txs" by (auto simp: parties_def)
    with s1 s2 show ?case by (simp add: Un_assoc)
  qed (simp add: parties_def)
  from this [of "Init_LBFState (rnd (1 / 2)) (Shard_num cfg) new_LBFState"] show ?thesis
    by (simp add: build_lbf_def Init_LBFState_def new_LBFState_def degrees_def) (simp add: empty_graph_def)
qed

lemma parties_good: "long_addresses txs \<Longrightarrow> a \<in> parties txs \<Longrightarrow> good_addr a"
  using long_good [of txs] by (auto simp: parties_def split: if_splits)

section \<open>LBF\<close>

text \<open>The documented range of \<open>rand.Intn\<close>.\<close>

lemma build_and_place:
  assumes memo: "memo_in_range cfg g0" and long: "long_addresses txs" and n: "0 < Shard_num cfg" and intn: "intn_ok intn"
  obtains ls ls' st g where "build_lbf rnd cfg txs = Inr ls" "lb_NetGraph ls = g" "graph_ok g" "degrees g \<le> 4 * int (length txs)" "LBF_Partition rnd intn cfg ls g0 = Inr (ls', st)"
    "places_ok cfg st" "lb_PartitionMap ls' = lr_map st" "dom (lr_map st) = Vertex ` parties txs" "set (Vertexs g) = Vertex ` parties txs"
    "\<forall>v i. lr_map st v = Some i \<longrightarrow> 0 \<le> i \<and> i < Shard_num cfg"
    "\<forall>a D i. exact_ints rnd \<longrightarrow> lb_AvgWeight ls' = Fin a \<longrightarrow> sum (degree g) (set (Vertexs g)) \<le> 2 ^ 53 \<longrightarrow> (\<forall>v. degree g v \<le> D)
          \<longrightarrow> 0 \<le> i \<longrightarrow> i < Shard_num cfg - 1 \<longrightarrow> balanced g a D (lr_map st) [] i"
proof -
  from build_lbf_ok obtain ls where ls: "build_lbf rnd cfg txs = Inr ls" "graph_ok (lb_NetGraph ls)" "lb_ShardNum ls = Shard_num cfg"
    "vx_Addr ` set (Vertexs (lb_NetGraph ls)) = parties txs" "degrees (lb_NetGraph ls) \<le> 4 * int (length txs)" by blast
  have d: "distinct (Vertexs (lb_NetGraph ls))" using ls(2) by (simp add: graph_ok_def indexed_def)
  have good: "\<forall>v\<in>set (Vertexs (lb_NetGraph ls)). good_addr (vx_Addr v)" using parties_good [OF long] ls(4) by blast
  have vs: "set (Vertexs (lb_NetGraph ls)) = Vertex ` parties txs"
    unfolding ls(4) [symmetric] by (simp add: image_image)
  show thesis
    by (rule LBF_Partition_ok [OF intn n ls(3) memo d good refl]) (rule that [OF ls(1) refl ls(2,5)], use vs in simp_all)
qed

text \<open>
  LBF places every account of the transactions, in one shard that exists, whatever the random numbers;
  it lists an account, once, with its shard, when that is not its present one.
\<close>

theorem lbf_places_all:
  assumes "memo_in_range cfg g" "long_addresses txs" "0 < Shard_num cfg" "intn_ok intn"
  shows "\<exists>ls ls' st. build_lbf rnd cfg txs = Inr ls \<and> LBF_Partition rnd intn cfg ls g = Inr (ls', st)
    \<and> dom (lb_PartitionMap ls') = Vertex ` parties txs \<and> distinct (lr_addrs st) \<and> dom (lr_res st) = set (lr_addrs st)
    \<and> (\<forall>v i. lb_PartitionMap ls' v = Some i \<longrightarrow> 0 \<le> i \<and> i < Shard_num cfg
        \<and> (\<exists>s. Account2Shard (lr_globals st) (vx_Addr v) = Some s \<and> lr_res st (vx_Addr v) = (if i \<noteq> s then Some i else None)))"
  by (rule build_and_place [OF assms, of rnd]) (fastforce simp: places_ok_def)

lemma lbf_places_all_witness:
  "\<exists>ls ls' st. build_lbf Fin two_shards [tx_between [1, 2, 3] [1, 2, 5]] = Inr ls
    \<and> LBF_Partition Fin (\<lambda>_ _. 0) two_shards ls InitGlobals = Inr (ls', st)
    \<and> dom (lb_PartitionMap ls') = {Vertex ''010203'', Vertex ''010205''}"
proof -
  have "parties [tx_between [1, 2, 3] [1, 2, 5]] = {''010203'', ''010205''}" by (simp add: parties_def pair_addresses)
  then show ?thesis
    using lbf_places_all [OF memo_in_range_InitGlobals long_pair, of two_shards "\<lambda>_ _. 0" Fin]
    by (auto simp: two_shards_num intn_ok_def)
qed

text \<open>
  C28. The loads that LBF gives, as sums of degrees: a shard other than the last gets less than the average plus
  the largest degree, or nothing at all, and at least the average when a later shard has an account. Sums of
  degrees are exact below \<open>2 ^ 53\<close>; the average is the rounded one.
\<close>

theorem lbf_balanced:
  assumes "memo_in_range cfg g0" "long_addresses txs" "0 < Shard_num cfg" "intn_ok intn" "length txs \<le> 2 ^ 51"
    and "exact_ints rnd" "build_lbf rnd cfg txs = Inr ls" "LBF_Partition rnd intn cfg ls g0 = Inr (ls', st)"
    and "lb_AvgWeight ls' = Fin a" "\<And>v. degree (lb_NetGraph ls) v \<le> D" and i: "0 \<le> i" "i < Shard_num cfg - 1"
  shows "(load (lb_NetGraph ls) (lb_PartitionMap ls') i = 0 \<or> of_int (load (lb_NetGraph ls) (lb_PartitionMap ls') i) < a + of_int D)
    \<and> (\<forall>v j. lb_PartitionMap ls' v = Some j \<longrightarrow> i < j \<longrightarrow> a \<le> of_int (load (lb_NetGraph ls) (lb_PartitionMap ls') i))"
proof -
  obtain l1 l2 s g where b: "build_lbf rnd cfg txs = Inr l1" "lb_NetGraph l1 = g" "LBF_Partition rnd intn cfg l1 g0 = Inr (l2, s)"
    "lb_PartitionMap l2 = lr_map s" and sm: "degrees g \<le> 4 * int (length txs)"
    and bal: "\<forall>a D i. exact_ints rnd \<longrightarrow> lb_AvgWeight l2 = Fin a \<longrightarrow> sum (degree g) (set (Vertexs g)) \<le> 2 ^ 53 \<longrightarrow> (\<forall>v. degree g v \<le> D)
          \<longrightarrow> 0 \<le> i \<longrightarrow> i < Shard_num cfg - 1 \<longrightarrow> balanced g a D (lr_map s) [] i"
    by (rule build_and_place [OF assms(1-4), of rnd])
  have same: "l1 = ls" "l2 = ls'" "s = st" using b assms(7,8) by auto
  have "sum (degree g) (set (Vertexs g)) \<le> 2 ^ 53" using sm assms(5) by (simp add: degrees_def)
  with bal assms(6,9,10) i b(2) same have "balanced g a D (lr_map st) [] i" by blast
  then show ?thesis using b same by (auto simp: balanced_def)
qed

lemma LBF_average: "LBF_Partition rnd intn cfg ls g = Inr (ls', st) \<Longrightarrow> lb_AvgWeight ls' =
    f64_div rnd (f64_of_int rnd (total_degree (lb_NetGraph ls))) (f64_of_int rnd (lb_ShardNum ls))"
  by (auto simp: LBF_Partition_def Let_def bind_res_eq_Inr ComputeAvgWeight_def)

lemma lbf_balanced_witness:
  "\<exists>ls ls' st (a :: rat) D. build_lbf Fin two_shards [tx_between [1, 2, 3] [1, 2, 5]] = Inr ls
    \<and> LBF_Partition Fin (\<lambda>_ _. 0) two_shards ls InitGlobals = Inr (ls', st)
    \<and> (load (lb_NetGraph ls) (lb_PartitionMap ls') 0 = 0 \<or> of_int (load (lb_NetGraph ls) (lb_PartitionMap ls') 0) < a + of_int D)"
proof -
  let ?txs = "[tx_between [1, 2, 3] [1, 2, 5]]"
  have intn: "intn_ok (\<lambda>_ _. 0)" and n: "0 < Shard_num two_shards" by (simp_all add: intn_ok_def two_shards_num)
  obtain ls ls' st g where b: "build_lbf Fin two_shards ?txs = Inr ls" "lb_NetGraph ls = g" "graph_ok g"
    "LBF_Partition Fin (\<lambda>_ _. 0) two_shards ls InitGlobals = Inr (ls', st)"
    by (rule build_and_place [OF memo_in_range_InitGlobals long_pair n intn])
  have "lb_ShardNum ls = 2" using build_lbf_ok [of Fin two_shards ?txs] b(1) by (auto simp: two_shards_num)
  with LBF_average [OF b(4)] have a: "lb_AvgWeight ls' = Fin (of_int (total_degree g) / 2)"
    by (simp add: b(2) f64_div_def f64_of_int_def)
  have "load (lb_NetGraph ls) (lb_PartitionMap ls') 0 = 0
      \<or> of_int (load (lb_NetGraph ls) (lb_PartitionMap ls') 0) < (of_int (total_degree g) / 2 :: rat) + of_int (degrees g)"
    using lbf_balanced [OF memo_in_range_InitGlobals long_pair n intn _ _ b(1,4) a, of "degrees g" 0] degree_le [OF b(3)] b(2)
    by (simp add: exact_ints_def two_shards_num)
  with b show ?thesis by blast
qed

section \<open>METIS\<close>

lemma degree_row:
  assumes ok: "graph_ok g" and i: "i < length (Vertexs g)"
  shows "card (dom (EdgeWeight g ! i)) = card (set (neighbours g (Vertexs g ! i)))"
proof -
  let ?vs = "Vertexs g" and ?nb = "neighbours g (Vertexs g ! i)"
  have w: "(EdgeWeight g ! i) j = (if 0 \<le> j \<and> j < int (length ?vs) then counted (count_list ?nb (?vs ! nat j)) else None)" for j
    using ok i by (simp add: graph_ok_def weights_ok_def)
  have d: "distinct ?vs" and sub: "set ?nb \<subseteq> set ?vs" using ok by (auto simp: graph_ok_def indexed_def)
  have dom: "dom (EdgeWeight g ! i) = {j. 0 \<le> j \<and> j < int (length ?vs) \<and> ?vs ! nat j \<in> set ?nb}"
    by (auto simp: w counted_def count_list_0_iff split: if_splits)
  have "bij_betw (\<lambda>j. ?vs ! nat j) (dom (EdgeWeight g ! i)) (set ?nb)"
    unfolding bij_betw_def
  proof
    show "inj_on (\<lambda>j. ?vs ! nat j) (dom (EdgeWeight g ! i))"
      unfolding dom using d by (auto simp: inj_on_def nth_eq_iff_index_eq nat_less_iff)
    show "(\<lambda>j. ?vs ! nat j) ` dom (EdgeWeight g ! i) = set ?nb"
    proof
      show "set ?nb \<subseteq> (\<lambda>j. ?vs ! nat j) ` dom (EdgeWeight g ! i)"
      proof
        fix u assume u: "u \<in> set ?nb"
        then obtain k where "k < length ?vs" "?vs ! k = u" using sub by (metis in_set_conv_nth subsetD)
        with u show "u \<in> (\<lambda>j. ?vs ! nat j) ` dom (EdgeWeight g ! i)" unfolding dom by (intro image_eqI [of _ _ "int k"]) auto
      qed
    qed (auto simp: dom)
  qed
  then show ?thesis by (rule bij_betw_same_card)
qed

text \<open>The sum over the rows counts the directed edges, and these come in opposite pairs.\<close>

definition directed :: "Graph \<Rightarrow> (Vertex \<times> Vertex) set" where
  "directed g = (SIGMA v:set (Vertexs g). set (neighbours g v))"

lemma metis_edges_directed:
  assumes ok: "graph_ok g"
  shows "metis_edges g = int (card (directed g))"
proof -
  have len: "length (EdgeWeight g) = length (Vertexs g)" and d: "distinct (Vertexs g)" using ok by (auto simp: graph_ok_def indexed_def)
  have "map (\<lambda>m. int (card (dom m))) (EdgeWeight g) = map (\<lambda>v. int (card (set (neighbours g v)))) (Vertexs g)"
    using len degree_row [OF ok] by (intro nth_equalityI) auto
  then have "metis_edges g = (\<Sum>v\<in>set (Vertexs g). int (card (set (neighbours g v))))"
    using d by (simp add: metis_edges_def sum_list_distinct_conv_sum_set)
  then show ?thesis by (simp add: directed_def)
qed

lemma even_directed:
  assumes ok: "graph_ok g" and sym: "symmetric g" and lf: "loop_free g"
  shows "even (card (directed g))"
proof -
  let ?i = "vertex_index g"
  have ix: "indexed g" using ok by (simp add: graph_ok_def)
  have swap: "(u, v) \<in> directed g" if "(v, u) \<in> directed g" for u v
  proof -
    have "u \<in> set (neighbours g v)" "v \<in> set (Vertexs g)" using that by (auto simp: directed_def)
    moreover from this have "count_list (neighbours g u) v \<noteq> 0" using sym by (metis count_list_0_iff symmetric_def)
    moreover have "u \<in> set (Vertexs g)" using ok calculation(1) by (auto simp: graph_ok_def)
    ultimately show ?thesis by (auto simp: directed_def count_list_0_iff)
  qed
  have ne: "?i v \<noteq> ?i u" if "(v, u) \<in> directed g" for u v
  proof
    assume e: "?i v = ?i u"
    have vs: "v \<in> set (Vertexs g)" "u \<in> set (Vertexs g)" using that swap [OF that] by (auto simp: directed_def)
    have "v = u" using indexed_index(3) [OF ix vs(1)] indexed_index(3) [OF ix vs(2)] e by metis
    with that lf show False by (auto simp: directed_def loop_free_def)
  qed
  let ?lt = "{(v, u) \<in> directed g. ?i v < ?i u}" and ?gt = "{(v, u) \<in> directed g. ?i u < ?i v}"
  have fin: "finite (directed g)" by (simp add: directed_def)
  have "directed g = ?lt \<union> ?gt" using ne by force
  moreover have "?lt \<inter> ?gt = {}" by auto
  moreover have "finite ?lt" "finite ?gt" by (rule finite_subset [OF _ fin], auto)+
  ultimately have "card (directed g) = card ?lt + card ?gt" using card_Un_disjoint [of ?lt ?gt] by simp
  moreover have "bij_betw prod.swap ?lt ?gt"
    by (rule bij_betw_byWitness [of _ prod.swap]) (use swap in \<open>auto\<close>)
  then have "card ?lt = card ?gt" by (rule bij_betw_same_card)
  ultimately show ?thesis by simp
qed

lemma build_metis_ok:
  assumes "graph_ok (lb_NetGraph ls)" "symmetric (lb_NetGraph ls)" "loop_free (lb_NetGraph ls)"
  shows "\<exists>ls'. fold_res metis_add_tx txs ls = Inr ls' \<and> graph_ok (lb_NetGraph ls') \<and> symmetric (lb_NetGraph ls') \<and> loop_free (lb_NetGraph ls')
    \<and> lb_ShardNum ls' = lb_ShardNum ls \<and> vx_Addr ` set (Vertexs (lb_NetGraph ls')) = vx_Addr ` set (Vertexs (lb_NetGraph ls)) \<union> parties txs"
  using assms
proof (induction txs arbitrary: ls)
  case (Cons tx txs)
  let ?s = "Vertex (from_addr tx)" and ?r = "Vertex (to_addr tx)"
  have parts: "parties (tx # txs) = parties [tx] \<union> parties txs" by (auto simp: parties_def)
  show ?case
  proof (cases "from_addr tx = to_addr tx")
    case True
    then show ?thesis using Cons.IH [OF Cons.prems] by (simp add: metis_add_tx_def parts) (simp add: parties_def)
  next
    case False
    from lbf_AddEdge_ok [OF Cons.prems(1), of ?s ?r 0] obtain l1 where l1: "lbf_AddEdge ?s ?r 0 ls = Inr l1" "graph_ok (lb_NetGraph l1)"
      "lb_ShardNum l1 = lb_ShardNum ls" "set (Vertexs (lb_NetGraph l1)) = set (Vertexs (lb_NetGraph ls)) \<union> {?s, ?r}"
      "neighbours (lb_NetGraph l1) = (\<lambda>w. neighbours (lb_NetGraph ls) w @ (if w = ?s then [?r] else []) @ (if w = ?r then [?s] else []))"
      by auto
    have "symmetric (lb_NetGraph l1)" "loop_free (lb_NetGraph l1)"
      using symmetric_AddEdge [OF Cons.prems(2) l1(5)] loop_free_AddEdge [OF Cons.prems(3) _ l1(5)] False by simp_all
    from Cons.IH [OF l1(2) this] obtain l2 where l2: "fold_res metis_add_tx txs l1 = Inr l2" "graph_ok (lb_NetGraph l2)"
      "symmetric (lb_NetGraph l2)" "loop_free (lb_NetGraph l2)" "lb_ShardNum l2 = lb_ShardNum l1"
      "vx_Addr ` set (Vertexs (lb_NetGraph l2)) = vx_Addr ` set (Vertexs (lb_NetGraph l1)) \<union> parties txs" by blast
    have "parties [tx] = {from_addr tx, to_addr tx}" using False by (simp add: parties_def)
    moreover have "metis_add_tx tx ls = Inr l1" using l1(1) False by (simp add: metis_add_tx_def)
    ultimately show ?thesis using l1 l2 by (simp add: parts Un_assoc image_Un)
  qed
qed (simp add: parties_def)

lemma card_dom_indexed:
  assumes "indexed g"
  shows "card (dom (VertexSet g)) = length (Vertexs g)"
proof -
  have "v \<in> dom (VertexSet g) \<longleftrightarrow> v \<in> set (Vertexs g)" for v using indexed_vertex [OF assms, of v] by (auto simp: domIff)
  then have "dom (VertexSet g) = set (Vertexs g)" by blast
  moreover have "distinct (Vertexs g)" using assms by (simp add: indexed_def)
  ultimately show ?thesis by (simp add: distinct_card)
qed

text \<open>
  The input that the client writes for METIS passes its two checks: as many nodes as accounts, and an even
  number of entries, so that the number of edges is the number of pairs of accounts that have transactions.
\<close>

theorem metis_input:
  "\<exists>ls. fold_res metis_add_tx txs (Init_LBFState alpha sn new_LBFState) = Inr ls
    \<and> Write_to_txt ls = Inr (int (card (parties txs)), int (card (directed (lb_NetGraph ls)) div 2), EdgeWeight (lb_NetGraph ls))"
proof -
  let ?l0 = "Init_LBFState alpha sn new_LBFState"
  have "lb_NetGraph ?l0 = empty_graph" by (simp add: Init_LBFState_def new_LBFState_def)
  with build_metis_ok [of ?l0 txs] obtain ls where ls: "fold_res metis_add_tx txs ?l0 = Inr ls" "graph_ok (lb_NetGraph ls)"
    "symmetric (lb_NetGraph ls)" "loop_free (lb_NetGraph ls)" "vx_Addr ` set (Vertexs (lb_NetGraph ls)) = parties txs"
    by (auto simp: empty_graph_def [THEN arg_cong [of _ _ Vertexs]])
  let ?g = "lb_NetGraph ls"
  have "indexed ?g" using ls(2) by (simp add: graph_ok_def)
  then have d: "distinct (Vertexs ?g)" by (simp add: indexed_def)
  have "card (parties txs) = length (Vertexs ?g)"
    unfolding ls(5) [symmetric] using d by (subst card_image) (auto simp: inj_on_def vx_Addr_eq distinct_card)
  with card_dom_indexed [OF \<open>indexed ?g\<close>] even_directed [OF ls(2-4)] metis_edges_directed [OF ls(2)] ls(1) show ?thesis
    by (auto simp: Write_to_txt_def Let_def even_iff_mod_2_eq_zero zdiv_int zmod_int)
qed

section \<open>PageRank\<close>

definition scored :: "addr list \<Rightarrow> int \<Rightarrow> (addr \<rightharpoonup> f64 list) \<Rightarrow> bool" where
  "scored addrs n points \<longleftrightarrow> dom points = set addrs \<and> (\<forall>a\<in>set addrs. length (points_at points a) = nat n)"

lemma pagerank_sum_ok:
  assumes sc: "scored addrs n points" and keys: "set keys \<subseteq> set addrs" and s: "0 \<le> shard" "shard < n"
  shows "\<exists>x. pagerank_sum rnd out keys points shard = Inr x"
proof -
  let ?f = "\<lambda>i (total, count). let val = lookup0 out i in
         if val \<noteq> 0 then bind_res (slice_at (points_at points i) shard) (\<lambda>p.
           Inr (f64_add rnd total (f64_mul rnd (f64_of_int rnd val) p), count + val))
         else Inr (total, count)"
  have "\<exists>s'. fold_res ?f keys (rnd 0, 0) = Inr s' \<and> True"
  proof (rule fold_res_total)
    fix i and st :: "f64 \<times> int" assume i: "i \<in> set keys"
    obtain t c where st: "st = (t, c)" by fastforce
    have "shard < int (length (points_at points i))" using sc keys i s by (auto simp: scored_def)
    then show "\<exists>s'. ?f i st = Inr s' \<and> True" using s(1) by (simp add: st Let_def slice_in_range)
  qed simp
  then show ?thesis by (auto simp: pagerank_sum_def split: prod.splits)
qed

lemma pagerank_score_ok:
  assumes sc: "scored addrs n points" and a: "a \<in> set addrs" and s: "0 \<le> shard" "shard < n" "int (length shard_size) = n"
    and rng: "\<And>xs. mset (rng xs) = mset xs"
  shows "\<exists>p. pagerank_score rnd rng gr addrs addr2shard numbda shard_size a shard points = Inr p \<and> scored addrs n p"
proof -
  define out where "out = (case gr a of None \<Rightarrow> Map.empty | Some m \<Rightarrow> m)"
  have "set (rng xs) = set xs" for xs using rng by (metis set_mset_mset)
  then have "set (rng (filter (\<lambda>k. out k \<noteq> None) addrs)) \<subseteq> set addrs" by auto
  from pagerank_sum_ok [OF sc this s(1,2)] obtain sm where
    sm: "pagerank_sum rnd out (rng (filter (\<lambda>k. out k \<noteq> None) addrs)) points shard = Inr sm" by blast
  let ?w = "if lookup0 addr2shard a = shard
          then bind_res (slice_at shard_size shard) (\<lambda>n. Inr (f64_div rnd (f64_of_int rnd 1) (f64_of_int rnd n))) else Inr (rnd 0)"
  obtain w where w: "?w = Inr w" using s by (cases "lookup0 addr2shard a = shard") (auto simp: slice_in_range)
  have len: "shard < int (length (points_at points a))" using sc a s by (auto simp: scored_def)
  let ?l = "(points_at points a)[nat shard := f64_add rnd (f64_mul rnd (f64_sub rnd (f64_of_int rnd 1) numbda) w) (f64_mul rnd numbda sm)]"
  have "pagerank_score rnd rng gr addrs addr2shard numbda shard_size a shard points = Inr (points(a \<mapsto> ?l))"
    unfolding pagerank_score_def Let_def out_def [symmetric] w sm using s(1) len by (simp add: slice_in_range)
  moreover have "scored addrs n (points(a \<mapsto> ?l))" using sc a by (auto simp: scored_def points_at_def)
  ultimately show ?thesis by blast
qed

lemma points_start:
  "dom (fold (\<lambda>a m. m(a \<mapsto> x)) addrs m) = set addrs \<union> dom m"
  "b \<in> set addrs \<or> m b = Some x \<Longrightarrow> fold (\<lambda>a m. m(a \<mapsto> x)) addrs m b = Some x"
  by (induction addrs arbitrary: m) auto

lemma Pagerank_ok:
  assumes n: "0 < n" and known: "\<forall>a\<in>set known. 0 \<le> lookup0 addr2shard a \<and> lookup0 addr2shard a < n"
    and rng: "\<And>xs. mset (rng xs) = mset xs"
  shows "\<exists>p. Pagerank rnd rng gr addrs known addr2shard numbda iters n = Inr p \<and> scored addrs n p"
proof -
  let ?p0 = "fold (\<lambda>a m. m(a \<mapsto> replicate (nat n) (rnd 0))) addrs Map.empty"
  have p0: "scored addrs n ?p0"
    unfolding scored_def by (auto simp: points_start points_at_def)
  have "\<exists>z. fold_res (\<lambda>a. slice_upd (lookup0 addr2shard a) (\<lambda>n. n + 1)) known (replicate (nat n) (0 :: int)) = Inr z \<and> length z = nat n"
    by (rule fold_res_total) (use known in \<open>auto simp: slice_in_range\<close>)
  then obtain z where z: "fold_res (\<lambda>a. slice_upd (lookup0 addr2shard a) (\<lambda>n. n + 1)) known (replicate (nat n) (0 :: int)) = Inr z"
    "int (length z) = n" using n by auto
  have "\<exists>p. fold_res (\<lambda>_. fold_res (\<lambda>a. fold_res (\<lambda>s. pagerank_score rnd rng gr addrs addr2shard numbda z a (int s)) [0..<nat n]) addrs)
      [0..<nat iters] ?p0 = Inr p \<and> scored addrs n p"
    by (intro fold_res_total [where P = "scored addrs n"] p0 pagerank_score_ok [OF _ _ _ _ z(2) rng]) auto
  then show ?thesis using n z(1) by (simp add: Pagerank_def make_ints_def)
qed

lemma best_shard_range:
  assumes "best_shard rnd v = Some s"
  shows "0 \<le> s \<and> s < int (length v)"
proof -
  let ?f = "\<lambda>(shard, point) (mx, best). if f64_less mx point then (point, Some (int shard)) else (mx, best)"
  have "snd st = Some s \<or> (\<exists>k\<in>fst ` set xs. s = int k)" if "snd (fold ?f xs st) = Some s" for xs st
    using that
  proof (induction xs arbitrary: st)
    case (Cons x xs)
    then have "snd (fold ?f xs (?f x st)) = Some s" by simp
    from Cons.IH [OF this] show ?case by (cases x; cases st) (auto split: if_splits)
  qed simp
  from this [of "enumerate 0 v" "(rnd 0, None)"] assms show ?thesis
    by (auto simp: best_shard_def in_set_enumerate_eq)
qed

lemma pagerank_changed_ok:
  assumes "distinct addrs" "pagerank_changed old addrs new = (moved, m)" "dom new \<subseteq> set addrs"
  shows "moved = filter (\<lambda>a. lookup0 old a \<noteq> lookup0 new a) addrs
    \<and> m = (\<lambda>a. if a \<in> set addrs \<and> lookup0 old a = lookup0 new a then None else new a)"
proof -
  have "fold (\<lambda>a (l, m). if lookup0 old a \<noteq> lookup0 m a then (l @ [a], m) else (l, m(a := None))) as (l, n)
      = (l @ filter (\<lambda>a. lookup0 old a \<noteq> lookup0 n a) as, \<lambda>a. if a \<in> set as \<and> lookup0 old a = lookup0 n a then None else n a)"
    if "distinct as" for as l n
    using that
  proof (induction as arbitrary: l n)
    case (Cons a as)
    have same: "filter (\<lambda>b. lookup0 old b \<noteq> lookup0 (n(a := None)) b) as = filter (\<lambda>b. lookup0 old b \<noteq> lookup0 n b) as"
      using Cons.prems by (intro filter_cong) (auto simp: lookup0_def)
    show ?case using Cons same by (auto simp: fun_eq_iff lookup0_def)
  qed simp
  from this [OF assms(1), of "[]" new] assms(2) show ?thesis by (auto simp: pagerank_changed_def)
qed

text \<open>
  The map that the client makes of PageRank's scores: no step panics, whatever the rounding and the order
  in which Go ranges over a map; an account of the transactions is listed when its shard changes, once, and what
  the map says of an account is an existing shard other than its own.
\<close>

theorem pagerank_map_ok:
  assumes "memo_in_range cfg g" "0 < Shard_num cfg" "set known = dom (Account2Shard g)" "\<And>xs. mset (rng xs) = mset xs"
  shows "\<exists>moved new. pagerank_map rnd rng cfg known txs g = Inr ((moved, new), g) \<and> distinct moved
    \<and> set moved \<subseteq> from_addr ` set txs \<union> to_addr ` set txs
    \<and> (\<forall>a s. new a = Some s \<longrightarrow> a \<in> set moved \<and> 0 \<le> s \<and> s < Shard_num cfg \<and> lookup0 (Account2Shard g) a \<noteq> s)"
proof -
  obtain gr addrs where gr: "Pagerank_Tx2graph_And_Addrs txs = (gr, addrs)" by fastforce
  have "positive_counts Map.empty" by (simp add: positive_counts_def)
  from Tx2graph_fold [OF this _ _ gr [unfolded Pagerank_Tx2graph_And_Addrs_def]]
  have addrs: "distinct addrs" "set addrs = from_addr ` set txs \<union> to_addr ` set txs" by auto
  have "\<forall>a\<in>set known. 0 \<le> lookup0 (Account2Shard g) a \<and> lookup0 (Account2Shard g) a < Shard_num cfg"
    using assms(1-3) by (auto simp: lookup0_def memo_in_range_def ran_def split: option.splits)
  from Pagerank_ok [OF assms(2) this assms(4)] obtain p where
    p: "Pagerank rnd rng gr addrs known (Account2Shard g) (rnd (85 / 100)) 20 (Shard_num cfg) = Inr p" "scored addrs (Shard_num cfg) p"
    by blast
  have dom: "dom (Allocate rnd p) \<subseteq> set addrs" using p(2) by (auto simp: Allocate_def scored_def split: option.splits)
  have range: "a \<in> set addrs \<and> 0 \<le> s \<and> s < Shard_num cfg" if new: "Allocate rnd p a = Some s" for a s
  proof -
    obtain v where v: "p a = Some v" "best_shard rnd v = Some s" using new by (auto simp: Allocate_def split: option.splits)
    have a: "a \<in> set addrs" using dom new by blast
    then have "length v = nat (Shard_num cfg)" using p(2) v(1) by (auto simp: scored_def points_at_def)
    with best_shard_range [OF v(2)] a assms(2) show ?thesis by simp
  qed
  obtain moved new where c: "pagerank_changed (Account2Shard g) addrs (Allocate rnd p) = (moved, new)" by fastforce
  have m: "moved = filter (\<lambda>a. lookup0 (Account2Shard g) a \<noteq> lookup0 (Allocate rnd p) a) addrs"
    "\<And>a. new a = (if a \<in> set addrs \<and> lookup0 (Account2Shard g) a = lookup0 (Allocate rnd p) a then None else Allocate rnd p a)"
    using pagerank_changed_ok [OF addrs(1) c dom] by simp_all
  have "pagerank_map rnd rng cfg known txs g = Inr ((moved, new), g)" by (simp only: pagerank_map_def gr Let_def p prod.case bind_res_Inr c)
  moreover have "a \<in> set moved \<and> 0 \<le> s \<and> s < Shard_num cfg \<and> lookup0 (Account2Shard g) a \<noteq> s" if "new a = Some s" for a s
  proof -
    have s: "Allocate rnd p a = Some s" "lookup0 (Account2Shard g) a \<noteq> lookup0 (Allocate rnd p) a"
      using that range [of a] unfolding m(2) by (auto split: if_splits)
    then have "lookup0 (Allocate rnd p) a = s" by (simp add: lookup0_def)
    with range [OF s(1)] s(2) show ?thesis by (simp add: m(1))
  qed
  moreover have "distinct moved \<and> set moved \<subseteq> from_addr ` set txs \<union> to_addr ` set txs"
    using addrs(1) unfolding m(1) addrs(2) [symmetric] by auto
  ultimately show ?thesis by blast
qed

lemma pagerank_map_ok_witness:
  "\<exists>moved new. pagerank_map Fin rev two_shards [] [tx_between [1, 2, 3] [1, 2, 5]] InitGlobals = Inr ((moved, new), InitGlobals)
    \<and> distinct moved"
  using pagerank_map_ok [OF memo_in_range_InitGlobals, of two_shards "[]" rev Fin "[tx_between [1, 2, 3] [1, 2, 5]]"]
  by (simp add: two_shards_num) (auto simp: InitGlobals_def)

end
