(* ===== verification/Epoch.thy ===== *)
theory Epoch
  imports Commit Balance
begin

text \<open>
  The change of epoch of the mode that stops the shards (\<open>pbft/PBFTforMigrate.go\<close>, the branches
  \<open>EpochChange\<close> and \<open>AccState\<close> of \<open>commit1\<close> in \<open>pbft/pbftsingle.go\<close>, which \<open>handleCommit\<close> of \<open>pbft/pbft.go\<close>
  repeats). A goroutine runs where it is started; the wait for the clock and for the sequence lock before a
  proposal is left out, so a proposal is its commit. A map that the code ranges over is a list of its
  entries, each key once.
\<close>

section \<open>State\<close>

text \<open>What an account that leaves takes along: its balance and its waiting transactions.\<close>

type_synonym leaving = "addr \<rightharpoonup> int \<times> Transaction list"

datatype epoch_message =
    BalMsg string string leaving
  | SureMsg string int

text \<open>
  The package variables of \<open>PBFTforMigrate.go\<close>, the two sequence numbers and the epoch lock of the node.
  \<open>finished\<close> counts the signals in \<open>sendoutfinish\<close>, \<open>stored\<close> lists the trees put into the database.
\<close>

record EpochNode =
  ep_pbft :: Pbft
  inacc_count :: int
  inacc_pool :: "(addr \<times> int) list"
  intx_pool :: "Transaction list"
  sure_count :: int
  epochLock :: bool
  finished :: nat
  msequenceID :: int
  ssequenceID :: int
  stored :: "state_tree list"
  ep_sent :: "epoch_message list"

definition own_accounts :: "EpochNode \<Rightarrow> flags" where
  "own_accounts ep = AccountInOwnShard (Acc (chain (ep_pbft ep)))"

definition queue_of :: "EpochNode \<Rightarrow> Transaction list" where
  "queue_of ep = Queue (Pool (chain (ep_pbft ep)))"

section \<open>\<open>SendOut\<close>\<close>

type_synonym leaving_pool = "leaving option list"

definition entry_of :: "leaving option \<Rightarrow> leaving" where
  "entry_of e = (case e of None \<Rightarrow> Map.empty | Some m \<Rightarrow> m)"

definition add_pending :: "state_tree \<Rightarrow> int \<Rightarrow> bytes \<Rightarrow> addr \<Rightarrow> Transaction \<Rightarrow> leaving_pool \<Rightarrow> leaving_pool res" where
  "add_pending tree shard key a tx op =
     bind_res (slice_at op shard) (\<lambda>e.
     bind_res (case entry_of e a of Some r \<Rightarrow> Inr r | None \<Rightarrow> bind_res (get_state key tree) (\<lambda>s. Inr (Balance s, []))) (\<lambda>(b, txs).
       slice_upd shard (\<lambda>_. Some ((entry_of e)(a \<mapsto> (b, txs @ [tx])))) op))"

text \<open>The sender of a transaction that is not a relay, the recipient of a relay: the account it waits for.\<close>

definition waits_for :: "Transaction \<Rightarrow> addr" where
  "waits_for tx = (if IsRelay tx then to_addr tx else from_addr tx)"

definition collect_out :: "state_tree \<Rightarrow> (addr \<rightharpoonup> int) \<Rightarrow> Transaction \<Rightarrow> leaving_pool \<times> Transaction list
    \<Rightarrow> (leaving_pool \<times> Transaction list) res" where
  "collect_out tree out tx = (\<lambda>(op, kept).
     case out (waits_for tx) of
       None \<Rightarrow> Inr (op, kept @ [tx])
     | Some shard \<Rightarrow>
         bind_res (add_pending tree shard (if IsRelay tx then Recipient tx else Sender tx) (waits_for tx) tx op) (\<lambda>op'.
           Inr (op', kept)))"

text \<open>An account without a waiting transaction.\<close>

definition add_idle :: "addr \<times> int \<Rightarrow> leaving_pool \<Rightarrow> leaving_pool res" where
  "add_idle = (\<lambda>(a, shard) op.
     bind_res (slice_at op shard) (\<lambda>e.
       slice_upd shard (\<lambda>_. Some (if entry_of e a = None then (entry_of e)(a \<mapsto> (0, [])) else entry_of e)) op))"

definition collect_all :: "ChainConfig \<Rightarrow> state_tree \<Rightarrow> (addr \<times> int) list \<Rightarrow> Transaction list \<Rightarrow> (leaving_pool \<times> Transaction list) res" where
  "collect_all cfg tree out txs =
     (if Shard_num cfg < 0 then Inl make_panic
      else bind_res (fold_res (collect_out tree (map_of out)) txs (replicate (nat (Shard_num cfg)) None, [])) (\<lambda>(op, kept).
        bind_res (fold_res add_idle out op) (\<lambda>op'. Inr (op', kept))))"

text \<open>\<open>keys\<close> is the order in which Go ranges over the node table.\<close>

definition bal_messages :: "ChainConfig \<Rightarrow> string list \<Rightarrow> leaving_pool \<Rightarrow> epoch_message list" where
  "bal_messages cfg keys op = List.map_filter (\<lambda>k. let sid = shard_number k in
     if k = ShardID cfg \<or> sid < 0 \<or> sid \<ge> Shard_num cfg then None
     else map_option (BalMsg k (ShardID cfg)) (op ! nat sid)) keys"

definition SendOut :: "ChainConfig \<Rightarrow> string list \<Rightarrow> (addr \<times> int) list \<Rightarrow> EpochNode \<Rightarrow> EpochNode res" where
  "SendOut cfg keys out ep =
     bind_res (collect_all cfg (StateTree (chain (ep_pbft ep))) out (queue_of ep)) (\<lambda>(op, kept).
       Inr (ep\<lparr> ep_pbft := upd_pool (\<lambda>pool. pool\<lparr> Queue := kept \<rparr>) (ep_pbft ep),
         ep_sent := ep_sent ep @ bal_messages cfg keys op, finished := Suc (finished ep) \<rparr>))"

section \<open>Completion\<close>

text \<open>Unlocking a mutex that is not locked ends the process.\<close>

definition count_sure :: "ChainConfig \<Rightarrow> EpochNode \<Rightarrow> EpochNode res" where
  "count_sure cfg ep =
     (if sure_count ep + 1 = Shard_num cfg then
        (if epochLock ep then Inr (ep\<lparr> sure_count := 0, epochLock := False \<rparr>)
         else Inl (Panic ''sync: unlock of unlocked mutex''))
      else Inr (ep\<lparr> sure_count := sure_count ep + 1 \<rparr>))"

definition handleSure :: "ChainConfig \<Rightarrow> int \<Rightarrow> EpochNode \<Rightarrow> EpochNode res" where
  "handleSure cfg shardid ep = count_sure cfg ep"

text \<open>It waits for the signal of \<open>SendOut\<close>: without one it does not return.\<close>

definition SendSure :: "ChainConfig \<Rightarrow> string list \<Rightarrow> EpochNode \<Rightarrow> EpochNode res" where
  "SendSure cfg keys ep =
     (if finished ep = 0 then Inl (Err ''blocked'')
      else count_sure cfg (ep\<lparr> finished := finished ep - 1,
        ep_sent := ep_sent ep @ map (\<lambda>k. SureMsg k (self_shard cfg)) (filter (\<lambda>k. k \<noteq> ShardID cfg) keys) \<rparr>))"

section \<open>The two commits\<close>

definition arrived_state :: "int \<Rightarrow> AccountState" where
  "arrived_state b = \<lparr> Nonce = 0, Balance = b, Migrate = - 1, Location = 0 \<rparr>"

text \<open>
  The branch \<open>AccState\<close>. The new tree goes to the database under its own root; the header of the current
  block, and with it the tree that the node reads, stays.
\<close>

definition commit_AccState :: "ChainConfig \<Rightarrow> string list \<Rightarrow> (addr \<times> int) list \<Rightarrow> EpochNode \<Rightarrow> EpochNode res" where
  "commit_AccState cfg keys in_state ep =
     (let p = ep_pbft ep; g = Acc (chain p);
          tree = fold (\<lambda>(a, b) t. t(addr_bytes a \<mapsto> arrived_state b)) in_state (StateTree (chain p));
          g' = g\<lparr> AccountInOwnShard := fold (\<lambda>(a, _) m. m(a \<mapsto> True)) in_state (AccountInOwnShard g) \<rparr>;
          ep1 = ep\<lparr> ep_pbft := upd_acc g' p, stored := stored ep @ [tree] \<rparr> in
      bind_res (if NodeID cfg = ''N0'' then
          bind_res (SendSure cfg keys (ep1\<lparr> ep_pbft := upd_pool (AddTxs (intx_pool ep1)) (ep_pbft ep1) \<rparr>)) (\<lambda>ep2.
            Inr (ep2\<lparr> inacc_pool := [], intx_pool := [] \<rparr>))
        else Inr ep1) (\<lambda>ep3.
      Inr (ep3\<lparr> ssequenceID := ssequenceID ep3 + 1 \<rparr>)))"

definition spropose :: "ChainConfig \<Rightarrow> string list \<Rightarrow> EpochNode \<Rightarrow> EpochNode res" where
  "spropose cfg keys ep = commit_AccState cfg keys (inacc_pool ep) ep"

definition leaving_accounts :: "ChainConfig \<Rightarrow> (addr \<times> int) list \<Rightarrow> flags \<Rightarrow> (addr \<times> int) list" where
  "leaving_accounts cfg new own = filter (\<lambda>(a, s). flag own a \<and> s \<noteq> self_shard cfg) new"

definition coming_accounts :: "ChainConfig \<Rightarrow> (addr \<times> int) list \<Rightarrow> flags \<Rightarrow> (addr \<times> int) list" where
  "coming_accounts cfg new own = filter (\<lambda>(a, s). s = self_shard cfg \<and> \<not> flag own a) new"

definition commit_EpochChange :: "ChainConfig \<Rightarrow> string list \<Rightarrow> (addr \<times> int) list \<Rightarrow> EpochNode \<Rightarrow> EpochNode res" where
  "commit_EpochChange cfg keys new ep =
     (let p = ep_pbft ep; g = Acc (chain p);
          out = leaving_accounts cfg new (AccountInOwnShard g);
          g' = g\<lparr> Account2Shard := fold (\<lambda>(a, s) m. m(a \<mapsto> s)) new (Account2Shard g),
                  AccountInOwnShard := fold (\<lambda>(a, _) m. m(a := None)) out (AccountInOwnShard g) \<rparr>;
          ep1 = ep\<lparr> ep_pbft := upd_acc g' p \<rparr> in
      if NodeID cfg \<noteq> ''N0'' then Inr (ep1\<lparr> msequenceID := msequenceID ep + 1 \<rparr>)
      else bind_res (SendOut cfg keys out (ep1\<lparr> msequenceID := msequenceID ep + 1 \<rparr>)) (\<lambda>ep2.
        let n = int (length (coming_accounts cfg new (AccountInOwnShard g')));
            ep3 = ep2\<lparr> inacc_count := inacc_count ep2 + n \<rparr> in
        if n > 0 \<and> inacc_count ep3 = 0 then spropose cfg keys ep3
        else if n = 0 then SendSure cfg keys ep3
        else Inr ep3))"

definition handleBalancesAndPendings :: "ChainConfig \<Rightarrow> string list \<Rightarrow> int \<Rightarrow> (addr \<times> int \<times> Transaction list) list \<Rightarrow> EpochNode
    \<Rightarrow> EpochNode res" where
  "handleBalancesAndPendings cfg keys now baps ep =
     (let ep1 = ep\<lparr> inacc_pool := inacc_pool ep @ map (\<lambda>(a, b, _). (a, b)) baps,
            intx_pool := intx_pool ep @ concat (map (\<lambda>(_, _, txs). map (\<lambda>tx. tx\<lparr> TXmig2_Time := now \<rparr>) txs) baps),
            inacc_count := inacc_count ep - int (length baps) \<rparr> in
      if inacc_count ep1 = 0 then spropose cfg keys ep1 else Inr ep1)"

section \<open>The start of an epoch\<close>

text \<open>
  \<open>handleNewMap\<close> in the stop mode and \<open>handleEpochChange\<close>: both take the epoch lock, for which they wait
  while it is held, and propose the new map. The second makes the map in the memory of the present one.
\<close>

definition mpropose :: "ChainConfig \<Rightarrow> string list \<Rightarrow> (addr \<times> int) list \<Rightarrow> EpochNode \<Rightarrow> EpochNode res" where
  "mpropose cfg keys new ep = commit_EpochChange cfg keys new ep"

definition start_epoch :: "ChainConfig \<Rightarrow> string list \<Rightarrow> (addr \<times> int) list \<Rightarrow> EpochNode \<Rightarrow> EpochNode res" where
  "start_epoch cfg keys new ep =
     (if epochLock ep then Inl (Err ''blocked'') else mpropose cfg keys new (ep\<lparr> epochLock := True \<rparr>))"

definition handleEpochChange :: "ChainConfig \<Rightarrow> string list \<Rightarrow> addr list \<Rightarrow> EpochNode \<Rightarrow> EpochNode res" where
  "handleEpochChange cfg keys known ep =
     (if epochLock ep then Inl (Err ''blocked'')
      else let p = ep_pbft ep; g = Acc (chain p);
               m = Algorithm2 (Account2Shard g) (self_shard cfg) in
        mpropose cfg keys (map (\<lambda>a. (a, lookup0 m a)) known)
          (ep\<lparr> epochLock := True, ep_pbft := upd_acc (g\<lparr> Account2Shard := m \<rparr>) p \<rparr>))"

end
