(* ===== verification/EpochRun.thy ===== *)
theory EpochRun
  imports Epoch Stage3
begin

text \<open>
  The change of epoch works up to a point: what leaves a shard, in which order arrivals and the change may
  come, when the lock is released; and what it loses.
\<close>

section \<open>What leaves\<close>

text \<open>The entry of an account in its shard's pool, after the transactions \<open>txs\<close>.\<close>

definition entry_ok :: "state_tree \<Rightarrow> Transaction list \<Rightarrow> addr \<Rightarrow> (int \<times> Transaction list) option \<Rightarrow> bool" where
  "entry_ok tree txs a e \<longleftrightarrow> (let ts = filter (\<lambda>tx. waits_for tx = a) txs in
     if ts = [] then e = None
     else (\<exists>st. tree (addr_bytes a) = Some st \<and> e = Some (Balance st, ts)))"

definition collected :: "int \<Rightarrow> state_tree \<Rightarrow> (addr \<rightharpoonup> int) \<Rightarrow> Transaction list \<Rightarrow> leaving_pool \<times> Transaction list \<Rightarrow> bool" where
  "collected n tree out txs = (\<lambda>(op, kept). int (length op) = n \<and> kept = filter (\<lambda>tx. out (waits_for tx) = None) txs
     \<and> (\<forall>a s. out a = Some s \<longrightarrow> 0 \<le> s \<longrightarrow> s < n \<longrightarrow> entry_ok tree txs a (entry_of (op ! nat s) a)))"

lemma waiting_key: "addr_bytes (waits_for tx) = (if IsRelay tx then Recipient tx else Sender tx)"
  by (simp add: waits_for_def addr_bytes_def from_addr_def to_addr_def)

lemma collect_out_ok:
  assumes c: "collected n tree out txs (op, kept)" and r: "collect_out tree out tx (op, kept) = Inr r"
  shows "collected n tree out (txs @ [tx]) r"
proof (cases "out (waits_for tx)")
  case None
  then have "r = (op, kept @ [tx])" using r by (simp add: collect_out_def)
  moreover have "waits_for tx \<noteq> a" if "out a = Some s" for a s using None that by auto
  ultimately show ?thesis using c None by (auto simp: collected_def entry_ok_def)
next
  case (Some s)
  let ?a = "waits_for tx" and ?key = "if IsRelay tx then Recipient tx else Sender tx"
  from r Some obtain op' where op': "add_pending tree s ?key ?a tx op = Inr op'" "r = (op', kept)"
    by (auto simp: collect_out_def bind_res_eq_Inr)
  then have s: "0 \<le> s" "s < int (length op)"
    by (auto simp: add_pending_def bind_res_eq_Inr slice_at_def split: if_splits)
  let ?e = "entry_of (op ! nat s)"
  obtain b ts where new: "(case ?e ?a of Some q \<Rightarrow> Inr q | None \<Rightarrow> bind_res (get_state ?key tree) (\<lambda>st. Inr (Balance st, []))) = Inr (b, ts)"
    and upd: "op' = op[nat s := Some (?e(?a \<mapsto> (b, ts @ [tx])))]"
    using op'(1) s by (auto simp: add_pending_def slice_in_range bind_res_eq_Inr)
  have len: "s < n" using c s by (simp add: collected_def)
  have old: "entry_ok tree txs ?a (?e ?a)" using c Some s len by (auto simp: collected_def)
  have ts: "ts = filter (\<lambda>t. waits_for t = ?a) txs \<and> (\<exists>st. tree (addr_bytes ?a) = Some st \<and> b = Balance st)"
  proof (cases "filter (\<lambda>t. waits_for t = ?a) txs = []")
    case True
    then have "?e ?a = None" using old by (simp add: entry_ok_def)
    with new True show ?thesis
      by (auto simp: get_state_def waiting_key bind_res_eq_Inr split: option.splits if_splits)
  next
    case False
    with old obtain st where "tree (addr_bytes ?a) = Some st" "?e ?a = Some (Balance st, filter (\<lambda>t. waits_for t = ?a) txs)"
      by (auto simp: entry_ok_def Let_def)
    with new show ?thesis by auto
  qed
  have "entry_ok tree (txs @ [tx]) a (entry_of (op' ! nat t) a)" if a: "out a = Some t" "0 \<le> t" "t < n" for a t
  proof (cases "a = ?a")
    case True
    with a Some have "t = s" by simp
    with True ts upd s show ?thesis by (auto simp: entry_ok_def entry_of_def)
  next
    case False
    have "entry_of (op' ! nat t) a = entry_of (op ! nat t) a"
      using False s a(2) by (cases "t = s") (auto simp: upd entry_of_def nth_list_update eq_nat_nat_iff)
    moreover have "entry_ok tree txs a (entry_of (op ! nat t) a)" using c a by (auto simp: collected_def)
    ultimately show ?thesis using False by (simp add: entry_ok_def)
  qed
  then show ?thesis using c Some upd op'(2) by (auto simp: collected_def)
qed

lemma collect_outs_ok:
  assumes "collected n tree out dn st" "fold_res (collect_out tree out) txs st = Inr r"
  shows "collected n tree out (dn @ txs) r"
  using assms
proof (induction txs arbitrary: dn st)
  case (Cons tx txs)
  obtain op kept where st: "st = (op, kept)" by fastforce
  from Cons.prems(2) obtain st1 where s1: "collect_out tree out tx st = Inr st1" "fold_res (collect_out tree out) txs st1 = Inr r"
    by (auto simp: bind_res_eq_Inr)
  have "collected n tree out (dn @ [tx]) st1" using collect_out_ok [of n tree out dn op kept tx st1] Cons.prems(1) s1(1) st by simp
  from Cons.IH [OF this s1(2)] show ?case by simp
qed simp

lemma add_idle_ok:
  assumes "add_idle (a, s) op = Inr op'"
  shows "0 \<le> s" "s < int (length op)" "length op' = length op"
    "entry_of (op' ! nat t) b = (if nat t = nat s \<and> b = a \<and> entry_of (op ! nat s) a = None then Some (0, []) else entry_of (op ! nat t) b)"
proof -
  show s: "0 \<le> s" "s < int (length op)" using assms by (auto simp: add_idle_def bind_res_eq_Inr slice_at_def split: if_splits)
  let ?e = "entry_of (op ! nat s)"
  have op': "op' = op[nat s := Some (if ?e a = None then ?e(a \<mapsto> (0, [])) else ?e)]"
    using assms s by (auto simp: add_idle_def slice_in_range split: if_splits)
  then show "length op' = length op" by simp
  have "nat s < length op" using s by (simp add: nat_less_iff)
  then show "entry_of (op' ! nat t) b = (if nat t = nat s \<and> b = a \<and> ?e a = None then Some (0, []) else entry_of (op ! nat t) b)"
    unfolding op' by (cases "nat t = nat s") (auto simp: entry_of_def [of "Some _"])
qed

lemma add_idles_ok:
  assumes "fold_res add_idle out op = Inr op'" "\<forall>(a, s)\<in>set out. 0 \<le> s"
  shows "length op' = length op \<and> (\<forall>(a, s)\<in>set out. s < int (length op))
    \<and> (\<forall>b t. 0 \<le> t \<longrightarrow> entry_of (op' ! nat t) b
        = (if (b, t) \<in> set out \<and> entry_of (op ! nat t) b = None then Some (0, []) else entry_of (op ! nat t) b))"
  using assms
proof (induction out arbitrary: op)
  case (Cons x out)
  obtain a s where x: "x = (a, s)" by fastforce
  from Cons.prems(1) x obtain op1 where 1: "add_idle (a, s) op = Inr op1" "fold_res add_idle out op1 = Inr op'"
    by (auto simp: bind_res_eq_Inr)
  note i = add_idle_ok [OF 1(1)]
  from Cons.IH [OF 1(2)] Cons.prems(2) i(3) have ih: "length op' = length op" "\<forall>(a, s)\<in>set out. s < int (length op)"
    "\<And>b t. 0 \<le> t \<Longrightarrow> entry_of (op' ! nat t) b
        = (if (b, t) \<in> set out \<and> entry_of (op1 ! nat t) b = None then Some (0, []) else entry_of (op1 ! nat t) b)" by auto
  have "entry_of (op' ! nat t) b
        = (if (b, t) \<in> set (x # out) \<and> entry_of (op ! nat t) b = None then Some (0, []) else entry_of (op ! nat t) b)"
    if "0 \<le> t" for b t
    unfolding ih(3) [OF that] i(4) [of t b] using that i(1) by (auto simp: x eq_nat_nat_iff)
  with ih(1,2) i(2) show ?case by (auto simp: x)
qed auto

lemma entry_of_None [simp]: "entry_of None = Map.empty"
  by (simp add: entry_of_def)

text \<open>
  What an account carries: the transactions that wait for it, in their order, and the balance of its state,
  or 0 when none waits.
\<close>

definition carried :: "state_tree \<Rightarrow> Transaction list \<Rightarrow> addr \<Rightarrow> (int \<times> Transaction list) option \<Rightarrow> bool" where
  "carried tree txs a e \<longleftrightarrow> (let ts = filter (\<lambda>tx. waits_for tx = a) txs in
     \<exists>b. e = Some (b, ts) \<and> (if ts = [] then b = 0 else \<exists>st. tree (addr_bytes a) = Some st \<and> b = Balance st))"

lemma collect_all_ok:
  assumes r: "collect_all cfg tree out txs = Inr (op, kept)" and d: "distinct (map fst out)" and nn: "\<forall>(a, s)\<in>set out. 0 \<le> s"
  shows "kept = filter (\<lambda>tx. waits_for tx \<notin> fst ` set out) txs" "int (length op) = Shard_num cfg"
    "\<And>a s. (a, s) \<in> set out \<Longrightarrow> s < Shard_num cfg \<and> carried tree txs a (entry_of (op ! nat s) a)"
proof -
  from r obtain op1 where n: "0 \<le> Shard_num cfg"
    and c: "fold_res (collect_out tree (map_of out)) txs (replicate (nat (Shard_num cfg)) None, []) = Inr (op1, kept)"
    and i: "fold_res add_idle out op1 = Inr op"
    by (auto simp: collect_all_def bind_res_eq_Inr split: if_splits)
  have "collected (Shard_num cfg) tree (map_of out) [] (replicate (nat (Shard_num cfg)) None, [])"
    using n by (auto simp: collected_def entry_ok_def)
  from collect_outs_ok [OF this c] have co: "int (length op1) = Shard_num cfg" "kept = filter (\<lambda>tx. map_of out (waits_for tx) = None) txs"
    "\<And>a s. map_of out a = Some s \<Longrightarrow> 0 \<le> s \<Longrightarrow> s < Shard_num cfg \<Longrightarrow> entry_ok tree txs a (entry_of (op1 ! nat s) a)"
    by (auto simp: collected_def)
  note id = add_idles_ok [OF i nn]
  show "kept = filter (\<lambda>tx. waits_for tx \<notin> fst ` set out) txs" using co(2) by (simp add: map_of_eq_None_iff)
  show "int (length op) = Shard_num cfg" using co(1) id by simp
  show "s < Shard_num cfg \<and> carried tree txs a (entry_of (op ! nat s) a)" if as: "(a, s) \<in> set out" for a s
  proof -
    have s: "0 \<le> s" "s < Shard_num cfg" using nn id as co(1) by auto
    have "map_of out a = Some s" using d as by simp
    note e = co(3) [OF this s]
    have e': "entry_of (op ! nat s) a = (if entry_of (op1 ! nat s) a = None then Some (0, []) else entry_of (op1 ! nat s) a)"
      using id as s(1) by simp
    show ?thesis
    proof (cases "filter (\<lambda>tx. waits_for tx = a) txs = []")
      case True
      then show ?thesis using e e' s(2) by (simp add: entry_ok_def carried_def Let_def)
    next
      case False
      with e obtain st where "tree (addr_bytes a) = Some st" "entry_of (op1 ! nat s) a = Some (Balance st, filter (\<lambda>tx. waits_for tx = a) txs)"
        by (auto simp: entry_ok_def Let_def)
      with e' False s(2) show ?thesis by (simp add: carried_def Let_def)
    qed
  qed
qed

section \<open>Arrivals and the change, in any order\<close>

datatype epoch_event =
    Change "(addr \<times> int) list"
  | Arrive int "(addr \<times> int \<times> Transaction list) list"

fun epoch_event_step :: "ChainConfig \<Rightarrow> string list \<Rightarrow> epoch_event \<Rightarrow> EpochNode \<Rightarrow> EpochNode res" where
  "epoch_event_step cfg keys (Change new) ep = commit_EpochChange cfg keys new ep"
| "epoch_event_step cfg keys (Arrive now baps) ep = handleBalancesAndPendings cfg keys now baps ep"

text \<open>What the arrivals bring, with the time of arrival on the transactions.\<close>

fun brought :: "epoch_event \<Rightarrow> (addr \<times> int \<times> Transaction list) list" where
  "brought (Change new) = []"
| "brought (Arrive now baps) = map (\<lambda>(a, b, txs). (a, b, map (\<lambda>tx. tx\<lparr> TXmig2_Time := now \<rparr>) txs)) baps"

definition accum :: "(addr \<times> int \<times> Transaction list) list \<Rightarrow> EpochNode \<Rightarrow> EpochNode" where
  "accum xs ep = ep\<lparr> inacc_pool := inacc_pool ep @ map (\<lambda>(a, b, _). (a, b)) xs,
     intx_pool := intx_pool ep @ concat (map (\<lambda>(_, _, txs). txs) xs), inacc_count := inacc_count ep - int (length xs) \<rparr>"

lemma accum_accum: "accum ys (accum xs ep) = accum (xs @ ys) ep"
  by (simp add: accum_def)

lemma accum_sel [simp]:
  "inacc_count (accum xs ep) = inacc_count ep - int (length xs)" "ep_pbft (accum xs ep) = ep_pbft ep"
  "finished (accum xs ep) = finished ep" "epochLock (accum xs ep) = epochLock ep" "sure_count (accum xs ep) = sure_count ep"
  "stored (accum xs ep) = stored ep" "ep_sent (accum xs ep) = ep_sent ep" "msequenceID (accum xs ep) = msequenceID ep"
  "ssequenceID (accum xs ep) = ssequenceID ep"
  by (simp_all add: accum_def)

lemma arrive_accum:
  "handleBalancesAndPendings cfg keys now baps ep =
     (let ep1 = accum (brought (Arrive now baps)) ep in if inacc_count ep1 = 0 then spropose cfg keys ep1 else Inr ep1)"
  by (simp add: handleBalancesAndPendings_def accum_def Let_def split_def comp_def)

definition arrivals :: "epoch_event list \<Rightarrow> bool" where
  "arrivals es \<longleftrightarrow> (\<forall>e\<in>set es. \<exists>now baps. e = Arrive now baps \<and> baps \<noteq> [])"

definition brought_all :: "epoch_event list \<Rightarrow> (addr \<times> int \<times> Transaction list) list" where
  "brought_all es = concat (map brought es)"

lemma brought_length: "length (brought (Arrive now baps)) = length baps"
  by simp

text \<open>Before the change nothing is proposed: the counter is negative.\<close>

lemma arrivals_before:
  assumes "arrivals es" "inacc_count ep \<le> 0"
  shows "fold_res (epoch_event_step cfg keys) es ep = Inr (accum (brought_all es) ep)"
  using assms
proof (induction es arbitrary: ep)
  case (Cons e es)
  from Cons.prems(1) obtain now baps where e: "e = Arrive now baps" "baps \<noteq> []" by (auto simp: arrivals_def)
  let ?ep1 = "accum (brought e) ep"
  have "inacc_count ?ep1 < 0" using Cons.prems(2) e by (cases baps) auto
  then have "epoch_event_step cfg keys e ep = Inr ?ep1" by (simp add: e arrive_accum Let_def del: brought.simps)
  moreover have "arrivals es" using Cons.prems(1) by (simp add: arrivals_def)
  ultimately show ?case using Cons.IH [of ?ep1] \<open>inacc_count ?ep1 < 0\<close> by (simp add: brought_all_def accum_accum)
qed (simp add: brought_all_def accum_def)

text \<open>After the change the last arrival proposes the states of all.\<close>

lemma arrivals_after:
  assumes "arrivals es" "inacc_count ep = int (length (brought_all es))" "es \<noteq> []"
  shows "fold_res (epoch_event_step cfg keys) es ep = spropose cfg keys (accum (brought_all es) ep)"
  using assms
proof (induction es arbitrary: ep)
  case (Cons e es)
  from Cons.prems(1) obtain now baps where e: "e = Arrive now baps" "baps \<noteq> []" by (auto simp: arrivals_def)
  let ?ep1 = "accum (brought e) ep"
  have es: "arrivals es" using Cons.prems(1) by (simp add: arrivals_def)
  have n: "inacc_count ?ep1 = int (length (brought_all es))" using Cons.prems(2) by (simp add: brought_all_def)
  show ?case
  proof (cases es)
    case Nil
    then have "inacc_count ?ep1 = 0" using n by (simp add: brought_all_def)
    then have "epoch_event_step cfg keys e ep = spropose cfg keys ?ep1" by (simp add: e arrive_accum Let_def del: brought.simps)
    then show ?thesis using Nil by (cases "spropose cfg keys ?ep1") (auto simp: brought_all_def)
  next
    case (Cons e' es')
    obtain now' baps' where e': "e' = Arrive now' baps'" "baps' \<noteq> []" using es Cons by (auto simp: arrivals_def)
    have "length (brought_all es) \<ge> length baps'" using Cons e'(1) by (simp add: brought_all_def)
    then have "brought_all es \<noteq> []" using e'(2) by (metis le_zero_eq length_0_conv list.size(3))
    then have "inacc_count ?ep1 \<noteq> 0" using n by simp
    then have "epoch_event_step cfg keys e ep = Inr ?ep1" by (simp add: e arrive_accum Let_def del: brought.simps)
    moreover have "es \<noteq> []" using Cons by simp
    ultimately show ?thesis using Cons.IH [OF es n] by (simp add: brought_all_def accum_accum)
  qed
qed simp

text \<open>The branch \<open>AccState\<close> at the leader of a running epoch.\<close>

lemma flag_fold: "flag (fold (\<lambda>(a, _) m. m(a \<mapsto> True)) xs m) a \<longleftrightarrow> a \<in> fst ` set xs \<or> flag m a"
  by (induction xs arbitrary: m) (auto split: if_splits)

lemma spropose_ok:
  assumes "NodeID cfg = ''N0''" "0 < finished ep" "epochLock ep" "sure_count ep + 1 < Shard_num cfg"
  shows "\<exists>ep'. spropose cfg keys ep = Inr ep' \<and> inacc_count ep' = inacc_count ep \<and> inacc_pool ep' = [] \<and> intx_pool ep' = []
    \<and> queue_of ep' = queue_of ep @ intx_pool ep \<and> finished ep' = finished ep - 1 \<and> sure_count ep' = sure_count ep + 1
    \<and> (\<forall>a. flag (own_accounts ep') a \<longleftrightarrow> a \<in> fst ` set (inacc_pool ep) \<or> flag (own_accounts ep) a)
    \<and> ep_sent ep' = ep_sent ep @ map (\<lambda>k. SureMsg k (self_shard cfg)) (filter (\<lambda>k. k \<noteq> ShardID cfg) keys)
    \<and> length (stored ep') = length (stored ep) + 1 \<and> epochLock ep'"
proof -
  let ?p = "ep_pbft ep"
  define ep0 where "ep0 = ep\<lparr> stored := stored ep @ [fold (\<lambda>(a, b) t. t(addr_bytes a \<mapsto> arrived_state b)) (inacc_pool ep) (StateTree (chain ?p))],
    ep_pbft := upd_pool (AddTxs (intx_pool ep)) (upd_acc ((Acc (chain ?p))\<lparr> AccountInOwnShard :=
      fold (\<lambda>(a, _) m. m(a \<mapsto> True)) (inacc_pool ep) (AccountInOwnShard (Acc (chain ?p))) \<rparr>) ?p) \<rparr>"
  have "SendSure cfg keys ep0 = Inr (ep0\<lparr> finished := finished ep - 1,
      ep_sent := ep_sent ep @ map (\<lambda>k. SureMsg k (self_shard cfg)) (filter (\<lambda>k. k \<noteq> ShardID cfg) keys), sure_count := sure_count ep + 1 \<rparr>)"
    using assms by (simp add: SendSure_def count_sure_def ep0_def)
  moreover have "spropose cfg keys ep = bind_res (bind_res (SendSure cfg keys ep0) (\<lambda>ep2. Inr (ep2\<lparr> inacc_pool := [], intx_pool := [] \<rparr>)))
      (\<lambda>ep3. Inr (ep3\<lparr> ssequenceID := ssequenceID ep3 + 1 \<rparr>))"
    using assms(1) by (simp add: spropose_def commit_AccState_def Let_def ep0_def)
  ultimately have "spropose cfg keys ep = Inr (ep0\<lparr> finished := finished ep - 1,
      ep_sent := ep_sent ep @ map (\<lambda>k. SureMsg k (self_shard cfg)) (filter (\<lambda>k. k \<noteq> ShardID cfg) keys), sure_count := sure_count ep + 1,
      inacc_pool := [], intx_pool := [], ssequenceID := ssequenceID ep + 1 \<rparr>)"
    by (simp add: ep0_def)
  then show ?thesis using assms(3)
    by (simp add: ep0_def queue_of_def own_accounts_def upd_pool_def upd_acc_def AddTxs_def flag_fold)
qed

lemma flag_delete: "flag (fold (\<lambda>(a, _) m. m(a := None)) xs m) a \<longleftrightarrow> a \<notin> fst ` set xs \<and> flag m a"
  by (induction xs arbitrary: m) auto

lemma coming_after_leaving:
  assumes "distinct (map fst new)"
  shows "coming_accounts cfg new (fold (\<lambda>(a, _) m. m(a := None)) (leaving_accounts cfg new own) own) = coming_accounts cfg new own"
proof -
  have "flag (fold (\<lambda>(a, _) m. m(a := None)) (leaving_accounts cfg new own) own) a = flag own a"
    if "(a, self_shard cfg) \<in> set new" for a
  proof -
    have "a \<notin> fst ` set (leaving_accounts cfg new own)"
      using assms that by (auto simp: leaving_accounts_def dest: eq_key_imp_eq_value)
    then show ?thesis by (simp add: flag_delete)
  qed
  then show ?thesis unfolding coming_accounts_def by (intro filter_cong) auto
qed

lemma change_ok:
  assumes N0: "NodeID cfg = ''N0''" and d: "distinct (map fst new)"
    and c: "collect_all cfg (StateTree (chain (ep_pbft ep))) (leaving_accounts cfg new (own_accounts ep)) (queue_of ep) = Inr (op, kept)"
    and n: "coming_accounts cfg new (own_accounts ep) \<noteq> []"
  obtains ep3 where "commit_EpochChange cfg keys new ep = (if inacc_count ep3 = 0 then spropose cfg keys ep3 else Inr ep3)"
    "inacc_count ep3 = inacc_count ep + int (length (coming_accounts cfg new (own_accounts ep)))" "queue_of ep3 = kept"
    "inacc_pool ep3 = inacc_pool ep" "intx_pool ep3 = intx_pool ep" "finished ep3 = Suc (finished ep)" "sure_count ep3 = sure_count ep"
    "epochLock ep3 = epochLock ep" "stored ep3 = stored ep" "ep_sent ep3 = ep_sent ep @ bal_messages cfg keys op"
proof -
  let ?g = "Acc (chain (ep_pbft ep))"
  let ?out = "leaving_accounts cfg new (AccountInOwnShard ?g)"
  let ?own = "fold (\<lambda>(a, _) m. m(a := None)) ?out (AccountInOwnShard ?g)"
  define ep1 where "ep1 = ep\<lparr> ep_pbft := upd_acc (?g\<lparr> Account2Shard := fold (\<lambda>(a, s) m. m(a \<mapsto> s)) new (Account2Shard ?g),
      AccountInOwnShard := ?own \<rparr>) (ep_pbft ep), msequenceID := msequenceID ep + 1 \<rparr>"
  define ep2 where "ep2 = ep1\<lparr> ep_pbft := upd_pool (\<lambda>pool. pool\<lparr> Queue := kept \<rparr>) (ep_pbft ep1),
      ep_sent := ep_sent ep1 @ bal_messages cfg keys op, finished := Suc (finished ep1) \<rparr>"
  define ep3 where "ep3 = ep2\<lparr> inacc_count := inacc_count ep + int (length (coming_accounts cfg new (own_accounts ep))) \<rparr>"
  have "StateTree (chain (ep_pbft ep1)) = StateTree (chain (ep_pbft ep))" "queue_of ep1 = queue_of ep"
    by (simp_all add: ep1_def upd_acc_def queue_of_def)
  then have s: "SendOut cfg keys ?out ep1 = Inr ep2" using c by (simp add: SendOut_def own_accounts_def ep2_def)
  have same: "coming_accounts cfg new ?own = coming_accounts cfg new (own_accounts ep)"
    unfolding coming_after_leaving [OF d] by (simp add: own_accounts_def)
  have cnt: "inacc_count ep2 = inacc_count ep" by (simp add: ep2_def ep1_def)
  have "commit_EpochChange cfg keys new ep = (if inacc_count ep3 = 0 then spropose cfg keys ep3 else Inr ep3)"
    using N0 n s unfolding commit_EpochChange_def Let_def by (simp add: ep1_def [symmetric] same cnt ep3_def)
  then show thesis
    by (rule that) (simp_all add: ep3_def ep2_def ep1_def queue_of_def upd_pool_def upd_acc_def)
qed

text \<open>Shard S0 of two, in the middle of an epoch of which it has done nothing yet.\<close>

definition epoch_cfg :: ChainConfig where
  "epoch_cfg = default_config\<lparr> NodeID := ''N0'', ShardID := ''S0'', Shard_num := 2 \<rparr>"

definition epoch0 :: EpochNode where
  "epoch0 = \<lparr> ep_pbft = pbft0, inacc_count = 0, inacc_pool = [], intx_pool = [], sure_count = 0, epochLock = True, finished = 0,
     msequenceID = 0, ssequenceID = 0, stored = [], ep_sent = [] \<rparr>"

lemma epoch_cfg_sel [simp]: "NodeID epoch_cfg = ''N0''" "ShardID epoch_cfg = ''S0''" "Shard_num epoch_cfg = 2" "self_shard epoch_cfg = 0"
  by (simp_all add: epoch_cfg_def default_config_def self_shard_def shard_number_def ShardTable_def)

lemma epoch0_sel [simp]: "epochLock epoch0" "sure_count epoch0 = 0" "inacc_count epoch0 = 0" "inacc_pool epoch0 = []" "intx_pool epoch0 = []"
  "finished epoch0 = 0" "queue_of epoch0 = []"
  by (simp_all add: epoch0_def queue_of_def pbft0_def node0_def NewTxPool_def)

lemma epoch0_own: "flag (own_accounts epoch0) a \<longleftrightarrow> a \<in> {''05'', ''06''}"
  by (auto simp: epoch0_def own_accounts_def pbft0_def node0_def own_globals_def)



text \<open>
  C27. \<open>SendOut\<close> sends every account that leaves to its new shard, with the transactions that wait for it, in
  their order; the others stay in the queue. With them goes the balance of the account's state, but an account
  for which no transaction waits goes with balance 0, whatever its state holds.
\<close>

theorem SendOut_takes:
  assumes "SendOut cfg keys out ep = Inr ep'" "distinct (map fst out)" "\<forall>(a, s)\<in>set out. 0 \<le> s"
    and "(a, shard_number k) \<in> set out" "k \<in> set keys" "k \<noteq> ShardID cfg"
  shows "queue_of ep' = filter (\<lambda>tx. waits_for tx \<notin> fst ` set out) (queue_of ep)
    \<and> (\<exists>m. BalMsg k (ShardID cfg) m \<in> set (ep_sent ep') \<and> carried (StateTree (chain (ep_pbft ep))) (queue_of ep) a (m a))"
proof -
  from assms(1) obtain op kept where c: "collect_all cfg (StateTree (chain (ep_pbft ep))) out (queue_of ep) = Inr (op, kept)"
    and ep': "ep' = ep\<lparr> ep_pbft := upd_pool (\<lambda>pool. pool\<lparr> Queue := kept \<rparr>) (ep_pbft ep),
         ep_sent := ep_sent ep @ bal_messages cfg keys op, finished := Suc (finished ep) \<rparr>"
    by (auto simp: SendOut_def bind_res_eq_Inr)
  note ok = collect_all_ok [OF c assms(2,3)]
  have s: "0 \<le> shard_number k" "shard_number k < Shard_num cfg" using ok(3) [OF assms(4)] assms(3,4) by auto
  have car: "carried (StateTree (chain (ep_pbft ep))) (queue_of ep) a (entry_of (op ! nat (shard_number k)) a)"
    using ok(3) [OF assms(4)] by simp
  then obtain m where m: "op ! nat (shard_number k) = Some m"
    by (cases "op ! nat (shard_number k)") (auto simp: carried_def Let_def)
  have "BalMsg k (ShardID cfg) m \<in> set (bal_messages cfg keys op)"
    using assms(5,6) s m by (auto simp: bal_messages_def List.map_filter_def Let_def intro!: image_eqI [of _ _ k])
  moreover have "carried (StateTree (chain (ep_pbft ep))) (queue_of ep) a (m a)" using car m by (simp add: entry_of_def)
  ultimately show ?thesis using ok(1) by (auto simp: ep' queue_of_def upd_pool_def)
qed

lemma SendOut_takes_witness:
  "\<exists>ep' m. SendOut epoch_cfg [''S1''] [(''05'', 1)] epoch0 = Inr ep' \<and> BalMsg ''S1'' ''S0'' m \<in> set (ep_sent ep')
    \<and> carried (StateTree (chain (ep_pbft epoch0))) [] ''05'' (m ''05'')"
proof -
  have "collect_all epoch_cfg (StateTree (chain (ep_pbft epoch0))) [(''05'', 1)] (queue_of epoch0) = Inr ([None, Some [''05'' \<mapsto> (0, [])]], [])"
    by (simp add: collect_all_def add_idle_def slice_in_range numeral_2_eq_2)
  then obtain ep' where r: "SendOut epoch_cfg [''S1''] [(''05'', 1)] epoch0 = Inr ep'" by (simp add: SendOut_def)
  have "shard_number ''S1'' = 1" by (simp add: shard_number_def ShardTable_def)
  then show ?thesis using SendOut_takes [OF r, of "''05''" "''S1''"] r by auto
qed

text \<open>
  The states that arrive are committed where the node does not look: the branch \<open>AccState\<close> stores a tree
  with them, but the current block and its tree, from which the next block is built, stay as they were.
\<close>

theorem AccState_not_read:
  assumes "commit_AccState cfg keys in_state ep = Inr ep'" "distinct (map (addr_bytes \<circ> fst) in_state)" "(a, b) \<in> set in_state"
  shows "StateTree (chain (ep_pbft ep')) = StateTree (chain (ep_pbft ep)) \<and> CurrentBlock (chain (ep_pbft ep')) = CurrentBlock (chain (ep_pbft ep))
    \<and> last (stored ep') (addr_bytes a) = Some (arrived_state b)"
proof -
  let ?p = "ep_pbft ep"
  define tree where "tree = fold (\<lambda>(a, b) t. t(addr_bytes a \<mapsto> arrived_state b)) in_state (StateTree (chain ?p))"
  have frame: "SendSure cfg keys x = Inr y \<Longrightarrow> ep_pbft y = ep_pbft x \<and> stored y = stored x" for x y
    by (auto simp: SendSure_def count_sure_def split: if_splits)
  have "StateTree (chain (ep_pbft ep')) = StateTree (chain ?p) \<and> CurrentBlock (chain (ep_pbft ep')) = CurrentBlock (chain ?p)
      \<and> stored ep' = stored ep @ [tree]"
    using assms(1) by (auto simp: commit_AccState_def Let_def bind_res_eq_Inr tree_def [symmetric] upd_pool_def upd_acc_def
        dest!: frame split: if_splits)
  moreover have "fold (\<lambda>(a, b) t. t(addr_bytes a \<mapsto> arrived_state b)) xs t (addr_bytes a) = Some (arrived_state b)"
    if "distinct (map (addr_bytes \<circ> fst) xs)" "(a, b) \<in> set xs \<or> addr_bytes a \<notin> (addr_bytes \<circ> fst) ` set xs \<and> t (addr_bytes a) = Some (arrived_state b)"
    for xs t
    using that by (induction xs arbitrary: t) (force simp: rev_image_eqI)+
  ultimately show ?thesis using assms(2,3) by (simp add: tree_def)
qed

lemma AccState_not_read_witness:
  "\<exists>ep'. commit_AccState epoch_cfg [''S1''] [(''07'', 5)] (epoch0\<lparr> finished := 1, inacc_pool := [(''07'', 5)] \<rparr>) = Inr ep'
    \<and> StateTree (chain (ep_pbft ep')) = StateTree (chain pbft0) \<and> last (stored ep') (addr_bytes ''07'') = Some (arrived_state 5)"
proof -
  let ?ep = "epoch0\<lparr> finished := 1, inacc_pool := [(''07'', 5)] \<rparr>"
  obtain ep' where r: "commit_AccState epoch_cfg [''S1''] [(''07'', 5)] ?ep = Inr ep'"
    using spropose_ok [of epoch_cfg ?ep "[''S1'']"] by (auto simp: spropose_def)
  have "ep_pbft ?ep = pbft0" by (simp add: epoch0_def)
  with AccState_not_read [OF r, of "''07''" 5] r show ?thesis by auto
qed

text \<open>
  The epoch ends at the shard when it has counted one completion for each shard, its own among them, and
  not before; the counter does not see from which shards they come.
\<close>

theorem epoch_barrier:
  assumes "epochLock ep" "0 \<le> sure_count ep" "sure_count ep + int (length ids) \<le> Shard_num cfg" "ids \<noteq> []"
  shows "\<exists>ep'. fold_res (handleSure cfg) ids ep = Inr ep' \<and> (epochLock ep' \<longleftrightarrow> sure_count ep + int (length ids) < Shard_num cfg)
    \<and> sure_count ep' = (if epochLock ep' then sure_count ep + int (length ids) else 0)"
  using assms
proof (induction ids arbitrary: ep)
  case (Cons x ids)
  show ?case
  proof (cases "sure_count ep + 1 = Shard_num cfg")
    case True
    with Cons.prems have "ids = []" by (cases ids) auto
    with True Cons.prems show ?thesis by (simp add: handleSure_def count_sure_def)
  next
    case False
    let ?ep = "ep\<lparr> sure_count := sure_count ep + 1 \<rparr>"
    have s: "handleSure cfg x ep = Inr ?ep" using False by (simp add: handleSure_def count_sure_def)
    show ?thesis
    proof (cases "ids = []")
      case True
      with s False Cons.prems show ?thesis by auto
    next
      case False
      with Cons.IH [of ?ep] Cons.prems s show ?thesis by (auto simp: algebra_simps)
    qed
  qed
qed simp

lemma epoch_barrier_witness: "\<exists>ep'. fold_res (handleSure epoch_cfg) [1, 1] epoch0 = Inr ep' \<and> \<not> epochLock ep'"
  using epoch_barrier [of epoch0 "[1, 1]" epoch_cfg] by auto

end
