(* ===== verification/SyncProbe.thy ===== *)
theory SyncProbe
  imports Balance MvssState
begin

text \<open>
  The interleaving probe of the client (\<open>pbft/sync_probe.go\<close>): for some accounts that are about to leave it
  sends two transactions before the new map and one after it. \<open>hash\<close> is \<open>Transaction.Hash\<close>, \<open>rng\<close> the order
  in which Go ranges over a map. Waiting is left out; a goroutine that waits first is a job that runs later.
\<close>

section \<open>The messages of the client\<close>

text \<open>To the leader of a shard, or to one of its nodes.\<close>

datatype client_message =
    CTxs string "Transaction list"
  | CNewMap string "addr list" "addr \<rightharpoonup> int"
  | CMigrateWanted string
  | CEpochCh string
  | CStop string string
  | CLLT string string int

text \<open>The leader \<open>N0\<close> of a shard, if the table has one.\<close>

definition leader_of :: "string \<Rightarrow> string option" where
  "leader_of shard = (case NodeTable shard of None \<Rightarrow> None | Some nodes \<Rightarrow> nodes ''N0'')"

section \<open>Parameters\<close>

definition syncProbeEnabled :: "ChainConfig \<Rightarrow> bool" where
  "syncProbeEnabled cfg = EnableSyncProbe cfg"

definition syncProbeMaxAccounts :: "ChainConfig \<Rightarrow> int" where
  "syncProbeMaxAccounts cfg = (let n = SyncProbeMaxAccounts cfg in if n \<le> 0 then 3 else n)"

text \<open>Both in milliseconds.\<close>

definition syncProbeSettle :: "ChainConfig \<Rightarrow> int" where
  "syncProbeSettle cfg = (let ms = SyncProbeSettleMs cfg in if ms \<le> 0 then 800 else ms)"

definition syncProbePhaseBDelay :: "ChainConfig \<Rightarrow> int" where
  "syncProbePhaseBDelay cfg =
     (let ms = SyncProbePhaseBDelayMs cfg; ms1 = (if ms \<le> 0 then Block_interval cfg * 2 * 1000 else ms)
      in if ms1 < 500 then 500 else ms1)"

section \<open>Targets\<close>

record syncProbeTarget =
  pt_addr :: addr
  srcShard :: string
  dstShard :: string

definition try_add :: "int \<Rightarrow> (addr \<rightharpoonup> int) \<Rightarrow> (addr \<rightharpoonup> int) \<Rightarrow> addr \<Rightarrow> syncProbeTarget list \<Rightarrow> syncProbeTarget list" where
  "try_add maxN a2s newMap a out =
     (if int (length out) \<ge> maxN then out
      else case (newMap a, a2s a) of
          (Some newShard, Some oldShard) \<Rightarrow>
            (if oldShard = newShard then out
             else let src = shard_name oldShard in
               if src = '''' then out
               else if a \<in> pt_addr ` set out then out
               else out @ [\<lparr> pt_addr = a, srcShard = src, dstShard = shard_name newShard \<rparr>])
        | _ \<Rightarrow> out)"

text \<open>The loop stops when it has enough; \<open>try_add\<close> adds nothing then.\<close>

fun try_add_all :: "int \<Rightarrow> (addr \<rightharpoonup> int) \<Rightarrow> (addr \<rightharpoonup> int) \<Rightarrow> addr list \<Rightarrow> syncProbeTarget list \<Rightarrow> syncProbeTarget list" where
  "try_add_all maxN a2s newMap [] out = out"
| "try_add_all maxN a2s newMap (a # as) out =
     (let out' = try_add maxN a2s newMap a out in
      if int (length out') \<ge> maxN then out' else try_add_all maxN a2s newMap as out')"

definition pickSyncProbeTargets :: "ChainConfig \<Rightarrow> (addr \<rightharpoonup> int) \<Rightarrow> addr list \<Rightarrow> (addr \<rightharpoonup> int) \<Rightarrow> syncProbeTarget list" where
  "pickSyncProbeTargets cfg a2s newAddrs newMap =
     (let maxN = syncProbeMaxAccounts cfg; forced = TrimSpace (SyncProbeAccount cfg) in
      if \<not> syncProbeEnabled cfg \<or> newAddrs = [] then []
      else if forced \<noteq> '''' then try_add maxN a2s newMap forced []
      else try_add_all maxN a2s newMap newAddrs [])"

text \<open>\<open>keys\<close> is the order in which Go ranges over the map of accounts.\<close>

definition pickSyncProbeRecipient :: "(addr \<rightharpoonup> int) \<Rightarrow> addr list \<Rightarrow> addr \<Rightarrow> string \<Rightarrow> addr set \<Rightarrow> addr" where
  "pickSyncProbeRecipient a2s keys senderHex shardStr exclude =
     (case ShardTable shardStr of
        None \<Rightarrow> ''''
      | Some srcSID \<Rightarrow>
          let fits = (\<lambda>a. a \<noteq> senderHex \<and> a \<notin> exclude \<and> lookup0 a2s a = srcSID) in
          case List.find fits Init_addrs of
            Some a \<Rightarrow> a
          | None \<Rightarrow> (case List.find (\<lambda>a. a2s a \<noteq> None \<and> fits a) keys of Some a \<Rightarrow> a | None \<Rightarrow> ''''))"

section \<open>Transactions\<close>

definition probe_tx :: "bytes \<Rightarrow> bytes \<Rightarrow> int \<Rightarrow> int \<Rightarrow> int \<Rightarrow> Transaction" where
  "probe_tx sender recipient k clientTS requestTS = zero_tx\<lparr> Sender := sender, Recipient := recipient, TxId := k,
     TxValue := 1, RequestTime := requestTS, ClientTimestamp := clientTS, Second_RequestTime := - 1, TXmig1_Time := - 1,
     TXmig2_Time := - 1, CommitTime := - 1, LockTime := - 1, UnlockTime := - 1 \<rparr>"

definition buildSyncProbeTx :: "(Transaction \<Rightarrow> bytes) \<Rightarrow> addr \<Rightarrow> addr \<Rightarrow> int \<Rightarrow> int \<Rightarrow> int \<Rightarrow> Transaction res" where
  "buildSyncProbeTx hash senderHex recipientHex k clientTS requestTS =
     (case hex_decode senderHex of (sender, ok) \<Rightarrow>
        if \<not> ok then Inl log_panic
        else case hex_decode recipientHex of (recipient, ok') \<Rightarrow>
          if \<not> ok' then Inl log_panic
          else let tx = probe_tx sender recipient k clientTS requestTS in Inr (tx\<lparr> TxHash := hash tx \<rparr>))"

text \<open>Some transactions to the leader of a shard, with their hashes; nothing when there is no leader.\<close>

definition injectClientTxsToShard :: "(Transaction \<Rightarrow> bytes) \<Rightarrow> string \<Rightarrow> Transaction list \<Rightarrow> client_message list" where
  "injectClientTxsToShard hash shard txs =
     (if txs = [] then []
      else case leader_of shard of
          None \<Rightarrow> []
        | Some leader \<Rightarrow> if leader = '''' then []
            else [CTxs shard (map (\<lambda>tx. if TxHash tx = [] then tx\<lparr> TxHash := hash tx \<rparr> else tx) txs)])"

type_synonym by_shard = "string \<rightharpoonup> Transaction list"

definition add_shard :: "string \<Rightarrow> Transaction list \<Rightarrow> by_shard \<Rightarrow> by_shard" where
  "add_shard s txs m = m(s \<mapsto> (case m s of None \<Rightarrow> [] | Some l \<Rightarrow> l) @ txs)"

definition send_by_shard :: "(Transaction \<Rightarrow> bytes) \<Rightarrow> string list \<Rightarrow> by_shard \<Rightarrow> client_message list" where
  "send_by_shard hash order m =
     concat (map (\<lambda>s. case m s of None \<Rightarrow> [] | Some txs \<Rightarrow> injectClientTxsToShard hash s txs) order)"

text \<open>The two old transactions, numbers 1 and 3, of each target.\<close>

definition phaseA_one :: "(Transaction \<Rightarrow> bytes) \<Rightarrow> (addr \<rightharpoonup> int) \<Rightarrow> addr list \<Rightarrow> addr set \<Rightarrow> nat \<times> syncProbeTarget \<Rightarrow> by_shard \<Rightarrow> by_shard res" where
  "phaseA_one hash a2s keys migrating = (\<lambda>(i, t) m.
     (let recv = pickSyncProbeRecipient a2s keys (pt_addr t) (srcShard t) migrating in
      if recv = '''' then Inr m
      else bind_res (buildSyncProbeTx hash (pt_addr t) recv (syncProbeID (int i) 1) 100 1) (\<lambda>tx1.
        bind_res (buildSyncProbeTx hash (pt_addr t) recv (syncProbeID (int i) 3) 300 1) (\<lambda>tx3.
        Inr (add_shard (srcShard t) [tx1, tx3] m)))))"

definition syncProbePhaseA :: "(Transaction \<Rightarrow> bytes) \<Rightarrow> string list \<Rightarrow> (addr \<rightharpoonup> int) \<Rightarrow> addr list \<Rightarrow> syncProbeTarget list
    \<Rightarrow> client_message list res" where
  "syncProbePhaseA hash order a2s keys targets =
     bind_res (fold_res (phaseA_one hash a2s keys (pt_addr ` set targets)) (enumerate 0 targets) Map.empty) (\<lambda>m.
       Inr (send_by_shard hash order m))"

text \<open>The new transaction, number 2, of each target; it asks for a recipient in the target shard.\<close>

definition phaseB_one :: "(Transaction \<Rightarrow> bytes) \<Rightarrow> int \<Rightarrow> (addr \<rightharpoonup> int) \<Rightarrow> addr list \<Rightarrow> addr set \<Rightarrow> nat \<times> syncProbeTarget \<Rightarrow> by_shard
    \<Rightarrow> by_shard res" where
  "phaseB_one hash now a2s keys migrating = (\<lambda>(i, t) m.
     (let recv = pickSyncProbeRecipient a2s keys (pt_addr t) (dstShard t) migrating in
      if recv = '''' then Inr m
      else bind_res (buildSyncProbeTx hash (pt_addr t) recv (syncProbeID (int i) 2) 200 now) (\<lambda>tx2.
        Inr (add_shard (srcShard t) [tx2\<lparr> IsRelay := False, Second_RequestTime := RequestTime tx2 \<rparr>] m))))"

definition syncProbePhaseB :: "(Transaction \<Rightarrow> bytes) \<Rightarrow> string list \<Rightarrow> int \<Rightarrow> (addr \<rightharpoonup> int) \<Rightarrow> addr list \<Rightarrow> syncProbeTarget list
    \<Rightarrow> client_message list res" where
  "syncProbePhaseB hash order now a2s keys targets =
     bind_res (fold_res (phaseB_one hash now a2s keys (pt_addr ` set targets)) (enumerate 0 targets) Map.empty) (\<lambda>m.
       Inr (send_by_shard hash order m))"

definition runSyncProbeBeforeMigration :: "(Transaction \<Rightarrow> bytes) \<Rightarrow> string list \<Rightarrow> ChainConfig \<Rightarrow> (addr \<rightharpoonup> int) \<Rightarrow> addr list
    \<Rightarrow> addr list \<Rightarrow> (addr \<rightharpoonup> int) \<Rightarrow> (syncProbeTarget list \<times> client_message list) res" where
  "runSyncProbeBeforeMigration hash order cfg a2s keys newAddrs newMap =
     (let targets = pickSyncProbeTargets cfg a2s newAddrs newMap in
      if targets = [] then Inr ([], [])
      else bind_res (syncProbePhaseA hash order a2s keys targets) (\<lambda>ms. Inr (targets, ms)))"

section \<open>The second phase\<close>

text \<open>
  \<open>pr_jobs\<close> are the goroutines that \<open>ArmSyncProbePhaseB\<close> has started and that still wait, each with its
  targets. One flag for all says that the second phase has run.
\<close>

record ProbeState =
  syncProbePending :: "syncProbeTarget list"
  syncProbePhaseBDone :: bool
  pr_jobs :: "syncProbeTarget list list"

definition probe_start :: ProbeState where
  "probe_start = \<lparr> syncProbePending = [], syncProbePhaseBDone = False, pr_jobs = [] \<rparr>"

definition ArmSyncProbePhaseB :: "syncProbeTarget list \<Rightarrow> ProbeState \<Rightarrow> ProbeState" where
  "ArmSyncProbePhaseB targets pr =
     (if targets = [] then pr
      else pr\<lparr> syncProbePending := targets, syncProbePhaseBDone := False, pr_jobs := pr_jobs pr @ [targets] \<rparr>)"

text \<open>The oldest job wakes; the second result is the targets of its phase B, if it runs one.\<close>

definition syncProbePhaseBScheduled :: "ProbeState \<Rightarrow> (syncProbeTarget list option \<times> ProbeState) option" where
  "syncProbePhaseBScheduled pr =
     (case pr_jobs pr of
        [] \<Rightarrow> None
      | targets # jobs \<Rightarrow>
          if syncProbePhaseBDone pr then Some (None, pr\<lparr> pr_jobs := jobs \<rparr>)
          else Some (Some targets, pr\<lparr> syncProbePhaseBDone := True, pr_jobs := jobs \<rparr>))"

definition TrySyncProbePhaseBOnAnnounce :: "string \<Rightarrow> ProbeState \<Rightarrow> ProbeState" where
  "TrySyncProbePhaseBOnAnnounce shard pr = pr"

section \<open>Lemmas\<close>

definition targets_ok :: "(addr \<rightharpoonup> int) \<Rightarrow> (addr \<rightharpoonup> int) \<Rightarrow> syncProbeTarget list \<Rightarrow> bool" where
  "targets_ok a2s newMap ts \<longleftrightarrow> distinct (map pt_addr ts) \<and> (\<forall>t\<in>set ts. \<exists>s d. a2s (pt_addr t) = Some s
     \<and> newMap (pt_addr t) = Some d \<and> s \<noteq> d \<and> srcShard t = shard_name s \<and> srcShard t \<noteq> '''' \<and> dstShard t = shard_name d)"

lemma try_add_ok:
  assumes "targets_ok a2s newMap out" "int (length out) \<le> maxN"
  shows "targets_ok a2s newMap (try_add maxN a2s newMap a out) \<and> int (length (try_add maxN a2s newMap a out)) \<le> maxN
    \<and> pt_addr ` set (try_add maxN a2s newMap a out) \<subseteq> insert a (pt_addr ` set out)"
  using assms by (auto simp: try_add_def targets_ok_def Let_def split: option.splits)

lemma try_add_all_ok:
  assumes "targets_ok a2s newMap out" "int (length out) \<le> maxN"
  shows "targets_ok a2s newMap (try_add_all maxN a2s newMap as out) \<and> int (length (try_add_all maxN a2s newMap as out)) \<le> maxN
    \<and> pt_addr ` set (try_add_all maxN a2s newMap as out) \<subseteq> set as \<union> pt_addr ` set out"
  using assms
proof (induction as arbitrary: out)
  case (Cons a as)
  from try_add_ok [OF Cons.prems, of a] Cons.IH [of "try_add maxN a2s newMap a out"] show ?case
    by (simp add: Let_def) blast
qed simp

text \<open>A transaction of phase A: one of the two old ones of target \<open>i\<close>, for its source.\<close>

definition old_probe :: "syncProbeTarget list \<Rightarrow> string \<Rightarrow> Transaction \<Rightarrow> bool" where
  "old_probe ts s tx \<longleftrightarrow> (\<exists>i<length ts. srcShard (ts ! i) = s \<and> hex_decode (pt_addr (ts ! i)) = (Sender tx, True)
     \<and> TxId tx \<in> {syncProbeID (int i) 1, syncProbeID (int i) 3} \<and> RequestTime tx = 1 \<and> \<not> IsRelay tx)"

lemma probe_tx_sel [simp]:
  "Sender (probe_tx a b k c r) = a" "Recipient (probe_tx a b k c r) = b" "TxId (probe_tx a b k c r) = k"
  "RequestTime (probe_tx a b k c r) = r" "ClientTimestamp (probe_tx a b k c r) = c" "\<not> IsRelay (probe_tx a b k c r)"
  by (simp_all add: probe_tx_def) (simp add: zero_tx_def)

lemma buildSyncProbeTx_ok:
  assumes "buildSyncProbeTx hash a r k cts rts = Inr tx"
  shows "hex_decode a = (Sender tx, True)" "TxId tx = k" "RequestTime tx = rts" "ClientTimestamp tx = cts" "\<not> IsRelay tx"
  using assms by (auto simp: buildSyncProbeTx_def Let_def split: prod.splits if_splits)

lemma inject_set:
  assumes "CTxs s txs \<in> set (injectClientTxsToShard hash s' txs')" "tx \<in> set txs"
  shows "s = s' \<and> (\<exists>tx'\<in>set txs'. tx = tx' \<or> tx = tx'\<lparr> TxHash := hash tx' \<rparr>)"
proof -
  have t: "txs = map (\<lambda>tx. if TxHash tx = [] then tx\<lparr> TxHash := hash tx \<rparr> else tx) txs'" "s = s'"
    using assms(1) by (simp_all add: injectClientTxsToShard_def split: option.splits if_splits)
  obtain tx' where "tx' \<in> set txs'" "tx = (if TxHash tx' = [] then tx'\<lparr> TxHash := hash tx' \<rparr> else tx')"
    using assms(2) unfolding t(1) set_map by (elim imageE) iprover
  with t(2) show ?thesis by metis
qed

lemma send_by_shard_set:
  assumes "CTxs s txs \<in> set (send_by_shard hash order m)" "tx \<in> set txs"
  shows "\<exists>txs' tx'. m s = Some txs' \<and> tx' \<in> set txs' \<and> (tx = tx' \<or> tx = tx'\<lparr> TxHash := hash tx' \<rparr>)"
proof -
  obtain s' where s': "CTxs s txs \<in> set (case m s' of None \<Rightarrow> [] | Some txs \<Rightarrow> injectClientTxsToShard hash s' txs)"
    using assms(1) by (auto simp: send_by_shard_def)
  then obtain txs' where txs': "m s' = Some txs'" "CTxs s txs \<in> set (injectClientTxsToShard hash s' txs')"
    by (cases "m s'") simp_all
  from inject_set [OF txs'(2) assms(2)] txs'(1) show ?thesis by blast
qed

lemma phaseA_one_ok:
  assumes m: "\<forall>s txs. m s = Some txs \<longrightarrow> (\<forall>tx\<in>set txs. old_probe ts s tx)" and i: "i < length ts"
    and r: "phaseA_one hash a2s keys mig (i, ts ! i) m = Inr m'"
  shows "\<forall>s txs. m' s = Some txs \<longrightarrow> (\<forall>tx\<in>set txs. old_probe ts s tx)"
proof -
  let ?t = "ts ! i"
  consider "m' = m" | recv tx1 tx3 where "buildSyncProbeTx hash (pt_addr ?t) recv (syncProbeID (int i) 1) 100 1 = Inr tx1"
      "buildSyncProbeTx hash (pt_addr ?t) recv (syncProbeID (int i) 3) 300 1 = Inr tx3" "m' = add_shard (srcShard ?t) [tx1, tx3] m"
    using r by (auto simp: phaseA_one_def Let_def bind_res_eq_Inr split: if_splits)
  then show ?thesis
  proof cases
    case 1
    with m show ?thesis by simp
  next
    case 2
    have "old_probe ts (srcShard ?t) tx" if "tx \<in> {tx1, tx3}" for tx
      using that i buildSyncProbeTx_ok [OF 2(1)] buildSyncProbeTx_ok [OF 2(2)] unfolding old_probe_def by (intro exI [of _ i]) auto
    then show ?thesis using m by (cases "m (srcShard ?t)") (auto simp: 2(3) add_shard_def split: if_splits)
  qed
qed

lemma phaseA_fold_ok:
  assumes "\<forall>(i, t)\<in>set xs. i < length ts \<and> t = ts ! i" "\<forall>s txs. m s = Some txs \<longrightarrow> (\<forall>tx\<in>set txs. old_probe ts s tx)"
    and "fold_res (phaseA_one hash a2s keys mig) xs m = Inr m'"
  shows "\<forall>s txs. m' s = Some txs \<longrightarrow> (\<forall>tx\<in>set txs. old_probe ts s tx)"
proof (rule fold_res_inv [OF assms(3), where P = "\<lambda>m. \<forall>s txs. m s = Some txs \<longrightarrow> (\<forall>tx\<in>set txs. old_probe ts s tx)"])
  fix x n n' assume x: "x \<in> set xs" and n: "\<forall>s txs. n s = Some txs \<longrightarrow> (\<forall>tx\<in>set txs. old_probe ts s tx)"
    and r: "phaseA_one hash a2s keys mig x n = Inr n'"
  obtain i where i: "i < length ts" "x = (i, ts ! i)" using x assms(1) by (cases x) auto
  from phaseA_one_ok [OF n i(1)] r show "\<forall>s txs. n' s = Some txs \<longrightarrow> (\<forall>tx\<in>set txs. old_probe ts s tx)"
    unfolding i(2) by blast
qed (use assms(2) in simp)

section \<open>Properties\<close>

text \<open>
  The accounts that the probe picks: at most the configured number, each once, each about to leave a
  shard for another; its source has a name, and an account that the client does not ask for is one of the list.
\<close>

theorem probe_targets:
  "let ts = pickSyncProbeTargets cfg a2s newAddrs newMap in
     int (length ts) \<le> syncProbeMaxAccounts cfg \<and> targets_ok a2s newMap ts
     \<and> pt_addr ` set ts \<subseteq> insert (TrimSpace (SyncProbeAccount cfg)) (set newAddrs)"
proof -
  have "targets_ok a2s newMap []" "int (length ([] :: syncProbeTarget list)) \<le> syncProbeMaxAccounts cfg"
    by (simp_all add: targets_ok_def syncProbeMaxAccounts_def Let_def)
  from try_add_ok [OF this, of "TrimSpace (SyncProbeAccount cfg)"] try_add_all_ok [OF this, of newAddrs] this show ?thesis
    by (auto simp: pickSyncProbeTargets_def Let_def)
qed

text \<open>
  Phase A: every transaction that it sends goes to the shard that its sender, a target, is about to leave,
  under one of the two numbers of that target, and is older than any migration request.
\<close>

theorem phaseA_sends_old:
  assumes "syncProbePhaseA hash order a2s keys ts = Inr ms" "CTxs s txs \<in> set ms" "tx \<in> set txs"
  shows "old_probe ts s tx"
proof -
  from assms(1) obtain m where m: "fold_res (phaseA_one hash a2s keys (pt_addr ` set ts)) (enumerate 0 ts) Map.empty = Inr m"
    "ms = send_by_shard hash order m" by (auto simp: syncProbePhaseA_def bind_res_eq_Inr)
  have "\<forall>(i, t)\<in>set (enumerate 0 ts). i < length ts \<and> t = ts ! i" by (auto simp: in_set_enumerate_eq)
  from phaseA_fold_ok [OF this _ m(1)] have all: "\<forall>s txs. m s = Some txs \<longrightarrow> (\<forall>tx\<in>set txs. old_probe ts s tx)" by simp
  from send_by_shard_set assms(2,3) m(2) obtain txs' tx' where tx': "m s = Some txs'" "tx' \<in> set txs'"
    "tx = tx' \<or> tx = tx'\<lparr> TxHash := hash tx' \<rparr>" by blast
  then have "old_probe ts s tx'" using all by blast
  then show ?thesis using tx'(3) by (auto simp: old_probe_def)
qed

lemma phaseA_sends_old_witness:
  "\<exists>ms txs. syncProbePhaseA (\<lambda>_. [1]) [''S0''] [''05'' \<mapsto> 0, ''06'' \<mapsto> 0] [''05'', ''06'']
      [\<lparr> pt_addr = ''05'', srcShard = ''S0'', dstShard = ''S1'' \<rparr>] = Inr ms \<and> CTxs ''S0'' txs \<in> set ms \<and> length txs = 2
    \<and> (\<forall>tx\<in>set txs. old_probe [\<lparr> pt_addr = ''05'', srcShard = ''S0'', dstShard = ''S1'' \<rparr>] ''S0'' tx)"
proof -
  let ?ts = "[\<lparr> pt_addr = ''05'', srcShard = ''S0'', dstShard = ''S1'' \<rparr>]" and ?a2s = "[''05'' \<mapsto> 0, ''06'' \<mapsto> 0] :: addr \<rightharpoonup> int"
  have recv: "pickSyncProbeRecipient ?a2s [''05'', ''06''] ''05'' ''S0'' {''05''} = ''06''"
    by (simp add: pickSyncProbeRecipient_def ShardTable_def Init_addrs_def lookup0_def)
  have hex: "hex_decode ''05'' = ([5], True)" "hex_decode ''06'' = ([6], True)" by (simp_all add: from_hex_char_def)
  have leader: "leader_of ''S0'' = Some ''127.0.0.1:8010''" by (simp add: leader_of_def NodeTable_def)
  have build: "\<exists>tx. buildSyncProbeTx (\<lambda>_. [1]) ''05'' ''06'' k c 1 = Inr tx" for k c
    by (simp add: buildSyncProbeTx_def hex Let_def del: hex_decode.simps)
  from build obtain tx1 tx3 where tx: "buildSyncProbeTx (\<lambda>_. [1]) ''05'' ''06'' (syncProbeID 0 1) 100 1 = Inr tx1"
    "buildSyncProbeTx (\<lambda>_. [1]) ''05'' ''06'' (syncProbeID 0 3) 300 1 = Inr tx3" by blast
  have "phaseA_one (\<lambda>_. [1]) ?a2s [''05'', ''06''] {''05''} (0, hd ?ts) Map.empty = Inr [''S0'' \<mapsto> [tx1, tx3]]"
    using tx by (simp add: phaseA_one_def recv Let_def add_shard_def)
  then have "syncProbePhaseA (\<lambda>_. [1]) [''S0''] ?a2s [''05'', ''06''] ?ts = Inr (injectClientTxsToShard (\<lambda>_. [1]) ''S0'' [tx1, tx3])"
    by (simp add: syncProbePhaseA_def send_by_shard_def)
  then obtain ms txs where ms: "syncProbePhaseA (\<lambda>_. [1]) [''S0''] ?a2s [''05'', ''06''] ?ts = Inr ms" "CTxs ''S0'' txs \<in> set ms" "length txs = 2"
    by (simp add: injectClientTxsToShard_def leader)
  with phaseA_sends_old [OF ms(1,2)] show ?thesis by blast
qed

text \<open>
  Two new maps within the delay: the flag of the second phase is shared, so the first goroutine that wakes
  runs its phase B and the second one, whose targets wait for their new transaction, does nothing.
\<close>

theorem probe_overlap_lost:
  assumes "ts1 \<noteq> []" "ts2 \<noteq> []"
  shows "\<exists>pr1 pr2. syncProbePhaseBScheduled (ArmSyncProbePhaseB ts2 (ArmSyncProbePhaseB ts1 probe_start)) = Some (Some ts1, pr1)
    \<and> syncProbePhaseBScheduled pr1 = Some (None, pr2) \<and> syncProbePhaseBScheduled pr2 = None"
  using assms by (simp add: syncProbePhaseBScheduled_def ArmSyncProbePhaseB_def probe_start_def)

lemma probe_overlap_lost_witness:
  "\<exists>t pr1 pr2. syncProbePhaseBScheduled (ArmSyncProbePhaseB [t] (ArmSyncProbePhaseB [t] probe_start)) = Some (Some [t], pr1)
    \<and> syncProbePhaseBScheduled pr1 = Some (None, pr2)"
  using probe_overlap_lost [of "[t]" "[t]" for t] by blast

end
