(* ===== verification/DataSets.thy ===== *)
theory DataSets
  imports CoreTypes
begin

text \<open>
  The data sets of the client (\<open>pbft/client.go\<close>): which format a file has, its rows as transactions, and the
  first map of accounts. The rows are what \<open>encoding/csv\<close> gives: lists of fields, or \<open>None\<close> for a row that
  it rejects; after the last one it reports the end of the file. Only the first million rows are read.
\<close>

type_synonym row = "string list"

section \<open>Numbers\<close>

text \<open>\<open>big.Int.SetString(s, 10)\<close>: an optional sign and at least one digit.\<close>

definition is_digit :: "char \<Rightarrow> bool" where
  "is_digit c \<longleftrightarrow> 48 \<le> (of_char c :: nat) \<and> (of_char c :: nat) \<le> 57"

definition ParseDecimal :: "string \<Rightarrow> int option" where
  "ParseDecimal s =
     (let neg = (s \<noteq> [] \<and> hd s = CHR ''-'');
          ds = (if s \<noteq> [] \<and> (hd s = CHR ''-'' \<or> hd s = CHR ''+'') then tl s else s) in
      if ds = [] \<or> \<not> list_all is_digit ds then None
      else Some (if neg then - int (digits_val ds) else int (digits_val ds)))"

text \<open>The field of the time stamp, which \<open>strconv.ParseInt(s, 10, 64)\<close> reads; -1 stands for none.\<close>

definition parseClientTimestamp :: "row \<Rightarrow> int" where
  "parseClientTimestamp row =
     (if length row \<le> 9 then - 1
      else case ParseDecimal (TrimSpace (row ! 9)) of
          None \<Rightarrow> - 1
        | Some v \<Rightarrow> if - (2 ^ 63) \<le> v \<and> v < 2 ^ 63 then v else - 1)"

section \<open>Formats\<close>

text \<open>\<open>filepath.Base\<close>, with \<open>/\<close> as the separator.\<close>

definition base_name :: "string \<Rightarrow> string" where
  "base_name path =
     (let p = rev (dropWhile (\<lambda>c. c = CHR ''/'') (rev path)) in
      if path = [] then ''.'' else if p = [] then ''/'' else rev (takeWhile (\<lambda>c. c \<noteq> CHR ''/'') (rev p)))"

definition HasPrefix :: "string \<Rightarrow> string \<Rightarrow> bool" where
  "HasPrefix s p \<longleftrightarrow> take (length p) s = p"

definition HasSuffix :: "string \<Rightarrow> string \<Rightarrow> bool" where
  "HasSuffix s p \<longleftrightarrow> HasPrefix (rev s) (rev p)"

definition is300KStyleDatasetPath :: "string \<Rightarrow> bool" where
  "is300KStyleDatasetPath path =
     (let base = base_name path in
      base = ''selectedTxs_300K.csv'' \<or> (HasPrefix base ''mvss_'' \<and> HasSuffix base ''.csv'') \<or> HasSuffix base ''_ts.csv'')"

definition is300KStyleRow :: "row \<Rightarrow> bool" where
  "is300KStyleRow row \<longleftrightarrow> 9 \<le> length row \<and> 42 \<le> length (row ! 3) \<and> 42 \<le> length (row ! 4)
     \<and> HasPrefix (row ! 3) ''0x'' \<and> HasPrefix (row ! 4) ''0x''"

definition dataset_flag :: "string \<Rightarrow> nat" where
  "dataset_flag path =
     (if path = ''selectedTxs_300K.csv'' \<or> is300KStyleDatasetPath path then 2
      else if path \<in> {''0to999999_BlockTransaction.csv'', ''300W.csv'', ''100W.csv'', ''50W.csv'', ''20W.csv'', ''200W.csv''} then 1
      else 0)"

section \<open>Rows\<close>

text \<open>\<open>row[k][2:]\<close>, which panics when the field is shorter.\<close>

definition field_addr :: "row \<Rightarrow> nat \<Rightarrow> addr res" where
  "field_addr row k = slice_from (row ! k) 2"

text \<open>
  The test of the first format: a call that neither creates nor calls a contract, between two addresses of 40
  digits that differ. The fields are cut one after the other, as Go's \<open>||\<close> reaches them.
\<close>

definition plain_transfer :: "row \<Rightarrow> bool res" where
  "plain_transfer row =
     (if row ! 5 \<noteq> ''None'' \<or> row ! 6 = ''1'' \<or> row ! 7 = ''1'' then Inr False
      else bind_res (field_addr row 4) (\<lambda>r.
        if length r \<noteq> 40 then Inr False
        else bind_res (field_addr row 3) (\<lambda>s. Inr (length s = 40 \<and> row ! 4 \<noteq> row ! 3))))"

text \<open>Sender, recipient, value and time stamp of a row; \<open>None\<close> for a row that is left out.\<close>

definition tx_row :: "nat \<Rightarrow> row \<Rightarrow> (addr \<times> addr \<times> int \<times> int) option res" where
  "tx_row fmt row =
     (if fmt = 1 then
        if length row < 9 then Inr None
        else bind_res (plain_transfer row) (\<lambda>ok.
          if \<not> ok then Inr None
          else bind_res (field_addr row 3) (\<lambda>s. bind_res (field_addr row 4) (\<lambda>r.
            case ParseDecimal (row ! 8) of
              None \<Rightarrow> Inl log_panic
            | Some v \<Rightarrow> Inr (Some (s, r, v, parseClientTimestamp row)))))
      else if fmt = 2 then
        if length row < 9 \<or> length (row ! 3) < 2 \<or> length (row ! 4) < 2 then Inr None
        else bind_res (field_addr row 3) (\<lambda>s. bind_res (field_addr row 4) (\<lambda>r.
          case ParseDecimal (row ! 8) of
            None \<Rightarrow> Inr None
          | Some v \<Rightarrow> Inr (Some (s, r, v, parseClientTimestamp row))))
      else
        if length row < 3 \<or> length (row ! 1) < 2 \<or> length (row ! 2) < 2 then Inr None
        else bind_res (field_addr row 1) (\<lambda>s. bind_res (field_addr row 2) (\<lambda>r. Inr (Some (s, r, 0, - 1)))))"

definition note_addr :: "ChainConfig \<Rightarrow> addr \<Rightarrow> (addr \<rightharpoonup> int) \<Rightarrow> (addr \<rightharpoonup> int) res" where
  "note_addr cfg a m = bind_res (utils_Addr2Shard cfg a) (\<lambda>s. Inr (m(a \<mapsto> s)))"

definition note_both :: "ChainConfig \<Rightarrow> addr \<Rightarrow> addr \<Rightarrow> (addr \<rightharpoonup> int) \<Rightarrow> (addr \<rightharpoonup> int) res" where
  "note_both cfg s r m = bind_res (note_addr cfg s m) (note_addr cfg r)"

text \<open>The error of \<open>hex.DecodeString\<close> is dropped: the bytes before it are the address.\<close>

definition row_tx :: "int \<Rightarrow> addr \<Rightarrow> addr \<Rightarrow> int \<Rightarrow> int \<Rightarrow> Transaction" where
  "row_tx k s r v ts = zero_tx\<lparr> Sender := fst (hex_decode s), Recipient := fst (hex_decode r), TxId := k, TxValue := v,
     RequestTime := - 1, ClientTimestamp := ts, Second_RequestTime := - 1, TXmig1_Time := - 1, TXmig2_Time := - 1,
     CommitTime := - 1, LockTime := - 1, UnlockTime := - 1 \<rparr>"

definition read_row :: "ChainConfig \<Rightarrow> string \<Rightarrow> row option \<Rightarrow> Transaction list \<times> int \<times> (addr \<rightharpoonup> int)
    \<Rightarrow> (Transaction list \<times> int \<times> (addr \<rightharpoonup> int)) res" where
  "read_row cfg path line = (\<lambda>(txs, txid, m).
     case line of
       None \<Rightarrow> Inl log_panic
     | Some row \<Rightarrow>
         bind_res (tx_row (if dataset_flag path = 0 \<and> is300KStyleRow row then 2 else dataset_flag path) row) (\<lambda>t.
           case t of
             None \<Rightarrow> Inr (txs, txid, m)
           | Some (s, r, v, ts) \<Rightarrow>
               bind_res (note_both cfg s r m) (\<lambda>m'. Inr (txs @ [row_tx txid s r v ts], txid + 1, m'))))"

definition Get_Initial_Map_And_TXS :: "ChainConfig \<Rightarrow> string \<Rightarrow> row option list \<Rightarrow> (addr \<rightharpoonup> int)
    \<Rightarrow> (Transaction list \<times> (addr \<rightharpoonup> int)) res" where
  "Get_Initial_Map_And_TXS cfg path file m =
     (case file of
        Some _ # rows \<Rightarrow>
          bind_res (fold_res (read_row cfg path) (take 1000000 rows) ([], 0, m)) (\<lambda>(txs, _, m'). Inr (txs, m'))
      | _ \<Rightarrow> Inl log_panic)"

section \<open>The map alone\<close>

definition map_row :: "nat \<Rightarrow> row \<Rightarrow> (addr \<times> addr) option res" where
  "map_row fmt row =
     (let both = (\<lambda>i j. bind_res (field_addr row i) (\<lambda>s. bind_res (field_addr row j) (\<lambda>r. Inr (Some (s, r))))) in
      if fmt = 1 then
        if length row < 8 \<or> length (row ! 3) < 2 \<or> length (row ! 4) < 2 then Inr None
        else bind_res (plain_transfer row) (\<lambda>ok. if \<not> ok then Inr None else both 3 4)
      else if fmt = 2 then
        if length row < 9 \<or> length (row ! 3) < 2 \<or> length (row ! 4) < 2 then Inr None else both 3 4
      else
        if length row < 3 \<or> length (row ! 1) < 2 \<or> length (row ! 2) < 2 then Inr None else both 1 2)"

definition read_map_row :: "ChainConfig \<Rightarrow> string \<Rightarrow> row option \<Rightarrow> (addr \<rightharpoonup> int) \<Rightarrow> (addr \<rightharpoonup> int) res" where
  "read_map_row cfg path line m =
     (case line of
        None \<Rightarrow> Inl log_panic
      | Some row \<Rightarrow>
          bind_res (map_row (dataset_flag path) row) (\<lambda>t.
            case t of None \<Rightarrow> Inr m | Some (s, r) \<Rightarrow> note_both cfg s r m))"

definition Get_Initial_Map :: "ChainConfig \<Rightarrow> string \<Rightarrow> row option list \<Rightarrow> (addr \<rightharpoonup> int) \<Rightarrow> (addr \<rightharpoonup> int) res" where
  "Get_Initial_Map cfg path file m =
     (case file of
        Some _ # rows \<Rightarrow> fold_res (read_map_row cfg path) (take 1000000 rows) m
      | _ \<Rightarrow> Inl log_panic)"

section \<open>The part of the transactions to send\<close>

text \<open>The slice of \<open>RunClient\<close>. Its bounds are within the list.\<close>

definition inject_start :: "ChainConfig \<Rightarrow> 'a list \<Rightarrow> int" where
  "inject_start cfg txs = min (max 0 (InjectStartTx cfg)) (int (length txs))"

definition inject_slice :: "ChainConfig \<Rightarrow> 'a list \<Rightarrow> 'a list" where
  "inject_slice cfg txs =
     (let start = inject_start cfg txs;
          fin = (if 0 < MaxInjectTxs cfg \<and> start + MaxInjectTxs cfg < int (length txs) then start + MaxInjectTxs cfg
                 else int (length txs)) in
      if 0 < start \<or> 0 < MaxInjectTxs cfg then drop (nat start) (take (nat fin) txs) else txs)"

end
