(* ===== verification/Client.thy ===== *)
theory Client
  imports SyncProbe DataSets
begin

text \<open>
  The client (\<open>pbft/client.go\<close>): it reads the data set, injects the transactions at a fixed rate, follows the
  replies of the shards, asks them for their pending transactions when it is time to migrate, computes a new map
  and sends it, and stops the run. The package variables are the record \<open>Client\<close>; a handler runs as one
  step; the goroutine of \<open>runMigrationFromPending\<close> waits in \<open>cl_jobs\<close>. Waiting, prints and the file of times
  are left out.
\<close>

section \<open>State\<close>

record Client =
  cl_config :: ChainConfig
  cl_acc :: Globals
  max_commit_block :: int
  commit_tx_set :: "Transaction list"
  pending_tx_set :: "Transaction list"
  migration_count :: int
  num_of_unfinished_migration :: int
  num_of_shard_not_sending_pending :: int
  num_of_unfinished_migrated_TXs :: int
  zero_count :: int
  injectDone :: bool
  emptyStreakByShard :: "string \<rightharpoonup> int"
  all_finish :: bool
  cl_jobs :: "Transaction list list"
  cl_probe :: ProbeState
  cl_sent :: "client_message list"

text \<open>The start of \<open>RunClient\<close>.\<close>

definition client_start :: "ChainConfig \<Rightarrow> Client" where
  "client_start cfg = \<lparr> cl_config = cfg, cl_acc = InitGlobals, max_commit_block = Max_Commit_Block cfg * Shard_num cfg,
     commit_tx_set = [], pending_tx_set = [], migration_count = 0, num_of_unfinished_migration = 0,
     num_of_shard_not_sending_pending = Shard_num cfg, num_of_unfinished_migrated_TXs = 0, zero_count = 0, injectDone = False,
     emptyStreakByShard = fold (\<lambda>k m. m(k \<mapsto> 0)) (ActiveShardIDs cfg) Map.empty, all_finish = False, cl_jobs = [],
     cl_probe = probe_start, cl_sent = [] \<rparr>"

section \<open>Messages\<close>

text \<open>The active shards that have a leader.\<close>

definition led_shards :: "ChainConfig \<Rightarrow> string list" where
  "led_shards cfg = filter (\<lambda>k. NodeTable k \<noteq> None) (ActiveShardIDs cfg)"

definition emit_client :: "client_message list \<Rightarrow> Client \<Rightarrow> Client" where
  "emit_client ms cl = cl\<lparr> cl_sent := cl_sent cl @ ms \<rparr>"

text \<open>\<open>nodes\<close> gives the order in which Go ranges over the nodes of a shard.\<close>

definition to_all_nodes :: "(string \<Rightarrow> string list) \<Rightarrow> ChainConfig \<Rightarrow> (string \<Rightarrow> string \<Rightarrow> client_message) \<Rightarrow> client_message list" where
  "to_all_nodes nodes cfg msg = concat (map (\<lambda>k. map (msg k) (nodes k)) (led_shards cfg))"

definition Sendtime :: "(string \<Rightarrow> string list) \<Rightarrow> int \<Rightarrow> Client \<Rightarrow> Client" where
  "Sendtime nodes t cl = emit_client (to_all_nodes nodes (cl_config cl) (\<lambda>k n. CLLT k n t)) cl"

definition send_stop :: "(string \<Rightarrow> string list) \<Rightarrow> Client \<Rightarrow> Client" where
  "send_stop nodes cl = emit_client (to_all_nodes nodes (cl_config cl) CStop) cl"

definition SendEpochChange :: "Client \<Rightarrow> Client" where
  "SendEpochChange cl = emit_client (map CEpochCh (led_shards (cl_config cl))) cl"

definition SendMigrateWanted :: "Client \<Rightarrow> Client" where
  "SendMigrateWanted cl = emit_client (map CMigrateWanted (led_shards (cl_config cl)))
     (cl\<lparr> pending_tx_set := [], num_of_shard_not_sending_pending := Shard_num (cl_config cl) \<rparr>)"

definition SendNewAddr2Shard :: "addr list \<Rightarrow> (addr \<rightharpoonup> int) \<Rightarrow> Client \<Rightarrow> Client" where
  "SendNewAddr2Shard new_addrs new_addr2shard cl =
     (if new_addrs = [] \<and> new_addr2shard = Map.empty then cl
      else emit_client (map (\<lambda>k. CNewMap k new_addrs new_addr2shard) (led_shards (cl_config cl)))
        (cl\<lparr> migration_count := migration_count cl + 1 \<rparr>))"

section \<open>The new map\<close>

text \<open>What the algorithms take from outside: rounding, orders of range, random numbers, the METIS program.\<close>

record algo_env =
  ae_rnd :: rounding
  ae_vertices :: "Vertex list \<Rightarrow> Vertex list"
  ae_addrs :: "addr list \<Rightarrow> addr list"
  ae_known :: "addr list"
  ae_intn :: "nat \<Rightarrow> int \<Rightarrow> int"
  ae_metis :: "int \<times> int \<times> (int \<rightharpoonup> int) list \<Rightarrow> int \<Rightarrow> (int \<times> int) list"

definition choose_map :: "algo_env \<Rightarrow> ChainConfig \<Rightarrow> Transaction list \<Rightarrow> Globals \<Rightarrow> ((addr list \<times> (addr \<rightharpoonup> int)) \<times> Globals) res" where
  "choose_map ae cfg txs g =
     (if PorC cfg = ''PageRank'' then pagerank_map (ae_rnd ae) (ae_addrs ae) cfg (ae_known ae) txs g
      else if PorC cfg = ''CLPA'' then clpa_map (ae_rnd ae) (ae_vertices ae) cfg txs g
      else if PorC cfg = ''LBF'' then lbf_map (ae_rnd ae) (ae_intn ae) cfg txs g
      else if PorC cfg = ''METIS'' then metis_map (ae_rnd ae) (ae_metis ae) cfg txs g
      else Inr (([], Map.empty), g))"

definition probe_before :: "(Transaction \<Rightarrow> bytes) \<Rightarrow> string list \<Rightarrow> algo_env \<Rightarrow> addr list \<Rightarrow> (addr \<rightharpoonup> int) \<Rightarrow> Client
    \<Rightarrow> (syncProbeTarget list \<times> client_message list) res" where
  "probe_before hash order ae new_addrs new cl =
     (if syncProbeEnabled (cl_config cl)
      then runSyncProbeBeforeMigration hash order (cl_config cl) (Account2Shard (cl_acc cl)) (ae_known ae) new_addrs new
      else Inr ([], []))"

definition runMigrationFromPending :: "(Transaction \<Rightarrow> bytes) \<Rightarrow> string list \<Rightarrow> algo_env \<Rightarrow> Transaction list \<Rightarrow> Client \<Rightarrow> Client res" where
  "runMigrationFromPending hash order ae tx_set cl =
     bind_res (choose_map ae (cl_config cl) tx_set (cl_acc cl)) (\<lambda>((new_addrs, new), g).
       let n = int (length new_addrs);
           cl1 = cl\<lparr> cl_acc := (if Stop_When_Migrating (cl_config cl) then g\<lparr> Account2Shard := Account2Shard g ++ new \<rparr> else g),
             num_of_unfinished_migration := n, num_of_unfinished_migrated_TXs := n \<rparr> in
       bind_res (probe_before hash order ae new_addrs new cl1) (\<lambda>(targets, ms).
         let cl2 = SendNewAddr2Shard new_addrs new (emit_client ms cl1) in
         Inr (cl2\<lparr> cl_probe := (if targets \<noteq> [] then ArmSyncProbePhaseB targets (cl_probe cl2) else cl_probe cl2),
           commit_tx_set := [] \<rparr>)))"

section \<open>Replies\<close>

definition settle_migrations :: "int \<Rightarrow> Client \<Rightarrow> Client res" where
  "settle_migrations new_states cl =
     (let n = num_of_unfinished_migration cl - new_states in
      if n < 0 then Inl log_panic
      else Inr (cl\<lparr> num_of_unfinished_migration := n,
        max_commit_block := (if n = 0 \<and> num_of_unfinished_migrated_TXs cl = 0 \<and> max_commit_block cl < 0
          then Max_Commit_Block (cl_config cl) * Shard_num (cl_config cl) else max_commit_block cl) \<rparr>))"

text \<open>\<open>RunClient\<close> receives once from the channel: a second send waits for ever.\<close>

definition signal_finish :: "Client \<Rightarrow> Client res" where
  "signal_finish cl = (if all_finish cl then Inl (Err ''blocked'') else Inr (cl\<lparr> all_finish := True \<rparr>))"

text \<open>The rule that stops the run; replies without a shard are those of older nodes.\<close>

definition count_empty :: "string \<Rightarrow> int \<Rightarrow> Client \<Rightarrow> Client res" where
  "count_empty shard blocksize cl =
     (if \<not> injectDone cl then
        Inr (if shard \<noteq> '''' \<and> blocksize \<noteq> 0 then cl\<lparr> emptyStreakByShard := (emptyStreakByShard cl)(shard \<mapsto> 0) \<rparr> else cl)
      else if shard = '''' then
        if blocksize = 0 then
          let cl1 = cl\<lparr> zero_count := zero_count cl + 1 \<rparr> in
          if zero_count cl1 = 5 * Shard_num (cl_config cl) then signal_finish cl1 else Inr cl1
        else Inr (cl\<lparr> zero_count := 0 \<rparr>)
      else
        let m = (emptyStreakByShard cl)(shard \<mapsto> (if blocksize = 0 then lookup0 (emptyStreakByShard cl) shard + 1 else 0));
            cl1 = cl\<lparr> emptyStreakByShard := m \<rparr> in
        if \<forall>k\<in>set (ActiveShardIDs (cl_config cl)). 5 \<le> lookup0 m k then signal_finish cl1 else Inr cl1)"

text \<open>When it is time to migrate; and each committed transaction, which checks it.\<close>

definition migration_due :: "Client \<Rightarrow> bool" where
  "migration_due cl \<longleftrightarrow> PorC (cl_config cl) \<noteq> ''MONOXIDE'' \<and> 0 < OnlyOnce (cl_config cl) \<and> max_commit_block cl \<le> 0
     \<and> num_of_unfinished_migration cl = 0 \<and> num_of_unfinished_migrated_TXs cl = 0"

definition want_migration :: "Client \<Rightarrow> Client" where
  "want_migration cl = SendMigrateWanted (cl\<lparr> num_of_unfinished_migration := 1, num_of_unfinished_migrated_TXs := 1,
     cl_config := (cl_config cl)\<lparr> OnlyOnce := OnlyOnce (cl_config cl) - 1 \<rparr> \<rparr>)"

definition take_committed :: "Transaction \<Rightarrow> Client \<Rightarrow> Client" where
  "take_committed tx cl =
     (let cl1 = cl\<lparr> commit_tx_set := commit_tx_set cl @ [tx] \<rparr> in if migration_due cl1 then want_migration cl1 else cl1)"

definition handle_reply :: "Transaction list \<Rightarrow> int \<Rightarrow> int \<Rightarrow> string \<Rightarrow> Client \<Rightarrow> Client res" where
  "handle_reply txs blocksize new_states shard cl =
     bind_res (settle_migrations new_states cl) (\<lambda>cl1.
     bind_res (count_empty shard blocksize cl1) (\<lambda>cl2.
       let cl3 = fold take_committed txs cl2 in Inr (cl3\<lparr> max_commit_block := max_commit_block cl3 - 1 \<rparr>)))"

section \<open>The other messages\<close>

definition handle_announced :: "string \<Rightarrow> TXann list \<Rightarrow> Client \<Rightarrow> Client" where
  "handle_announced shard anns cl =
     (let g = cl_acc cl in
      cl\<lparr> cl_probe := TrySyncProbePhaseBOnAnnounce shard (cl_probe cl),
        cl_acc := g\<lparr> Account2Shard := fold (\<lambda>v m. m(ann_Address v \<mapsto> shard_number shard)) anns (Account2Shard g) \<rparr> \<rparr>)"

text \<open>Only a copy that is not \<open>nil\<close>, that is, not empty, starts the migration.\<close>

definition handle_pending :: "Transaction list \<Rightarrow> Client \<Rightarrow> Client" where
  "handle_pending txs cl =
     (let cl1 = cl\<lparr> pending_tx_set := pending_tx_set cl @ txs,
            num_of_shard_not_sending_pending := num_of_shard_not_sending_pending cl - 1 \<rparr> in
      if num_of_shard_not_sending_pending cl1 = 0 then
        cl1\<lparr> pending_tx_set := [], num_of_shard_not_sending_pending := Shard_num (cl_config cl),
          cl_jobs := (if pending_tx_set cl1 \<noteq> [] then cl_jobs cl @ [pending_tx_set cl1] else cl_jobs cl) \<rparr>
      else cl1)"

definition handle_migrated_txs :: "int \<Rightarrow> Client \<Rightarrow> Client" where
  "handle_migrated_txs n cl = cl\<lparr> num_of_unfinished_migrated_TXs := num_of_unfinished_migrated_TXs cl - n \<rparr>"

definition handle_unchanged :: "int \<Rightarrow> Client \<Rightarrow> Client" where
  "handle_unchanged n cl = cl\<lparr> num_of_unfinished_migration := num_of_unfinished_migration cl - n \<rparr>"

section \<open>Steps\<close>

text \<open>
  A message of a shard; the end of the injection; a waiting migration that runs; a goroutine of the probe
  that wakes, at a time, and sends.
\<close>

datatype client_event =
    Reply "Transaction list" int int string
  | Announced string "TXann list"
  | PendingTXs "Transaction list"
  | NumOfMigratedTXsAddrs int
  | UnchangedState int
  | InjectOver
  | RunMigration
  | ProbeWakes int

definition client_step :: "(Transaction \<Rightarrow> bytes) \<Rightarrow> string list \<Rightarrow> algo_env \<Rightarrow> client_event \<Rightarrow> Client \<Rightarrow> Client res" where
  "client_step hash order ae ev cl =
     (case ev of
        Reply txs blocksize new_states shard \<Rightarrow> handle_reply txs blocksize new_states shard cl
      | Announced shard anns \<Rightarrow> Inr (handle_announced shard anns cl)
      | PendingTXs txs \<Rightarrow> Inr (handle_pending txs cl)
      | NumOfMigratedTXsAddrs n \<Rightarrow> Inr (handle_migrated_txs n cl)
      | UnchangedState n \<Rightarrow> Inr (handle_unchanged n cl)
      | InjectOver \<Rightarrow> Inr (cl\<lparr> injectDone := True \<rparr>)
      | RunMigration \<Rightarrow> (case cl_jobs cl of [] \<Rightarrow> Inr cl
          | txs # jobs \<Rightarrow> runMigrationFromPending hash order ae txs (cl\<lparr> cl_jobs := jobs \<rparr>))
      | ProbeWakes now \<Rightarrow> (case syncProbePhaseBScheduled (cl_probe cl) of None \<Rightarrow> Inr cl
          | Some (None, pr) \<Rightarrow> Inr (cl\<lparr> cl_probe := pr \<rparr>)
          | Some (Some targets, pr) \<Rightarrow>
              bind_res (syncProbePhaseB hash order now (Account2Shard (cl_acc cl)) (ae_known ae) targets) (\<lambda>ms.
                Inr (emit_client ms (cl\<lparr> cl_probe := pr \<rparr>)))))"

section \<open>The start of the run\<close>

text \<open>\<open>RunClient\<close> up to the injection; the transactions that it returns are those to inject.\<close>

definition RunClient :: "algo_env \<Rightarrow> (string \<Rightarrow> string list) \<Rightarrow> int \<Rightarrow> ChainConfig \<Rightarrow> string \<Rightarrow> row option list
    \<Rightarrow> (Transaction list \<times> Client) res" where
  "RunClient ae nodes now cfg path file =
     (let cl = client_start cfg; g = cl_acc cl in
      if ClientSendTX cfg then
        bind_res (Get_Initial_Map_And_TXS cfg path file (Account2Shard g)) (\<lambda>(all, m).
          let txs = inject_slice cfg all; g1 = g\<lparr> Account2Shard := m \<rparr> in
          bind_res (if MigrateBeforeInject cfg then choose_map ae cfg txs g1 else Inr (([], Map.empty), g1)) (\<lambda>((new_addrs, new), g2).
            Inr (txs, Sendtime nodes now (SendNewAddr2Shard new_addrs new (cl\<lparr> cl_acc := g2 \<rparr>)))))
      else
        bind_res (Get_Initial_Map cfg path file (Account2Shard g)) (\<lambda>m.
          Inr ([], (Sendtime nodes now (cl\<lparr> cl_acc := g\<lparr> Account2Shard := m \<rparr> \<rparr>))\<lparr> injectDone := True \<rparr>)))"

section \<open>Injection\<close>

text \<open>The stamps of a transaction that is sent; its hash is taken last.\<close>

definition stamp_tx :: "(Transaction \<Rightarrow> bytes) \<Rightarrow> int \<Rightarrow> Transaction \<Rightarrow> Transaction" where
  "stamp_tx hash now tx =
     (let tx1 = tx\<lparr> RequestTime := now, ClientTimestamp := (if ClientTimestamp tx \<le> 0 then now else ClientTimestamp tx) \<rparr>
      in tx1\<lparr> TxHash := hash tx1 \<rparr>)"

definition inject_tx :: "(Transaction \<Rightarrow> bytes) \<Rightarrow> (nat \<Rightarrow> int) \<Rightarrow> (addr \<rightharpoonup> int) \<Rightarrow> nat \<Rightarrow> Transaction list \<times> Transaction list list
    \<Rightarrow> (Transaction list \<times> Transaction list list) res" where
  "inject_tx hash now a2s i = (\<lambda>(txs, to_send).
     (let tx = stamp_tx hash (now i) (txs ! i) in
      bind_res (slice_upd (lookup0 a2s (from_addr tx)) (\<lambda>l. l @ [tx]) to_send) (\<lambda>to_send'.
        Inr (txs[i := tx], to_send'))))"

definition inject_send :: "Transaction list list \<Rightarrow> string \<Rightarrow> client_message list \<Rightarrow> client_message list res" where
  "inject_send to_send k ms =
     bind_res (slice_at to_send (shard_number k)) (\<lambda>ktxs. Inr (if ktxs \<noteq> [] then ms @ [CTxs k ktxs] else ms))"

definition inject_round :: "(Transaction \<Rightarrow> bytes) \<Rightarrow> ChainConfig \<Rightarrow> (nat \<Rightarrow> int) \<Rightarrow> (addr \<rightharpoonup> int) \<Rightarrow> int \<Rightarrow> Transaction list
    \<Rightarrow> (int \<times> Transaction list \<times> client_message list) res" where
  "inject_round hash cfg now a2s cnt txs =
     (let upperBound = utils_Min (cnt + 2 * Inject_speed cfg) (int (length txs)) in
      if Shard_num cfg < 0 then Inl make_panic
      else
        bind_res (fold_res (inject_tx hash now a2s) [nat cnt..<nat upperBound] (txs, replicate (nat (Shard_num cfg)) [])) (\<lambda>(txs', to_send).
        bind_res (fold_res (inject_send to_send) (led_shards cfg) []) (\<lambda>ms. Inr (upperBound, txs', ms))))"

text \<open>
  The loop, over the map of accounts \<open>a2s i\<close> and the clock \<open>now\<close> at round \<open>i\<close>. It returns the messages in
  their order, or \<open>None\<close> when it does not end.
\<close>

partial_function (option) inject_loop :: "(Transaction \<Rightarrow> bytes) \<Rightarrow> ChainConfig \<Rightarrow> (nat \<Rightarrow> int) \<Rightarrow> (nat \<Rightarrow> addr \<rightharpoonup> int) \<Rightarrow> nat \<Rightarrow> int
    \<Rightarrow> Transaction list \<Rightarrow> client_message list \<Rightarrow> (Transaction list \<times> client_message list) res option" where
  "inject_loop hash cfg now a2s i cnt txs ms =
     (case inject_round hash cfg now (a2s i) cnt txs of
        Inl e \<Rightarrow> Some (Inl e)
      | Inr (upperBound, txs', ms') \<Rightarrow>
          if upperBound = int (length txs') then Some (Inr (txs', ms @ ms'))
          else inject_loop hash cfg now a2s (Suc i) upperBound txs' (ms @ ms'))"

definition InjectTXS :: "(Transaction \<Rightarrow> bytes) \<Rightarrow> ChainConfig \<Rightarrow> (nat \<Rightarrow> int) \<Rightarrow> (nat \<Rightarrow> addr \<rightharpoonup> int) \<Rightarrow> Transaction list
    \<Rightarrow> (Transaction list \<times> client_message list) res option" where
  "InjectTXS hash cfg now a2s txs = inject_loop hash cfg now a2s 0 0 txs []"

end
