(* ===== verification/DataSetRead.thy ===== *)
theory DataSetRead
  imports DataSets
begin

text \<open>What reading a data set gives: the transactions of its rows and the shards of their accounts.\<close>

section \<open>One row\<close>

text \<open>The rows that become transactions, with what is read of them.\<close>

definition row_format :: "string \<Rightarrow> row \<Rightarrow> nat" where
  "row_format path row = (if dataset_flag path = 0 \<and> is300KStyleRow row then 2 else dataset_flag path)"

definition taken :: "string \<Rightarrow> row option \<Rightarrow> (addr \<times> addr \<times> int \<times> int) option" where
  "taken path line = (case line of None \<Rightarrow> None
     | Some row \<Rightarrow> (case tx_row (row_format path row) row of Inr t \<Rightarrow> t | Inl e \<Rightarrow> None))"

definition row_accounts :: "(addr \<times> addr \<times> int \<times> int) list \<Rightarrow> addr set" where
  "row_accounts ts = (\<Union>(s, r, _, _) \<in> set ts. {s, r})"

definition numbered_txs :: "(addr \<times> addr \<times> int \<times> int) list \<Rightarrow> Transaction list" where
  "numbered_txs ts = map (\<lambda>(k, s, r, v, ts). row_tx (int k) s r v ts) (enumerate 0 ts)"

lemma numbered_txs_snoc: "numbered_txs (ts @ [(s, r, v, t)]) = numbered_txs ts @ [row_tx (int (length ts)) s r v t]"
  by (simp add: numbered_txs_def enumerate_append_eq)

lemma length_numbered_txs [simp]: "length (numbered_txs ts) = length ts"
  by (simp add: numbered_txs_def)

definition homes :: "ChainConfig \<Rightarrow> (addr \<rightharpoonup> int) \<Rightarrow> addr set \<Rightarrow> (addr \<rightharpoonup> int) \<Rightarrow> bool" where
  "homes cfg m A m' \<longleftrightarrow> (\<forall>a. if a \<in> A then (\<exists>s. utils_Addr2Shard cfg a = Inr s \<and> m' a = Some s) else m' a = m a)"

lemma homesD:
  assumes "homes cfg m A m'"
  shows "a \<in> A \<Longrightarrow> \<exists>s. utils_Addr2Shard cfg a = Inr s \<and> m' a = Some s" "a \<notin> A \<Longrightarrow> m' a = m a"
  using assms [unfolded homes_def, THEN spec, of a] by simp_all

lemma homes_refl: "homes cfg m {} m"
  by (simp add: homes_def)

lemma note_addr_homes: "note_addr cfg a m' = Inr m'' \<Longrightarrow> homes cfg m A m' \<Longrightarrow> homes cfg m (insert a A) m''"
  by (auto simp: note_addr_def homes_def bind_res_eq_Inr split: if_splits)

lemma note_both_homes:
  assumes "note_both cfg s r m' = Inr m''" "homes cfg m A m'"
  shows "homes cfg m (insert r (insert s A)) m''"
  using assms note_addr_homes by (auto simp: note_both_def bind_res_eq_Inr)

lemma read_row_ok:
  assumes "read_row cfg path line (numbered_txs ts, int (length ts), m1) = Inr (txs, k, m2)" "homes cfg m (row_accounts ts) m1"
  shows "\<exists>ts'. ts' = ts @ (case taken path line of None \<Rightarrow> [] | Some t \<Rightarrow> [t])
    \<and> txs = numbered_txs ts' \<and> k = int (length ts') \<and> homes cfg m (row_accounts ts') m2"
proof (cases "taken path line")
  case None
  with assms show ?thesis
    by (auto simp: read_row_def taken_def row_format_def [symmetric] bind_res_eq_Inr split: option.splits)
next
  case (Some t)
  obtain s r v u where t: "t = (s, r, v, u)" by (cases t)
  from Some assms(1) have n: "note_both cfg s r m1 = Inr m2" and "txs = numbered_txs ts @ [row_tx (int (length ts)) s r v u]"
    and "k = int (length ts) + 1"
    by (auto simp: t read_row_def taken_def row_format_def [symmetric] bind_res_eq_Inr split: option.splits sum.splits)
  moreover have "row_accounts (ts @ [t]) = insert r (insert s (row_accounts ts))" by (auto simp: row_accounts_def t)
  ultimately show ?thesis using note_both_homes [OF n assms(2)] Some by (simp add: t numbered_txs_snoc)
qed

lemma read_rows_ok:
  assumes "fold_res (read_row cfg path) rows (numbered_txs ts, int (length ts), m1) = Inr (txs, k, m2)" "homes cfg m (row_accounts ts) m1"
  shows "txs = numbered_txs (ts @ List.map_filter (taken path) rows) \<and> homes cfg m (row_accounts (ts @ List.map_filter (taken path) rows)) m2"
  using assms
proof (induction rows arbitrary: ts m1)
  case (Cons line rows)
  from Cons.prems(1) obtain txs1 k1 m3 where one: "read_row cfg path line (numbered_txs ts, int (length ts), m1) = Inr (txs1, k1, m3)"
    and rest: "fold_res (read_row cfg path) rows (txs1, k1, m3) = Inr (txs, k, m2)"
    by (auto simp: bind_res_eq_Inr)
  from read_row_ok [OF one Cons.prems(2)] obtain ts' where ts': "ts' = ts @ (case taken path line of None \<Rightarrow> [] | Some t \<Rightarrow> [t])"
    "txs1 = numbered_txs ts'" "k1 = int (length ts')" "homes cfg m (row_accounts ts') m3" by blast
  from Cons.IH [OF rest [unfolded ts'(2,3)] ts'(4)] show ?case
    by (auto simp: ts'(1) List.map_filter_simps split: option.splits)
qed (simp add: List.map_filter_simps)

section \<open>The two readers\<close>

text \<open>A row on which the two readers make the same choice.\<close>

definition same_choice :: "string \<Rightarrow> row \<Rightarrow> bool" where
  "same_choice path row \<longleftrightarrow>
     (if dataset_flag path = 0 then \<not> is300KStyleRow row
      else length row \<noteq> 8 \<and> (9 \<le> length row \<longrightarrow> ParseDecimal (row ! 8) \<noteq> None \<and> 2 \<le> length (row ! 3) \<and> 2 \<le> length (row ! 4)))"

lemma map_row_tx_row:
  assumes "same_choice path row"
  shows "map_row (dataset_flag path) row = bind_res (tx_row (row_format path row) row) (\<lambda>t. Inr (map_option (\<lambda>(s, r, _, _). (s, r)) t))"
proof (cases "dataset_flag path = 0")
  case True
  with assms have f: "row_format path row = 0" by (simp add: same_choice_def row_format_def)
  show ?thesis unfolding f True
    by (auto simp: map_row_def tx_row_def Let_def bind_res_def split: sum.splits)
next
  case False
  then have f: "row_format path row = dataset_flag path" by (simp add: row_format_def)
  have two: "dataset_flag path = 1 \<or> dataset_flag path = 2" using False by (simp add: dataset_flag_def split: if_splits)
  show ?thesis
  proof (cases "9 \<le> length row")
    case True
    with assms False obtain v where v: "ParseDecimal (row ! 8) = Some v" and "2 \<le> length (row ! 3)" "2 \<le> length (row ! 4)"
      by (auto simp: same_choice_def)
    with True two show ?thesis unfolding f
      by (auto simp: map_row_def tx_row_def Let_def bind_res_def split: sum.splits)
  next
    case False
    with assms \<open>dataset_flag path \<noteq> 0\<close> have "length row < 8" by (simp add: same_choice_def)
    with two show ?thesis unfolding f by (auto simp: map_row_def tx_row_def)
  qed
qed

section \<open>Properties\<close>

lemma read_data:
  assumes "Get_Initial_Map_And_TXS cfg path (header # rows) m = Inr (txs, m')"
  shows "txs = numbered_txs (List.map_filter (taken path) (take 1000000 rows))
    \<and> homes cfg m (row_accounts (List.map_filter (taken path) (take 1000000 rows))) m'"
proof -
  have e: "numbered_txs [] = []" "row_accounts [] = {}" by (simp_all add: numbered_txs_def row_accounts_def)
  from assms obtain k where "fold_res (read_row cfg path) (take 1000000 rows)
      (numbered_txs [], int (length ([] :: (addr \<times> addr \<times> int \<times> int) list)), m) = Inr (txs, k, m')"
    by (auto simp: Get_Initial_Map_And_TXS_def e(1) bind_res_eq_Inr split: option.splits)
  from read_rows_ok [OF this, where m = m] show ?thesis by (simp add: e(2) homes_refl)
qed

definition plain_row :: row where
  "plain_row = [''1'', ''0x010203'', ''0x010205'']"

definition reader_cfg :: ChainConfig where
  "reader_cfg = default_config\<lparr> Shard_num := 2 \<rparr>"

lemma plain_row_facts:
  "taken ''txs.csv'' (Some plain_row) = Some (''010203'', ''010205'', 0, - 1)" "same_choice ''txs.csv'' plain_row"
  by code_simp+

lemma plain_row_shards: "utils_Addr2Shard reader_cfg ''010203'' = Inr 1" "utils_Addr2Shard reader_cfg ''010205'' = Inr 1"
  by (simp_all add: utils_Addr2Shard_def reader_cfg_def default_config_def ParseInt16_def from_hex_char_def go_rem_def)

lemma plain_row_read:
  "Get_Initial_Map_And_TXS reader_cfg ''txs.csv'' [Some [], Some plain_row] Map.empty
    = Inr ([row_tx 0 ''010203'' ''010205'' 0 (- 1)], [''010203'' \<mapsto> 1, ''010205'' \<mapsto> 1])"
proof -
  have "tx_row (row_format ''txs.csv'' plain_row) plain_row = Inr (Some (''010203'', ''010205'', 0, - 1))" by code_simp
  then show ?thesis
    by (simp add: Get_Initial_Map_And_TXS_def read_row_def row_format_def [symmetric] note_both_def note_addr_def plain_row_shards)
qed

text \<open>
  The two ways to read a data set give the same map of accounts, when no row is one on which they differ:
  a row of the newer format in a file that is not known to have it, which only one of them recognises, or a
  row of the known formats that lacks a proper value.
\<close>

theorem initial_maps_agree:
  assumes "\<And>row. Some row \<in> set rows \<Longrightarrow> same_choice path row"
  shows "Get_Initial_Map cfg path (header # rows) m
    = bind_res (Get_Initial_Map_And_TXS cfg path (header # rows) m) (\<lambda>(_, m'). Inr m')"
proof -
  have one: "read_map_row cfg path line m1 = bind_res (read_row cfg path line (txs, k, m1)) (\<lambda>(_, _, m'). Inr m')"
    if "line \<in> set rows" for line txs k m1
  proof (cases line)
    case (Some row)
    with assms that have "same_choice path row" by blast
    note map_row_tx_row [OF this]
    then show ?thesis
      by (auto simp: Some read_map_row_def read_row_def row_format_def [symmetric] bind_res_def split: sum.splits option.splits)
  qed (simp add: read_map_row_def read_row_def)
  have "fold_res (read_map_row cfg path) xs m1 = bind_res (fold_res (read_row cfg path) xs (txs, k, m1)) (\<lambda>(_, _, m'). Inr m')"
    if "set xs \<subseteq> set rows" for xs txs k m1
    using that
  proof (induction xs arbitrary: txs k m1)
    case (Cons x xs)
    show ?case
    proof (cases "read_row cfg path x (txs, k, m1)")
      case (Inr st)
      obtain txs' k' m2 where "st = (txs', k', m2)" by (cases st)
      with Inr one [of x m1 txs k] Cons show ?thesis by simp
    qed (use one [of x m1 txs k] Cons.prems in simp)
  qed simp
  from this [of "take 1000000 rows" m "[]" 0] set_take_subset [of 1000000 rows] show ?thesis
    by (auto simp: Get_Initial_Map_def Get_Initial_Map_And_TXS_def bind_res_def split: option.splits sum.splits)
qed

lemma initial_maps_agree_witness:
  "Get_Initial_Map reader_cfg ''txs.csv'' [Some [], Some plain_row] Map.empty = Inr [''010203'' \<mapsto> 1, ''010205'' \<mapsto> 1]"
  using initial_maps_agree [of "[Some plain_row]" "''txs.csv''" reader_cfg "Some []" Map.empty] plain_row_facts(2) plain_row_read
  by simp

text \<open>Where they differ: a file under another name whose rows have the newer format.\<close>

definition late_row :: row where
  "late_row = [''9'', ''17'', ''0xabcdef'', ''0x1111111111111111111111111111111111111111'',
     ''0x2222222222222222222222222222222222222222'', ''0'', ''0'', ''0'', ''7'']"

lemma initial_maps_differ:
  "map_row (dataset_flag ''txs.csv'') late_row = Inr (Some ('''', ''abcdef''))
    \<and> taken ''txs.csv'' (Some late_row)
      = Some (''1111111111111111111111111111111111111111'', ''2222222222222222222222222222222222222222'', 7, - 1)"
  by code_simp

text \<open>
  An address with an upper-case digit: the map has it as it is written, but a transaction's sender is
  looked up in lower case, so the client takes the account for one of shard 0.
\<close>

lemma upper_case_sender:
  "from_addr (row_tx k ''0123456789ABCDEF'' r v ts) = ''0123456789abcdef''"
  by (simp add: from_addr_def row_tx_def hex_encode_def) code_simp

end
