(* ===== verification/Inject.thy ===== *)
theory Inject
  imports Client Partition DataSetRead
begin

text \<open>The injection of the client: every transaction once, to the shard of its sender, in order.\<close>

section \<open>What a shard is sent\<close>

definition sent_to :: "string \<Rightarrow> client_message list \<Rightarrow> Transaction list" where
  "sent_to k ms = concat (map (\<lambda>m. case m of CTxs k' txs \<Rightarrow> (if k' = k then txs else []) | _ \<Rightarrow> []) ms)"

lemma sent_to_simps [simp]:
  "sent_to k [] = []" "sent_to k (xs @ ys) = sent_to k xs @ sent_to k ys"
  "sent_to k [CTxs k' txs] = (if k' = k then txs else [])"
  by (simp_all add: sent_to_def)

definition only_txs :: "ChainConfig \<Rightarrow> client_message list \<Rightarrow> bool" where
  "only_txs cfg ms \<longleftrightarrow> (\<forall>m\<in>set ms. \<exists>k txs. m = CTxs k txs \<and> k \<in> set (led_shards cfg))"

lemma only_txs_simps [simp]: "only_txs cfg []" "only_txs cfg (xs @ ys) \<longleftrightarrow> only_txs cfg xs \<and> only_txs cfg ys"
  by (auto simp: only_txs_def)

lemma inject_sends:
  assumes "\<forall>k\<in>set ks. 0 \<le> shard_number k \<and> shard_number k < int (length to_send)" "distinct ks"
  shows "\<exists>ms'. fold_res (inject_send to_send) ks ms = Inr (ms @ ms')
    \<and> (\<forall>k. sent_to k ms' = (if k \<in> set ks then to_send ! nat (shard_number k) else []))
    \<and> (\<forall>m\<in>set ms'. \<exists>k txs. m = CTxs k txs \<and> k \<in> set ks)"
  using assms
proof (induction ks arbitrary: ms)
  case (Cons k ks)
  let ?l = "to_send ! nat (shard_number k)"
  let ?m = "if ?l \<noteq> [] then [CTxs k ?l] else []"
  have one: "inject_send to_send k ms = Inr (ms @ ?m)"
    using Cons.prems by (simp add: inject_send_def slice_in_range)
  from Cons.IH [of "ms @ ?m"] Cons.prems obtain ms' where "fold_res (inject_send to_send) ks (ms @ ?m) = Inr ((ms @ ?m) @ ms')"
    "\<forall>k. sent_to k ms' = (if k \<in> set ks then to_send ! nat (shard_number k) else [])"
    "\<forall>m\<in>set ms'. \<exists>k txs. m = CTxs k txs \<and> k \<in> set ks" by auto
  with one Cons.prems(2) show ?case by (intro exI [of _ "?m @ ms'"]) auto
qed simp

lemma led_shards_ok:
  assumes "Shard_num cfg \<le> 8"
  shows "distinct (led_shards cfg)" "k \<in> set (led_shards cfg) \<Longrightarrow> 0 \<le> shard_number k \<and> shard_number k < Shard_num cfg"
    "0 \<le> s \<Longrightarrow> s < Shard_num cfg \<Longrightarrow> shard_name s \<in> set (led_shards cfg) \<and> shard_number (shard_name s) = s"
proof -
  obtain n where n: "n = nat (Shard_num cfg)" by blast
  then have n8: "n \<in> {0..8}" using assms by simp
  have all: "\<forall>n\<in>{0..8::nat}. distinct (filter (\<lambda>k. NodeTable k \<noteq> None) (List.map_filter ShardTableInt2Str (map int [0..<n])))
      \<and> (\<forall>k\<in>set (filter (\<lambda>k. NodeTable k \<noteq> None) (List.map_filter ShardTableInt2Str (map int [0..<n]))). 0 \<le> shard_number k \<and> shard_number k < int n)
      \<and> (\<forall>i\<in>{0..<n}. shard_name (int i) \<in> set (filter (\<lambda>k. NodeTable k \<noteq> None) (List.map_filter ShardTableInt2Str (map int [0..<n])))
            \<and> shard_number (shard_name (int i)) = int i)"
    by code_simp
  have led: "led_shards cfg = filter (\<lambda>k. NodeTable k \<noteq> None) (List.map_filter ShardTableInt2Str (map int [0..<n]))"
    by (simp add: led_shards_def ActiveShardIDs_def n)
  show "distinct (led_shards cfg)" using all n8 unfolding led by blast
  show "0 \<le> shard_number k \<and> shard_number k < Shard_num cfg" if k: "k \<in> set (led_shards cfg)"
  proof -
    have "0 \<le> shard_number k \<and> shard_number k < int n" using all n8 k unfolding led by blast
    moreover from this have "0 < n" by linarith
    with n have "int n = Shard_num cfg" by simp
    ultimately show ?thesis by simp
  qed
  show "shard_name s \<in> set (led_shards cfg) \<and> shard_number (shard_name s) = s" if s: "0 \<le> s" "s < Shard_num cfg"
  proof -
    from s n have "nat s \<in> {0..<n}" "int (nat s) = s" by auto
    with all n8 show ?thesis unfolding led by metis
  qed
qed

section \<open>A round\<close>

definition stamped :: "(Transaction \<Rightarrow> bytes) \<Rightarrow> (nat \<Rightarrow> int) \<Rightarrow> Transaction list \<Rightarrow> nat \<Rightarrow> Transaction list" where
  "stamped hash now txs k = map (\<lambda>i. if i < k then stamp_tx hash (now i) (txs ! i) else txs ! i) [0..<length txs]"

lemma stamped_sel [simp]:
  "length (stamped hash now txs k) = length txs"
  "i < length txs \<Longrightarrow> stamped hash now txs k ! i = (if i < k then stamp_tx hash (now i) (txs ! i) else txs ! i)"
  "stamped hash now txs 0 = txs"
  by (auto simp: stamped_def map_nth)

lemma stamped_Suc: "k < length txs \<Longrightarrow> (stamped hash now txs k)[k := stamp_tx hash (now k) (txs ! k)] = stamped hash now txs (Suc k)"
  by (rule nth_equalityI) (auto simp: nth_list_update)

lemma from_addr_stamp [simp]: "from_addr (stamp_tx hash t tx) = from_addr tx"
  by (simp add: stamp_tx_def from_addr_def Let_def)

text \<open>The transactions of \<open>lo..hi\<close> whose sender is in shard \<open>s\<close>, as they are sent.\<close>

definition share :: "(Transaction \<Rightarrow> bytes) \<Rightarrow> (nat \<Rightarrow> int) \<Rightarrow> Transaction list \<Rightarrow> (nat \<Rightarrow> addr \<rightharpoonup> int) \<Rightarrow> int \<Rightarrow> nat \<Rightarrow> nat \<Rightarrow> Transaction list" where
  "share hash now txs a2s s lo hi = map (\<lambda>i. stamp_tx hash (now i) (txs ! i))
     (filter (\<lambda>i. lookup0 (a2s i) (from_addr (txs ! i)) = s) [lo..<hi])"

lemma share_append: "lo \<le> mid \<Longrightarrow> mid \<le> hi \<Longrightarrow> share hash now txs a2s s lo mid @ share hash now txs a2s s mid hi = share hash now txs a2s s lo hi"
  unfolding share_def using upt_add_eq_append [of lo mid "hi - mid"] by (simp flip: map_append filter_append)

lemma share_cong: "(\<And>i. lo \<le> i \<Longrightarrow> i < hi \<Longrightarrow> a2s i = b2s i) \<Longrightarrow> share hash now txs a2s s lo hi = share hash now txs b2s s lo hi"
  unfolding share_def by (intro arg_cong2 [of _ _ _ _ map] filter_cong) auto

definition in_shards :: "ChainConfig \<Rightarrow> (addr \<rightharpoonup> int) \<Rightarrow> bool" where
  "in_shards cfg m \<longleftrightarrow> (\<forall>a s. m a = Some s \<longrightarrow> 0 \<le> s \<and> s < Shard_num cfg)"

lemma in_shardsD: "in_shards cfg m \<Longrightarrow> 0 < Shard_num cfg \<Longrightarrow> 0 \<le> lookup0 m a \<and> lookup0 m a < Shard_num cfg"
  by (auto simp: in_shards_def lookup0_def split: option.splits)

lemma inject_txs_ok:
  assumes "in_shards cfg m" "0 < Shard_num cfg" "lo \<le> hi" "hi \<le> length txs"
  shows "\<exists>to_send. fold_res (inject_tx hash now m) [lo..<hi] (stamped hash now txs lo, replicate (nat (Shard_num cfg)) [])
      = Inr (stamped hash now txs hi, to_send) \<and> length to_send = nat (Shard_num cfg)
    \<and> (\<forall>s<nat (Shard_num cfg). to_send ! s = share hash now txs (\<lambda>_. m) (int s) lo hi)"
  using assms(3,4)
proof (induction hi rule: dec_induct)
  case base
  then show ?case by (simp add: share_def)
next
  case (step k)
  then obtain to_send where IH: "fold_res (inject_tx hash now m) [lo..<k] (stamped hash now txs lo, replicate (nat (Shard_num cfg)) [])
      = Inr (stamped hash now txs k, to_send)" "length to_send = nat (Shard_num cfg)"
    "\<forall>s<nat (Shard_num cfg). to_send ! s = share hash now txs (\<lambda>_. m) (int s) lo k" by auto
  let ?tx = "stamp_tx hash (now k) (txs ! k)" and ?s = "lookup0 m (from_addr (txs ! k))"
  have s: "0 \<le> ?s" "?s < int (length to_send)" using in_shardsD [OF assms(1,2)] IH(2) assms(2) by auto
  have "inject_tx hash now m k (stamped hash now txs k, to_send)
      = Inr (stamped hash now txs (Suc k), to_send[nat ?s := to_send ! nat ?s @ [?tx]])"
    using step.prems s by (simp add: inject_tx_def slice_in_range stamped_Suc Let_def)
  moreover have "(to_send[nat ?s := to_send ! nat ?s @ [?tx]]) ! s = share hash now txs (\<lambda>_. m) (int s) lo (Suc k)"
    if "s < nat (Shard_num cfg)" for s
    using IH(2,3) that s step.hyps by (auto simp: share_def nth_list_update)
  ultimately show ?case using IH step.hyps by (simp add: fold_res_append)
qed

lemma inject_round_ok:
  assumes "in_shards cfg m" "0 < Shard_num cfg" "Shard_num cfg \<le> 8" "lo \<le> length txs" "0 \<le> Inject_speed cfg"
    and hi: "hi = min (lo + nat (2 * Inject_speed cfg)) (length txs)"
  shows "\<exists>ms. inject_round hash cfg now m (int lo) (stamped hash now txs lo) = Inr (int hi, stamped hash now txs hi, ms) \<and> only_txs cfg ms
    \<and> (\<forall>s. 0 \<le> s \<longrightarrow> s < Shard_num cfg \<longrightarrow> sent_to (shard_name s) ms = share hash now txs (\<lambda>_. m) s lo hi)"
proof -
  have u: "utils_Min (int lo + 2 * Inject_speed cfg) (int (length (stamped hash now txs lo))) = int hi"
    using assms(5) by (auto simp: utils_Min_def hi)
  from inject_txs_ok [OF assms(1,2), of lo hi txs hash now] assms(4) hi obtain to_send where
    f: "fold_res (inject_tx hash now m) [lo..<hi] (stamped hash now txs lo, replicate (nat (Shard_num cfg)) [])
      = Inr (stamped hash now txs hi, to_send)" "length to_send = nat (Shard_num cfg)"
    "\<forall>s<nat (Shard_num cfg). to_send ! s = share hash now txs (\<lambda>_. m) (int s) lo hi" by auto
  note led = led_shards_ok [OF assms(3)]
  from inject_sends [of "led_shards cfg" to_send "[]"] led f(2) assms(2) obtain ms where
    ms: "fold_res (inject_send to_send) (led_shards cfg) [] = Inr ms"
    "\<forall>k. sent_to k ms = (if k \<in> set (led_shards cfg) then to_send ! nat (shard_number k) else [])"
    "\<forall>m\<in>set ms. \<exists>k txs. m = CTxs k txs \<and> k \<in> set (led_shards cfg)" by auto
  have "sent_to (shard_name s) ms = share hash now txs (\<lambda>_. m) s lo hi" if "0 \<le> s" "s < Shard_num cfg" for s
    using ms(2) led(3) [OF that] f(3) that by simp
  moreover have "inject_round hash cfg now m (int lo) (stamped hash now txs lo) = Inr (int hi, stamped hash now txs hi, ms)"
    unfolding inject_round_def u using f(1) ms(1) assms(2) by simp
  ultimately show ?thesis using ms(3) unfolding only_txs_def by blast
qed

section \<open>The loop\<close>

definition round_of :: "ChainConfig \<Rightarrow> nat \<Rightarrow> nat" where
  "round_of cfg i = i div nat (2 * Inject_speed cfg)"

lemma inject_loop_ok:
  assumes "\<And>i. in_shards cfg (a2s i)" "0 < Shard_num cfg" "Shard_num cfg \<le> 8" "0 < Inject_speed cfg"
    and "i * nat (2 * Inject_speed cfg) \<le> length txs"
  shows "\<exists>ms'. inject_loop hash cfg now a2s i (int (i * nat (2 * Inject_speed cfg))) (stamped hash now txs (i * nat (2 * Inject_speed cfg))) ms
      = Some (Inr (stamped hash now txs (length txs), ms @ ms')) \<and> only_txs cfg ms'
    \<and> (\<forall>s. 0 \<le> s \<longrightarrow> s < Shard_num cfg \<longrightarrow>
        sent_to (shard_name s) ms' = share hash now txs (\<lambda>j. a2s (round_of cfg j)) s (i * nat (2 * Inject_speed cfg)) (length txs))"
  using assms(5)
proof (induction "length txs - i * nat (2 * Inject_speed cfg)" arbitrary: i ms rule: less_induct)
  case less
  let ?d = "nat (2 * Inject_speed cfg)"
  let ?lo = "i * ?d" and ?hi = "min (i * ?d + ?d) (length txs)"
  have d: "0 < ?d" using assms(4) by simp
  from inject_round_ok [OF assms(1) [of i] assms(2,3) less.prems _ refl, where hash = hash and now = now] assms(4) obtain ms1 where
    r: "inject_round hash cfg now (a2s i) (int ?lo) (stamped hash now txs ?lo) = Inr (int ?hi, stamped hash now txs ?hi, ms1)"
    "only_txs cfg ms1" "\<forall>s. 0 \<le> s \<longrightarrow> s < Shard_num cfg \<longrightarrow> sent_to (shard_name s) ms1 = share hash now txs (\<lambda>_. a2s i) s ?lo ?hi"
    by auto
  have "round_of cfg j = i" if "?lo \<le> j" "j < ?hi" for j
    using that d unfolding round_of_def by (intro div_nat_eqI) (auto simp: algebra_simps)
  then have sh: "share hash now txs (\<lambda>_. a2s i) s ?lo ?hi = share hash now txs (\<lambda>j. a2s (round_of cfg j)) s ?lo ?hi" for s
    by (intro share_cong) auto
  show ?case
  proof (cases "?hi = length txs")
    case True
    then show ?thesis using r sh by (subst inject_loop.simps) auto
  next
    case False
    then have hi: "?hi = Suc i * ?d" "Suc i * ?d \<le> length txs" and lt: "?lo < length txs" using d by (auto simp: min_def split: if_splits)
    have "length txs - Suc i * ?d < length txs - ?lo" using lt d hi(2) by simp
    from less.hyps [OF this hi(2), of "ms @ ms1"] obtain ms2 where ms2:
      "inject_loop hash cfg now a2s (Suc i) (int (Suc i * ?d)) (stamped hash now txs (Suc i * ?d)) (ms @ ms1)
        = Some (Inr (stamped hash now txs (length txs), (ms @ ms1) @ ms2))" "only_txs cfg ms2"
      "\<forall>s. 0 \<le> s \<longrightarrow> s < Shard_num cfg \<longrightarrow>
        sent_to (shard_name s) ms2 = share hash now txs (\<lambda>j. a2s (round_of cfg j)) s (Suc i * ?d) (length txs)" by blast
    have "inject_loop hash cfg now a2s i (int ?lo) (stamped hash now txs ?lo) ms
        = inject_loop hash cfg now a2s (Suc i) (int ?hi) (stamped hash now txs ?hi) (ms @ ms1)"
      by (subst inject_loop.simps) (simp only: r(1) sum.case prod.case stamped_sel of_nat_eq_iff False if_False)
    moreover have "sent_to (shard_name s) (ms1 @ ms2) = share hash now txs (\<lambda>j. a2s (round_of cfg j)) s ?lo (length txs)"
      if "0 \<le> s" "s < Shard_num cfg" for s
    proof -
      have "sent_to (shard_name s) (ms1 @ ms2) = share hash now txs (\<lambda>j. a2s (round_of cfg j)) s ?lo ?hi
          @ share hash now txs (\<lambda>j. a2s (round_of cfg j)) s ?hi (length txs)"
        using r(3) [unfolded sh] ms2(3) [folded hi(1)] that by (simp only: sent_to_simps)
      also have "\<dots> = share hash now txs (\<lambda>j. a2s (round_of cfg j)) s ?lo (length txs)"
        by (rule share_append) (use less.prems in auto)
      finally show ?thesis .
    qed
    ultimately show ?thesis using r(2) ms2(1,2) hi(1) by (intro exI [of _ "ms1 @ ms2"]) auto
  qed
qed

text \<open>
  C29. The injection ends, and sends each transaction once: the leader of a shard gets, in their order, those whose
  sender is in the shard when the round of the transaction comes, stamped and with their hash; announcements
  may change the map between the rounds.
\<close>

theorem injection_delivers:
  assumes "\<And>i. in_shards cfg (a2s i)" "0 < Shard_num cfg" "Shard_num cfg \<le> 8" "0 < Inject_speed cfg"
  shows "\<exists>ms. InjectTXS hash cfg now a2s txs = Some (Inr (stamped hash now txs (length txs), ms)) \<and> only_txs cfg ms
    \<and> (\<forall>s. 0 \<le> s \<longrightarrow> s < Shard_num cfg \<longrightarrow>
        sent_to (shard_name s) ms = share hash now txs (\<lambda>j. a2s (round_of cfg j)) s 0 (length txs))"
  using inject_loop_ok [OF assms, where i = 0 and ms = "[]" and txs = txs and hash = hash and now = now] by (simp add: InjectTXS_def)

lemma injection_delivers_witness:
  "\<exists>ms. InjectTXS (\<lambda>_. [7]) two_shards (\<lambda>_. 5) (\<lambda>_. [''010203'' \<mapsto> 1]) [tx_between [1, 2, 3] [1, 2, 5]]
      = Some (Inr (stamped (\<lambda>_. [7]) (\<lambda>_. 5) [tx_between [1, 2, 3] [1, 2, 5]] 1, ms))
    \<and> sent_to ''S1'' ms = [stamp_tx (\<lambda>_. [7]) 5 (tx_between [1, 2, 3] [1, 2, 5])]"
proof -
  let ?txs = "[tx_between [1, 2, 3] [1, 2, 5]]"
  have "in_shards two_shards [''010203'' \<mapsto> 1]" "0 < Inject_speed two_shards"
    by (simp_all add: in_shards_def two_shards_def default_config_def)
  moreover have "share (\<lambda>_. [7]) (\<lambda>_. 5) ?txs (\<lambda>_. [''010203'' \<mapsto> 1]) 1 0 1 = [stamp_tx (\<lambda>_. [7]) 5 (tx_between [1, 2, 3] [1, 2, 5])]"
    by (simp add: share_def upt_rec lookup0_def pair_addresses)
  moreover have "shard_name 1 = ''S1''" by (simp add: shard_name_def ShardTableInt2Str_def)
  moreover obtain ms where "InjectTXS (\<lambda>_. [7]) two_shards (\<lambda>_. 5) (\<lambda>_. [''010203'' \<mapsto> 1]) ?txs
      = Some (Inr (stamped (\<lambda>_. [7]) (\<lambda>_. 5) ?txs (length ?txs), ms))"
    "\<forall>s. 0 \<le> s \<longrightarrow> s < Shard_num two_shards \<longrightarrow> sent_to (shard_name s) ms
      = share (\<lambda>_. [7]) (\<lambda>_. 5) ?txs (\<lambda>j. [''010203'' \<mapsto> 1]) s 0 (length ?txs)"
    using injection_delivers [of two_shards "\<lambda>_. [''010203'' \<mapsto> 1]" "\<lambda>_. [7]" "\<lambda>_. 5" ?txs] calculation(1,2)
    by (auto simp: two_shards_num)
  moreover from this(2) have "sent_to (shard_name 1) ms = share (\<lambda>_. [7]) (\<lambda>_. 5) ?txs (\<lambda>j. [''010203'' \<mapsto> 1]) 1 0 (length ?txs)"
    by (simp add: two_shards_num)
  ultimately show ?thesis by auto
qed

section \<open>From the data set to the shards\<close>

text \<open>An address in lower case, of at least three bytes.\<close>

definition canonical :: "addr \<Rightarrow> bool" where
  "canonical a \<longleftrightarrow> (\<exists>bs. 3 \<le> length bs \<and> a = hex_encode bs)"

lemma canonical_home: "canonical a \<Longrightarrow> 0 < Shard_num cfg \<Longrightarrow> \<exists>s. utils_Addr2Shard cfg a = Inr s \<and> 0 \<le> s \<and> s < Shard_num cfg"
  unfolding canonical_def using good_addr_bytes utils_Addr2Shard_range by (auto simp: good_addr_def)

lemma from_addr_row_tx: "canonical s \<Longrightarrow> from_addr (row_tx k s r v ts) = s"
  by (auto simp: canonical_def from_addr_def row_tx_def)

lemma set_inject_slice: "set (inject_slice cfg txs) \<subseteq> set txs"
  by (auto simp: inject_slice_def Let_def dest!: in_set_dropD in_set_takeD split: if_splits)

lemma numbered_txs_sender:
  assumes "tx \<in> set (numbered_txs ts)" "\<forall>a\<in>row_accounts ts. canonical a"
  shows "from_addr tx \<in> row_accounts ts"
proof -
  from assms(1) obtain k s r v t where x: "tx = row_tx (int k) s r v t" "(k, s, r, v, t) \<in> set (enumerate 0 ts)"
    by (auto simp: numbered_txs_def)
  then have "(s, r, v, t) \<in> set ts" by (auto simp: in_set_enumerate_eq) (metis nth_mem)
  then have "s \<in> row_accounts ts" by (force simp: row_accounts_def)
  with assms(2) x(1) from_addr_row_tx show ?thesis by auto
qed

lemma share_filter: "share hash now txs (\<lambda>_. m) s 0 (length txs)
    = filter (\<lambda>tx. lookup0 m (from_addr tx) = s) (stamped hash now txs (length txs))"
proof -
  have "stamped hash now txs (length txs) = map (\<lambda>i. stamp_tx hash (now i) (txs ! i)) [0..<length txs]"
    by (simp add: stamped_def)
  then show ?thesis by (simp add: share_def filter_map comp_def)
qed

lemma set_stamped: "tx \<in> set (stamped hash now txs k) \<Longrightarrow> \<exists>tx0\<in>set txs. from_addr tx = from_addr tx0"
  by (fastforce simp: stamped_def split: if_splits)

text \<open>
  A whole run of the client without a migration first: the transactions read from a data set whose addresses
  are in lower case all reach the leaders, those of a shard in their order, and each the shard of its sender's
  address, as the nodes compute it themselves.
\<close>

theorem dataset_injected:
  assumes "RunClient ae nodes start cfg path (header # rows) = Inr (txs, cl)" "ClientSendTX cfg" "\<not> MigrateBeforeInject cfg"
    and "0 < Shard_num cfg" "Shard_num cfg \<le> 8" "0 < Inject_speed cfg"
    and lower: "\<And>a. a \<in> row_accounts (List.map_filter (taken path) (take 1000000 rows)) \<Longrightarrow> canonical a"
  shows "\<exists>ms. InjectTXS hash cfg now (\<lambda>_. Account2Shard (cl_acc cl)) txs = Some (Inr (stamped hash now txs (length txs), ms))
    \<and> only_txs cfg ms \<and> (\<forall>s. 0 \<le> s \<longrightarrow> s < Shard_num cfg \<longrightarrow> sent_to (shard_name s) ms
        = filter (\<lambda>tx. utils_Addr2Shard cfg (from_addr tx) = Inr s) (stamped hash now txs (length txs)))"
proof -
  let ?ts = "List.map_filter (taken path) (take 1000000 rows)" and ?m = "Account2Shard (cl_acc cl)"
  obtain all m where rd: "Get_Initial_Map_And_TXS cfg path (header # rows) Map.empty = Inr (all, m)"
    and txs: "txs = inject_slice cfg all" and m: "?m = m"
    using assms(1-3) by (auto simp: RunClient_def Let_def bind_res_eq_Inr client_start_def InitGlobals_def Sendtime_def
        SendNewAddr2Shard_def emit_client_def)
  from read_data [OF rd] have all: "all = numbered_txs ?ts" and h: "homes cfg Map.empty (row_accounts ?ts) m" by blast+
  have home: "\<exists>s. utils_Addr2Shard cfg a = Inr s \<and> m a = Some s \<and> 0 \<le> s \<and> s < Shard_num cfg" if "a \<in> row_accounts ?ts" for a
    using homesD(1) [OF h that] canonical_home [OF lower [OF that] assms(4)] by auto
  have "in_shards cfg m" unfolding in_shards_def
  proof (intro allI impI)
    fix a s assume a: "m a = Some s"
    then have "a \<in> row_accounts ?ts" using homesD(2) [OF h, of a] by (cases "a \<in> row_accounts ?ts") auto
    from home [OF this] a show "0 \<le> s \<and> s < Shard_num cfg" by auto
  qed
  from inject_loop_ok [OF this assms(4-6), where i = 0 and ms = "[]" and txs = txs and hash = hash and now = now] obtain ms where
    ms: "InjectTXS hash cfg now (\<lambda>_. m) txs = Some (Inr (stamped hash now txs (length txs), ms))" "only_txs cfg ms"
    "\<forall>s. 0 \<le> s \<longrightarrow> s < Shard_num cfg \<longrightarrow> sent_to (shard_name s) ms = share hash now txs (\<lambda>_. m) s 0 (length txs)"
    by (auto simp: InjectTXS_def)
  have "lookup0 m (from_addr tx) = s \<longleftrightarrow> utils_Addr2Shard cfg (from_addr tx) = Inr s" if tx: "tx \<in> set (stamped hash now txs (length txs))" for tx s
  proof -
    obtain tx0 where tx0: "tx0 \<in> set txs" "from_addr tx = from_addr tx0" using set_stamped [OF tx] by blast
    have "tx0 \<in> set (numbered_txs ?ts)" using subsetD [OF set_inject_slice tx0(1) [unfolded txs]] all by simp
    from numbered_txs_sender [OF this] lower tx0(2) have "from_addr tx \<in> row_accounts ?ts" by simp
    from home [OF this] obtain s' where "utils_Addr2Shard cfg (from_addr tx) = Inr s'" "m (from_addr tx) = Some s'" by blast
    then show ?thesis by (auto simp: lookup0_def)
  qed
  then have "share hash now txs (\<lambda>_. m) s 0 (length txs)
      = filter (\<lambda>tx. utils_Addr2Shard cfg (from_addr tx) = Inr s) (stamped hash now txs (length txs))" for s
    unfolding share_filter by (intro filter_cong) auto
  with ms m show ?thesis by auto
qed

definition client_cfg :: ChainConfig where
  "client_cfg = reader_cfg\<lparr> Inject_speed := 400, ClientSendTX := True, MigrateBeforeInject := False, MaxInjectTxs := 0, InjectStartTx := 0 \<rparr>"

lemma client_cfg_sel: "Shard_num client_cfg = 2" "Inject_speed client_cfg = 400" "ClientSendTX client_cfg" "\<not> MigrateBeforeInject client_cfg"
  by (simp_all add: client_cfg_def reader_cfg_def)

lemma hex_rows: "''010203'' = hex_encode [1, 2, 3]" "''010205'' = hex_encode [1, 2, 5]"
  by (simp_all add: hex_encode_def) code_simp+

lemma canonical_rows: "canonical ''010203''" "canonical ''010205''"
  unfolding canonical_def hex_rows by (rule exI [of _ "[1, 2, 3]"], simp, rule exI [of _ "[1, 2, 5]"], simp)

text \<open>The algorithms with exact arithmetic, the order of a list and no METIS program.\<close>

definition exact_env :: algo_env where
  "exact_env = \<lparr> ae_rnd = Fin, ae_vertices = (\<lambda>vs. vs), ae_addrs = (\<lambda>as. as), ae_known = [], ae_intn = (\<lambda>_ _. 0), ae_metis = (\<lambda>_ _. []) \<rparr>"

lemma dataset_injected_witness:
  "\<exists>txs cl ms. RunClient exact_env (\<lambda>_. []) 0 client_cfg ''txs.csv'' [Some [], Some plain_row] = Inr (txs, cl) \<and> length txs = 1
    \<and> InjectTXS (\<lambda>_. [7]) client_cfg (\<lambda>_. 5) (\<lambda>_. Account2Shard (cl_acc cl)) txs = Some (Inr (stamped (\<lambda>_. [7]) (\<lambda>_. 5) txs 1, ms))"
proof -
  have rd: "Get_Initial_Map_And_TXS client_cfg ''txs.csv'' [Some [], Some plain_row] Map.empty
    = Inr ([row_tx 0 ''010203'' ''010205'' 0 (- 1)], [''010203'' \<mapsto> 1, ''010205'' \<mapsto> 1])"
  proof -
    have "tx_row (row_format ''txs.csv'' plain_row) plain_row = Inr (Some (''010203'', ''010205'', 0, - 1))" by code_simp
    moreover have "utils_Addr2Shard client_cfg a = utils_Addr2Shard reader_cfg a" for a
      by (simp add: utils_Addr2Shard_def client_cfg_sel reader_cfg_def split: option.split)
    ultimately show ?thesis
      by (simp add: Get_Initial_Map_And_TXS_def read_row_def row_format_def [symmetric] note_both_def note_addr_def plain_row_shards)
  qed
  then obtain txs cl where r: "RunClient exact_env (\<lambda>_. []) 0 client_cfg ''txs.csv'' [Some [], Some plain_row] = Inr (txs, cl)" "length txs = 1"
    by (simp add: RunClient_def Let_def client_cfg_sel client_start_def InitGlobals_def inject_slice_def inject_start_def client_cfg_def)
  have "canonical a" if "a \<in> row_accounts (List.map_filter (taken ''txs.csv'') (take 1000000 [Some plain_row]))" for a
    using that canonical_rows by (auto simp: List.map_filter_simps plain_row_facts row_accounts_def)
  from dataset_injected [OF r(1) client_cfg_sel(3,4) _ _ _ this, of "\<lambda>_. [7]" "\<lambda>_. 5"] r show ?thesis
    by (auto simp: client_cfg_sel)
qed

section \<open>A rate that is not positive\<close>

lemma idle_round:
  assumes "Inject_speed cfg \<le> 0" "cnt \<le> 0" "0 \<le> Shard_num cfg" "Shard_num cfg \<le> 8"
  shows "\<exists>ms. inject_round hash cfg now m cnt txs = Inr (cnt + 2 * Inject_speed cfg, txs, ms)"
proof -
  have u: "utils_Min (cnt + 2 * Inject_speed cfg) (int (length txs)) = cnt + 2 * Inject_speed cfg"
    using assms(1,2) by (auto simp: utils_Min_def)
  note led = led_shards_ok [OF assms(4)]
  from inject_sends [of "led_shards cfg" "replicate (nat (Shard_num cfg)) []" "[]"] led(1,2) assms(3) obtain ms where
    "fold_res (inject_send (replicate (nat (Shard_num cfg)) [])) (led_shards cfg) [] = Inr ms" by auto
  then show ?thesis unfolding inject_round_def u using assms(1-3) by simp
qed

lemma inject_loop_idle:
  assumes "inject_loop hash cfg now a2s i cnt txs ms = Some r"
  shows "Inject_speed cfg \<le> 0 \<longrightarrow> 0 \<le> Shard_num cfg \<longrightarrow> Shard_num cfg \<le> 8 \<longrightarrow> cnt \<le> 0 \<longrightarrow> txs = []"
proof (rule inject_loop.raw_induct [of "\<lambda>h c n a i cnt txs ms r.
    Inject_speed c \<le> 0 \<longrightarrow> 0 \<le> Shard_num c \<longrightarrow> Shard_num c \<le> 8 \<longrightarrow> cnt \<le> 0 \<longrightarrow> txs = []", OF _ assms], intro impI)
  fix f h c n a i and cnt :: int and txs :: "Transaction list" and ms r
  assume f: "\<And>h c n a i cnt txs ms r. f h c n a i cnt txs ms = Some r \<Longrightarrow>
      Inject_speed c \<le> 0 \<longrightarrow> 0 \<le> Shard_num c \<longrightarrow> Shard_num c \<le> 8 \<longrightarrow> cnt \<le> 0 \<longrightarrow> txs = []"
    and body: "(case inject_round h c n (a i) cnt txs of Inl e \<Rightarrow> Some (Inl e)
      | Inr (upperBound, txs', ms') \<Rightarrow> if upperBound = int (length txs') then Some (Inr (txs', ms @ ms'))
          else f h c n a (Suc i) upperBound txs' (ms @ ms')) = Some r"
    and c: "Inject_speed c \<le> 0" "0 \<le> Shard_num c" "Shard_num c \<le> 8" "cnt \<le> 0"
  from idle_round [OF c(1,4,2,3)] obtain ms' where "inject_round h c n (a i) cnt txs = Inr (cnt + 2 * Inject_speed c, txs, ms')" by blast
  moreover have "cnt + 2 * Inject_speed c = int (length txs) \<Longrightarrow> txs = []" using c(1,4) by (cases txs) auto
  ultimately show "txs = []" using body c f [of h c n a "Suc i" "cnt + 2 * Inject_speed c" txs "ms @ ms'" r] by (auto split: if_splits)
qed

text \<open>
  Without a positive rate the injection does not end: its rounds send nothing, again and again.
\<close>

theorem injection_diverges:
  assumes "Inject_speed cfg \<le> 0" "txs \<noteq> []" "0 \<le> Shard_num cfg" "Shard_num cfg \<le> 8"
  shows "InjectTXS hash cfg now a2s txs = None"
  using inject_loop_idle [where i = 0 and cnt = 0 and ms = "[]" and txs = txs and cfg = cfg] assms
  by (cases "InjectTXS hash cfg now a2s txs") (auto simp: InjectTXS_def)

lemma injection_diverges_witness:
  "InjectTXS (\<lambda>_. []) (two_shards\<lparr> Inject_speed := 0 \<rparr>) (\<lambda>_. 1) (\<lambda>_. Map.empty) [zero_tx] = None"
  by (rule injection_diverges) (simp_all add: two_shards_def)

end
