(* ===== verification/ClientRun.thy ===== *)
theory ClientRun
  imports Client Inject
begin

text \<open>The run of the client after its start: when it stops, when it asks for a migration, and when that is lost.\<close>

section \<open>What a step leaves alone\<close>

definition stop_view :: "Client \<Rightarrow> bool \<times> (string \<rightharpoonup> int) \<times> bool \<times> int" where
  "stop_view cl = (injectDone cl, emptyStreakByShard cl, all_finish cl, Shard_num (cl_config cl))"

definition requests_view :: "Client \<Rightarrow> ChainConfig \<times> client_message list" where
  "requests_view cl = (cl_config cl, filter (\<lambda>m. case m of CMigrateWanted _ \<Rightarrow> True | _ \<Rightarrow> False) (cl_sent cl))"

lemma want_migration_stop: "stop_view (want_migration cl) = stop_view cl"
  by (simp add: stop_view_def want_migration_def SendMigrateWanted_def emit_client_def)

lemma take_committed_stop: "stop_view (take_committed tx cl) = stop_view cl"
proof -
  have "stop_view (cl\<lparr> commit_tx_set := x \<rparr>) = stop_view cl" for x by (simp add: stop_view_def)
  then show ?thesis by (simp add: take_committed_def Let_def want_migration_stop)
qed

lemma take_all_stop: "stop_view (fold take_committed txs cl) = stop_view cl"
  by (induction txs arbitrary: cl) (simp_all add: take_committed_stop)

text \<open>The messages of the probe are transactions.\<close>

lemma inject_no_request: "CMigrateWanted k \<notin> set (injectClientTxsToShard hash s txs)"
  by (auto simp: injectClientTxsToShard_def split: option.splits if_splits)

lemma send_by_shard_no_request: "CMigrateWanted k \<notin> set (send_by_shard hash order m)"
  using inject_no_request by (auto simp: send_by_shard_def split: option.splits)

lemma phase_no_request:
  "syncProbePhaseA hash order a2s keys ts = Inr ms \<Longrightarrow> CMigrateWanted k \<notin> set ms"
  "syncProbePhaseB hash order now a2s keys ts = Inr ms \<Longrightarrow> CMigrateWanted k \<notin> set ms"
  using send_by_shard_no_request by (auto simp: syncProbePhaseA_def syncProbePhaseB_def bind_res_eq_Inr)

lemma no_requests: "(\<And>k. CMigrateWanted k \<notin> set ms) \<Longrightarrow> filter (\<lambda>m. case m of CMigrateWanted _ \<Rightarrow> True | _ \<Rightarrow> False) ms = []"
  by (auto simp: filter_empty_conv split: client_message.splits)

lemma probe_before_no_request:
  assumes "probe_before hash order ae as new cl = Inr (ts, ms)"
  shows "CMigrateWanted k \<notin> set ms"
  using assms phase_no_request(1)
  by (auto simp: probe_before_def runSyncProbeBeforeMigration_def Let_def bind_res_eq_Inr split: if_splits)

lemma migration_frame:
  assumes "runMigrationFromPending hash order ae txs cl = Inr cl'"
  shows "stop_view cl' = stop_view cl" "requests_view cl' = requests_view cl" "cl_jobs cl' = cl_jobs cl"
proof -
  from assms obtain as new g cl1 ts ms where p: "probe_before hash order ae as new cl1 = Inr (ts, ms)"
    and cl1: "stop_view cl1 = stop_view cl" "requests_view cl1 = requests_view cl" "cl_jobs cl1 = cl_jobs cl"
    and cl': "cl' = (SendNewAddr2Shard as new (emit_client ms cl1))\<lparr> cl_probe := (if ts \<noteq> [] then
        ArmSyncProbePhaseB ts (cl_probe (SendNewAddr2Shard as new (emit_client ms cl1)))
        else cl_probe (SendNewAddr2Shard as new (emit_client ms cl1))), commit_tx_set := [] \<rparr>"
    by (auto simp: runMigrationFromPending_def bind_res_eq_Inr Let_def stop_view_def requests_view_def)
  note no_requests [OF probe_before_no_request [OF p]]
  moreover have "filter (\<lambda>m. case m of CMigrateWanted _ \<Rightarrow> True | _ \<Rightarrow> False) (map (\<lambda>k. CNewMap k as new) ks) = []" for ks
    by (rule no_requests) auto
  ultimately have "requests_view (SendNewAddr2Shard as new (emit_client ms cl1)) = requests_view cl1"
    "stop_view (SendNewAddr2Shard as new (emit_client ms cl1)) = stop_view cl1"
    "cl_jobs (SendNewAddr2Shard as new (emit_client ms cl1)) = cl_jobs cl1"
    by (auto simp: requests_view_def stop_view_def SendNewAddr2Shard_def emit_client_def)
  with cl1 show "stop_view cl' = stop_view cl" "requests_view cl' = requests_view cl" "cl_jobs cl' = cl_jobs cl"
    by (simp_all add: cl' stop_view_def requests_view_def)
qed

lemma handle_pending_frame: "stop_view (handle_pending txs cl) = stop_view cl" "requests_view (handle_pending txs cl) = requests_view cl"
  by (cases "num_of_shard_not_sending_pending cl = 1"; simp add: handle_pending_def Let_def stop_view_def requests_view_def)+

lemma other_step_frame:
  assumes "client_step hash order ae ev cl = Inr cl'" "\<And>txs sz n s. ev \<noteq> Reply txs sz n s"
  shows "requests_view cl' = requests_view cl"
    "stop_view cl' = (injectDone cl \<or> ev = InjectOver, emptyStreakByShard cl, all_finish cl, Shard_num (cl_config cl))"
proof -
  have "requests_view cl' = requests_view cl
    \<and> stop_view cl' = (injectDone cl \<or> ev = InjectOver, emptyStreakByShard cl, all_finish cl, Shard_num (cl_config cl))"
  proof (cases ev)
    case RunMigration
    show ?thesis
    proof (cases "cl_jobs cl")
      case (Cons txs jobs)
      with assms(1) RunMigration have "runMigrationFromPending hash order ae txs (cl\<lparr> cl_jobs := jobs \<rparr>) = Inr cl'"
        by (simp add: client_step_def)
      from migration_frame(1,2) [OF this] show ?thesis by (simp add: RunMigration stop_view_def requests_view_def)
    qed (use assms(1) RunMigration in \<open>auto simp: client_step_def stop_view_def requests_view_def\<close>)
  next
    case (ProbeWakes now)
    with assms(1) show ?thesis
      using no_requests [OF phase_no_request(2)]
      by (auto simp: client_step_def stop_view_def requests_view_def emit_client_def bind_res_eq_Inr split: option.splits prod.splits)
  next
    case (PendingTXs txs)
    with assms(1) handle_pending_frame show ?thesis by (auto simp: client_step_def) (simp add: stop_view_def)
  qed (use assms in \<open>auto simp: client_step_def stop_view_def requests_view_def handle_announced_def
      handle_migrated_txs_def handle_unchanged_def Let_def\<close>)
  then show "requests_view cl' = requests_view cl"
    "stop_view cl' = (injectDone cl \<or> ev = InjectOver, emptyStreakByShard cl, all_finish cl, Shard_num (cl_config cl))" by auto
qed

section \<open>The end of the run\<close>

text \<open>
  The number of empty replies of a shard that the client has had in a row since the injection, the last event
  first; and whether every active shard has had five.
\<close>

fun streak :: "string \<Rightarrow> client_event list \<Rightarrow> int" where
  "streak k [] = 0"
| "streak k (ev # evs) =
     (case ev of
        Reply txs blocksize n shard \<Rightarrow>
          if shard \<noteq> k then streak k evs
          else if blocksize = 0 \<and> InjectOver \<in> set evs then streak k evs + 1 else 0
      | _ \<Rightarrow> streak k evs)"

definition idle_after :: "ChainConfig \<Rightarrow> client_event list \<Rightarrow> bool" where
  "idle_after cfg evs \<longleftrightarrow> (\<forall>k\<in>set (ActiveShardIDs cfg). 5 \<le> streak k (rev evs))"

definition named_reply :: "client_event \<Rightarrow> bool" where
  "named_reply ev \<longleftrightarrow> (case ev of Reply txs blocksize n shard \<Rightarrow> shard \<noteq> '''' | _ \<Rightarrow> True)"

lemma streak_before: "InjectOver \<notin> set evs \<Longrightarrow> streak k evs = 0"
  by (induction evs) (auto split: client_event.splits)

lemma settle_stop: "settle_migrations n cl = Inr cl' \<Longrightarrow> stop_view cl' = stop_view cl"
  by (auto simp: settle_migrations_def Let_def stop_view_def split: if_splits)

lemma ActiveShardIDs_cong: "Shard_num cfg = Shard_num cfg' \<Longrightarrow> ActiveShardIDs cfg = ActiveShardIDs cfg'"
  by (simp add: ActiveShardIDs_def)

lemma count_empty_stop:
  assumes "count_empty shard sz cl = Inr cl'" "shard \<noteq> ''''"
  shows "injectDone cl' = injectDone cl" "Shard_num (cl_config cl') = Shard_num (cl_config cl)"
    "lookup0 (emptyStreakByShard cl') k = (if k \<noteq> shard then lookup0 (emptyStreakByShard cl) k
        else if sz \<noteq> 0 then 0 else lookup0 (emptyStreakByShard cl) k + (if injectDone cl then 1 else 0))"
    "all_finish cl' \<longleftrightarrow> all_finish cl \<or> (injectDone cl \<and> (\<forall>k\<in>set (ActiveShardIDs (cl_config cl)). 5 \<le> lookup0 (emptyStreakByShard cl') k))"
  using assms by (auto simp: count_empty_def signal_finish_def Let_def lookup0_def split: if_splits)

lemma handle_reply_stop:
  assumes "handle_reply txs sz n shard cl = Inr cl'" "shard \<noteq> ''''"
  shows "\<exists>cl2. stop_view cl' = stop_view cl2 \<and> injectDone cl2 = injectDone cl \<and> Shard_num (cl_config cl2) = Shard_num (cl_config cl)
    \<and> (\<forall>k. lookup0 (emptyStreakByShard cl2) k = (if k \<noteq> shard then lookup0 (emptyStreakByShard cl) k
        else if sz \<noteq> 0 then 0 else lookup0 (emptyStreakByShard cl) k + (if injectDone cl then 1 else 0)))
    \<and> (all_finish cl2 \<longleftrightarrow> all_finish cl \<or> (injectDone cl \<and> (\<forall>k\<in>set (ActiveShardIDs (cl_config cl)). 5 \<le> lookup0 (emptyStreakByShard cl2) k)))"
proof -
  from assms(1) obtain cl1 cl2 where s: "settle_migrations n cl = Inr cl1" "count_empty shard sz cl1 = Inr cl2"
    and cl': "cl' = (fold take_committed txs cl2)\<lparr> max_commit_block := max_commit_block (fold take_committed txs cl2) - 1 \<rparr>"
    by (auto simp: handle_reply_def bind_res_eq_Inr Let_def)
  have v: "injectDone cl1 = injectDone cl" "emptyStreakByShard cl1 = emptyStreakByShard cl" "all_finish cl1 = all_finish cl"
    "Shard_num (cl_config cl1) = Shard_num (cl_config cl)" using settle_stop [OF s(1)] by (auto simp: stop_view_def)
  have "stop_view cl' = stop_view cl2" using take_all_stop [of txs cl2] by (simp add: cl' stop_view_def)
  with count_empty_stop [OF s(2) assms(2)] ActiveShardIDs_cong [OF v(4)] v show ?thesis by (intro exI [of _ cl2]) auto
qed

lemma stop_invariant:
  assumes "fold_res (client_step hash order ae) evs (client_start cfg) = Inr cl" "\<forall>ev\<in>set evs. named_reply ev" "ActiveShardIDs cfg \<noteq> []"
  shows "injectDone cl = (InjectOver \<in> set evs) \<and> Shard_num (cl_config cl) = Shard_num cfg
    \<and> (\<forall>k. lookup0 (emptyStreakByShard cl) k = streak k (rev evs))
    \<and> (all_finish cl \<longleftrightarrow> (\<exists>n\<le>length evs. idle_after cfg (take n evs)))"
  using assms(1,2)
proof (induction evs arbitrary: cl rule: rev_induct)
  case Nil
  have "lookup0 (fold (\<lambda>k m. m(k \<mapsto> 0)) ks m) k = 0" if "lookup0 m k = 0" for ks m k
    using that by (induction ks arbitrary: m) (simp_all add: lookup0_def)
  then have "lookup0 (emptyStreakByShard (client_start cfg)) k = 0" for k by (simp add: client_start_def lookup0_def)
  with Nil assms(3) show ?case by (auto simp: client_start_def idle_after_def)
next
  case (snoc ev evs)
  from snoc.prems(1) obtain c0 where c0: "fold_res (client_step hash order ae) evs (client_start cfg) = Inr c0"
    and st: "client_step hash order ae ev c0 = Inr cl" by (auto simp: fold_res_append bind_res_eq_Inr)
  from snoc.IH [OF c0] snoc.prems(2) have IH: "injectDone c0 = (InjectOver \<in> set evs)" "Shard_num (cl_config c0) = Shard_num cfg"
    "\<And>k. lookup0 (emptyStreakByShard c0) k = streak k (rev evs)" "all_finish c0 \<longleftrightarrow> (\<exists>n\<le>length evs. idle_after cfg (take n evs))" by auto
  have split: "(\<exists>n\<le>length (evs @ [ev]). idle_after cfg (take n (evs @ [ev])))
      \<longleftrightarrow> (\<exists>n\<le>length evs. idle_after cfg (take n evs)) \<or> idle_after cfg (evs @ [ev])"
    by (auto simp: le_Suc_eq)
  show ?case
  proof (cases "\<exists>txs sz n shard. ev = Reply txs sz n shard")
    case True
    then obtain txs sz n shard where ev: "ev = Reply txs sz n shard" by blast
    with snoc.prems(2) st have "handle_reply txs sz n shard c0 = Inr cl" "shard \<noteq> ''''" by (auto simp: client_step_def named_reply_def)
    from handle_reply_stop [OF this] obtain cl2 where c: "stop_view cl = stop_view cl2" "injectDone cl2 = injectDone c0"
      "Shard_num (cl_config cl2) = Shard_num (cl_config c0)"
      "\<And>k. lookup0 (emptyStreakByShard cl2) k = (if k \<noteq> shard then lookup0 (emptyStreakByShard c0) k
        else if sz \<noteq> 0 then 0 else lookup0 (emptyStreakByShard c0) k + (if injectDone c0 then 1 else 0))"
      "all_finish cl2 \<longleftrightarrow> all_finish c0 \<or> (injectDone c0 \<and> (\<forall>k\<in>set (ActiveShardIDs (cl_config c0)). 5 \<le> lookup0 (emptyStreakByShard cl2) k))"
      by blast
    have str: "lookup0 (emptyStreakByShard cl2) k = streak k (rev (evs @ [ev]))" for k
      using c(4) [of k] streak_before [of "rev evs" k] unfolding IH by (auto simp: ev)
    have "idle_after cfg (evs @ [ev]) \<longrightarrow> injectDone c0"
    proof
      assume i: "idle_after cfg (evs @ [ev])"
      obtain k where "k \<in> set (ActiveShardIDs cfg)" using hd_in_set [OF assms(3)] by blast
      with i have "5 \<le> streak k (rev (evs @ [ev]))" by (simp add: idle_after_def)
      then show "injectDone c0" using streak_before [of "rev (evs @ [ev])" k] by (auto simp: IH(1) ev)
    qed
    moreover have "ActiveShardIDs (cl_config c0) = ActiveShardIDs cfg" using IH(2) by (rule ActiveShardIDs_cong)
    ultimately have "all_finish cl2 \<longleftrightarrow> all_finish c0 \<or> idle_after cfg (evs @ [ev])" using c(5) by (auto simp: str idle_after_def)
    with c(1,2,3) str show ?thesis unfolding split using IH by (auto simp: stop_view_def ev)
  next
    case False
    then have o: "stop_view cl = (injectDone c0 \<or> ev = InjectOver, emptyStreakByShard c0, all_finish c0, Shard_num (cl_config c0))"
      by (intro other_step_frame(2) [OF st]) auto
    have same: "streak k (rev (evs @ [ev])) = streak k (rev evs)" for k using False by (cases ev) auto
    then have "idle_after cfg (evs @ [ev]) \<longleftrightarrow> idle_after cfg (take (length evs) evs)" by (simp add: idle_after_def)
    with o IH same show ?thesis unfolding split by (auto simp: stop_view_def)
  qed
qed

text \<open>
  C30. The client stops the run when, and only when, at some reply every active shard has answered with five empty
  blocks in a row since the injection ended, whatever else it has received in between.
\<close>

theorem client_stops_iff_idle:
  assumes "fold_res (client_step hash order ae) evs (client_start cfg) = Inr cl" "\<forall>ev\<in>set evs. named_reply ev" "ActiveShardIDs cfg \<noteq> []"
  shows "all_finish cl \<longleftrightarrow> (\<exists>n\<le>length evs. idle_after cfg (take n evs))"
  using stop_invariant [OF assms] by blast

definition one_shard :: ChainConfig where
  "one_shard = default_config\<lparr> Shard_num := 1 \<rparr>"

lemma one_shard_sel: "Shard_num one_shard = 1" "ActiveShardIDs one_shard = [''S0'']" "PorC one_shard = ''PageRank''"
    "Max_Commit_Block one_shard = 20" "OnlyOnce one_shard = 100"
  by (simp_all add: one_shard_def default_config_def ActiveShardIDs_def ShardTableInt2Str_def List.map_filter_simps)

lemma client_stops_iff_idle_witness:
  "\<exists>cl. fold_res (client_step (\<lambda>_. []) [] exact_env) (InjectOver # replicate 5 (Reply [] 0 0 ''S0'')) (client_start one_shard) = Inr cl \<and> all_finish cl"
proof -
  let ?evs = "InjectOver # replicate 5 (Reply [] 0 0 ''S0'')"
  have "\<exists>cl. fold_res (client_step (\<lambda>_. []) [] exact_env) ?evs (client_start one_shard) = Inr cl"
    by (simp add: numeral_eq_Suc client_step_def handle_reply_def settle_migrations_def count_empty_def signal_finish_def client_start_def
        one_shard_sel lookup0_def)
  then obtain cl where cl: "fold_res (client_step (\<lambda>_. []) [] exact_env) ?evs (client_start one_shard) = Inr cl" by blast
  have "idle_after one_shard (take 6 ?evs)"
    by (simp add: idle_after_def one_shard_sel numeral_eq_Suc)
  moreover have "6 \<le> length ?evs" "\<forall>ev\<in>set ?evs. named_reply ev" by (simp_all add: named_reply_def)
  moreover have "ActiveShardIDs one_shard \<noteq> []" by (simp add: one_shard_sel)
  ultimately have "all_finish cl" using client_stops_iff_idle [OF cl] by blast
  with cl show ?thesis by blast
qed

section \<open>Requests for a migration\<close>

definition wanted :: "client_message list \<Rightarrow> client_message list" where
  "wanted = filter (\<lambda>m. case m of CMigrateWanted _ \<Rightarrow> True | _ \<Rightarrow> False)"

lemma wanted_all: "wanted (map CMigrateWanted ks) = map CMigrateWanted ks"
  by (induction ks) (simp_all add: wanted_def)

lemma wanted_append [simp]: "wanted (xs @ ys) = wanted xs @ wanted ys"
  by (simp add: wanted_def)

lemma want_migration_sel:
  "cl_sent (want_migration cl) = cl_sent cl @ map CMigrateWanted (led_shards (cl_config cl))"
  "num_of_unfinished_migration (want_migration cl) = 1" "num_of_unfinished_migrated_TXs (want_migration cl) = 1"
  "OnlyOnce (cl_config (want_migration cl)) = OnlyOnce (cl_config cl) - 1" "Shard_num (cl_config (want_migration cl)) = Shard_num (cl_config cl)"
  by (simp_all add: want_migration_def SendMigrateWanted_def emit_client_def led_shards_def ActiveShardIDs_def)

text \<open>The committed transactions of a block ask at most once.\<close>

lemma take_committed_sel:
  "num_of_unfinished_migration (cl\<lparr> commit_tx_set := x \<rparr>) = num_of_unfinished_migration cl" "cl_config (cl\<lparr> commit_tx_set := x \<rparr>) = cl_config cl"
  "migration_due (cl\<lparr> commit_tx_set := x \<rparr>) = migration_due cl" "cl_sent (cl\<lparr> commit_tx_set := x \<rparr>) = cl_sent cl"
  by (simp_all add: migration_due_def)

definition asked :: "Client \<Rightarrow> Client \<Rightarrow> bool" where
  "asked cl cl' \<longleftrightarrow> migration_due cl \<and> cl_sent cl' = cl_sent cl @ map CMigrateWanted (led_shards (cl_config cl))
    \<and> num_of_unfinished_migration cl' = 1 \<and> num_of_unfinished_migrated_TXs cl' = 1
    \<and> OnlyOnce (cl_config cl') = OnlyOnce (cl_config cl) - 1 \<and> Shard_num (cl_config cl') = Shard_num (cl_config cl)"

definition not_asked :: "Client \<Rightarrow> Client \<Rightarrow> bool" where
  "not_asked cl cl' \<longleftrightarrow> cl_sent cl' = cl_sent cl \<and> cl_config cl' = cl_config cl
    \<and> num_of_unfinished_migration cl' = num_of_unfinished_migration cl
    \<and> num_of_unfinished_migrated_TXs cl' = num_of_unfinished_migrated_TXs cl \<and> max_commit_block cl' = max_commit_block cl"

lemma take_committed_busy:
  assumes "\<not> migration_due cl"
  shows "not_asked cl (fold take_committed txs cl)"
  using assms
proof (induction txs arbitrary: cl)
  case (Cons tx txs)
  let ?cl = "cl\<lparr> commit_tx_set := commit_tx_set cl @ [tx] \<rparr>"
  have "take_committed tx cl = ?cl" using Cons.prems by (simp add: take_committed_def Let_def take_committed_sel)
  with Cons.IH [of ?cl] Cons.prems show ?case by (simp add: not_asked_def take_committed_sel)
qed (simp add: not_asked_def)

lemma take_committed_asks:
  "(if migration_due cl \<and> txs \<noteq> [] then asked cl (fold take_committed txs cl) else not_asked cl (fold take_committed txs cl))"
proof (cases "migration_due cl \<and> txs \<noteq> []")
  case True
  then obtain tx rest where txs: "txs = tx # rest" by (auto simp: neq_Nil_conv)
  let ?cl = "cl\<lparr> commit_tx_set := commit_tx_set cl @ [tx] \<rparr>"
  have one: "take_committed tx cl = want_migration ?cl" using True by (simp add: take_committed_def Let_def take_committed_sel)
  have "\<not> migration_due (want_migration ?cl)" by (simp add: migration_due_def want_migration_sel)
  from take_committed_busy [OF this, of rest] True show ?thesis
    by (simp add: txs one asked_def not_asked_def want_migration_sel)
qed (use take_committed_busy in \<open>auto simp: not_asked_def\<close>)

lemma count_empty_frame: "count_empty shard bs cl = Inr cl' \<Longrightarrow> not_asked cl cl'"
  by (auto simp: count_empty_def signal_finish_def Let_def not_asked_def split: if_splits)

text \<open>A reply: the accounts that it settles, then at most one request.\<close>

lemma handle_reply_asks:
  assumes "handle_reply txs bs n shard cl = Inr cl'"
  shows "n \<le> num_of_unfinished_migration cl"
    "cl_sent cl' = cl_sent cl \<and> cl_config cl' = cl_config cl \<and> num_of_unfinished_migration cl' = num_of_unfinished_migration cl - n
        \<and> num_of_unfinished_migrated_TXs cl' = num_of_unfinished_migrated_TXs cl
     \<or> num_of_unfinished_migration cl = n \<and> num_of_unfinished_migrated_TXs cl = 0 \<and> txs \<noteq> [] \<and> 0 < OnlyOnce (cl_config cl)
        \<and> cl_sent cl' = cl_sent cl @ map CMigrateWanted (led_shards (cl_config cl))
        \<and> num_of_unfinished_migration cl' = 1 \<and> num_of_unfinished_migrated_TXs cl' = 1
        \<and> OnlyOnce (cl_config cl') = OnlyOnce (cl_config cl) - 1 \<and> Shard_num (cl_config cl') = Shard_num (cl_config cl)"
proof -
  from assms obtain cl1 cl2 where s: "settle_migrations n cl = Inr cl1" "count_empty shard bs cl1 = Inr cl2"
    and cl': "cl' = (fold take_committed txs cl2)\<lparr> max_commit_block := max_commit_block (fold take_committed txs cl2) - 1 \<rparr>"
    by (auto simp: handle_reply_def bind_res_eq_Inr Let_def)
  show "n \<le> num_of_unfinished_migration cl" using s(1) by (auto simp: settle_migrations_def Let_def split: if_splits)
  have one: "cl_sent cl1 = cl_sent cl" "cl_config cl1 = cl_config cl" "num_of_unfinished_migration cl1 = num_of_unfinished_migration cl - n"
    "num_of_unfinished_migrated_TXs cl1 = num_of_unfinished_migrated_TXs cl"
    using s(1) by (auto simp: settle_migrations_def Let_def split: if_splits)
  note two = count_empty_frame [OF s(2), unfolded not_asked_def]
  show "cl_sent cl' = cl_sent cl \<and> cl_config cl' = cl_config cl \<and> num_of_unfinished_migration cl' = num_of_unfinished_migration cl - n
        \<and> num_of_unfinished_migrated_TXs cl' = num_of_unfinished_migrated_TXs cl
     \<or> num_of_unfinished_migration cl = n \<and> num_of_unfinished_migrated_TXs cl = 0 \<and> txs \<noteq> [] \<and> 0 < OnlyOnce (cl_config cl)
        \<and> cl_sent cl' = cl_sent cl @ map CMigrateWanted (led_shards (cl_config cl))
        \<and> num_of_unfinished_migration cl' = 1 \<and> num_of_unfinished_migrated_TXs cl' = 1
        \<and> OnlyOnce (cl_config cl') = OnlyOnce (cl_config cl) - 1 \<and> Shard_num (cl_config cl') = Shard_num (cl_config cl)"
  proof (cases "migration_due cl2 \<and> txs \<noteq> []")
    case True
    then have "asked cl2 (fold take_committed txs cl2)" using take_committed_asks [of cl2 txs] by simp
    with True one two show ?thesis by (auto simp: cl' asked_def migration_due_def)
  next
    case False
    then have "not_asked cl2 (fold take_committed txs cl2)" using take_committed_asks [of cl2 txs] by (simp only: if_False)
    with one two show ?thesis by (auto simp: cl' not_asked_def)
  qed
qed

lemma concat_replicate_Suc: "concat (replicate (Suc n) xs) = concat (replicate n xs) @ xs"
  by (induction n) simp_all

text \<open>
  C31. Migrations come one at a time and not too often: a step asks the shards for one only at a block with
  transactions, when no account and no transaction of the last one is unfinished, and marks one as begun; and
  in a run from the start each shard has been asked once for each unit that \<open>OnlyOnce\<close> has lost, so never more
  often than the configuration says.
\<close>

theorem migrations_bounded:
  assumes "fold_res (client_step hash order ae) evs (client_start cfg) = Inr cl" "0 \<le> OnlyOnce cfg"
  shows "0 \<le> OnlyOnce (cl_config cl) \<and> wanted (cl_sent cl)
      = concat (replicate (nat (OnlyOnce cfg - OnlyOnce (cl_config cl))) (map CMigrateWanted (led_shards cfg)))
    \<and> (\<forall>ev cl'. client_step hash order ae ev cl = Inr cl' \<longrightarrow> wanted (cl_sent cl') \<noteq> wanted (cl_sent cl) \<longrightarrow>
        (\<exists>txs bs shard. ev = Reply txs bs (num_of_unfinished_migration cl) shard \<and> txs \<noteq> [])
        \<and> num_of_unfinished_migrated_TXs cl = 0 \<and> num_of_unfinished_migration cl' = 1 \<and> num_of_unfinished_migrated_TXs cl' = 1)"
proof -
  have step: "wanted (cl_sent c') = wanted (cl_sent c) \<and> cl_config c' = cl_config c
      \<or> (\<exists>txs bs shard. ev = Reply txs bs (num_of_unfinished_migration c) shard \<and> txs \<noteq> []) \<and> num_of_unfinished_migrated_TXs c = 0
        \<and> num_of_unfinished_migration c' = 1 \<and> num_of_unfinished_migrated_TXs c' = 1 \<and> 0 < OnlyOnce (cl_config c)
        \<and> wanted (cl_sent c') = wanted (cl_sent c) @ map CMigrateWanted (led_shards (cl_config c))
        \<and> OnlyOnce (cl_config c') = OnlyOnce (cl_config c) - 1 \<and> Shard_num (cl_config c') = Shard_num (cl_config c)"
    if "client_step hash order ae ev c = Inr c'" for ev c c'
  proof (cases "\<exists>txs bs n shard. ev = Reply txs bs n shard")
    case True
    then obtain txs bs n shard where ev: "ev = Reply txs bs n shard" by blast
    with that have "handle_reply txs bs n shard c = Inr c'" by (simp add: client_step_def)
    from handle_reply_asks(2) [OF this] show ?thesis by (auto simp: ev wanted_all)
  next
    case False
    with other_step_frame(1) [OF that] show ?thesis by (auto simp: requests_view_def wanted_def)
  qed
  have led: "led_shards c = led_shards cfg" if "Shard_num c = Shard_num cfg" for c
    using ActiveShardIDs_cong [OF that] by (simp add: led_shards_def)
  define P where "P c \<longleftrightarrow> 0 \<le> OnlyOnce (cl_config c) \<and> OnlyOnce (cl_config c) \<le> OnlyOnce cfg \<and> Shard_num (cl_config c) = Shard_num cfg
    \<and> wanted (cl_sent c) = concat (replicate (nat (OnlyOnce cfg - OnlyOnce (cl_config c))) (map CMigrateWanted (led_shards cfg)))" for c :: Client
  have "P cl"
  proof (rule fold_res_inv [OF assms(1)])
    show "P (client_start cfg)" using assms(2) by (simp add: P_def client_start_def wanted_def)
    fix ev c c' assume "P c" "client_step hash order ae ev c = Inr c'"
    from step [OF this(2)] \<open>P c\<close> show "P c'"
    proof (elim disjE conjE)
      assume n: "0 < OnlyOnce (cl_config c)" "OnlyOnce (cl_config c') = OnlyOnce (cl_config c) - 1" "Shard_num (cl_config c') = Shard_num (cl_config c)"
        "wanted (cl_sent c') = wanted (cl_sent c) @ map CMigrateWanted (led_shards (cl_config c))"
      note Pc = \<open>P c\<close> [unfolded P_def]
      have k: "nat (OnlyOnce cfg - OnlyOnce (cl_config c')) = Suc (nat (OnlyOnce cfg - OnlyOnce (cl_config c)))"
        using n(1,2) Pc by linarith
      have "led_shards (cl_config c) = led_shards cfg" using Pc led by blast
      then have "wanted (cl_sent c') = concat (replicate (nat (OnlyOnce cfg - OnlyOnce (cl_config c'))) (map CMigrateWanted (led_shards cfg)))"
        using n(4) Pc by (simp only: k concat_replicate_Suc)
      moreover have "0 \<le> OnlyOnce (cl_config c')" "OnlyOnce (cl_config c') \<le> OnlyOnce cfg" "Shard_num (cl_config c') = Shard_num cfg"
        using n(1-3) Pc by linarith+
      ultimately show "P c'" unfolding P_def by blast
    qed (simp add: P_def)
  qed
  with step show ?thesis unfolding P_def by blast
qed

lemma migrations_bounded_witness:
  "\<exists>cl. fold_res (client_step (\<lambda>_. []) [] exact_env) [Reply [zero_tx] 1 0 ''S0''] (client_start (one_shard\<lparr> Max_Commit_Block := 0 \<rparr>)) = Inr cl
    \<and> wanted (cl_sent cl) = [CMigrateWanted ''S0''] \<and> 0 \<le> OnlyOnce (cl_config cl)"
proof -
  let ?cfg = "one_shard\<lparr> Max_Commit_Block := 0 \<rparr>"
  have led: "led_shards ?cfg = [''S0'']" and sel: "Shard_num ?cfg = 1" "PorC ?cfg = ''PageRank''" "Max_Commit_Block ?cfg = 0" "OnlyOnce ?cfg = 100"
    using one_shard_sel by (simp_all add: led_shards_def ActiveShardIDs_def NodeTable_def)
  obtain cl where cl: "fold_res (client_step (\<lambda>_. []) [] exact_env) [Reply [zero_tx] 1 0 ''S0''] (client_start ?cfg) = Inr cl" "OnlyOnce (cl_config cl) = 99"
    using sel by (simp add: client_step_def handle_reply_def settle_migrations_def count_empty_def client_start_def take_committed_def
        migration_due_def want_migration_def SendMigrateWanted_def emit_client_def Let_def)
  from migrations_bounded [OF cl(1)] cl led sel show ?thesis by auto
qed

section \<open>A request that is lost\<close>

text \<open>Events that neither settle an account nor bring pending transactions.\<close>

definition quiet :: "client_event \<Rightarrow> bool" where
  "quiet ev \<longleftrightarrow> (case ev of Reply txs bs n shard \<Rightarrow> n = 0 | Announced shard anns \<Rightarrow> True | InjectOver \<Rightarrow> True | RunMigration \<Rightarrow> True | _ \<Rightarrow> False)"

definition stalled :: "Client \<Rightarrow> bool" where
  "stalled cl \<longleftrightarrow> num_of_unfinished_migration cl = 1 \<and> num_of_unfinished_migrated_TXs cl = 1 \<and> cl_jobs cl = []"

lemma handle_reply_jobs:
  assumes "handle_reply txs bs n shard cl = Inr cl'"
  shows "cl_jobs cl' = cl_jobs cl"
proof -
  have "cl_jobs (fold take_committed ts c) = cl_jobs c" for ts c
    by (induction ts arbitrary: c)
      (simp_all add: take_committed_def Let_def want_migration_def SendMigrateWanted_def emit_client_def)
  then show ?thesis using assms
    by (auto simp: handle_reply_def bind_res_eq_Inr Let_def settle_migrations_def count_empty_def signal_finish_def split: if_splits)
qed

lemma stalled_step:
  assumes "client_step hash order ae ev cl = Inr cl'" "quiet ev" "stalled cl"
  shows "stalled cl' \<and> cl_sent cl' = cl_sent cl"
proof (cases ev)
  case (Reply txs bs n shard)
  with assms(1) have r: "handle_reply txs bs n shard cl = Inr cl'" by (simp add: client_step_def)
  from handle_reply_asks(2) [OF r] handle_reply_jobs [OF r] assms(2,3) show ?thesis by (auto simp: Reply quiet_def stalled_def)
qed (use assms in \<open>auto simp: client_step_def quiet_def stalled_def handle_announced_def Let_def\<close>)

lemma pending_none:
  assumes "n < nat (num_of_shard_not_sending_pending cl)" "pending_tx_set cl = []"
  shows "fold_res (client_step hash order ae) (replicate n (PendingTXs [])) cl
    = Inr (cl\<lparr> num_of_shard_not_sending_pending := num_of_shard_not_sending_pending cl - int n \<rparr>)"
  using assms
proof (induction n arbitrary: cl)
  case (Suc n)
  let ?cl = "cl\<lparr> num_of_shard_not_sending_pending := num_of_shard_not_sending_pending cl - 1 \<rparr>"
  have "client_step hash order ae (PendingTXs []) cl = Inr ?cl" using Suc.prems by (simp add: client_step_def handle_pending_def Let_def)
  with Suc.IH [of ?cl] Suc.prems show ?case by (simp add: algebra_simps)
qed simp

text \<open>
  C40. When no shard has a pending transaction, the request comes to nothing and the client never asks again: its
  copy of the transactions is empty, which it takes for \<open>nil\<close>, so it computes no map, and the account and
  the transaction that it marked as unfinished stay so, whatever blocks the shards commit.
\<close>

theorem empty_pending_stalls:
  assumes "0 < Shard_num (cl_config cl)" "cl_jobs cl = []" "\<forall>ev\<in>set evs. quiet ev"
    and "fold_res (client_step hash order ae) (replicate (nat (Shard_num (cl_config cl))) (PendingTXs []) @ evs) (want_migration cl) = Inr cl'"
  shows "num_of_unfinished_migration cl' = 1 \<and> num_of_unfinished_migrated_TXs cl' = 1 \<and> cl_jobs cl' = []
    \<and> cl_sent cl' = cl_sent (want_migration cl)"
proof -
  let ?w = "want_migration cl"
  obtain n where n: "nat (Shard_num (cl_config cl)) = Suc n" using assms(1) by (cases "nat (Shard_num (cl_config cl))") auto
  have w: "num_of_shard_not_sending_pending ?w = int (Suc n)" "pending_tx_set ?w = []" "cl_jobs ?w = []"
    using n assms(1,2) by (simp_all add: want_migration_def SendMigrateWanted_def emit_client_def)
  let ?w1 = "?w\<lparr> num_of_shard_not_sending_pending := 1 \<rparr>"
  have "fold_res (client_step hash order ae) (replicate n (PendingTXs [])) ?w = Inr ?w1"
    using pending_none [of n ?w hash order ae] w by simp
  moreover have "replicate (Suc n) (PendingTXs []) @ evs = replicate n (PendingTXs []) @ PendingTXs [] # evs"
    by (simp add: replicate_append_same)
  ultimately have "fold_res (client_step hash order ae) (replicate (Suc n) (PendingTXs []) @ evs) ?w
      = fold_res (client_step hash order ae) evs (handle_pending [] ?w1)"
    by (simp only: fold_res_append bind_res_Inr fold_res.simps client_step_def client_event.case)
  with assms(4) n have run: "fold_res (client_step hash order ae) evs (handle_pending [] ?w1) = Inr cl'" by simp
  have st: "stalled (handle_pending [] ?w1) \<and> cl_sent (handle_pending [] ?w1) = cl_sent ?w"
    using w(2,3) by (simp add: handle_pending_def stalled_def want_migration_sel)
  have "stalled cl' \<and> cl_sent cl' = cl_sent ?w"
    by (rule fold_res_inv [where P = "\<lambda>c. stalled c \<and> cl_sent c = cl_sent ?w", OF run st]) (use stalled_step assms(3) in metis)
  then show ?thesis by (simp add: stalled_def)
qed

lemma empty_pending_stalls_witness:
  "\<exists>cl'. fold_res (client_step (\<lambda>_. []) [] exact_env) ([PendingTXs []] @ [Reply [zero_tx] 1 0 ''S0'']) (want_migration (client_start one_shard)) = Inr cl'
    \<and> num_of_unfinished_migration cl' = 1 \<and> cl_jobs cl' = []"
proof -
  have "\<exists>cl'. fold_res (client_step (\<lambda>_. []) [] exact_env) ([PendingTXs []] @ [Reply [zero_tx] 1 0 ''S0'']) (want_migration (client_start one_shard)) = Inr cl'"
    by (simp add: client_step_def handle_pending_def want_migration_def SendMigrateWanted_def emit_client_def client_start_def one_shard_sel
        handle_reply_def settle_migrations_def count_empty_def Let_def)
  then obtain cl' where cl': "fold_res (client_step (\<lambda>_. []) [] exact_env) (replicate (nat (Shard_num (cl_config (client_start one_shard)))) (PendingTXs [])
      @ [Reply [zero_tx] 1 0 ''S0'']) (want_migration (client_start one_shard)) = Inr cl'"
    by (auto simp: client_start_def one_shard_sel)
  from empty_pending_stalls [OF _ _ _ cl'] cl' show ?thesis by (auto simp: client_start_def one_shard_sel quiet_def)
qed

end
