(* ===== verification/Consensus.thy ===== *)
theory Consensus
  imports Commit Epoch
begin

text \<open>
  The three phases of PBFT (\<open>pbft/pbft.go\<close>): \<open>propose\<close>, \<open>handlePrePrepare\<close>, \<open>handlePrepare\<close>, \<open>handleCommit\<close>, the
  blocks that a late replica asks for, and the loop \<open>Propose\<close>. The loop calls \<open>propose1\<close>, which commits at
  once; the three phases are still dispatched. A message's content is what the decoders give, its digest a
  parameter \<open>dig\<close> (SHA-256 of its encoding). Each handler is one step. A mutex is a flag: locking one that is held
  blocks, unlocking one that is not held ends the process.
\<close>

definition malicious_num :: nat where
  "malicious_num = 1"

section \<open>State\<close>

datatype pbft_content =
    BlockContent Block
  | MapContent "(addr \<times> int) list"
  | StatesContent "(addr \<times> int) list"

record Request =
  rq_Content :: pbft_content
  rq_ID :: int
  rq_Timestamp :: int

text \<open>Each message with its receiver.\<close>

datatype consensus_message =
    PrePrepareMsg string Request string int string
  | PrepareMsg string string int string string
  | CommitMsg string string int string string
  | RequestBlocksMsg string int int string
  | SendBlocksMsg string int int "Block list"

text \<open>
  The fields of \<open>Pbft\<close> that the phases use. A map from node ids to \<open>true\<close> is the list of its keys; the pools of
  the epoch change are \<open>None\<close> when they are nil. The states of the block chain and of the epoch change are those
  of the theories \<open>Commit\<close> and \<open>Epoch\<close>; the node within \<open>rp_epoch\<close> is set from \<open>rp_node\<close> when it is used.
\<close>

record Replica =
  rp_node :: Leader
  rp_epoch :: EpochNode
  messagePool :: "string \<rightharpoonup> Request"
  mmessagePool :: "(string \<rightharpoonup> Request) option"
  smessagePool :: "(string \<rightharpoonup> Request) option"
  prePareConfirmCount :: "string \<Rightarrow> string list"
  commitConfirmCount :: "string \<Rightarrow> string list"
  isCommitBordcast :: flags
  isReply :: flags
  height2Digest :: "int \<rightharpoonup> string"
  pbft_lock :: bool
  requestLock :: bool
  sequenceLock :: bool
  round_no :: int
  lastpropose :: int
  InitTime :: int
  bootstrapSeqID :: int
  rp_sent :: "consensus_message list"

text \<open>\<open>NewPBFT\<close> on the chain that \<open>NewBlockChain\<close> gives, with the variables of the package that it leaves at zero.\<close>

definition NewPBFT :: "ChainConfig \<Rightarrow> Node \<Rightarrow> Replica" where
  "NewPBFT cfg n =
     (let p = \<lparr> chain = n, PendingSyncInbound = Map.empty, pendingTargetDelta = (\<lambda>_. []),
            outboundStateIniByTarget = [], outboundStateIniStart = Map.empty, Sent = [] \<rparr>;
          seq = Number (Header (CurrentBlock n)) + 1;
          pool = (if Stop_When_Migrating cfg then Some Map.empty else None) in
      \<lparr> rp_node = \<lparr> ld_pbft = p, sequenceID = seq, TryOutPool = (\<lambda>_. []) \<rparr>,
        rp_epoch = \<lparr> ep_pbft = p, inacc_count = 0, inacc_pool = [], intx_pool = [], sure_count = 0, epochLock = False,
          finished = 0, msequenceID = 0, ssequenceID = 0, stored = [], ep_sent = [] \<rparr>,
        messagePool = Map.empty, mmessagePool = pool, smessagePool = pool, prePareConfirmCount = (\<lambda>_. []),
        commitConfirmCount = (\<lambda>_. []), isCommitBordcast = Map.empty, isReply = Map.empty, height2Digest = Map.empty,
        pbft_lock = False, requestLock = False, sequenceLock = False, round_no = 1, lastpropose = 0, InitTime = 0,
        bootstrapSeqID = seq, rp_sent = [] \<rparr>)"

section \<open>Locks and messages\<close>

abbreviation unlock_panic :: failure where
  "unlock_panic \<equiv> Panic ''sync: unlock of unlocked mutex''"

definition lock_flag :: "bool \<Rightarrow> bool res" where
  "lock_flag held = (if held then Inl (Err ''blocked'') else Inr True)"

definition unlock_flag :: "bool \<Rightarrow> bool res" where
  "unlock_flag held = (if held then Inr False else Inl unlock_panic)"

definition emit_pbft :: "consensus_message list \<Rightarrow> Replica \<Rightarrow> Replica" where
  "emit_pbft ms r = r\<lparr> rp_sent := rp_sent r @ ms \<rparr>"

text \<open>To the other nodes of the shard; \<open>peers\<close> are the keys of its node table in the order of \<open>range\<close>.\<close>

definition broadcast :: "ChainConfig \<Rightarrow> string list \<Rightarrow> (string \<Rightarrow> consensus_message) \<Rightarrow> Replica \<Rightarrow> Replica" where
  "broadcast cfg peers msg r = emit_pbft (map msg (filter (\<lambda>i. i \<noteq> NodeID cfg) peers)) r"

section \<open>Requests\<close>

definition pool_get :: "(string \<rightharpoonup> Request) option \<Rightarrow> string \<Rightarrow> Request option" where
  "pool_get pool d = (case pool of None \<Rightarrow> None | Some m \<Rightarrow> m d)"

definition find_request :: "string \<Rightarrow> string \<Rightarrow> Replica \<Rightarrow> Request option" where
  "find_request typ d r =
     (if typ = ''Block'' then messagePool r d
      else if typ = ''EpochChange'' then pool_get (mmessagePool r) d else pool_get (smessagePool r) d)"

definition put_request :: "string \<Rightarrow> Request \<Rightarrow> (string \<rightharpoonup> Request) option \<Rightarrow> (string \<rightharpoonup> Request) option res" where
  "put_request d q pool = (case pool of None \<Rightarrow> Inl (Panic ''assignment to entry in nil map'') | Some m \<Rightarrow> Inr (Some (m(d \<mapsto> q))))"

definition store_request :: "string \<Rightarrow> string \<Rightarrow> Request \<Rightarrow> Replica \<Rightarrow> Replica res" where
  "store_request typ d q r =
     (if typ = ''Block'' then Inr (r\<lparr> messagePool := (messagePool r)(d \<mapsto> q) \<rparr>)
      else if typ = ''EpochChange'' then bind_res (put_request d q (mmessagePool r)) (\<lambda>m. Inr (r\<lparr> mmessagePool := m \<rparr>))
      else bind_res (put_request d q (smessagePool r)) (\<lambda>m. Inr (r\<lparr> smessagePool := m \<rparr>)))"

definition wrong_sequence :: "ChainConfig \<Rightarrow> string \<Rightarrow> int \<Rightarrow> Replica \<Rightarrow> bool" where
  "wrong_sequence cfg typ seq r \<longleftrightarrow> typ = ''Block'' \<and> sequenceID (rp_node r) \<noteq> seq
     \<or> Stop_When_Migrating cfg \<and> typ = ''EpochChange'' \<and> msequenceID (rp_epoch r) \<noteq> seq
     \<or> Stop_When_Migrating cfg \<and> typ = ''AccState'' \<and> ssequenceID (rp_epoch r) \<noteq> seq"

definition DecodeBlock :: "Request \<Rightarrow> Block res" where
  "DecodeBlock q = (case rq_Content q of BlockContent b \<Rightarrow> Inr b | _ \<Rightarrow> Inl log_panic)"

text \<open>\<open>IsBlockValid\<close> accepts every block.\<close>

definition IsBlockValid :: "Block \<Rightarrow> bool" where
  "IsBlockValid b = True"

section \<open>The proposal\<close>

definition propose :: "env \<Rightarrow> ChainConfig \<Rightarrow> string list \<Rightarrow> (Request \<Rightarrow> string) \<Rightarrow> u64 \<Rightarrow> int \<Rightarrow> int \<Rightarrow> Replica \<Rightarrow> Replica res" where
  "propose e cfg peers dig time now msgid r =
     (let l = rp_node r; p = ld_pbft l; seq = sequenceID l in
      bind_res (GenerateBlock (ev_hashes e) cfg (ev_clock e) time seq (chain p)) (\<lambda>(b, n).
        let q = \<lparr> rq_Content = BlockContent b, rq_ID = msgid, rq_Timestamp = now \<rparr>; d = dig q in
        Inr (broadcast cfg peers (\<lambda>i. PrePrepareMsg i q d seq ''Block'')
          (r\<lparr> rp_node := l\<lparr> ld_pbft := p\<lparr> chain := n \<rparr> \<rparr>, messagePool := (messagePool r)(d \<mapsto> q),
             height2Digest := (height2Digest r)(seq \<mapsto> d) \<rparr>))))"

definition handlePrePrepare :: "ChainConfig \<Rightarrow> string list \<Rightarrow> (Request \<Rightarrow> string) \<Rightarrow> Request \<Rightarrow> string \<Rightarrow> int \<Rightarrow> string
    \<Rightarrow> Replica \<Rightarrow> Replica res" where
  "handlePrePrepare cfg peers dig q d seq typ r =
     (if dig q \<noteq> d then Inr r
      else if wrong_sequence cfg typ seq r then Inr r
      else bind_res (if typ = ''Block'' then bind_res (DecodeBlock q) (\<lambda>b. Inr (IsBlockValid b)) else Inr True) (\<lambda>valid.
        if \<not> valid then Inr r
        else bind_res (store_request typ d q r) (\<lambda>r1. Inr (broadcast cfg peers (\<lambda>i. PrepareMsg i d seq (NodeID cfg) typ) r1))))"

section \<open>Votes\<close>

definition add_voter :: "string \<Rightarrow> string list \<Rightarrow> string list" where
  "add_voter node vs = (if node \<in> set vs then vs else vs @ [node])"

definition setPrePareConfirmMap :: "string \<Rightarrow> string \<Rightarrow> Replica \<Rightarrow> Replica" where
  "setPrePareConfirmMap d node r = r\<lparr> prePareConfirmCount := (prePareConfirmCount r)(d := add_voter node (prePareConfirmCount r d)) \<rparr>"

definition setCommitConfirmMap :: "string \<Rightarrow> string \<Rightarrow> Replica \<Rightarrow> Replica" where
  "setCommitConfirmMap d node r = r\<lparr> commitConfirmCount := (commitConfirmCount r)(d := add_voter node (commitConfirmCount r d)) \<rparr>"

definition handlePrepare :: "ChainConfig \<Rightarrow> string list \<Rightarrow> string \<Rightarrow> int \<Rightarrow> string \<Rightarrow> string \<Rightarrow> Replica \<Rightarrow> Replica res" where
  "handlePrepare cfg peers d seq node typ r =
     (if find_request typ d r = None then Inr r
      else if wrong_sequence cfg typ seq r then Inr r
      else
        let r1 = setPrePareConfirmMap d node r; count = length (prePareConfirmCount r1 d); specifiedCount = 2 * malicious_num in
        bind_res (lock_flag (pbft_lock r1)) (\<lambda>_.
          Inr (if specifiedCount \<le> count \<and> \<not> flag (isCommitBordcast r1) d
            then (broadcast cfg peers (\<lambda>i. CommitMsg i d seq (NodeID cfg) typ) r1)\<lparr> isCommitBordcast := (isCommitBordcast r1)(d \<mapsto> True) \<rparr>
            else r1)))"

section \<open>The committed block\<close>

text \<open>As in \<open>commit1\<close>, without the cases of the probe, of the failure experiment and of Stage 3.\<close>

definition pbft_commit_one :: "ChainConfig \<Rightarrow> int \<Rightarrow> Transaction \<Rightarrow> commit_acc \<Rightarrow> commit_acc res" where
  "pbft_commit_one cfg now v st =
     bind_res (Addr2Shard cfg (from_addr v) (ca_acc st)) (\<lambda>(_, g1).
     bind_res (Addr2Shard cfg (to_addr v) g1) (\<lambda>(toid, g2).
       (let here = self_shard cfg; st1 = st\<lparr> ca_acc := g2 \<rparr>;
            committed = v\<lparr> CommitTime := now \<rparr>; relayed = v\<lparr> IsRelay := True \<rparr> in
        Inr (if here = toid then
               (if recipient_locked cfg g2 v
                then st1\<lparr> ca_count := ca_count st + 1, ca_done := ca_done st @ [relayed] \<rparr>
                else st1\<lparr> ca_commit := ca_commit st @ [committed], ca_done := ca_done st @ [committed],
                  ca_count := ca_count st + (if IsRelay v then 1 else 0) \<rparr>)
             else if IsRelay v then st1\<lparr> ca_count := ca_count st + 1, ca_done := ca_done st @ [v] \<rparr>
             else st1\<lparr> ca_relay := ca_relay st @ [relayed], ca_count := ca_count st + 1, ca_done := ca_done st @ [relayed] \<rparr>))))"

definition pbft_commit_txs :: "ChainConfig \<Rightarrow> int \<Rightarrow> Transaction list \<Rightarrow> Globals \<Rightarrow> commit_acc res" where
  "pbft_commit_txs cfg now txs g = fold_res (pbft_commit_one cfg now) txs
     \<lparr> ca_acc = g, ca_commit = [], ca_relay = [], ca_count = 0, ca_done = [] \<rparr>"

definition pbft_settle_block :: "env \<Rightarrow> ChainConfig \<Rightarrow> Block \<Rightarrow> Globals \<Rightarrow> Pbft \<Rightarrow> Pbft" where
  "pbft_settle_block e cfg b g p =
     (let p1 = upd_acc g p;
          p2 = lock_requested cfg (TXmig1s b) (p1\<lparr> chain := (chain p1)\<lparr> CurrentBlock := b \<rparr> \<rparr>)
      in if \<not> Not_Lock_immediately cfg then upd_pool (LockTX cfg (Acc (chain p2)) (ev_clock e)) p2 else p2)"

definition pbft_sends :: "env \<Rightarrow> ChainConfig \<Rightarrow> int \<Rightarrow> Block \<Rightarrow> Transaction list \<Rightarrow> balances \<Rightarrow> state_tree
    \<Rightarrow> (int \<Rightarrow> TXmig2 list) \<times> Pbft \<Rightarrow> ((int \<Rightarrow> TXmig2 list) \<times> Pbft) res" where
  "pbft_sends e cfg seq b relaytxs outbalance tree = (\<lambda>(out, p).
     bind_res (if relaytxs \<noteq> [] then TryRelay (ev_prove_tx e) (ev_prove_state e) cfg (ev_keys e) tree relaytxs p else Inr p) (\<lambda>p1.
     if \<not> Stop_When_Migrating cfg \<and> \<not> Fail cfg then
       bind_res (if Cross_Chain cfg \<or> TXmig1s b \<noteq> []
           then TryTXmig1 (ev_prove_mig1 e) (ev_prove_state e) cfg (ev_keys e) seq tree outbalance (TXmig1s b) (out, p1)
           else Inr (out, p1)) (\<lambda>(out', p2).
       bind_res (if TXmig2s b \<noteq> [] then TryAnnounce (ev_prove_mig2 e) (ev_prove_state e) cfg (ev_keys e) tree (TXmig2s b) p2
           else Inr p2) (\<lambda>p3. Inr (out', p3)))
     else Inr (out, p1)))"

definition pbft_commit_leader :: "env \<Rightarrow> ChainConfig \<Rightarrow> int \<Rightarrow> Block \<Rightarrow> balances \<Rightarrow> state_tree
    \<Rightarrow> (int \<Rightarrow> TXmig2 list) \<times> Pbft \<Rightarrow> ((int \<Rightarrow> TXmig2 list) \<times> Pbft) res" where
  "pbft_commit_leader e cfg seq b outbalance tree = (\<lambda>(out, p).
     bind_res (pbft_commit_txs cfg (ev_now e) (Transactions b) (Acc (chain p))) (\<lambda>st.
     bind_res (handleAnns (ev_prove_ann e) (ev_prove_state e) (ev_names e) cfg (ev_ann_clock e) tree (Anns b)
         (pbft_settle_block e cfg (b\<lparr> Transactions := ca_done st \<rparr>) (ca_acc st) (record_balances cfg outbalance p))) (\<lambda>p6.
     bind_res (pbft_sends e cfg seq (b\<lparr> Transactions := ca_done st \<rparr>) (ca_relay st) outbalance tree (out, p6)) (\<lambda>(out', p7).
       (let size = length (TXmig1s b) + length (TXmig2s b) + length (Anns b) + length (NSs b) + length (Transactions b)
        in Inr (out', restart_times cfg seq (ev_now e) (emit (ReplyMsg (ca_commit st) size (length (NSs b))) p7)))))))"

definition apply_block :: "env \<Rightarrow> ChainConfig \<Rightarrow> Block \<Rightarrow> Leader \<Rightarrow> Leader res" where
  "apply_block e cfg b l =
     (let p = ld_pbft l; seq = sequenceID l in
      bind_res (AddBlock (ev_hashes e) cfg b (chain p)) (\<lambda>(outbalance, n).
      bind_res (if NodeID cfg = ''N0''
          then pbft_commit_leader e cfg seq (CurrentBlock n) outbalance (StateTree n) (TryOutPool l, p\<lparr> chain := n \<rparr>)
          else Inr (TryOutPool l, p\<lparr> chain := n \<rparr>)) (\<lambda>(out, p').
        Inr (l\<lparr> ld_pbft := p', TryOutPool := out, sequenceID := seq + 1 \<rparr>))))"

section \<open>\<open>handleCommit\<close>\<close>

text \<open>A step of the epoch change on the node of the replica.\<close>

definition on_epoch :: "(EpochNode \<Rightarrow> EpochNode res) \<Rightarrow> Replica \<Rightarrow> Replica res" where
  "on_epoch f r = bind_res (f ((rp_epoch r)\<lparr> ep_pbft := ld_pbft (rp_node r) \<rparr>)) (\<lambda>ep.
     Inr (r\<lparr> rp_epoch := ep, rp_node := (rp_node r)\<lparr> ld_pbft := ep_pbft ep \<rparr> \<rparr>))"

definition unlock_sequence :: "ChainConfig \<Rightarrow> Replica \<Rightarrow> Replica res" where
  "unlock_sequence cfg r =
     (if NodeID cfg = ''N0'' then bind_res (unlock_flag (sequenceLock r)) (\<lambda>b. Inr (r\<lparr> sequenceLock := b \<rparr>)) else Inr r)"

definition unlock_epoch :: "ChainConfig \<Rightarrow> Replica \<Rightarrow> Replica res" where
  "unlock_epoch cfg r =
     (if NodeID cfg = ''N0'' \<and> Stop_When_Migrating cfg
      then bind_res (unlock_flag (epochLock (rp_epoch r))) (\<lambda>b. Inr (r\<lparr> rp_epoch := (rp_epoch r)\<lparr> epochLock := b \<rparr> \<rparr>)) else Inr r)"

definition commit_request :: "env \<Rightarrow> ChainConfig \<Rightarrow> string list \<Rightarrow> string \<Rightarrow> Request \<Rightarrow> string \<Rightarrow> Replica \<Rightarrow> Replica res" where
  "commit_request e cfg keys typ q d r =
     (if typ = ''Block'' then
        bind_res (DecodeBlock q) (\<lambda>b.
        bind_res (apply_block e cfg b (rp_node r)) (\<lambda>l.
        bind_res (unlock_sequence cfg (r\<lparr> rp_node := l, isReply := (isReply r)(d \<mapsto> True) \<rparr>)) (unlock_epoch cfg)))
      else
        bind_res (if typ = ''EpochChange'' then
            (case rq_Content q of MapContent new \<Rightarrow> on_epoch (commit_EpochChange cfg keys new) r | _ \<Rightarrow> Inl log_panic)
          else
            (case rq_Content q of StatesContent xs \<Rightarrow> on_epoch (commit_AccState cfg keys xs) r | _ \<Rightarrow> Inl log_panic)) (\<lambda>r1.
          unlock_sequence cfg (r1\<lparr> isReply := (isReply r1)(d \<mapsto> True) \<rparr>)))"

definition requestBlocks :: "ChainConfig \<Rightarrow> int \<Rightarrow> int \<Rightarrow> Replica \<Rightarrow> Replica" where
  "requestBlocks cfg startID endID r = emit_pbft [RequestBlocksMsg ''N0'' startID endID (NodeID cfg)] r"

text \<open>What a quorum of commits does, under the lock.\<close>

definition quorum_reached :: "env \<Rightarrow> ChainConfig \<Rightarrow> string list \<Rightarrow> string \<Rightarrow> int \<Rightarrow> string \<Rightarrow> Replica \<Rightarrow> Replica res" where
  "quorum_reached e cfg keys d seq typ r =
     (case find_request typ d r of
        Some q \<Rightarrow> commit_request e cfg keys typ q d r
      | None \<Rightarrow>
          if typ = ''Block'' then
            bind_res (lock_flag (requestLock r)) (\<lambda>b.
              Inr (requestBlocks cfg (sequenceID (rp_node r)) seq (r\<lparr> isReply := (isReply r)(d \<mapsto> True), requestLock := b \<rparr>)))
          else Inr r)"

text \<open>The unlocking at the end stands outside the test of the quorum, the locking within it.\<close>

definition handleCommit :: "env \<Rightarrow> ChainConfig \<Rightarrow> string list \<Rightarrow> string \<Rightarrow> int \<Rightarrow> string \<Rightarrow> string \<Rightarrow> Replica \<Rightarrow> Replica res" where
  "handleCommit e cfg keys d seq node typ r =
     (let r1 = setCommitConfirmMap d node r; count = length (commitConfirmCount r1 d) in
      bind_res (if 2 * malicious_num < count \<and> \<not> flag (isReply r1) d then
          bind_res (lock_flag (pbft_lock r1)) (\<lambda>b. quorum_reached e cfg keys d seq typ (r1\<lparr> pbft_lock := b \<rparr>))
        else Inr r1) (\<lambda>r2.
      bind_res (unlock_flag (pbft_lock r2)) (\<lambda>b. Inr (r2\<lparr> pbft_lock := b \<rparr>))))"

section \<open>Blocks for a late replica\<close>

definition find_block :: "Replica \<Rightarrow> int \<Rightarrow> Block list \<Rightarrow> Block list res" where
  "find_block r k bs =
     (case messagePool r (case height2Digest r k of None \<Rightarrow> '''' | Some d \<Rightarrow> d) of
        None \<Rightarrow> Inl log_panic
      | Some q \<Rightarrow> bind_res (DecodeBlock q) (\<lambda>b. Inr (bs @ [b])))"

definition handleRequestBlock :: "int \<Rightarrow> int \<Rightarrow> string \<Rightarrow> Replica \<Rightarrow> Replica res" where
  "handleRequestBlock startID endID node r =
     bind_res (fold_res (find_block r) [startID..endID] []) (\<lambda>bs. Inr (emit_pbft [SendBlocksMsg node startID endID bs] r))"

definition add_sent_block :: "env \<Rightarrow> ChainConfig \<Rightarrow> int \<Rightarrow> Block list \<Rightarrow> int \<Rightarrow> Replica \<Rightarrow> Replica res" where
  "add_sent_block e cfg startID bs k r =
     bind_res (slice_at bs (k - startID)) (\<lambda>b.
     bind_res (AddBlock (ev_hashes e) cfg b (chain (ld_pbft (rp_node r)))) (\<lambda>(_, n).
       Inr (r\<lparr> rp_node := (rp_node r)\<lparr> ld_pbft := (ld_pbft (rp_node r))\<lparr> chain := n \<rparr> \<rparr> \<rparr>)))"

definition handleSendBlock :: "env \<Rightarrow> ChainConfig \<Rightarrow> int \<Rightarrow> int \<Rightarrow> Block list \<Rightarrow> Replica \<Rightarrow> Replica res" where
  "handleSendBlock e cfg startID endID bs r =
     bind_res (fold_res (add_sent_block e cfg startID bs) [startID..endID] r) (\<lambda>r1.
     bind_res (unlock_flag (requestLock r1)) (\<lambda>b.
       Inr (r1\<lparr> rp_node := (rp_node r1)\<lparr> sequenceID := endID + 1 \<rparr>, requestLock := b \<rparr>)))"

section \<open>\<open>Propose\<close>\<close>

text \<open>
  One look of the loop at the clock: it waits for the first transactions, for its round and for the interval
  since the last block, and otherwise makes the next one. In the stop mode it waits for the epoch change. The
  clock is read again, as \<open>again\<close>, when the block is due and \<open>sequenceLock\<close> is taken.
\<close>

definition propose_due :: "ChainConfig \<Rightarrow> int \<Rightarrow> Replica \<Rightarrow> bool" where
  "propose_due cfg now r \<longleftrightarrow>
     \<not> (ClientSendTX cfg \<and> sequenceID (rp_node r) = bootstrapSeqID r \<and> Queue (Pool (chain (ld_pbft (rp_node r)))) = [])
     \<and> \<not> (Stop_When_Migrating cfg \<and> epochLock (rp_epoch r))
     \<and> (round_no r - 1) * Block_interval cfg \<le> now - InitTime r \<and> Block_interval cfg \<le> now - lastpropose r"

definition Propose :: "env \<Rightarrow> ChainConfig \<Rightarrow> u64 \<times> int \<times> int \<Rightarrow> Replica \<Rightarrow> Replica res" where
  "Propose e cfg = (\<lambda>(time, now, again) r.
     (if \<not> propose_due cfg now r then Inr r
      else bind_res (propose1 e cfg time (rp_node r)) (\<lambda>l.
        Inr (r\<lparr> rp_node := l, round_no := round_no r + 1, lastpropose := again \<rparr>))))"

text \<open>The client's start time: it is not taken from the future, and the rounds are counted from it.\<close>

definition handleLLT :: "int \<Rightarrow> int \<Rightarrow> int \<Rightarrow> Replica \<Rightarrow> Replica" where
  "handleLLT inittime now again r =
     (let anchor = (if inittime > now then now else inittime) in r\<lparr> round_no := 1, InitTime := anchor, lastpropose := again \<rparr>)"

section \<open>Steps\<close>

datatype pbft_event =
    GotPrePrepare Request string int string
  | GotPrepare string int string string
  | GotCommit string int string string
  | GotRequestBlock int int string
  | GotSendBlock int int "Block list"
  | ProposeBlock u64 int int

definition pbft_step :: "env \<Rightarrow> ChainConfig \<Rightarrow> string list \<Rightarrow> string list \<Rightarrow> (Request \<Rightarrow> string) \<Rightarrow> pbft_event \<Rightarrow> Replica \<Rightarrow> Replica res" where
  "pbft_step e cfg keys peers dig ev r =
     (case ev of
        GotPrePrepare q d seq typ \<Rightarrow> handlePrePrepare cfg peers dig q d seq typ r
      | GotPrepare d seq node typ \<Rightarrow> handlePrepare cfg peers d seq node typ r
      | GotCommit d seq node typ \<Rightarrow> handleCommit e cfg keys d seq node typ r
      | GotRequestBlock s t node \<Rightarrow> handleRequestBlock s t node r
      | GotSendBlock s t bs \<Rightarrow> handleSendBlock e cfg s t bs r
      | ProposeBlock time now msgid \<Rightarrow> propose e cfg peers dig time now msgid r)"

end
