(* ===== verification/ConsensusRun.thy ===== *)
theory ConsensusRun
  imports Consensus
begin

text \<open>What the three phases achieve: votes that are backed, the committed block, blocks for late replicas, the pace.\<close>

section \<open>The lock of the commit phase\<close>

definition is_commit :: "pbft_event \<Rightarrow> bool" where
  "is_commit ev \<longleftrightarrow> (case ev of GotCommit d seq node typ \<Rightarrow> True | _ \<Rightarrow> False)"

definition fresh :: "Replica \<Rightarrow> bool" where
  "fresh r \<longleftrightarrow> \<not> pbft_lock r \<and> (\<forall>d. commitConfirmCount r d = [])"

lemma fresh_new: "fresh (NewPBFT cfg n)"
  by (simp add: fresh_def NewPBFT_def Let_def)

lemma fresh_commit_fails:
  assumes "fresh r"
  shows "handleCommit e cfg keys d seq node typ r = Inl unlock_panic"
  using assms by (simp add: handleCommit_def fresh_def setCommitConfirmMap_def add_voter_def malicious_num_def unlock_flag_def Let_def)

lemma broadcast_sel [simp]:
  "pbft_lock (broadcast cfg peers m r) = pbft_lock r" "commitConfirmCount (broadcast cfg peers m r) = commitConfirmCount r"
  "prePareConfirmCount (broadcast cfg peers m r) = prePareConfirmCount r" "isCommitBordcast (broadcast cfg peers m r) = isCommitBordcast r"
  "find_request typ d (broadcast cfg peers m r) = find_request typ d r"
  "rp_sent (broadcast cfg peers m r) = rp_sent r @ map m (filter (\<lambda>i. i \<noteq> NodeID cfg) peers)"
  by (simp_all add: broadcast_def emit_pbft_def find_request_def)

lemma store_request_sel:
  assumes "store_request typ d q r = Inr r'"
  shows "pbft_lock r' = pbft_lock r" "commitConfirmCount r' = commitConfirmCount r" "prePareConfirmCount r' = prePareConfirmCount r"
    "isCommitBordcast r' = isCommitBordcast r" "rp_sent r' = rp_sent r"
    "find_request typ' d' r' = find_request typ' d' r \<or> find_request typ' d' r' = Some q \<and> d' = d"
    "find_request typ' d' r = Some q' \<Longrightarrow> find_request typ' d' r' \<noteq> None"
proof -
  consider (b) "typ = ''Block''" "r' = r\<lparr> messagePool := (messagePool r)(d \<mapsto> q) \<rparr>"
    | (m) m where "typ = ''EpochChange''" "mmessagePool r = Some m" "r' = r\<lparr> mmessagePool := Some (m(d \<mapsto> q)) \<rparr>"
    | (s) m where "typ \<noteq> ''Block''" "typ \<noteq> ''EpochChange''" "smessagePool r = Some m" "r' = r\<lparr> smessagePool := Some (m(d \<mapsto> q)) \<rparr>"
    using assms by (auto simp: store_request_def put_request_def bind_res_eq_Inr split: if_splits option.splits)
  note cs = this
  show "pbft_lock r' = pbft_lock r" "commitConfirmCount r' = commitConfirmCount r" "prePareConfirmCount r' = prePareConfirmCount r"
    "isCommitBordcast r' = isCommitBordcast r" "rp_sent r' = rp_sent r"
    by (cases rule: cs; simp)+
  show "find_request typ' d' r' = find_request typ' d' r \<or> find_request typ' d' r' = Some q \<and> d' = d"
    by (cases rule: cs) (simp_all add: find_request_def pool_get_def)
  show "find_request typ' d' r' \<noteq> None" if "find_request typ' d' r = Some q'"
    using that by (cases rule: cs) (auto simp: find_request_def pool_get_def split: if_splits)
qed

text \<open>The fields that the votes and the pools use, after the blocks of another node.\<close>

lemma sent_blocks_sel:
  assumes "fold_res (add_sent_block e cfg s bs) ks r = Inr r'"
  shows "\<exists>l. r' = r\<lparr> rp_node := l \<rparr>"
proof (rule fold_res_inv [where P = "\<lambda>r'. \<exists>l. r' = r\<lparr> rp_node := l \<rparr>", OF assms])
  show "\<exists>l. r = r\<lparr> rp_node := l \<rparr>" by (rule exI [of _ "rp_node r"]) simp
qed (auto simp: add_sent_block_def bind_res_eq_Inr)

lemma handleSendBlock_sel:
  assumes "handleSendBlock e cfg s t bs r = Inr r'"
  shows "\<exists>l b. r' = r\<lparr> rp_node := l, requestLock := b \<rparr>"
  using assms sent_blocks_sel by (fastforce simp: handleSendBlock_def bind_res_eq_Inr)

section \<open>Votes\<close>

text \<open>The nodes whose Prepare for a digest is among the events.\<close>

definition preparers :: "pbft_event list \<Rightarrow> string \<Rightarrow> string set" where
  "preparers evs d = {v. \<exists>seq typ. GotPrepare d seq v typ \<in> set evs}"

definition commit_votes :: "string \<Rightarrow> string \<Rightarrow> Replica \<Rightarrow> consensus_message list" where
  "commit_votes i d r = filter (\<lambda>m. case m of CommitMsg j d' seq node typ \<Rightarrow> j = i \<and> d' = d | _ \<Rightarrow> False) (rp_sent r)"

definition votes_ok :: "ChainConfig \<Rightarrow> string list \<Rightarrow> (Request \<Rightarrow> string) \<Rightarrow> pbft_event list \<Rightarrow> Replica \<Rightarrow> bool" where
  "votes_ok cfg peers dig evs r \<longleftrightarrow> fresh r
    \<and> (\<forall>typ d q. find_request typ d r = Some q \<longrightarrow> dig q = d)
    \<and> (\<forall>d. distinct (prePareConfirmCount r d) \<and> set (prePareConfirmCount r d) \<subseteq> preparers evs d)
    \<and> (\<forall>d. flag (isCommitBordcast r) d \<longrightarrow> 2 \<le> length (prePareConfirmCount r d))
    \<and> (\<forall>i d. length (commit_votes i d r) \<le> (if flag (isCommitBordcast r) d then 1 else 0))
    \<and> (\<forall>i d seq node typ. CommitMsg i d seq node typ \<in> set (rp_sent r) \<longrightarrow> node = NodeID cfg \<and> i \<noteq> node \<and> find_request typ d r \<noteq> None)"

lemma add_voter_props:
  assumes "distinct vs"
  shows "distinct (add_voter v vs)" "set (add_voter v vs) = insert v (set vs)" "length vs \<le> length (add_voter v vs)"
  using assms by (auto simp: add_voter_def)

lemma NewPBFT_sel:
  "find_request typ d (NewPBFT cfg n) = None" "prePareConfirmCount (NewPBFT cfg n) = (\<lambda>_. [])"
  "isCommitBordcast (NewPBFT cfg n) = Map.empty" "rp_sent (NewPBFT cfg n) = []"
  by (simp_all add: NewPBFT_def Let_def find_request_def pool_get_def)

lemma votes_new: "votes_ok cfg peers dig [] (NewPBFT cfg n)"
  using fresh_new [of cfg n] by (simp add: votes_ok_def NewPBFT_sel commit_votes_def)

lemma preparers_mono: "preparers evs d \<subseteq> preparers (evs @ [ev]) d"
  by (auto simp: preparers_def)

text \<open>Messages that are not votes.\<close>

lemma votes_append:
  assumes "\<And>m. m \<in> set ms \<Longrightarrow> \<not> (\<exists>i d seq node typ. m = CommitMsg i d seq node typ)"
  shows "filter (\<lambda>m. case m of CommitMsg j d' seq node typ \<Rightarrow> j = i \<and> d' = d | _ \<Rightarrow> False) ms = []"
  using assms by (auto simp: filter_empty_conv split: consensus_message.splits)

lemma votes_okI:
  assumes "fresh r" "\<And>t d q. find_request t d r = Some q \<Longrightarrow> dig q = d" "\<And>d. distinct (prePareConfirmCount r d)"
    "\<And>d. set (prePareConfirmCount r d) \<subseteq> preparers evs d" "\<And>d. flag (isCommitBordcast r) d \<Longrightarrow> 2 \<le> length (prePareConfirmCount r d)"
    "\<And>i d. length (commit_votes i d r) \<le> (if flag (isCommitBordcast r) d then 1 else 0)"
    "\<And>i d s v t. CommitMsg i d s v t \<in> set (rp_sent r) \<Longrightarrow> v = NodeID cfg \<and> i \<noteq> v \<and> find_request t d r \<noteq> None"
  shows "votes_ok cfg peers dig evs r"
  using assms by (simp add: votes_ok_def)

lemma votes_okD:
  assumes "votes_ok cfg peers dig evs r"
  shows "fresh r" "find_request t d r = Some q \<Longrightarrow> dig q = d" "distinct (prePareConfirmCount r d)"
    "flag (isCommitBordcast r) d \<Longrightarrow> 2 \<le> length (prePareConfirmCount r d)"
    "length (commit_votes i d r) \<le> (if flag (isCommitBordcast r) d then 1 else 0)"
    "CommitMsg i d s v t \<in> set (rp_sent r) \<Longrightarrow> v = NodeID cfg \<and> i \<noteq> v \<and> find_request t d r \<noteq> None"
  using assms unfolding votes_ok_def by blast+

lemma votes_voters: "votes_ok cfg peers dig evs r \<Longrightarrow> set (prePareConfirmCount r d) \<subseteq> preparers evs d"
  by (simp add: votes_ok_def)

lemma votes_keep:
  assumes ok: "votes_ok cfg peers dig evs r" and fr: "fresh r'"
    and same: "prePareConfirmCount r' = prePareConfirmCount r" "isCommitBordcast r' = isCommitBordcast r" "rp_sent r' = rp_sent r @ ms"
    and ms: "\<And>m. m \<in> set ms \<Longrightarrow> \<not> (\<exists>i d seq node typ. m = CommitMsg i d seq node typ)"
    and pool: "\<And>typ d q. find_request typ d r' = Some q \<Longrightarrow> find_request typ d r = Some q \<or> dig q = d"
      "\<And>typ d. find_request typ d r \<noteq> None \<Longrightarrow> find_request typ d r' \<noteq> None"
  shows "votes_ok cfg peers dig (evs @ [ev]) r'"
proof -
  have "commit_votes i d r' = commit_votes i d r" for i d using votes_append [OF ms] by (simp add: commit_votes_def same(3))
  moreover have "CommitMsg i d seq node ty \<in> set (rp_sent r') \<longleftrightarrow> CommitMsg i d seq node ty \<in> set (rp_sent r)" for i d seq node ty
    using ms [of "CommitMsg i d seq node ty"] by (auto simp: same(3))
  moreover have "set (prePareConfirmCount r d) \<subseteq> preparers (evs @ [ev]) d" for d
    by (rule order_trans [OF votes_voters [OF ok] preparers_mono])
  note facts = this calculation
  show ?thesis
  proof (rule votes_okI [OF fr])
    show "dig q = d" if "find_request t d r' = Some q" for t d q using pool(1) [OF that] votes_okD(2) [OF ok] by blast
    show "CommitMsg i d s v t \<in> set (rp_sent r') \<Longrightarrow> v = NodeID cfg \<and> i \<noteq> v \<and> find_request t d r' \<noteq> None" for i d s v t
      using votes_okD(6) [OF ok] pool(2) facts by blast
  qed (use facts votes_okD [OF ok] in \<open>simp_all add: same(1,2)\<close>)
qed

lemma fresh_cong: "pbft_lock r' = pbft_lock r \<Longrightarrow> commitConfirmCount r' = commitConfirmCount r \<Longrightarrow> fresh r \<Longrightarrow> fresh r'"
  by (simp add: fresh_def)

lemma prePrepare_votes:
  assumes "handlePrePrepare cfg peers dig q d seq typ r = Inr r'" "votes_ok cfg peers dig evs r"
  shows "votes_ok cfg peers dig (evs @ [ev]) r'"
proof (cases "r' = r")
  case True
  with assms(2) show ?thesis by (intro votes_keep [of cfg peers dig evs r r' "[]"]) (auto simp: votes_ok_def)
next
  case False
  with assms(1) obtain r1 where d: "dig q = d" and st: "store_request typ d q r = Inr r1"
    and r': "r' = broadcast cfg peers (\<lambda>i. PrepareMsg i d seq (NodeID cfg) typ) r1"
    by (auto simp: handlePrePrepare_def bind_res_eq_Inr IsBlockValid_def split: if_splits)
  note sel = store_request_sel [OF st]
  have "fresh r" using assms(2) by (simp add: votes_ok_def)
  then have "fresh r'" by (rule fresh_cong [rotated 2]) (simp_all add: r' sel)
  then show ?thesis
  proof (rule votes_keep [OF assms(2)])
    show "prePareConfirmCount r' = prePareConfirmCount r" "isCommitBordcast r' = isCommitBordcast r"
      "rp_sent r' = rp_sent r @ map (\<lambda>i. PrepareMsg i d seq (NodeID cfg) typ) (filter (\<lambda>i. i \<noteq> NodeID cfg) peers)" by (simp_all add: r' sel)
    show "find_request t x r = Some y \<or> dig y = x" if "find_request t x r' = Some y" for t x y
      using sel(6) [of t x] that d by (auto simp: r')
    show "find_request t x r' \<noteq> None" if "find_request t x r \<noteq> None" for t x
      using sel(7) [of t x] that by (auto simp: r')
  qed auto
qed

lemma filter_one: "distinct xs \<Longrightarrow> length (filter (\<lambda>j. j = i \<and> Q) xs) \<le> (if Q then 1 else 0)"
  by (induction xs) (auto simp: filter_empty_conv)

lemma prepare_votes:
  assumes "handlePrepare cfg peers d seq node typ r = Inr r'" "votes_ok cfg peers dig evs r" "distinct peers"
  shows "votes_ok cfg peers dig (evs @ [GotPrepare d seq node typ]) r'"
proof (cases "find_request typ d r = None \<or> wrong_sequence cfg typ seq r")
  case True
  then have "r' = r" using assms(1) by (auto simp: handlePrepare_def split: if_splits)
  with assms(2) show ?thesis by (intro votes_keep [of cfg peers dig evs r r' "[]"]) (auto simp: votes_ok_def)
next
  case False
  let ?vs = "prePareConfirmCount r d" and ?r1 = "setPrePareConfirmMap d node r"
  have vs: "distinct ?vs" "set ?vs \<subseteq> preparers evs d" "fresh r" using assms(2) by (auto simp: votes_ok_def)
  have f1: "find_request t x ?r1 = find_request t x r" for t x by (simp add: setPrePareConfirmMap_def find_request_def)
  have sel1: "isCommitBordcast ?r1 = isCommitBordcast r" "rp_sent ?r1 = rp_sent r" "fresh ?r1"
    "prePareConfirmCount ?r1 x = (if x = d then add_voter node ?vs else prePareConfirmCount r x)" for x
    using vs(3) by (simp_all add: setPrePareConfirmMap_def fresh_def)
  note av = add_voter_props [OF vs(1), of node]
  have one: "votes_ok cfg peers dig (evs @ [GotPrepare d seq node typ]) ?r1"
  proof -
    have "set (prePareConfirmCount ?r1 x) \<subseteq> preparers (evs @ [GotPrepare d seq node typ]) x" for x
    proof (cases "x = d")
      case True
      have "node \<in> preparers (evs @ [GotPrepare d seq node typ]) d" by (auto simp: preparers_def)
      with True vs(2) preparers_mono [of evs d "GotPrepare d seq node typ"] show ?thesis unfolding sel1(4) by (auto simp: av(2))
    next
      case False
      then show ?thesis
        using order_trans [OF votes_voters [OF assms(2)] preparers_mono] unfolding sel1(4) by simp
    qed
    moreover have "flag (isCommitBordcast r) x \<Longrightarrow> 2 \<le> length (prePareConfirmCount ?r1 x)" for x
      using votes_okD(4) [OF assms(2), of x] av(3) unfolding sel1(4) by (cases "x = d") auto
    moreover have "commit_votes i x ?r1 = commit_votes i x r" for i x by (simp add: commit_votes_def sel1)
    note facts = this calculation
    show ?thesis
      by (rule votes_okI) (use facts votes_okD [OF assms(2)] av(1) in \<open>simp_all add: sel1 f1\<close>)
  qed
  show ?thesis
  proof (cases "2 \<le> length (prePareConfirmCount ?r1 d) \<and> \<not> flag (isCommitBordcast r) d")
    case False
    with assms(1) \<open>\<not> (find_request typ d r = None \<or> _)\<close> have "r' = ?r1"
      by (auto simp: handlePrepare_def Let_def lock_flag_def malicious_num_def sel1 split: if_splits)
    with one show ?thesis by simp
  next
    case True
    let ?msgs = "map (\<lambda>i. CommitMsg i d seq (NodeID cfg) typ) (filter (\<lambda>i. i \<noteq> NodeID cfg) peers)"
    have r': "r' = (broadcast cfg peers (\<lambda>i. CommitMsg i d seq (NodeID cfg) typ) ?r1)\<lparr> isCommitBordcast := (isCommitBordcast ?r1)(d \<mapsto> True) \<rparr>"
      using assms(1) \<open>\<not> (find_request typ d r = None \<or> _)\<close> True
      by (auto simp: handlePrepare_def Let_def lock_flag_def malicious_num_def sel1 split: if_splits)
    have fq: "find_request t x r' = find_request t x r" for t x
      unfolding f1 [of t x, symmetric] by (simp add: r' find_request_def broadcast_def emit_pbft_def)
    have sel: "prePareConfirmCount r' = prePareConfirmCount ?r1" "rp_sent r' = rp_sent r @ ?msgs"
      "isCommitBordcast r' = (isCommitBordcast r)(d \<mapsto> True)" "fresh r'"
      using sel1 by (simp_all add: r' fresh_def)
    have none: "commit_votes i d r = []" for i using True votes_okD(5) [OF assms(2), of i d] by simp
    have "length (filter (\<lambda>m. case m of CommitMsg j d' seq node typ \<Rightarrow> j = i \<and> d' = x | _ \<Rightarrow> False) ?msgs) \<le> (if x = d then 1 else 0)" for i x
    proof -
      have "filter (\<lambda>m. case m of CommitMsg j d' seq node typ \<Rightarrow> j = i \<and> d' = x | _ \<Rightarrow> False) ?msgs
          = map (\<lambda>i. CommitMsg i d seq (NodeID cfg) typ) (filter (\<lambda>j. j = i \<and> d = x) (filter (\<lambda>i. i \<noteq> NodeID cfg) peers))"
        by (simp add: filter_map comp_def)
      moreover have "length (filter (\<lambda>j. j = i \<and> d = x) (filter (\<lambda>i. i \<noteq> NodeID cfg) peers)) \<le> (if d = x then 1 else 0)"
        by (rule filter_one) (use assms(3) in simp)
      ultimately show ?thesis by (cases "x = d") simp_all
    qed
    note fil = this
    have "length (commit_votes i x r') \<le> (if flag (isCommitBordcast r') x then 1 else 0)" for i x
    proof (cases "x = d")
      case True
      then show ?thesis using fil [of i d] none [of i] by (simp add: commit_votes_def sel)
    next
      case False
      then have "commit_votes i x r' = commit_votes i x r" using fil [of i x] by (simp add: commit_votes_def sel)
      with False votes_okD(5) [OF assms(2), of i x] show ?thesis by (simp add: sel)
    qed
    moreover have "CommitMsg i x s v t \<in> set (rp_sent r') \<Longrightarrow> v = NodeID cfg \<and> i \<noteq> v \<and> find_request t x r' \<noteq> None" for i x s v t
      using votes_okD(6) [OF assms(2), of i x s v t] \<open>\<not> (find_request typ d r = None \<or> _)\<close> unfolding fq sel(2) by auto
    note facts = this calculation
    show ?thesis
    proof (rule votes_okI [OF sel(4)])
      show "dig q = x" if "find_request t x r' = Some q" for t x q using that votes_okD(2) [OF assms(2)] by (simp add: fq)
      show "2 \<le> length (prePareConfirmCount r' x)" if "flag (isCommitBordcast r') x" for x
        using that True votes_okD(4) [OF one, of x] by (auto simp: sel sel1(1) split: if_splits)
      show "set (prePareConfirmCount r' x) \<subseteq> preparers (evs @ [GotPrepare d seq node typ]) x" for x
        using votes_voters [OF one] by (simp add: sel)
      show "distinct (prePareConfirmCount r' x)" for x using votes_okD(3) [OF one] by (simp add: sel)
    qed (use facts in blast)+
  qed
qed

lemma pbft_step_votes:
  assumes "pbft_step e cfg keys peers dig ev r = Inr r'" "votes_ok cfg peers dig evs r" "distinct peers"
  shows "votes_ok cfg peers dig (evs @ [ev]) r' \<and> \<not> is_commit ev"
proof (cases ev)
  case (GotPrePrepare q d seq ty)
  with assms(1) prePrepare_votes [OF _ assms(2)] show ?thesis by (simp add: pbft_step_def is_commit_def)
next
  case (GotPrepare d seq node ty)
  with assms(1) prepare_votes [OF _ assms(2,3)] show ?thesis by (simp add: pbft_step_def is_commit_def)
next
  case (GotCommit d seq node ty)
  with assms(1) fresh_commit_fails votes_okD(1) [OF assms(2)] show ?thesis by (simp add: pbft_step_def)
next
  case (GotRequestBlock s t node)
  with assms(1) obtain bs where r': "r' = emit_pbft [SendBlocksMsg node s t bs] r"
    by (auto simp: pbft_step_def handleRequestBlock_def bind_res_eq_Inr)
  have f: "find_request ty d r' = find_request ty d r" for ty d by (simp add: r' emit_pbft_def find_request_def)
  have "votes_ok cfg peers dig (evs @ [ev]) r'"
    by (rule votes_keep [OF assms(2), where ms = "[SendBlocksMsg node s t bs]"])
      (use votes_okD(1) [OF assms(2)] f in \<open>auto simp: r' emit_pbft_def fresh_def\<close>)
  then show ?thesis by (simp add: GotRequestBlock is_commit_def)
next
  case (GotSendBlock s t bs)
  with assms(1) have "handleSendBlock e cfg s t bs r = Inr r'" by (simp add: pbft_step_def)
  from handleSendBlock_sel [OF this] obtain l b where r': "r' = r\<lparr> rp_node := l, requestLock := b \<rparr>" by blast
  have f: "find_request ty d r' = find_request ty d r" for ty d by (simp add: r' find_request_def)
  have "votes_ok cfg peers dig (evs @ [ev]) r'"
    by (rule votes_keep [OF assms(2), where ms = "[]"]) (use votes_okD(1) [OF assms(2)] f in \<open>auto simp: r' fresh_def\<close>)
  then show ?thesis by (simp add: GotSendBlock is_commit_def)
next
  case (ProposeBlock time now msgid)
  with assms(1) obtain l q seq h where
    r': "r' = broadcast cfg peers (\<lambda>i. PrePrepareMsg i q (dig q) seq ''Block'')
        (r\<lparr> rp_node := l, messagePool := (messagePool r)(dig q \<mapsto> q), height2Digest := h \<rparr>)"
    by (auto simp: pbft_step_def propose_def Let_def bind_res_eq_Inr)
  have f: "find_request ty d r' = (if ty = ''Block'' \<and> d = dig q then Some q else find_request ty d r)" for ty d
    unfolding r' broadcast_sel by (simp add: find_request_def)
  have "fresh r'" using votes_okD(1) [OF assms(2)] by (simp add: r' fresh_def)
  then have "votes_ok cfg peers dig (evs @ [ev]) r'"
    by (rule votes_keep [OF assms(2), where ms = "map (\<lambda>i. PrePrepareMsg i q (dig q) seq ''Block'') (filter (\<lambda>i. i \<noteq> NodeID cfg) peers)"])
      (simp_all add: f split: if_splits, simp_all add: r', auto)
  then show ?thesis by (simp add: ProposeBlock is_commit_def)
qed

lemma pbft_run_votes:
  assumes "fold_res (pbft_step e cfg keys peers dig) evs (NewPBFT cfg n) = Inr r" "distinct peers"
  shows "votes_ok cfg peers dig evs r \<and> (\<forall>ev\<in>set evs. \<not> is_commit ev)"
  using assms(1)
proof (induction evs arbitrary: r rule: rev_induct)
  case Nil
  then show ?case using votes_new [of cfg peers dig n] by simp
next
  case (snoc ev evs)
  then obtain r0 where "fold_res (pbft_step e cfg keys peers dig) evs (NewPBFT cfg n) = Inr r0" "pbft_step e cfg keys peers dig ev r0 = Inr r"
    by (auto simp: fold_res_append bind_res_eq_Inr)
  with snoc.IH pbft_step_votes [OF _ _ assms(2)] show ?case by auto
qed

text \<open>
  C21. A node's vote to commit is backed: whatever messages come, in any order, a Commit that it sends names itself,
  goes to each other node at most once for a digest, and is for a request that the node holds and whose
  content has this digest, after Prepares for the digest in the names of at least two different nodes.
\<close>

theorem commit_vote_backed:
  assumes "fold_res (pbft_step e cfg keys peers dig) evs (NewPBFT cfg n) = Inr r" "distinct peers"
    and "CommitMsg i d seq node t \<in> set (rp_sent r)"
  shows "node = NodeID cfg \<and> i \<noteq> node \<and> length (commit_votes i d r) = 1
    \<and> (\<exists>q. find_request t d r = Some q \<and> dig q = d) \<and> 2 \<le> card (preparers evs d)"
proof -
  note ok = pbft_run_votes [OF assms(1,2), THEN conjunct1]
  have m: "CommitMsg i d seq node t \<in> set (commit_votes i d r)" using assms(3) by (simp add: commit_votes_def)
  then have pos: "0 < length (commit_votes i d r)" by (rule length_pos_if_in_set)
  have fl: "flag (isCommitBordcast r) d"
  proof (rule ccontr)
    assume "\<not> flag (isCommitBordcast r) d"
    with votes_okD(5) [OF ok, of i d] pos show False by simp
  qed
  with votes_okD(5) [OF ok, of i d] pos have one: "length (commit_votes i d r) = 1" by (simp add: le_Suc_eq)
  have "preparers evs d \<subseteq> (\<lambda>ev. case ev of GotPrepare d s v t \<Rightarrow> v | _ \<Rightarrow> '''') ` set evs" 
  proof
    fix v assume "v \<in> preparers evs d"
    then obtain s t where m: "GotPrepare d s v t \<in> set evs" by (auto simp: preparers_def)
    show "v \<in> (\<lambda>ev. case ev of GotPrepare d s v t \<Rightarrow> v | _ \<Rightarrow> '''') ` set evs" by (rule image_eqI [OF _ m]) simp
  qed
  then have "finite (preparers evs d)" by (rule finite_subset) simp
  then have "length (prePareConfirmCount r d) \<le> card (preparers evs d)"
    using card_mono [OF _ votes_voters [OF ok, of d]] distinct_card [OF votes_okD(3) [OF ok, of d]] by simp
  with votes_okD(4) [OF ok fl] have two: "2 \<le> card (preparers evs d)" by linarith
  from votes_okD(6) [OF ok assms(3)] obtain q where q: "find_request t d r = Some q" "node = NodeID cfg" "i \<noteq> node" by auto
  show ?thesis using q one two votes_okD(2) [OF ok q(1)] by simp
qed

definition votes_config :: ChainConfig where
  "votes_config = default_config\<lparr> ShardID := ''S0'', NodeID := ''N1'' \<rparr>"

definition votes_request :: Request where
  "votes_request = \<lparr> rq_Content = BlockContent block0, rq_ID = 1, rq_Timestamp = 7 \<rparr>"

definition votes_events :: "pbft_event list" where
  "votes_events = [GotPrePrepare votes_request ''d'' 1 ''Block'', GotPrepare ''d'' 1 ''N2'' ''Block'', GotPrepare ''d'' 1 ''N3'' ''Block'']"

lemma votes_run:
  "\<exists>r. fold_res (pbft_step e votes_config keys [''N0'', ''N1''] (\<lambda>_. ''d'')) votes_events (NewPBFT votes_config node0) = Inr r
    \<and> CommitMsg ''N0'' ''d'' 1 ''N1'' ''Block'' \<in> set (rp_sent r)"
  by (simp add: votes_events_def pbft_step_def handlePrePrepare_def handlePrepare_def NewPBFT_def Let_def node0_def block0_def NewBlock_def
      wrong_sequence_def votes_config_def default_config_def votes_request_def DecodeBlock_def IsBlockValid_def store_request_def
      find_request_def setPrePareConfirmMap_def add_voter_def malicious_num_def lock_flag_def broadcast_def emit_pbft_def)

lemma commit_vote_backed_witness:
  "\<exists>r. fold_res (pbft_step undefined votes_config [] [''N0'', ''N1''] (\<lambda>_. ''d'')) votes_events (NewPBFT votes_config node0) = Inr r
    \<and> length (commit_votes ''N0'' ''d'' r) = 1 \<and> 2 \<le> card (preparers votes_events ''d'')"
proof -
  obtain r where "fold_res (pbft_step undefined votes_config [] [''N0'', ''N1''] (\<lambda>_. ''d'')) votes_events (NewPBFT votes_config node0) = Inr r"
    "CommitMsg ''N0'' ''d'' 1 ''N1'' ''Block'' \<in> set (rp_sent r)" using votes_run by blast
  with commit_vote_backed [OF this(1) _ this(2)] show ?thesis by simp
qed

text \<open>
  C22. No node ever commits through the three phases: \<open>handleCommit\<close> unlocks at its end a mutex that it locks only
  when it has a quorum, so the first Commit that a node receives ends its process, whatever went before; a run
  of handlers that does not end so has handled no Commit.
\<close>

theorem pbft_never_commits:
  assumes "fold_res (pbft_step e cfg keys peers dig) evs (NewPBFT cfg n) = Inr r" "distinct peers"
  shows "handleCommit e cfg keys d seq node t r = Inl unlock_panic \<and> (\<forall>ev\<in>set evs. \<not> is_commit ev)"
  using pbft_run_votes [OF assms] votes_okD(1) fresh_commit_fails by blast

lemma pbft_never_commits_witness:
  "\<exists>r. fold_res (pbft_step undefined votes_config [] [''N0'', ''N1''] (\<lambda>_. ''d'')) votes_events (NewPBFT votes_config node0) = Inr r
    \<and> handleCommit undefined votes_config [] ''d'' 1 ''N0'' ''Block'' r = Inl unlock_panic"
proof -
  obtain r where "fold_res (pbft_step undefined votes_config [] [''N0'', ''N1''] (\<lambda>_. ''d'')) votes_events (NewPBFT votes_config node0) = Inr r"
    using votes_run by blast
  with pbft_never_commits [OF this] show ?thesis by simp
qed

end
