(* ===== verification/CatchUp.thy ===== *)
theory CatchUp
  imports ConsensusRun Delivery
begin

text \<open>The two ways to commit agree, a late replica catches up, and the pace of the blocks.\<close>

section \<open>Two ways to commit\<close>

lemma plain_commit_one:
  assumes "\<not> IsSyncProbeTxID (TxId v)"
  shows "pbft_commit_one cfg now v st = commit_one cfg now v st"
  using assms by (simp add: pbft_commit_one_def commit_one_def)

lemma plain_commit_txs:
  assumes "\<And>v. v \<in> set txs \<Longrightarrow> \<not> IsSyncProbeTxID (TxId v)"
  shows "pbft_commit_txs cfg now txs g = commit_txs cfg now txs g"
proof -
  have "fold_res (pbft_commit_one cfg now) txs st = fold_res (commit_one cfg now) txs st" for st
    using assms by (induction txs arbitrary: st) (auto simp: plain_commit_one bind_res_def split: sum.splits)
  then show ?thesis by (simp add: pbft_commit_txs_def commit_txs_def)
qed

lemma plain_settle:
  assumes "\<not> Fail cfg"
  shows "pbft_settle_block e cfg b g p = settle_block e cfg seq b g p"
  using assms by (simp add: pbft_settle_block_def settle_block_def fail_timeout_def Let_def)

lemma plain_sends:
  assumes "\<not> IsMVSSPlus cfg"
  shows "pbft_sends e cfg seq b relaytxs ob tree x = commit_sends e cfg seq b relaytxs ob tree x"
  using assms by (cases x) (simp add: pbft_sends_def commit_sends_def)

lemma plain_leader:
  assumes "\<not> Fail cfg" "\<not> IsMVSSPlus cfg" "\<And>v. v \<in> set (Transactions b) \<Longrightarrow> \<not> IsSyncProbeTxID (TxId v)"
  shows "pbft_commit_leader e cfg seq b ob tree x = commit_leader e cfg seq b ob tree x"
  using assms by (cases x) (simp add: pbft_commit_leader_def commit_leader_def plain_commit_txs plain_settle [of _ _ _ _ _ seq] plain_sends)

lemma payloads_ids:
  assumes "payloads xs = payloads ys"
  shows "TxId ` set xs = TxId ` set ys"
proof -
  have "image_mset fst (payloads zs) = mset (map TxId zs)" for zs by (simp add: payload_def image_mset.compositionality comp_def)
  with assms have "mset (map TxId xs) = mset (map TxId ys)" by metis
  then show ?thesis by (metis set_map set_mset_mset)
qed

text \<open>
  C23. The commit of the three phases and the commit of a single node are one operation where both are defined: for a block
  without probe transactions, outside MVSS+ and the failure experiment, applying a request on which a quorum
  agrees gives the same state, the same messages and the same failures as \<open>commit1\<close>.
\<close>

theorem commit_paths_agree:
  assumes "\<not> Fail cfg" "\<not> IsMVSSPlus cfg" "\<forall>v\<in>set (Transactions b). \<not> IsSyncProbeTxID (TxId v)"
  shows "apply_block e cfg b l = commit1 e cfg b l"
proof -
  have "pbft_commit_leader e cfg seq (CurrentBlock n) ob tree x = commit_leader e cfg seq (CurrentBlock n) ob tree x"
    if "AddBlock (ev_hashes e) cfg b (chain p) = Inr (ob, n)" for p ob n seq tree x
  proof (rule plain_leader [OF assms(1,2)])
    fix v assume "v \<in> set (Transactions (CurrentBlock n))"
    with payloads_ids [OF AddBlock_block(1) [OF that]] have "TxId v \<in> TxId ` set (Transactions b)" by blast
    with assms(3) show "\<not> IsSyncProbeTxID (TxId v)" by auto
  qed
  note same = this
  show ?thesis
  proof (cases "AddBlock (ev_hashes e) cfg b (chain (ld_pbft l))")
    case (Inr y)
    obtain ob n where "y = (ob, n)" by fastforce
    with same [of "ld_pbft l" ob n] Inr show ?thesis by (simp add: apply_block_def commit1_def Let_def)
  qed (simp add: apply_block_def commit1_def)
qed

lemma commit_paths_agree_witness:
  "apply_block env0 leader_config block1 leader0 = commit1 env0 leader_config block1 leader0
    \<and> (\<exists>l'. apply_block env0 leader_config block1 leader0 = Inr l')"
proof -
  have "\<forall>v\<in>set (Transactions block1). \<not> IsSyncProbeTxID (TxId v)"
    by (simp add: block1_def NewBlock_def tx1_parts IsSyncProbeTxID_def)
  from commit_paths_agree [OF leader_config_facts(12,3) this, of env0 leader0] leader_runs show ?thesis by metis
qed

section \<open>A late replica\<close>

lemma find_blocks:
  "fold_res (find_block r) ks bs = Inr bs' \<Longrightarrow> \<exists>cs. bs' = bs @ cs \<and> length cs = length ks"
  by (induction ks arbitrary: bs) (fastforce simp: find_block_def bind_res_eq_Inr split: option.splits)+

text \<open>At a node that does not lead its shard \<open>commit1\<close> is \<open>AddBlock\<close> and the next number.\<close>

lemma commit1_follower:
  assumes "NodeID cfg \<noteq> ''N0''"
  shows "commit1 e cfg b l = bind_res (AddBlock (ev_hashes e) cfg b (chain (ld_pbft l))) (\<lambda>(_, n).
    Inr (l\<lparr> ld_pbft := (ld_pbft l)\<lparr> chain := n \<rparr>, sequenceID := sequenceID l + 1 \<rparr>))"
proof (cases "AddBlock (ev_hashes e) cfg b (chain (ld_pbft l))")
  case (Inr y)
  then show ?thesis using assms by (cases y) (simp add: commit1_def Let_def)
qed (simp add: commit1_def)

text \<open>The blocks added one after the other, and the two ways to do it.\<close>

definition chain_after :: "env \<Rightarrow> ChainConfig \<Rightarrow> Block list \<Rightarrow> Node \<Rightarrow> Node res" where
  "chain_after e cfg = fold_res (\<lambda>b n. bind_res (AddBlock (ev_hashes e) cfg b n) (\<lambda>(_, n'). Inr n'))"

lemma chain_after_Cons:
  "chain_after e cfg (b # bs) n = bind_res (AddBlock (ev_hashes e) cfg b n) (\<lambda>(_, n'). chain_after e cfg bs n')"
  by (cases "AddBlock (ev_hashes e) cfg b n") (auto simp: chain_after_def)

lemma followers_commit:
  assumes "NodeID cfg \<noteq> ''N0''"
  shows "fold_res (commit1 e cfg) bs l = bind_res (chain_after e cfg bs (chain (ld_pbft l))) (\<lambda>n.
    Inr (l\<lparr> ld_pbft := (ld_pbft l)\<lparr> chain := n \<rparr>, sequenceID := sequenceID l + int (length bs) \<rparr>))"
proof (induction bs arbitrary: l)
  case (Cons b bs)
  show ?case
  proof (cases "AddBlock (ev_hashes e) cfg b (chain (ld_pbft l))")
    case (Inr y)
    obtain ob n where "y = (ob, n)" by fastforce
    with Inr have "commit1 e cfg b l = Inr (l\<lparr> ld_pbft := (ld_pbft l)\<lparr> chain := n \<rparr>, sequenceID := sequenceID l + 1 \<rparr>)"
      by (simp add: commit1_follower [OF assms])
    with Inr \<open>y = (ob, n)\<close> show ?thesis by (simp add: Cons.IH chain_after_Cons ac_simps)
  qed (simp add: chain_after_Cons commit1_follower [OF assms])
qed (simp add: chain_after_def)

lemma sent_blocks_chain:
  assumes "k = s + int (length xs)"
  shows "fold_res (add_sent_block e cfg s (xs @ ys)) [k..k + int (length ys) - 1] r
    = bind_res (chain_after e cfg ys (chain (ld_pbft (rp_node r)))) (\<lambda>n.
        Inr (r\<lparr> rp_node := (rp_node r)\<lparr> ld_pbft := (ld_pbft (rp_node r))\<lparr> chain := n \<rparr> \<rparr> \<rparr>))"
  using assms
proof (induction ys arbitrary: xs k r)
  case (Cons y ys)
  have up: "[k..k + int (length (y # ys)) - 1] = k # [k + 1..(k + 1) + int (length ys) - 1]" by (simp add: upto_rec1)
  have at: "slice_at (xs @ y # ys) (k - s) = Inr y" using Cons.prems by (simp add: slice_at_def nth_append)
  have IH: "fold_res (add_sent_block e cfg s (xs @ y # ys)) [k + 1..(k + 1) + int (length ys) - 1] r
    = bind_res (chain_after e cfg ys (chain (ld_pbft (rp_node r)))) (\<lambda>n.
        Inr (r\<lparr> rp_node := (rp_node r)\<lparr> ld_pbft := (ld_pbft (rp_node r))\<lparr> chain := n \<rparr> \<rparr> \<rparr>))" for r
    using Cons.IH [of "k + 1" "xs @ [y]"] Cons.prems by simp
  show ?case
  proof (cases "AddBlock (ev_hashes e) cfg y (chain (ld_pbft (rp_node r)))")
    case (Inr z)
    obtain ob n where "z = (ob, n)" by fastforce
    with Inr have "add_sent_block e cfg s (xs @ y # ys) k r
        = Inr (r\<lparr> rp_node := (rp_node r)\<lparr> ld_pbft := (ld_pbft (rp_node r))\<lparr> chain := n \<rparr> \<rparr> \<rparr>)"
      by (simp add: at add_sent_block_def)
    with Inr \<open>z = (ob, n)\<close> show ?thesis unfolding up fold_res.simps IH chain_after_Cons by (simp add: IH)
  next
    case (Inl x)
    then have "add_sent_block e cfg s (xs @ y # ys) k r = Inl x" by (simp add: at add_sent_block_def)
    with Inl show ?thesis unfolding up fold_res.simps chain_after_Cons by simp
  qed
qed (simp add: chain_after_def)

text \<open>
  C24. A late replica catches up: the leader answers a request for the blocks from \<open>s\<close> to \<open>t\<close> with exactly so many
  blocks, and a replica that waits at \<open>s\<close> and handles the answer ends as if it had committed these blocks one after the
  other, with the next number and its request lock free; a block that does not fit fails it in the same way.
\<close>

theorem late_replica_catches_up:
  assumes "handleRequestBlock s t node m = Inr m'" "s \<le> t + 1"
    and "NodeID cfg \<noteq> ''N0''" "sequenceID (rp_node r) = s" "requestLock r"
  shows "\<exists>bs. rp_sent m' = rp_sent m @ [SendBlocksMsg node s t bs] \<and> int (length bs) = t + 1 - s
    \<and> handleSendBlock e cfg s t bs r
        = bind_res (fold_res (commit1 e cfg) bs (rp_node r)) (\<lambda>l. Inr (r\<lparr> rp_node := l, requestLock := False \<rparr>))"
proof -
  from assms(1) obtain bs where bs: "fold_res (find_block m) [s..t] [] = Inr bs" "m' = emit_pbft [SendBlocksMsg node s t bs] m"
    by (auto simp: handleRequestBlock_def bind_res_eq_Inr)
  from find_blocks [OF bs(1)] assms(2) have len: "int (length bs) = t + 1 - s" by simp
  then have t: "t = s + int (length bs) - 1" by simp
  have "handleSendBlock e cfg s t bs r
    = bind_res (fold_res (commit1 e cfg) bs (rp_node r)) (\<lambda>l. Inr (r\<lparr> rp_node := l, requestLock := False \<rparr>))"
    using sent_blocks_chain [of s s "[]" e cfg bs r] assms(4,5)
    by (cases "chain_after e cfg bs (chain (ld_pbft (rp_node r)))")
      (simp_all add: handleSendBlock_def followers_commit [OF assms(3)] t unlock_flag_def)
  then show ?thesis using len by (auto simp: bs(2) emit_pbft_def)
qed

text \<open>An empty block, generated and added.\<close>

lemma paced_block:
  "\<exists>b n' out m out' m'. GenerateBlock H0 mvss_config (\<lambda>_. 0) 7 1 node0 = Inr (b, n') \<and> AddBlock H0 mvss_config b n' = Inr (out, m)
    \<and> AddBlock H0 mvss_config b node0 = Inr (out', m')"
proof -
  have "MaxBlockSize mvss_config = 500" "Bu_Tong_Bi_Li_2 mvss_config" "\<not> batch_mode mvss_config"
    "\<not> Stop_When_Migrating mvss_config" "\<not> Bu_Tong_Shi_Jian mvss_config" "\<not> Cross_Chain mvss_config"
    "\<not> Fail mvss_config" "\<not> Bu_Tong_Bi_Li mvss_config" "MaxMigSize mvss_config = 300"
    by (simp_all add: mvss_config_def default_config_def batch_mode_def)
  then show ?thesis
    by (simp add: GenerateBlock_def gather_migrations_def node0_def FetchTXmig1s2Pack_def
        fetch_mig2s_def FetchTXmig2s2Pack_def FetchTXanns2Pack_def FetchTXnss2Pack_def take_quota_def
        slice_to_def slice_from_def NewTXmig1Pool_def NewTXmig2Pool_def NewTXannPool_def NewTXnsPool_def
        fetch_block_txs_def FetchTxs2Pack_def with_clock_def NewTxPool_def getUpdatedTreeOfState_def Let_def
        AddBlock_def NewBlock_def H0_def)
qed

lemma late_config_facts: "NodeID mvss_config = ''''" "Block_interval mvss_config = 2" "\<not> Stop_When_Migrating mvss_config"
  by (simp_all add: mvss_config_def default_config_def)

text \<open>A leader's pools after it proposed the block \<open>b\<close>, and a replica that waits for it.\<close>

definition proposed_replica :: "Block \<Rightarrow> Replica" where
  "proposed_replica b = (NewPBFT mvss_config node0)\<lparr>
     messagePool := [''d'' \<mapsto> \<lparr> rq_Content = BlockContent b, rq_ID = 1, rq_Timestamp = 7 \<rparr>], height2Digest := [1 \<mapsto> ''d''] \<rparr>"

definition waiting_replica :: Replica where
  "waiting_replica = (NewPBFT mvss_config node0)\<lparr> requestLock := True \<rparr>"

lemma waiting_facts: "sequenceID (rp_node waiting_replica) = 1" "requestLock waiting_replica" "chain (ld_pbft (rp_node waiting_replica)) = node0"
  by (simp_all add: waiting_replica_def NewPBFT_def Let_def node0_def block0_def NewBlock_def)

lemma late_replica_catches_up_witness:
  "\<exists>b m' bs r'. handleRequestBlock 1 1 ''N1'' (proposed_replica b) = Inr m'
    \<and> rp_sent m' = rp_sent (proposed_replica b) @ [SendBlocksMsg ''N1'' 1 1 bs]
    \<and> handleSendBlock env0 mvss_config 1 1 bs waiting_replica = Inr r' \<and> sequenceID (rp_node r') = 2 \<and> \<not> requestLock r'"
proof -
  obtain b out m where g: "AddBlock H0 mvss_config b node0 = Inr (out, m)" using paced_block by blast
  have req: "handleRequestBlock 1 1 ''N1'' (proposed_replica b) = Inr (emit_pbft [SendBlocksMsg ''N1'' 1 1 [b]] (proposed_replica b))"
    by (simp add: handleRequestBlock_def find_block_def proposed_replica_def DecodeBlock_def)
  have "fold_res (commit1 env0 mvss_config) [b] (rp_node waiting_replica)
      = Inr ((rp_node waiting_replica)\<lparr> ld_pbft := (ld_pbft (rp_node waiting_replica))\<lparr> chain := m \<rparr>, sequenceID := 2 \<rparr>)"
    using g by (simp add: commit1_follower late_config_facts waiting_facts env0_def)
  note run = this
  obtain bs where bs: "[SendBlocksMsg ''N1'' 1 1 [b]] = [SendBlocksMsg ''N1'' 1 1 bs]"
    "handleSendBlock env0 mvss_config 1 1 bs waiting_replica = bind_res (fold_res (commit1 env0 mvss_config) bs (rp_node waiting_replica))
      (\<lambda>l. Inr (waiting_replica\<lparr> rp_node := l, requestLock := False \<rparr>))"
    using late_replica_catches_up [OF req _ _ waiting_facts(1,2), of mvss_config env0] late_config_facts(1)
    by (auto simp: emit_pbft_def)
  from bs(1) have "bs = [b]" by simp
  from bs(2) [unfolded this run] have "handleSendBlock env0 mvss_config 1 1 [b] waiting_replica
      = Inr (waiting_replica\<lparr> rp_node := (rp_node waiting_replica)\<lparr> ld_pbft := (ld_pbft (rp_node waiting_replica))\<lparr> chain := m \<rparr>,
          sequenceID := 2 \<rparr>, requestLock := False \<rparr>)" by simp
  then show ?thesis
    using req by (intro exI [of _ b] exI [of _ "emit_pbft [SendBlocksMsg ''N1'' 1 1 [b]] (proposed_replica b)"] exI [of _ "[b]"] exI conjI)
      (assumption, simp add: emit_pbft_def, assumption, simp_all)
qed

section \<open>The pace\<close>

lemma commit1_sequence: "commit1 e cfg b l = Inr l' \<Longrightarrow> sequenceID l' = sequenceID l + 1"
  by (auto simp: commit1_def Let_def bind_res_eq_Inr)

lemma propose1_sequence: "propose1 e cfg time l = Inr l' \<Longrightarrow> sequenceID l' = sequenceID l + 1"
  by (auto simp: propose1_def Let_def bind_res_eq_Inr dest!: commit1_sequence)

definition paced :: "ChainConfig \<Rightarrow> Replica \<Rightarrow> Replica \<Rightarrow> bool" where
  "paced cfg r0 r \<longleftrightarrow> (let n = sequenceID (rp_node r) - sequenceID (rp_node r0) in 0 \<le> n \<and> round_no r = round_no r0 + n
     \<and> InitTime r = InitTime r0 \<and> n * Block_interval cfg \<le> lastpropose r - lastpropose r0)"

lemma Propose_paced:
  assumes "paced cfg r0 r" "Propose e cfg (time, now, again) r = Inr r'" "now \<le> again"
  shows "paced cfg r0 r'"
proof (cases "propose_due cfg now r")
  case True
  with assms(2) obtain l where l: "propose1 e cfg time (rp_node r) = Inr l"
    and r': "r' = r\<lparr> rp_node := l, round_no := round_no r + 1, lastpropose := again \<rparr>"
    by (auto simp: Propose_def bind_res_eq_Inr)
  have "Block_interval cfg \<le> now - lastpropose r" using True by (simp add: propose_due_def)
  with assms(1,3) show ?thesis by (simp add: paced_def Let_def r' propose1_sequence [OF l] algebra_simps)
qed (use assms in \<open>simp add: Propose_def\<close>)

text \<open>
  C25. The blocks keep their distance: from the client's start signal on, a leader's loop that commits \<open>n\<close> blocks has taken at
  least \<open>n\<close> block intervals, whenever it looked at the clock, and counts \<open>n\<close> rounds. The start time that it keeps is
  not in the future, and the test of the rounds against it never delays a block: the interval since the last one implies it.
\<close>

theorem blocks_paced:
  assumes "fold_res (Propose e cfg) ticks (handleLLT inittime now0 again0 r) = Inr r'"
    and "\<forall>(time, now, again)\<in>set ticks. now \<le> again" "now0 \<le> again0" "0 \<le> Block_interval cfg"
  shows "\<exists>n. sequenceID (rp_node r') = sequenceID (rp_node r) + int n \<and> int n * Block_interval cfg \<le> lastpropose r' - again0
    \<and> round_no r' = int n + 1 \<and> InitTime r' = min inittime now0
    \<and> (\<forall>now. Block_interval cfg \<le> now - lastpropose r' \<longrightarrow> (round_no r' - 1) * Block_interval cfg \<le> now - InitTime r')"
proof -
  let ?r0 = "handleLLT inittime now0 again0 r"
  have "paced cfg ?r0 r'"
  proof (rule fold_res_inv [OF assms(1)])
    show "paced cfg ?r0 ?r0" by (simp add: paced_def)
    show "paced cfg ?r0 s'" if "x \<in> set ticks" "paced cfg ?r0 s" "Propose e cfg x s = Inr s'" for x s s'
    proof -
      obtain time now again where x: "x = (time, now, again)" by (cases x)
      with assms(2) that(1) have "now \<le> again" by blast
      with Propose_paced [OF that(2) that(3) [unfolded x]] show ?thesis by blast
    qed
  qed
  moreover have "rp_node ?r0 = rp_node r" "round_no ?r0 = 1" "InitTime ?r0 = min inittime now0" "lastpropose ?r0 = again0"
    by (simp_all add: handleLLT_def min_def)
  ultimately have p: "0 \<le> sequenceID (rp_node r') - sequenceID (rp_node r)" "round_no r' = 1 + (sequenceID (rp_node r') - sequenceID (rp_node r))"
    "InitTime r' = min inittime now0"
    "(sequenceID (rp_node r') - sequenceID (rp_node r)) * Block_interval cfg \<le> lastpropose r' - again0"
    unfolding paced_def Let_def by simp_all
  from zero_le_imp_eq_int [OF p(1)] obtain n where n: "sequenceID (rp_node r') - sequenceID (rp_node r) = int n" by blast
  have q: "round_no r' = int n + 1" "int n * Block_interval cfg \<le> lastpropose r' - again0" using p(2,4) unfolding n by simp_all
  have "(round_no r' - 1) * Block_interval cfg \<le> now - InitTime r'" if "Block_interval cfg \<le> now - lastpropose r'" for now
  proof -
    have "min inittime now0 \<le> again0" using assms(3) by simp
    with that q assms(4) show ?thesis unfolding p(3) q(1) by simp
  qed
  with q n p(3) show ?thesis by (intro exI [of _ n] conjI allI impI) simp_all
qed

definition paced_replica :: Replica where
  "paced_replica = waiting_replica\<lparr> bootstrapSeqID := 0 \<rparr>"

lemma paced_runs:
  "\<exists>r'. fold_res (Propose (env0\<lparr> ev_clock := \<lambda>_. 0 \<rparr>) mvss_config) [(7, 6, 6), (7, 7, 8)] (handleLLT 9 5 5 paced_replica) = Inr r'
    \<and> lastpropose r' = 8"
proof -
  let ?r = "handleLLT 9 5 5 paced_replica" and ?e = "env0\<lparr> ev_clock := \<lambda>_. 0 \<rparr>"
  obtain b n' out m where g: "GenerateBlock H0 mvss_config (\<lambda>_. 0) 7 1 node0 = Inr (b, n')" "AddBlock H0 mvss_config b n' = Inr (out, m)"
    using paced_block by blast
  have r: "sequenceID (rp_node ?r) = 1" "chain (ld_pbft (rp_node ?r)) = node0" "round_no ?r = 1" "InitTime ?r = 5" "lastpropose ?r = 5"
    "bootstrapSeqID ?r = 0" using waiting_facts by (simp_all add: handleLLT_def Let_def paced_replica_def)
  have "\<exists>l. propose1 ?e mvss_config 7 (rp_node ?r) = Inr l"
    using g r by (simp add: propose1_def commit1_follower late_config_facts env0_def)
  then obtain l where l: "propose1 ?e mvss_config 7 (rp_node ?r) = Inr l" by blast
  have "Propose ?e mvss_config (7, 6, 6) ?r = Inr ?r" using r by (simp add: Propose_def propose_due_def late_config_facts)
  moreover have "Propose ?e mvss_config (7, 7, 8) ?r = Inr (?r\<lparr> rp_node := l, round_no := 2, lastpropose := 8 \<rparr>)"
    using r l by (simp add: Propose_def propose_due_def late_config_facts)
  ultimately show ?thesis by simp
qed

lemma blocks_paced_witness:
  "\<exists>r' n. fold_res (Propose (env0\<lparr> ev_clock := \<lambda>_. 0 \<rparr>) mvss_config) [(7, 6, 6), (7, 7, 8)] (handleLLT 9 5 5 paced_replica) = Inr r'
    \<and> sequenceID (rp_node r') = 1 + int n \<and> int n * 2 \<le> 3 \<and> InitTime r' = 5"
proof -
  obtain r' where r: "fold_res (Propose (env0\<lparr> ev_clock := \<lambda>_. 0 \<rparr>) mvss_config) [(7, 6, 6), (7, 7, 8)] (handleLLT 9 5 5 paced_replica) = Inr r'"
    "lastpropose r' = 8" using paced_runs by blast
  have "sequenceID (rp_node paced_replica) = 1" using waiting_facts by (simp add: paced_replica_def)
  with blocks_paced [OF r(1)] r show ?thesis by (auto simp: late_config_facts)
qed

end
