(* ===== verification/Spec2Isabelle.thy ===== *)
theory Spec2Isabelle
  imports TrieStore Framing Delivery Placement EpochRun SyncProbe ClientRun CatchUp
begin

text \<open>
  A verification library for MVSS_plus, a sharded block chain emulator in Go whose subject is the
  migration of accounts between shards and MVSS, the synchronisation of multi-version state that
  keeps a migrating account usable.

  \<^bold>\<open>The program.\<close> Accounts belong to shards. A shard's leader packs transactions from its pool into a
  block (\<open>chain.GenerateBlock\<close>), the replicas agree on it (\<open>pbft\<close>), and each applies it
  (\<open>chain.AddBlock\<close>). An account migrates in four steps, each with a transaction of its own that a pool
  holds until a block carries it: TXmig1 marks it on the source, TXmig2 brings it to the target,
  TXann announces it to all, TXns settles the change of balance since. Under MVSS a fifth step, Stage 3,
  runs when new transactions interleave with old ones in the order of the clients: the source pauses
  the later old ones, sends the account's state (TXsync) or the difference (TXsyncDelta), the target
  applies it, executes the new transactions and returns an acknowledgement, and the source resumes.

  \<^bold>\<open>Theories.\<close>
  \<^item> \<open>Prelude\<close>: results that may be errors or panics (\<open>res\<close>), slices, decimal and hexadecimal texts, the
    loop \<open>fold_res\<close>, the collection \<open>frame_simps\<close>.
  \<^item> \<open>Nibbles\<close>, \<open>PatriciaTrie\<close>, \<open>TriePut\<close>, \<open>TrieDelete\<close>, \<open>TrieStore\<close>: the package \<open>trie\<close>. Nodes are a
    datatype with the three node kinds as constructors, \<open>Index\<close> and \<open>Branches\<close> as in the code. The lemmas
    give the invariant \<open>trie_ok\<close>, a look-up abstraction and, in \<open>TrieStore\<close>, the locale \<open>keyed_store\<close>,
    interpreted on the trie, by which \<open>Put\<close>, \<open>Get\<close> and \<open>Delete\<close> refine a map.
  \<^item> \<open>Params\<close>: \<open>params/config.go\<close> and \<open>migration_strategy.go\<close>, the configuration as a record, the
    strategies and the predicates on them.
  \<^item> \<open>Accounts\<close>: \<open>account/account_state.go\<close> and \<open>utils/utils.go\<close>, account states, the global account
    sets, the map of addresses to shards.
  \<^item> \<open>MigCtx\<close>, \<open>Interleave\<close>: \<open>account/mvss_ctx.go\<close>, the migration context, its state machine (an instance of
    \<open>linorder\<close>), the detection of interleavings and the gates of the two shards; the locale \<open>take_once\<close> for
    the caches that give a value once.
  \<^item> \<open>CoreTypes\<close>, \<open>MigPools\<close>, \<open>TxPool\<close>, \<open>Packing\<close>: the package \<open>core\<close>, its messages, hashes and tags, the four
    FIFO pools (locale \<open>fifo_pool\<close>, interpreted on each), the transaction pool with \<open>FetchTxs2Pack\<close> and
    \<open>LockTX\<close>; what packing keeps, loses and locks.
  \<^item> \<open>Chain\<close>, \<open>Execution\<close>, \<open>Ledger\<close>, \<open>ChainWrites\<close>: \<open>chain/blockchain.go\<close>, the execution of blocks
    (\<open>getUpdatedTreeOfState\<close>), their generation and acceptance, the direct writes of Stage 3, the genesis
    state; that replicas accept what the leader generates, that value is conserved, nonces counted.
  \<^item> \<open>MvssState\<close>, \<open>MvssDelta\<close>, \<open>MvssSync\<close>: \<open>pbft/mvss_sync.go\<close> and \<open>pbft/mvss_delta.go\<close>, the handlers of Stage 3 on
    one state \<open>Pbft\<close>; \<open>Stage3\<close>, \<open>StageFlow\<close>, \<open>Redirect\<close>, \<open>DeltaGaps\<close>: what they achieve, from the source's state to
    the target's, when messages leave, that promoted and redirected transactions pass the checks, and
    where the protocol loses or repeats a change. \<open>Redirect\<close> also holds \<open>handleMig2\<close> of \<open>pbft/pbft.go\<close>.
  \<^item> \<open>Framing\<close>: \<open>pbft/cmd.go\<close>, \<open>pbft/tcp.go\<close> and \<open>utils.TcpDial\<close>, messages as bytes on a connection; that
    what is sent arrives at its handler.
  \<^item> \<open>Ingress\<close>, \<open>Intake\<close>, \<open>Relays\<close>: \<open>pbft/hanleTxFromClient.go\<close> and the relays of \<open>pbft/pbft.go\<close>, the ways of a
    transaction into a node and to the next; that none is lost and which are refused.
  \<^item> \<open>Announce\<close>, \<open>Settlement\<close>: \<open>pbft/handleanns.go\<close>, the new map of accounts, the migration requests and the
    announcements of \<open>pbft/pbft.go\<close>; that the transactions of an account that leaves go with it and its
    balance is carried over.
  \<^item> \<open>Commit\<close>, \<open>Delivery\<close>: \<open>pbft/pbftsingle.go\<close>, the committed block at the leader, which runs all of these in
    order; what becomes of its transactions and that transfers between shards conserve money.
  \<^item> \<open>Graphs\<close>, \<open>Clpa\<close>, \<open>ClpaRun\<close>, \<open>Partition\<close>: \<open>algorithm/graph.go\<close>, \<open>tx2graph.go\<close> and \<open>partition_CLPA.go\<close>, the graph of
    the transactions and the constrained label propagation with the client's use of it; that its
    incremental counts are right, which maps it makes and when it is stuck.
  \<^item> \<open>Balance\<close>, \<open>BalanceRun\<close>, \<open>Placement\<close>: \<open>partition_LBF.go\<close>, \<open>partition_METIS.go\<close>, \<open>algorithm.go\<close> and \<open>allocation.go\<close>,
    the other partition algorithms and the client's use of them; the loads that LBF gives, the input of
    METIS, the maps of PageRank.
  \<^item> \<open>Epoch\<close>, \<open>EpochRun\<close>: \<open>pbft/PBFTforMigrate.go\<close> and the branches of \<open>commit1\<close> for it, the change of epoch in the
    stop mode; that it completes, what leaves, and that what arrives is stored where it is not read.
  \<^item> \<open>Consensus\<close>, \<open>ConsensusRun\<close>, \<open>CatchUp\<close>: the three phases of PBFT in \<open>pbft/pbft.go\<close> on a record \<open>Replica\<close>, the
    votes, the block that a quorum commits, the blocks for a late replica and the loop \<open>Propose\<close>; that votes
    are backed, that no node survives its first Commit, that the two ways to commit agree, that a late
    replica catches up and the pace of the blocks.
  \<^item> \<open>SyncProbe\<close>: \<open>pbft/sync_probe.go\<close>, the client's probes of Stage 3.
  \<^item> \<open>DataSets\<close>, \<open>DataSetRead\<close>, \<open>Client\<close>, \<open>Inject\<close>, \<open>ClientRun\<close>: \<open>pbft/client.go\<close>, the client: the data sets and the
    first map, the injection (a loop that may not end, \<open>partial_function (option)\<close>), its handlers as steps
    on a record \<open>Client\<close>; that all transactions reach the right shards, when it stops and when it migrates.

  \<^bold>\<open>Conventions.\<close> Each operation is a function that returns the new state; an error or a panic is an
  \<open>Inl\<close>. Go's \<open>uint64\<close> is \<open>64 word\<close>, with its wrap-around; \<open>int\<close> and \<open>int64\<close> counters, times and ids are
  integers, as they stay far from their limits; \<open>big.Int\<close> is \<open>int\<close>. A write through a pointer into a global
  map is a write to the map. A goroutine runs where it is started. All handlers hold a lock for their whole run, so they are single steps.

  \<^bold>\<open>Parameters.\<close> Code outside the repository is an argument: SHA-256 (\<open>sha\<close>), the root of the
  go-ethereum trie and the hashes of headers and lists (\<open>hashes\<close>), the clock (a function of the loop's
  iteration, or the time of a call), the order in which Go ranges over a map (\<open>rng\<close>, \<open>keys\<close>), the
  rounding of a \<open>float64\<close> operation (\<open>rnd\<close>, on rationals with the infinities and NaN), random numbers
  (\<open>intn\<close>) and the METIS program. What a theorem
  needs of them, such as no collision of two given texts, is a hypothesis of it. The recursions are
  structural or carry a measure, so no fuel is needed. The partition algorithms have bounds: counts of
  edges are Go's \<open>int\<close>, for which at most 0x7fffffff transactions keep the sentinel \<open>0x7fffffff\<close> of the
  minimum above every count, and sums of degrees below \<open>2 ^ 53\<close> are exact as \<open>float64\<close>.

  \<^bold>\<open>Not modelled.\<close> Handlers of PBFT that overlap in time (each is a step), the choice of nodes by VRF, persistence, sockets, logs, statistics and encodings (\<open>gob\<close>, \<open>json\<close>), which are taken to read back what
  was written.
\<close>

end
